(* ===== verification/Js_Prelude.thy ===== *)
theory Js_Prelude
  imports Complex_Main "HOL-Library.AList" "HOL-Library.List_Lexorder" "HOL-Library.Multiset"
    "HOL-Library.Product_Lexorder"
begin

section \<open>The TypeScript values the console computes with\<close>

text \<open>
  The web console (src/web/src) is TypeScript. This theory holds what its modules use of
  the language and of the standard library, and the lemmas the component theories share.

  \<^item> Numbers. A JS number is \<open>Fin r\<close>, an infinity or \<open>NaN\<close>. Comparison, arithmetic
    and \<open>Math.*\<close> follow ECMA-262, NaN and infinities included: every comparison with
    NaN is false, \<open>Math.max\<close> and \<open>Math.min\<close> propagate it. A finite number is an exact
    rational: the rounding of IEEE doubles is left to \<open>Js_Double\<close>, for the one place that
    needs it, and the sign of zero is not modelled.
  \<^item> Strings. A JS string is the list of its UTF-16 code units, the unit that \<open>length\<close>,
    \<open>indexOf\<close>, \<open>slice\<close> and \<open><\<close> count.
  \<^item> Dates. A \<open>Date\<close> is its time value in milliseconds, NaN for an Invalid Date.
  \<^item> Map and Set keep insertion order, so a Map is an association list with
    \<open>AList.update\<close> for \<open>set\<close> and \<open>AList.delete\<close> for \<open>delete\<close>, and a Set is a list of
    distinct elements.
  \<^item> \<open>Array.prototype.sort\<close> is a stable sort by the sign of the comparator's result.
  \<^item> JSON of unknown shape is the datatype \<open>jsval\<close>.
\<close>

named_theorems js_num \<open>evaluation of JS number operations\<close>
named_theorems js_text \<open>facts on JS strings\<close>
named_theorems js_coll \<open>facts on Map, Set and sort\<close>

subsection \<open>Numbers\<close>

datatype jsnum = Fin rat | PInf | NInf | NaN

instantiation jsnum :: "{ord, plus, minus, uminus, times, inverse}"
begin

fun less_eq_jsnum :: "jsnum \<Rightarrow> jsnum \<Rightarrow> bool" where
  "Fin a \<le> Fin b \<longleftrightarrow> a \<le> b"
| "NaN \<le> y \<longleftrightarrow> False"
| "x \<le> NaN \<longleftrightarrow> False"
| "NInf \<le> y \<longleftrightarrow> True"
| "x \<le> PInf \<longleftrightarrow> True"
| "PInf \<le> y \<longleftrightarrow> False"
| "x \<le> NInf \<longleftrightarrow> False"

fun less_jsnum :: "jsnum \<Rightarrow> jsnum \<Rightarrow> bool" where
  "Fin a < Fin b \<longleftrightarrow> a < b"
| "NaN < y \<longleftrightarrow> False"
| "x < NaN \<longleftrightarrow> False"
| "NInf < y \<longleftrightarrow> y \<noteq> NInf"
| "x < PInf \<longleftrightarrow> x \<noteq> PInf"
| "PInf < y \<longleftrightarrow> False"
| "x < NInf \<longleftrightarrow> False"

fun uminus_jsnum :: "jsnum \<Rightarrow> jsnum" where
  "- Fin a = Fin (- a)"
| "- PInf = NInf"
| "- NInf = PInf"
| "- NaN = NaN"

fun plus_jsnum :: "jsnum \<Rightarrow> jsnum \<Rightarrow> jsnum" where
  "Fin a + Fin b = Fin (a + b)"
| "NaN + y = NaN"
| "x + NaN = NaN"
| "PInf + NInf = NaN"
| "NInf + PInf = NaN"
| "PInf + y = PInf"
| "NInf + y = NInf"
| "x + PInf = PInf"
| "x + NInf = NInf"

definition minus_jsnum :: "jsnum \<Rightarrow> jsnum \<Rightarrow> jsnum" where
  "x - y = x + - (y :: jsnum)"

definition sgn_inf :: "rat \<Rightarrow> jsnum" where
  "sgn_inf s = (if s > 0 then PInf else if s < 0 then NInf else NaN)"

fun times_jsnum :: "jsnum \<Rightarrow> jsnum \<Rightarrow> jsnum" where
  "Fin a * Fin b = Fin (a * b)"
| "NaN * y = NaN"
| "x * NaN = NaN"
| "PInf * Fin b = sgn_inf b"
| "NInf * Fin b = sgn_inf (- b)"
| "Fin a * PInf = sgn_inf a"
| "Fin a * NInf = sgn_inf (- a)"
| "PInf * PInf = PInf"
| "PInf * NInf = NInf"
| "NInf * PInf = NInf"
| "NInf * NInf = PInf"

fun divide_jsnum :: "jsnum \<Rightarrow> jsnum \<Rightarrow> jsnum" where
  "divide (Fin a) (Fin b) = (if b = 0 then sgn_inf a else Fin (a / b))"
| "divide NaN y = NaN"
| "divide x NaN = NaN"
| "divide (Fin a) y = Fin 0"
| "divide PInf (Fin b) = (if b < 0 then NInf else PInf)"
| "divide NInf (Fin b) = (if b < 0 then PInf else NInf)"
| "divide x y = NaN"

definition inverse_jsnum :: "jsnum \<Rightarrow> jsnum" where
  "inverse x = divide (Fin 1) (x :: jsnum)"

instance ..

end

text \<open>\<open>===\<close> on numbers: equality, but for NaN.\<close>

definition jeq :: "jsnum \<Rightarrow> jsnum \<Rightarrow> bool" where
  "jeq x y \<longleftrightarrow> x = y \<and> x \<noteq> NaN"

fun is_finite :: "jsnum \<Rightarrow> bool" where
  "is_finite (Fin r) = True"
| "is_finite x = False"

definition is_nan :: "jsnum \<Rightarrow> bool" where
  "is_nan x \<longleftrightarrow> x = NaN"

fun jfloor :: "jsnum \<Rightarrow> jsnum" where
  "jfloor (Fin r) = Fin (of_int \<lfloor>r\<rfloor>)"
| "jfloor x = x"

fun jceil :: "jsnum \<Rightarrow> jsnum" where
  "jceil (Fin r) = Fin (of_int \<lceil>r\<rceil>)"
| "jceil x = x"

text \<open>\<open>Math.round\<close> rounds halves up.\<close>

fun jround :: "jsnum \<Rightarrow> jsnum" where
  "jround (Fin r) = Fin (of_int \<lfloor>r + 1 / 2\<rfloor>)"
| "jround x = x"

fun jabs :: "jsnum \<Rightarrow> jsnum" where
  "jabs (Fin r) = Fin \<bar>r\<bar>"
| "jabs NaN = NaN"
| "jabs x = PInf"

definition jmax :: "jsnum \<Rightarrow> jsnum \<Rightarrow> jsnum" where
  "jmax x y = (if x = NaN \<or> y = NaN then NaN else if x \<le> y then y else x)"

definition jmin :: "jsnum \<Rightarrow> jsnum \<Rightarrow> jsnum" where
  "jmin x y = (if x = NaN \<or> y = NaN then NaN else if x \<le> y then x else y)"

text \<open>\<open>Math.max(...xs)\<close> and \<open>Math.min(...xs)\<close>: the empty call answers an infinity.\<close>

definition jmax_list :: "jsnum list \<Rightarrow> jsnum" where
  "jmax_list xs = foldl jmax NInf xs"

definition jmin_list :: "jsnum list \<Rightarrow> jsnum" where
  "jmin_list xs = foldl jmin PInf xs"

abbreviation jint :: "int \<Rightarrow> jsnum" where
  "jint n \<equiv> Fin (of_int n)"

abbreviation jnat :: "nat \<Rightarrow> jsnum" where
  "jnat n \<equiv> Fin (of_nat n)"

text \<open>The index an integer argument of \<open>slice\<close> or of an array read stands for.\<close>

fun to_nat :: "jsnum \<Rightarrow> nat" where
  "to_nat (Fin r) = nat \<lfloor>r\<rfloor>"
| "to_nat x = 0"

declare to_nat.simps(1) [simp del]

text \<open>The rational behind a finite number.\<close>

fun fin_val :: "jsnum \<Rightarrow> rat" where
  "fin_val (Fin r) = r"
| "fin_val x = 0"

lemma to_nat_jnat [simp]: "to_nat (jnat n) = n"
  by (simp add: to_nat.simps(1))

text \<open>\<open>xs[i]\<close>: \<open>None\<close> is \<open>undefined\<close>.\<close>

fun array_at :: "'a list \<Rightarrow> jsnum \<Rightarrow> 'a option" where
  "array_at xs (Fin r) = (if r = of_int \<lfloor>r\<rfloor> \<and> 0 \<le> r \<and> nat \<lfloor>r\<rfloor> < length xs then Some (xs ! nat \<lfloor>r\<rfloor>) else None)"
| "array_at xs i = None"

lemma array_at_jnat: "n < length xs \<Longrightarrow> array_at xs (jnat n) = Some (xs ! n)"
  by simp

text \<open>The remainder \<open>x % y\<close>, with the sign of \<open>x\<close>.\<close>

fun jmod :: "jsnum \<Rightarrow> jsnum \<Rightarrow> jsnum" where
  "jmod (Fin a) (Fin b) =
     (if b = 0 then NaN else Fin (a - b * of_int (if a / b < 0 then \<lceil>a / b\<rceil> else \<lfloor>a / b\<rfloor>)))"
| "jmod (Fin a) NaN = NaN"
| "jmod (Fin a) y = Fin a"
| "jmod x y = NaN"

lemma jmod_jnat: "0 < b \<Longrightarrow> jmod (jnat a) (jnat b) = jnat (a mod b)"
proof -
  assume b: "0 < b"
  have q: "\<lfloor>(of_nat a :: rat) / of_nat b\<rfloor> = int (a div b)" by (simp add: floor_divide_of_nat_eq)
  have "(of_nat a :: rat) - of_nat b * of_nat (a div b) = of_nat (a mod b)"
    by (metis add_diff_cancel_left' mult.commute of_nat_add of_nat_mult div_mult_mod_eq)
  moreover have "\<not> (of_nat a :: rat) / of_nat b < 0" by (simp add: not_less)
  ultimately show ?thesis using b q by simp
qed

lemma less_eq_jsnum_NaN [simp]: "\<not> x \<le> NaN" "\<not> NaN \<le> (x :: jsnum)"
  by (cases x; simp)+

lemma less_jsnum_NaN [simp]: "\<not> x < NaN" "\<not> NaN < (x :: jsnum)"
  by (cases x; simp)+

lemma jle_refl: "x \<noteq> NaN \<Longrightarrow> x \<le> (x :: jsnum)"
  by (cases x) simp_all

lemma jle_trans: "x \<le> y \<Longrightarrow> y \<le> z \<Longrightarrow> x \<le> (z :: jsnum)"
  by (cases x; cases y; cases z) auto

lemma jle_total: "x \<noteq> NaN \<Longrightarrow> y \<noteq> NaN \<Longrightarrow> x \<le> y \<or> y \<le> (x :: jsnum)"
  by (cases x; cases y) auto

lemma jle_antisym: "x \<le> y \<Longrightarrow> y \<le> x \<Longrightarrow> x = (y :: jsnum)"
  by (cases x; cases y) auto

lemma jless_iff: "x < y \<longleftrightarrow> x \<le> y \<and> \<not> y \<le> (x :: jsnum)"
  by (cases x; cases y) auto

lemma jless_not_le: "x \<noteq> NaN \<Longrightarrow> y \<noteq> NaN \<Longrightarrow> \<not> x < y \<longleftrightarrow> y \<le> (x :: jsnum)"
  by (cases x; cases y) auto

lemma jless_trans: "x < y \<Longrightarrow> y < z \<Longrightarrow> x < (z :: jsnum)"
  by (cases x; cases y; cases z) auto

lemma jless_linear: "x \<noteq> NaN \<Longrightarrow> y \<noteq> NaN \<Longrightarrow> x < y \<or> x = y \<or> y < (x :: jsnum)"
  by (cases x; cases y) auto

lemma jless_asym: "x < y \<Longrightarrow> \<not> y < (x :: jsnum)"
  by (cases x; cases y) auto

lemma jless_irrefl [simp]: "\<not> x < (x :: jsnum)"
  by (cases x) simp_all

lemma jlex_not_less:
  "a \<noteq> NaN \<Longrightarrow> b \<noteq> NaN \<Longrightarrow> c \<noteq> NaN \<Longrightarrow> d \<noteq> NaN \<Longrightarrow>
   \<not> (a < b \<or> a = b \<and> c < d) \<longleftrightarrow> b < a \<or> a = b \<and> d \<le> (c :: jsnum)"
proof (cases "a = b")
  case True
  assume "c \<noteq> NaN" "d \<noteq> NaN"
  with True show ?thesis by (simp add: jless_not_le)
next
  case False
  assume "a \<noteq> NaN" "b \<noteq> NaN"
  with False have "a < b \<or> b < a" using jless_linear by blast
  with False jless_asym [of a b] show ?thesis by auto
qed

lemma jle_not_NaN: "x \<le> y \<Longrightarrow> x \<noteq> NaN \<and> (y :: jsnum) \<noteq> NaN"
  by auto

lemma is_finite_iff: "is_finite x \<longleftrightarrow> (\<exists>r. x = Fin r)"
  by (cases x) simp_all

lemma is_finiteE: assumes "is_finite x" obtains r where "x = Fin r"
  using assms by (cases x) simp_all

lemma jmax_Fin [simp, js_num]: "jmax (Fin a) (Fin b) = Fin (max a b)"
  by (simp add: jmax_def max_def)

lemma jmin_Fin [simp, js_num]: "jmin (Fin a) (Fin b) = Fin (min a b)"
  by (simp add: jmin_def min_def)

lemma minus_Fin [simp, js_num]: "Fin a - Fin b = Fin (a - b)"
  by (simp add: minus_jsnum_def)

lemma jeq_Fin [simp, js_num]: "jeq (Fin a) (Fin b) \<longleftrightarrow> a = b"
  by (simp add: jeq_def)

lemma is_nan_simps [simp, js_num]: "\<not> is_nan (Fin a)" "is_nan NaN" "\<not> is_nan PInf" "\<not> is_nan NInf"
  by (simp_all add: is_nan_def)

lemma jmax_ge: "x \<noteq> NaN \<Longrightarrow> y \<noteq> NaN \<Longrightarrow> x \<le> jmax x y \<and> y \<le> jmax x y"
  by (cases x; cases y) (auto simp: jmax_def)

lemma jmax_not_NaN [simp]: "x \<noteq> NaN \<Longrightarrow> y \<noteq> NaN \<Longrightarrow> jmax x y \<noteq> NaN"
  by (simp add: jmax_def)

lemma jmin_not_NaN [simp]: "x \<noteq> NaN \<Longrightarrow> y \<noteq> NaN \<Longrightarrow> jmin x y \<noteq> NaN"
  by (simp add: jmin_def)

text \<open>The list forms on finite arguments are HOL's \<open>Max\<close> and \<open>Min\<close>.\<close>

lemma foldl_jmax_Fin: "foldl jmax (Fin a) (map Fin xs) = Fin (foldl max a xs)"
  by (induction xs arbitrary: a) simp_all

lemma foldl_jmin_Fin: "foldl jmin (Fin a) (map Fin xs) = Fin (foldl min a xs)"
  by (induction xs arbitrary: a) simp_all

lemma foldl_max_Max: "foldl max a xs = Max (insert (a :: 'a :: linorder) (set xs))"
proof (induction xs arbitrary: a)
  case (Cons x xs)
  then show ?case by (cases "xs = []") (simp_all add: ac_simps)
qed simp

lemma foldl_min_Min: "foldl min a xs = Min (insert (a :: 'a :: linorder) (set xs))"
proof (induction xs arbitrary: a)
  case (Cons x xs)
  then show ?case by (cases "xs = []") (simp_all add: ac_simps)
qed simp

lemma jmax_list_Fin: "xs \<noteq> [] \<Longrightarrow> jmax_list (map Fin xs) = Fin (Max (set xs))"
  by (cases xs) (simp_all add: jmax_list_def jmax_def foldl_jmax_Fin foldl_max_Max)

lemma jmin_list_Fin: "xs \<noteq> [] \<Longrightarrow> jmin_list (map Fin xs) = Fin (Min (set xs))"
  by (cases xs) (simp_all add: jmin_list_def jmin_def foldl_jmin_Fin foldl_min_Min)

subsection \<open>Dates\<close>

type_synonym date = jsnum

definition MAX_TIME :: rat where
  "MAX_TIME = 8640000000000000"

text \<open>\<open>new Date(ms)\<close>: TimeClip of ECMA-262, which truncates towards zero.\<close>

fun new_date :: "jsnum \<Rightarrow> date" where
  "new_date (Fin r) = (if \<bar>r\<bar> \<le> MAX_TIME then jint (if r < 0 then \<lceil>r\<rceil> else \<lfloor>r\<rfloor>) else NaN)"
| "new_date x = NaN"

definition valid_date :: "date \<Rightarrow> bool" where
  "valid_date d \<longleftrightarrow> (\<exists>n. d = jint n \<and> \<bar>of_int n\<bar> \<le> MAX_TIME)"

lemma valid_date_finite: "valid_date d \<Longrightarrow> is_finite d"
  by (auto simp: valid_date_def)

lemma new_date_jint: "\<bar>of_int n\<bar> \<le> MAX_TIME \<Longrightarrow> new_date (jint n) = jint n"
  by simp

subsection \<open>Strings\<close>

type_synonym jchar = nat
type_synonym jstring = "jchar list"

text \<open>An ASCII literal of the source, as code units.\<close>

definition js :: "string \<Rightarrow> jstring" where
  "js s = map of_char s"

lemma js_Nil [simp]: "js [] = []"
  by (simp add: js_def)

lemma js_Cons [simp]: "js (c # s) = of_char c # js s"
  by (simp add: js_def)

lemma length_js [simp]: "length (js s) = length s"
  by (simp add: js_def)

definition starts_with :: "'a list \<Rightarrow> 'a list \<Rightarrow> bool" where
  "starts_with s p \<longleftrightarrow> take (length p) s = p"

definition ends_with :: "'a list \<Rightarrow> 'a list \<Rightarrow> bool" where
  "ends_with s p \<longleftrightarrow> length p \<le> length s \<and> drop (length s - length p) s = p"

text \<open>\<open>indexOf\<close> and \<open>lastIndexOf\<close>: \<open>None\<close> is the source's \<open>-1\<close>.\<close>

fun index_of :: "'a list \<Rightarrow> 'a list \<Rightarrow> nat option" where
  "index_of [] p = (if p = [] then Some 0 else None)"
| "index_of (c # s) p = (if starts_with (c # s) p then Some 0 else map_option Suc (index_of s p))"

fun last_index_of :: "'a list \<Rightarrow> 'a list \<Rightarrow> nat option" where
  "last_index_of [] p = (if p = [] then Some 0 else None)"
| "last_index_of (c # s) p =
     (case last_index_of s p of
        Some i \<Rightarrow> Some (Suc i)
      | None \<Rightarrow> if starts_with (c # s) p then Some 0 else None)"

text \<open>\<open>split\<close> on a one-character separator.\<close>

fun split_on :: "'a \<Rightarrow> 'a list \<Rightarrow> 'a list list" where
  "split_on c [] = [[]]"
| "split_on c (x # xs) =
     (if x = c then [] # split_on c xs
      else (case split_on c xs of [] \<Rightarrow> [[x]] | w # ws \<Rightarrow> (x # w) # ws))"

fun join :: "'a list \<Rightarrow> 'a list list \<Rightarrow> 'a list" where
  "join sep [] = []"
| "join sep [x] = x"
| "join sep (x # y # xs) = x @ sep @ join sep (y # xs)"

text \<open>The white space and line terminators that \<open>trim\<close> and \<open>\s\<close> know.\<close>

definition is_space :: "jchar \<Rightarrow> bool" where
  "is_space c \<longleftrightarrow> c \<in> {9, 10, 11, 12, 13, 32, 160, 5760, 8232, 8233, 8239, 8287, 12288, 65279}
     \<or> (8192 \<le> c \<and> c \<le> 8202)"

definition trim :: "jstring \<Rightarrow> jstring" where
  "trim s = rev (dropWhile is_space (rev (dropWhile is_space s)))"

text \<open>\<open>String(n)\<close> for a non-negative integer.\<close>

fun dec :: "nat \<Rightarrow> jstring" where
  "dec n = (if n < 10 then [48 + n] else dec (n div 10) @ [48 + n mod 10])"

declare dec.simps [simp del]

definition is_digit :: "jchar \<Rightarrow> bool" where
  "is_digit c \<longleftrightarrow> 48 \<le> c \<and> c \<le> 57"

text \<open>\<open>Number(s)\<close> for a string of decimal digits.\<close>

definition digits_value :: "jstring \<Rightarrow> nat" where
  "digits_value s = foldl (\<lambda>n c. 10 * n + (c - 48)) 0 s"

lemma starts_with_append [simp, js_text]: "starts_with (p @ s) p"
  by (simp add: starts_with_def)

lemma starts_with_iff: "starts_with s p \<longleftrightarrow> (\<exists>t. s = p @ t)"
  by (auto simp: starts_with_def intro: append_take_drop_id [symmetric])
    (metis append_take_drop_id)

lemma ends_with_iff: "ends_with s p \<longleftrightarrow> (\<exists>t. s = t @ p)"
  unfolding ends_with_def by (auto intro: append_take_drop_id [symmetric]) (metis append_take_drop_id)

lemma starts_with_single [js_text]: "starts_with (x # s) [c] \<longleftrightarrow> x = c"
  by (auto simp: starts_with_def)

lemma starts_with_Nil_single [js_text]: "\<not> starts_with [] [c]"
  by (simp add: starts_with_def)

lemma index_of_Some: "index_of s p = Some i \<Longrightarrow> s = take i s @ p @ drop (i + length p) s"
proof (induction s p arbitrary: i rule: index_of.induct)
  case (1 p)
  then show ?case by (auto split: if_splits)
next
  case (2 c s p)
  show ?case
  proof (cases "starts_with (c # s) p")
    case True
    then obtain t where "c # s = p @ t" by (auto simp: starts_with_iff)
    moreover have "i = 0" using True 2(2) by simp
    ultimately show ?thesis by simp
  next
    case False
    with 2(2) obtain j where j: "index_of s p = Some j" "i = Suc j" by auto
    with 2(1) [OF False j(1)] show ?thesis by simp
  qed
qed

lemma index_of_single_None: "index_of s [c] = None \<longleftrightarrow> c \<notin> set s"
  by (induction s) (auto simp: js_text)

lemma index_of_single_Some: "index_of s [c] = Some i \<Longrightarrow> s = take i s @ c # drop (Suc i) s \<and> c \<notin> set (take i s)"
proof (induction s arbitrary: i)
  case Nil
  then show ?case by simp
next
  case (Cons x s)
  show ?case
  proof (cases "x = c")
    case True
    with Cons.prems show ?thesis by (auto simp: js_text)
  next
    case False
    with Cons.prems obtain j where j: "index_of s [c] = Some j" "i = Suc j"
      by (auto simp: js_text)
    with Cons.IH [OF j(1)] False show ?thesis by auto
  qed
qed

lemma index_of_single_append: "c \<notin> set s \<Longrightarrow> index_of (s @ c # t) [c] = Some (length s)"
  by (induction s) (auto simp: js_text)

lemma split_on_nonempty [simp]: "split_on c s \<noteq> []"
  by (induction s) (auto split: list.splits)

lemma join_split_on [js_text]: "join [c] (split_on c s) = s"
proof (induction s)
  case Nil
  then show ?case by simp
next
  case (Cons x s)
  obtain w ws where w: "split_on c s = w # ws"
    using split_on_nonempty [of c s] by (cases "split_on c s") blast+
  with Cons show ?case by (cases ws) auto
qed

lemma split_on_pieces: "w \<in> set (split_on c s) \<Longrightarrow> c \<notin> set w"
proof (induction s arbitrary: w)
  case Nil
  then show ?case by simp
next
  case (Cons x s)
  obtain v vs where v: "split_on c s = v # vs"
    using split_on_nonempty [of c s] by (cases "split_on c s") blast+
  with Cons show ?case by (auto split: if_splits)
qed

lemma split_on_no_sep [js_text]: "c \<notin> set s \<Longrightarrow> split_on c s = [s]"
  by (induction s) auto

lemma split_on_append [js_text]: "c \<notin> set s \<Longrightarrow> split_on c (s @ c # t) = s # split_on c t"
  by (induction s) auto

lemma split_on_join: "xs \<noteq> [] \<Longrightarrow> (\<forall>x \<in> set xs. c \<notin> set x) \<Longrightarrow> split_on c (join [c] xs) = xs"
  by (induction "[c]" xs rule: join.induct) (auto simp: js_text)

lemma dec_digits: "c \<in> set (dec n) \<Longrightarrow> is_digit c"
proof (induction n rule: dec.induct)
  case (1 n)
  show ?case
  proof (cases "n < 10")
    case True
    with 1 show ?thesis by (auto simp: dec.simps [of n] is_digit_def)
  next
    case False
    have "n mod 10 < 10" by simp
    with 1 False show ?thesis by (auto simp: dec.simps [of n] is_digit_def)
  qed
qed

lemma digits_value_snoc: "digits_value (s @ [c]) = 10 * digits_value s + (c - 48)"
  by (simp add: digits_value_def)

lemma digits_value_dec [simp]: "digits_value (dec n) = n"
proof (induction n rule: dec.induct)
  case (1 n)
  then show ?case
    by (simp add: dec.simps [of n] digits_value_snoc) (simp add: digits_value_def)
qed

lemma dec_inject [simp]: "dec m = dec n \<longleftrightarrow> m = n"
  by (metis digits_value_dec)

lemma dec_nonempty [simp]: "dec n \<noteq> []"
  by (simp add: dec.simps [of n])

text \<open>
  \<open>x.toFixed(d)\<close> below \<open>10\<^sup>2\<^sup>1\<close>: the nearest multiple of \<open>10\<^sup>-\<^sup>d\<close>, the larger of two, with
  the sign in front. Beyond that bound \<open>toFixed\<close> is \<open>String(x)\<close>, the argument \<open>num_str\<close>:
  the shortest decimal of a double, which exact rationals do not determine.
\<close>

definition pad_left :: "nat \<Rightarrow> jchar \<Rightarrow> jstring \<Rightarrow> jstring" where
  "pad_left n c s = replicate (n - length s) c @ s"

definition fixed_digits :: "nat \<Rightarrow> nat \<Rightarrow> jstring" where
  "fixed_digits d n =
     (if d = 0 then dec n
      else dec (n div 10 ^ d) @ 46 # pad_left d 48 (dec (n mod 10 ^ d)))"

fun to_fixed :: "(jsnum \<Rightarrow> jstring) \<Rightarrow> nat \<Rightarrow> jsnum \<Rightarrow> jstring" where
  "to_fixed num_str d (Fin r) =
     (if 10 ^ 21 \<le> \<bar>r\<bar> then num_str (Fin r)
      else (if r < 0 then [45] else []) @ fixed_digits d (nat \<lfloor>\<bar>r\<bar> * 10 ^ d + 1 / 2\<rfloor>))"
| "to_fixed num_str d x = num_str x"

text \<open>\<open>String(x)\<close> of an integer below \<open>10\<^sup>2\<^sup>1\<close> is its decimal digits.\<close>

fun show_num :: "(jsnum \<Rightarrow> jstring) \<Rightarrow> jsnum \<Rightarrow> jstring" where
  "show_num num_str (Fin r) =
     (if r = of_int \<lfloor>r\<rfloor> \<and> \<bar>r\<bar> < 10 ^ 21 then (if r < 0 then [45] else []) @ dec (nat \<bar>\<lfloor>r\<rfloor>\<bar>) else num_str (Fin r))"
| "show_num num_str x = num_str x"

text \<open>\<open>s.replace(c, w)\<close> with a one-character string: the first occurrence.\<close>

fun replace_first :: "jchar \<Rightarrow> jstring \<Rightarrow> jstring \<Rightarrow> jstring" where
  "replace_first c w [] = []"
| "replace_first c w (x # xs) = (if x = c then w @ xs else x # replace_first c w xs)"

text \<open>
  A translator of the console's dictionaries: a key and its parameters to a line of text.
  The dictionaries are data and the translator is an argument of what renders.
\<close>

datatype tval = TS jstring | TN jsnum

type_synonym translator = "jstring \<Rightarrow> (jstring \<times> tval) list \<Rightarrow> jstring"

subsection \<open>Map and Set\<close>

type_synonym ('k, 'v) jmap = "('k \<times> 'v) list"

definition jadd :: "'a \<Rightarrow> 'a list \<Rightarrow> 'a list" where
  "jadd x xs = (if x \<in> set xs then xs else xs @ [x])"

text \<open>\<open>[...new Set(xs)]\<close>: first occurrences, in order.\<close>

definition js_set :: "'a list \<Rightarrow> 'a list" where
  "js_set xs = fold jadd xs []"

lemma set_jadd [simp, js_coll]: "set (jadd x xs) = insert x (set xs)"
  by (auto simp: jadd_def)

lemma distinct_jadd [simp, js_coll]: "distinct (jadd x xs) = distinct xs"
  by (auto simp: jadd_def)

lemma set_fold_jadd: "set (fold jadd xs ys) = set ys \<union> set xs"
  by (induction xs arbitrary: ys) auto

lemma set_js_set [simp, js_coll]: "set (js_set xs) = set xs"
  by (simp add: js_set_def set_fold_jadd)

lemma distinct_js_set [simp, js_coll]: "distinct (js_set xs)"
proof -
  have "distinct (fold jadd xs ys) = distinct ys" for ys
    by (induction xs arbitrary: ys) auto
  then show ?thesis by (simp add: js_set_def)
qed

abbreviation keys :: "('k, 'v) jmap \<Rightarrow> 'k list" where
  "keys m \<equiv> map fst m"

lemma keys_update [js_coll]: "keys (AList.update k v m) = (if k \<in> set (keys m) then keys m else keys m @ [k])"
  by (induction m) auto

lemma set_keys_update [simp, js_coll]: "set (keys (AList.update k v m)) = insert k (set (keys m))"
  by (simp add: keys_update insert_absorb)

lemma fst_set_update [simp, js_coll]: "fst ` set (AList.update k v m) = insert k (fst ` set m)"
  by (induction m) auto

lemma fst_set_delete [simp, js_coll]: "fst ` set (AList.delete k m) = fst ` set m - {k}"
  by (induction m) auto

lemma map_of_iff_keys: "map_of m k = None \<longleftrightarrow> k \<notin> set (keys m)"
  by (simp add: map_of_eq_None_iff)

lemma keys_delete [js_coll]: "keys (AList.delete k m) = filter (\<lambda>k'. k' \<noteq> k) (keys m)"
  by (induction m) auto

text \<open>
  The contract of a Map as its clients use it: what a lookup answers after a write or a
  delete. The lemma is the one the folding clients need: a run of writes answers the last
  value written under a key.
\<close>

locale keyed_store =
  fixes get :: "'s \<Rightarrow> 'k \<Rightarrow> 'v option"
    and put :: "'k \<Rightarrow> 'v \<Rightarrow> 's \<Rightarrow> 's"
    and drop_key :: "'k \<Rightarrow> 's \<Rightarrow> 's"
  assumes get_put: "get (put k v m) k' = (if k' = k then Some v else get m k')"
    and get_drop: "get (drop_key k m) k' = (if k' = k then None else get m k')"
begin

lemma get_puts:
  "get (fold (\<lambda>(k, v). put k v) kvs m) k = (case map_of (rev kvs) k of None \<Rightarrow> get m k | Some v \<Rightarrow> Some v)"
proof (induction kvs rule: rev_induct)
  case (snoc kv kvs)
  then show ?case by (cases kv) (simp add: get_put)
qed simp

lemma get_drops: "get (fold drop_key ks m) k = (if k \<in> set ks then None else get m k)"
  by (induction ks arbitrary: m) (auto simp: get_drop)

end

interpretation jstore: keyed_store map_of AList.update AList.delete
  by unfold_locales (simp_all add: update_conv' delete_conv')

subsection \<open>Maps folded from lists\<close>

lemma update_fresh: "k \<notin> set (keys m) \<Longrightarrow> AList.update k v m = m @ [(k, v)]"
  by (induction m) auto

lemma fold_update_distinct:
  "distinct (map g xs) \<Longrightarrow> fold (\<lambda>x. AList.update (g x) (h x)) xs [] = map (\<lambda>x. (g x, h x)) xs"
proof (induction xs rule: rev_induct)
  case (snoc x xs)
  then show ?case by (simp add: update_fresh)
qed simp

lemma keys_fold_update: "keys (fold (\<lambda>x. AList.update (g x) (h x)) xs m) = fold jadd (map g xs) (keys m)"
  by (induction xs arbitrary: m) (simp_all add: keys_update jadd_def)

text \<open>The last element under a key decides what a run of writes leaves there.\<close>

definition last_with :: "('a \<Rightarrow> 'k) \<Rightarrow> 'a list \<Rightarrow> 'k \<Rightarrow> 'a option" where
  "last_with g xs k = (let ys = filter (\<lambda>x. g x = k) xs in if ys = [] then None else Some (last ys))"

lemma map_of_fold_update:
  "map_of (fold (\<lambda>x. AList.update (g x) (h x)) xs m) k =
     (case last_with g xs k of None \<Rightarrow> map_of m k | Some x \<Rightarrow> Some (h x))"
proof (induction xs rule: rev_induct)
  case (snoc x xs)
  then show ?case by (simp add: last_with_def update_conv' Let_def)
qed (simp add: last_with_def)

lemma values_by_key: "distinct (keys m) \<Longrightarrow> map snd m = map (\<lambda>k. the (map_of m k)) (keys m)"
proof -
  assume "distinct (keys m)"
  then have "map_of m k = Some v" if "(k, v) \<in> set m" for k v using that by simp
  then show ?thesis by (simp add: comp_def) (metis option.sel prod.collapse)
qed

lemma last_with_snoc: "last_with g (xs @ [x]) k = (if g x = k then Some x else last_with g xs k)"
  by (simp add: last_with_def)

lemma last_with_Some: "last_with g xs k = Some x \<Longrightarrow> x \<in> set xs \<and> g x = k"
proof -
  assume "last_with g xs k = Some x"
  then have "filter (\<lambda>x. g x = k) xs \<noteq> []" "x = last (filter (\<lambda>x. g x = k) xs)"
    by (simp_all add: last_with_def Let_def split: if_splits)
  then have "x \<in> set (filter (\<lambda>x. g x = k) xs)" using last_in_set by metis
  then show ?thesis by simp
qed

lemma js_set_snoc: "js_set (xs @ [x]) = jadd x (js_set xs)"
  by (simp add: js_set_def)

subsection \<open>Array.prototype.sort\<close>

text \<open>
  \<open>sort\<close> is stable since ES2019: an element moves past an earlier one only when the
  comparator says \<open>> 0\<close>, and a NaN result counts as zero. Insertion from the right is
  such a sort; for a consistent comparator every stable sort gives the same list.
\<close>

definition gt_by :: "('a \<Rightarrow> 'a \<Rightarrow> jsnum) \<Rightarrow> 'a \<Rightarrow> 'a \<Rightarrow> bool" where
  "gt_by cmp x y \<longleftrightarrow> Fin 0 < cmp x y"

fun insert_by :: "('a \<Rightarrow> 'a \<Rightarrow> jsnum) \<Rightarrow> 'a \<Rightarrow> 'a list \<Rightarrow> 'a list" where
  "insert_by cmp x [] = [x]"
| "insert_by cmp x (y # ys) = (if gt_by cmp x y then y # insert_by cmp x ys else x # y # ys)"

definition js_sort :: "('a \<Rightarrow> 'a \<Rightarrow> jsnum) \<Rightarrow> 'a list \<Rightarrow> 'a list" where
  "js_sort cmp xs = foldr (insert_by cmp) xs []"

text \<open>Merging two lists, the left one first among equals, up to a cap.\<close>

fun merge_by :: "('a \<Rightarrow> 'a \<Rightarrow> jsnum) \<Rightarrow> 'a list \<Rightarrow> 'a list \<Rightarrow> 'a list" where
  "merge_by cmp [] ys = ys"
| "merge_by cmp xs [] = xs"
| "merge_by cmp (x # xs) (y # ys) =
     (if gt_by cmp x y then y # merge_by cmp (x # xs) ys else x # merge_by cmp xs (y # ys))"

lemma merge_by_Nil2 [simp]: "merge_by cmp xs [] = xs"
  by (cases xs) simp_all

lemma take_merge_cong: "take n xs = take n zs \<Longrightarrow> take n (merge_by cmp xs ys) = take n (merge_by cmp zs ys)"
proof (induction n arbitrary: xs zs ys)
  case (Suc n)
  have less: "take n xs = take n zs"
    using arg_cong [OF Suc.prems, of "take n"] by (simp add: min_def)
  show ?case
  proof (cases xs)
    case Nil
    with Suc.prems show ?thesis by (cases zs) auto
  next
    case (Cons x xs1)
    with Suc.prems obtain zs1 where zs: "zs = x # zs1" "take n xs1 = take n zs1" by (cases zs) auto
    show ?thesis
    proof (cases ys)
      case Nil
      with Suc.prems show ?thesis by simp
    next
      case (Cons y ys1)
      with \<open>xs = _\<close> zs Suc.IH [of xs1 zs1 ys] Suc.IH [OF less, of ys1] show ?thesis by simp
    qed
  qed
qed simp

lemma take_merge_take_left: "take n (merge_by cmp (take n xs) ys) = take n (merge_by cmp xs ys)"
  by (rule take_merge_cong) simp

lemma js_sort_Nil [simp]: "js_sort cmp [] = []"
  by (simp add: js_sort_def)

lemma js_sort_Cons [simp]: "js_sort cmp (x # xs) = insert_by cmp x (js_sort cmp xs)"
  by (simp add: js_sort_def)

lemma mset_insert_by [simp, js_coll]: "mset (insert_by cmp x xs) = add_mset x (mset xs)"
  by (induction xs) auto

lemma set_merge_by [simp, js_coll]: "set (merge_by cmp xs ys) = set xs \<union> set ys"
  by (induction cmp xs ys rule: merge_by.induct) auto

lemma mset_js_sort [simp, js_coll]: "mset (js_sort cmp xs) = mset xs"
  by (induction xs) auto

lemma set_js_sort [simp, js_coll]: "set (js_sort cmp xs) = set xs"
  by (metis mset_js_sort set_mset_mset)

lemma length_js_sort [simp, js_coll]: "length (js_sort cmp xs) = length xs"
  by (metis mset_js_sort size_mset)

lemma distinct_js_sort [simp, js_coll]: "distinct (js_sort cmp xs) = distinct xs"
  by (metis mset_js_sort mset_eq_imp_distinct_iff)

text \<open>
  What a comparator owes \<open>sort\<close> on the elements it is given: its strict part is
  asymmetric and its complement transitive. Every comparator of the console is shown to
  meet it on well-formed input, in the theory of its module.
\<close>

locale comparator_on =
  fixes cmp :: "'a \<Rightarrow> 'a \<Rightarrow> jsnum" and A :: "'a set"
  assumes asym: "x \<in> A \<Longrightarrow> y \<in> A \<Longrightarrow> gt_by cmp x y \<Longrightarrow> \<not> gt_by cmp y x"
    and trans: "x \<in> A \<Longrightarrow> y \<in> A \<Longrightarrow> z \<in> A \<Longrightarrow>
      \<not> gt_by cmp x y \<Longrightarrow> \<not> gt_by cmp y z \<Longrightarrow> \<not> gt_by cmp x z"
begin

abbreviation before :: "'a \<Rightarrow> 'a \<Rightarrow> bool" where
  "before x y \<equiv> \<not> gt_by cmp x y"

lemma refl: "x \<in> A \<Longrightarrow> before x x"
  using asym by blast

lemma insert_sorted:
  "x \<in> A \<Longrightarrow> set ys \<subseteq> A \<Longrightarrow> sorted_wrt before ys \<Longrightarrow> sorted_wrt before (insert_by cmp x ys)"
proof (induction ys)
  case Nil
  then show ?case by simp
next
  case (Cons y ys)
  have set_ins: "set (insert_by cmp x ys) = insert x (set ys)"
    by (metis mset_insert_by set_mset_add_mset_insert set_mset_mset)
  show ?case
  proof (cases "gt_by cmp x y")
    case True
    with Cons.prems have "before y x" using asym by auto
    with Cons True set_ins show ?thesis by auto
  next
    case False
    have "before x w" if "w \<in> set ys" for w
      using trans [of x y w] that False Cons.prems by auto
    with False Cons.prems show ?thesis by simp
  qed
qed

lemma sort_sorted: "set xs \<subseteq> A \<Longrightarrow> sorted_wrt before (js_sort cmp xs)"
proof (induction xs)
  case (Cons x xs)
  then show ?case by (simp add: insert_sorted)
qed simp

text \<open>Two sorted lists with the same elements agree where the comparator separates them.\<close>

lemma sorted_unique:
  assumes "set xs \<subseteq> A" "mset xs = mset ys" "sorted_wrt before xs" "sorted_wrt before ys"
    and "\<And>x y. x \<in> set xs \<Longrightarrow> y \<in> set xs \<Longrightarrow> before x y \<Longrightarrow> before y x \<Longrightarrow> x = y"
  shows "xs = ys"
  using assms
proof (induction xs arbitrary: ys)
  case Nil
  then show ?case by simp
next
  case (Cons x xs)
  then obtain y ys' where ys: "ys = y # ys'" by (cases ys) auto
  have sets: "set (x # xs) = set ys" using Cons.prems(2) by (metis set_mset_mset)
  have xy: "x = y"
  proof (rule ccontr)
    assume ne: "x \<noteq> y"
    have xin: "x \<in> set ys" and yin: "y \<in> set (x # xs)" using sets ys by auto
    have "before x y" using Cons.prems(3) yin ne by auto
    moreover have "before y x" using Cons.prems(4) xin ne ys by auto
    ultimately show False using Cons.prems(5) [of x y] yin ne by auto
  qed
  have "xs = ys'"
    using Cons.prems xy ys by (intro Cons.IH) auto
  with xy ys show ?case by simp
qed

lemma sort_cong:
  assumes "set xs \<subseteq> A" "mset xs = mset ys"
    and "\<And>x y. x \<in> set xs \<Longrightarrow> y \<in> set xs \<Longrightarrow> before x y \<Longrightarrow> before y x \<Longrightarrow> x = y"
  shows "js_sort cmp xs = js_sort cmp ys"
proof (rule sorted_unique)
  have "set ys = set xs" using assms(2) by (metis set_mset_mset)
  with assms(1) show "sorted_wrt before (js_sort cmp ys)" by (simp add: sort_sorted)
  show "sorted_wrt before (js_sort cmp xs)" using assms(1) by (rule sort_sorted)
qed (use assms in auto)

text \<open>Stability: elements the comparator calls equal keep their order.\<close>

lemma insert_stable:
  assumes "x \<in> A" "set ys \<subseteq> A" "z \<in> A" "sorted_wrt before ys"
  shows "filter (\<lambda>y. before y z \<and> before z y) (insert_by cmp x ys) =
    filter (\<lambda>y. before y z \<and> before z y) (x # ys)"
  using assms
proof (induction ys)
  case Nil
  then show ?case by simp
next
  case (Cons y ys)
  show ?case
  proof (cases "gt_by cmp x y")
    case False
    then show ?thesis by simp
  next
    case True
    have "\<not> (before x z \<and> before z x) \<or> \<not> (before y z \<and> before z y)"
      using True Cons.prems trans [of x z y] by auto
    then show ?thesis using Cons True by auto
  qed
qed

lemma sort_stable:
  assumes "set xs \<subseteq> A" "z \<in> A"
  shows "filter (\<lambda>y. before y z \<and> before z y) (js_sort cmp xs) =
    filter (\<lambda>y. before y z \<and> before z y) xs"
  using assms(1)
proof (induction xs)
  case Nil
  then show ?case by simp
next
  case (Cons x xs)
  then have "filter (\<lambda>y. before y z \<and> before z y) (js_sort cmp (x # xs)) =
      filter (\<lambda>y. before y z \<and> before z y) (x # js_sort cmp xs)"
    using assms(2) by (simp only: js_sort_Cons, intro insert_stable) (auto intro: sort_sorted)
  with Cons show ?case by simp
qed

lemma insert_front: "(\<forall>y \<in> set ys. before x y) \<Longrightarrow> insert_by cmp x ys = x # ys"
  by (cases ys) auto

lemma sort_id: "sorted_wrt before xs \<Longrightarrow> js_sort cmp xs = xs"
  by (induction xs) (auto simp: insert_front)

text \<open>Merging a sorted list with a sorted batch is sorting their concatenation.\<close>

lemma merge_insert:
  assumes "p \<in> A" "set ps \<subseteq> A" "set ys \<subseteq> A" "\<forall>x \<in> set ps. before p x" "sorted_wrt before ys"
  shows "merge_by cmp (p # ps) ys = insert_by cmp p (merge_by cmp ps ys)"
  using assms(3,5)
proof (induction ys)
  case Nil
  with assms(4) show ?case by (simp add: insert_front)
next
  case (Cons y ys)
  show ?case
  proof (cases "gt_by cmp p y")
    case True
    have "gt_by cmp x y" if "x \<in> set ps" for x
      using trans [of p x y] that True assms(1,2,4) Cons.prems(1) by auto
    then have "merge_by cmp ps (y # ys) = y # merge_by cmp ps ys" by (cases ps) simp_all
    moreover have "merge_by cmp (p # ps) ys = insert_by cmp p (merge_by cmp ps ys)"
      using Cons by simp
    ultimately show ?thesis using True by simp
  next
    case False
    have "before p w" if "w \<in> set (y # ys)" for w
      using trans [of p y w] that False Cons.prems assms(1) by auto
    with assms(4) have "\<forall>w \<in> set (merge_by cmp ps (y # ys)). before p w"
      unfolding set_merge_by by blast
    then have "insert_by cmp p (merge_by cmp ps (y # ys)) = p # merge_by cmp ps (y # ys)"
      by (rule insert_front)
    with False show ?thesis by simp
  qed
qed

lemma merge_sort:
  assumes "set xs \<subseteq> A" "set ys \<subseteq> A" "sorted_wrt before xs"
  shows "merge_by cmp xs (js_sort cmp ys) = js_sort cmp (xs @ ys)"
  using assms
proof (induction xs)
  case (Cons x xs)
  then show ?case
    using merge_insert [of x xs "js_sort cmp ys"] by (simp add: sort_sorted)
qed simp

lemma insert_commute_foldr:
  assumes "x \<in> A" "y \<in> A" "set zs \<subseteq> A" "sorted_wrt before zs" "gt_by cmp x y"
  shows "insert_by cmp x (insert_by cmp y zs) = insert_by cmp y (insert_by cmp x zs)"
  using assms
proof (induction zs)
  case Nil
  then show ?case using asym [of x y] by simp
next
  case (Cons z zs)
  have yx: "before y x" using asym [of x y] Cons.prems by blast
  show ?case
  proof (cases "gt_by cmp y z")
    case True
    then have "gt_by cmp x z" using trans [of y x z] yx Cons.prems by auto
    with True Cons show ?thesis by simp
  next
    case False
    with yx Cons.prems(5) show ?thesis by simp
  qed
qed

text \<open>Sorting a prefix first changes nothing.\<close>

lemma foldr_insert_by:
  assumes "set xs \<subseteq> A" "set zs \<subseteq> A" "x \<in> A" "sorted_wrt before zs" "sorted_wrt before xs"
  shows "foldr (insert_by cmp) (insert_by cmp x xs) zs = insert_by cmp x (foldr (insert_by cmp) xs zs)"
  using assms(1,5)
proof (induction xs)
  case (Cons y ys)
  have ih: "foldr (insert_by cmp) (insert_by cmp x ys) zs = insert_by cmp x (foldr (insert_by cmp) ys zs)"
    using Cons by simp
  have f: "foldr (insert_by cmp) ys zs = js_sort cmp (ys @ zs)"
    using sort_id [OF assms(4)] by (simp add: js_sort_def)
  have srt: "sorted_wrt before (foldr (insert_by cmp) ys zs)" "set (foldr (insert_by cmp) ys zs) \<subseteq> A"
    unfolding f using Cons.prems assms(2) by (simp_all add: sort_sorted)
  show ?case
  proof (cases "gt_by cmp x y")
    case True
    with ih insert_commute_foldr [of x y "foldr (insert_by cmp) ys zs"] srt Cons.prems assms(3)
    show ?thesis by simp
  qed simp
qed simp

lemma sort_append_sorted:
  assumes "set xs \<subseteq> A" "set ys \<subseteq> A"
  shows "js_sort cmp (js_sort cmp xs @ ys) = js_sort cmp (xs @ ys)"
  using assms(1)
proof (induction xs)
  case (Cons x xs)
  have "js_sort cmp (js_sort cmp (x # xs) @ ys) = foldr (insert_by cmp) (insert_by cmp x (js_sort cmp xs)) (js_sort cmp ys)"
    by (simp add: js_sort_def)
  also have "\<dots> = insert_by cmp x (js_sort cmp (js_sort cmp xs @ ys))"
    using foldr_insert_by [of "js_sort cmp xs" "js_sort cmp ys" x] Cons.prems assms(2)
    by (simp add: sort_sorted) (simp add: js_sort_def)
  finally show ?case using Cons by simp
qed simp


end

text \<open>A comparator whose sign follows a key of a linear order meets the contract.\<close>

lemma comparator_by_key:
  fixes key :: "'a \<Rightarrow> 'k :: linorder"
  assumes "\<And>x y. x \<in> A \<Longrightarrow> y \<in> A \<Longrightarrow> gt_by cmp x y \<longleftrightarrow> key y < key x"
  shows "comparator_on cmp A"
  by unfold_locales (use assms in \<open>auto simp: not_less\<close>)

text \<open>The numeric comparator \<open>(a, b) => a - b\<close> on finite numbers.\<close>

definition num_cmp :: "jsnum \<Rightarrow> jsnum \<Rightarrow> jsnum" where
  "num_cmp a b = a - b"

lemma gt_by_num_cmp: "is_finite a \<Longrightarrow> is_finite b \<Longrightarrow> gt_by num_cmp a b \<longleftrightarrow> b < a"
  by (cases a; cases b) (simp_all add: gt_by_def num_cmp_def)

interpretation num_order: comparator_on num_cmp "Collect is_finite"
proof
  fix x y z
  assume "x \<in> Collect is_finite" "y \<in> Collect is_finite"
  then show "gt_by num_cmp x y \<Longrightarrow> \<not> gt_by num_cmp y x"
    by (cases x; cases y) (simp_all add: gt_by_def num_cmp_def)
  assume "z \<in> Collect is_finite" "\<not> gt_by num_cmp x y" "\<not> gt_by num_cmp y z"
  with \<open>x \<in> _\<close> \<open>y \<in> _\<close> show "\<not> gt_by num_cmp x z"
    by (cases x; cases y; cases z) (simp_all add: gt_by_def num_cmp_def)
qed

lemma js_sort_num: "js_sort num_cmp (map Fin xs) = map Fin (sort xs)"
proof -
  have ins: "insert_by num_cmp (Fin x) (map Fin ys) = map Fin (insort x ys)" for x ys
    by (induction ys) (auto simp: gt_by_def num_cmp_def)
  show ?thesis by (induction xs) (simp_all add: ins)
qed

subsection \<open>JSON of unknown shape\<close>

datatype jsval =
    JUndef
  | JNull
  | JBool bool
  | JNum jsnum
  | JStr jstring
  | JArr "jsval list"
  | JObj "(jstring \<times> jsval) list"

text \<open>Reading a property: absent is \<open>undefined\<close>.\<close>

fun jfield :: "jsval \<Rightarrow> jstring \<Rightarrow> jsval" where
  "jfield (JObj kvs) k = (case map_of kvs k of Some v \<Rightarrow> v | None \<Rightarrow> JUndef)"
| "jfield v k = JUndef"

text \<open>\<open>typeof v === "object" && v !== null\<close>.\<close>

fun is_object :: "jsval \<Rightarrow> bool" where
  "is_object (JObj kvs) = True"
| "is_object (JArr vs) = True"
| "is_object v = False"

text \<open>\<open>`${v}`\<close>: how a template spells a value.\<close>

fun template :: "(jsnum \<Rightarrow> jstring) \<Rightarrow> jsval \<Rightarrow> jstring" where
  "template num_str JUndef = js ''undefined''"
| "template num_str JNull = js ''null''"
| "template num_str (JBool b) = (if b then js ''true'' else js ''false'')"
| "template num_str (JNum n) = show_num num_str n"
| "template num_str (JStr s) = s"
| "template num_str (JArr vs) =
     join [44] (map (\<lambda>v. case v of JUndef \<Rightarrow> [] | JNull \<Rightarrow> [] | _ \<Rightarrow> template num_str v) vs)"
| "template num_str (JObj kvs) = js ''[object Object]''"

text \<open>
  \<open>Number(v)\<close>: \<open>num\<close> reads a string, and a list or an object goes through its string.
\<close>

fun to_number :: "(jstring \<Rightarrow> jsnum) \<Rightarrow> (jsnum \<Rightarrow> jstring) \<Rightarrow> jsval \<Rightarrow> jsnum" where
  "to_number num num_str JUndef = NaN"
| "to_number num num_str JNull = Fin 0"
| "to_number num num_str (JBool b) = (if b then Fin 1 else Fin 0)"
| "to_number num num_str (JNum n) = n"
| "to_number num num_str (JStr s) = num s"
| "to_number num num_str v = num (template num_str v)"

text \<open>\<open>v[i]\<close> on a value of unknown shape.\<close>

fun jelem :: "jsval \<Rightarrow> nat \<Rightarrow> jsval" where
  "jelem (JArr vs) i = (if i < length vs then vs ! i else JUndef)"
| "jelem v i = JUndef"

end
