(* ===== verification/Ws_Multiplex.thy ===== *)
theory Ws_Multiplex
  imports Js_Prelude
begin

section \<open>The multiplexed WebSocket client (lib/ws.ts)\<close>

text \<open>
  One \<open>WsClient\<close> owns one socket, the listeners of every topic, the replay cursors and
  two timers. Each method and each socket callback is a function on the record
  \<open>ws_client\<close>. What the client does to the outside (dialling, sending, delivering to a
  handler, arming a timer, warning on the console) is appended to the field \<open>log\<close> in the
  order the code does it.

  Handlers and state listeners are function objects, compared by identity: they are
  numbers here. A socket is the number of its dial. The closure \<open>subscribe\<close> returns is
  an entry of \<open>subs\<close>: the topic and handler it captured, and its \<open>released\<close> latch.
  Whether the \<open>WebSocket\<close> constructor throws is an argument (\<open>dial_ok\<close>) of what dials.
  Callbacks into handlers and listeners are log entries: a handler that calls back into
  the client is the next operation of the run.
\<close>

subsection \<open>Data\<close>

datatype env_kind = KSnapshot | KDelta | KEvent | KError | KClosed

text \<open>
  \<open>env_seq\<close> is \<open>None\<close> when \<open>typeof env.seq\<close> is not \<open>"number"\<close>, and \<open>env_epoch\<close> is empty
  when the field is absent.
\<close>

record envelope =
  env_topic :: jstring
  env_kind :: env_kind
  env_seq :: "jsnum option"
  env_epoch :: jstring
  env_data :: jsval

datatype ws_state = Connecting | Open | Closed

datatype msg_action = ActSubscribe | ActUnsubscribe

record client_message =
  msg_action :: msg_action
  msg_topic :: jstring
  msg_lastSeq :: "jsnum option"
  msg_epoch :: "jstring option"

text \<open>What \<open>ev.data\<close> is: no string, no JSON, JSON with no topic string, or an envelope.\<close>

datatype raw_frame = NotText | Unparseable | NoTopic | Frame envelope

datatype ws_effect =
    Dial nat
  | DialRejected
  | Send nat client_message
  | CloseSocket nat
  | Deliver nat envelope
  | Notify nat ws_state
  | ArmRetry nat
  | ClearRetry
  | ArmIdle nat
  | ClearIdle
  | Warn

definition TOPIC_TOPOLOGY :: jstring where
  "TOPIC_TOPOLOGY = js ''topology''"

definition TOPIC_LIVE :: jstring where
  "TOPIC_LIVE = js ''live''"

definition RECONNECT_MIN_MS :: nat where
  "RECONNECT_MIN_MS = 1000"

definition RECONNECT_MAX_MS :: nat where
  "RECONNECT_MAX_MS = 15000"

definition CLOSE_TRY_AGAIN_LATER :: nat where
  "CLOSE_TRY_AGAIN_LATER = 1013"

definition WS_IDLE_CLOSE_MS :: nat where
  "WS_IDLE_CLOSE_MS = 30000"

record ws_client =
  handlers :: "(jstring, nat list) jmap"
  resumeSeq :: "(jstring, jsnum) jmap"
  epoch :: jstring
  deliveredSeq :: "(jstring, jsnum) jmap"
  snapshotCache :: "(jstring, envelope) jmap"
  stateListeners :: "nat list"
  socket :: "nat option"
  currentState :: ws_state
  backoffMs :: nat
  backoffBeforeOpenMs :: nat
  retryTimer :: "nat option"
  idleTimer :: bool
  disposed :: bool
  subs :: "(jstring \<times> nat \<times> bool) list"
  nextSocket :: nat
  log :: "ws_effect list"

definition new_client :: ws_client where
  "new_client = \<lparr>handlers = [], resumeSeq = [], epoch = [], deliveredSeq = [],
     snapshotCache = [], stateListeners = [], socket = None, currentState = Closed,
     backoffMs = RECONNECT_MIN_MS, backoffBeforeOpenMs = RECONNECT_MIN_MS,
     retryTimer = None, idleTimer = False, disposed = False, subs = [],
     nextSocket = 0, log = []\<rparr>"

subsection \<open>Operations\<close>

definition isSnapshotTopic :: "jstring \<Rightarrow> bool" where
  "isSnapshotTopic topic \<longleftrightarrow> topic = TOPIC_TOPOLOGY \<or> starts_with topic (js ''matrix:'')"

definition wsUrl :: "jstring \<Rightarrow> jstring \<Rightarrow> jstring" where
  "wsUrl protocol host =
     (let scheme = (if protocol = js ''https:'' then js ''wss:'' else js ''ws:'')
      in scheme @ js ''//'' @ host @ js ''/ws'')"

definition emit :: "ws_effect \<Rightarrow> ws_client \<Rightarrow> ws_client" where
  "emit e s = s\<lparr>log := log s @ [e]\<rparr>"

definition setState :: "ws_state \<Rightarrow> ws_client \<Rightarrow> ws_client" where
  "setState nxt s =
     (if currentState s = nxt then s
      else s\<lparr>currentState := nxt, log := log s @ map (\<lambda>f. Notify f nxt) (stateListeners s)\<rparr>)"

definition send :: "client_message \<Rightarrow> ws_client \<Rightarrow> ws_client" where
  "send msg s = (case socket s of None \<Rightarrow> s | Some k \<Rightarrow> emit (Send k msg) s)"

definition cursor :: "(jstring, jsnum) jmap \<Rightarrow> jstring \<Rightarrow> jsnum" where
  "cursor m topic = (case map_of m topic of Some n \<Rightarrow> n | None \<Rightarrow> Fin 0)"

definition lastSeqFor :: "ws_client \<Rightarrow> jstring \<Rightarrow> jsnum" where
  "lastSeqFor s topic = cursor (resumeSeq s) topic"

definition subscribe_frame :: "jstring \<Rightarrow> ws_client \<Rightarrow> client_message" where
  "subscribe_frame topic s =
     (let lastSeq = (if isSnapshotTopic topic then Fin 0 else lastSeqFor s topic)
      in if lastSeq \<le> Fin 0
         then \<lparr>msg_action = ActSubscribe, msg_topic = topic, msg_lastSeq = None, msg_epoch = None\<rparr>
         else if epoch s \<noteq> []
         then \<lparr>msg_action = ActSubscribe, msg_topic = topic, msg_lastSeq = Some lastSeq,
               msg_epoch = Some (epoch s)\<rparr>
         else \<lparr>msg_action = ActSubscribe, msg_topic = topic, msg_lastSeq = Some lastSeq,
               msg_epoch = None\<rparr>)"

definition sendSubscribe :: "jstring \<Rightarrow> ws_client \<Rightarrow> ws_client" where
  "sendSubscribe topic s = send (subscribe_frame topic s) s"

definition scheduleReconnect :: "ws_client \<Rightarrow> ws_client" where
  "scheduleReconnect s =
     (if disposed s \<or> handlers s = [] \<or> retryTimer s \<noteq> None then s
      else emit (ArmRetry (backoffMs s))
        (s\<lparr>backoffMs := min (backoffMs s * 2) RECONNECT_MAX_MS, retryTimer := Some (backoffMs s)\<rparr>))"

definition scheduleIdleClose :: "ws_client \<Rightarrow> ws_client" where
  "scheduleIdleClose s =
     (if disposed s \<or> idleTimer s then s else emit (ArmIdle WS_IDLE_CLOSE_MS) (s\<lparr>idleTimer := True\<rparr>))"

definition cancelIdleClose :: "ws_client \<Rightarrow> ws_client" where
  "cancelIdleClose s = (if \<not> idleTimer s then s else emit ClearIdle (s\<lparr>idleTimer := False\<rparr>))"

definition dropSocket :: "ws_client \<Rightarrow> ws_client" where
  "dropSocket s =
     (let s1 = s\<lparr>socket := None\<rparr>;
          s2 = (case socket s of None \<Rightarrow> s1 | Some k \<Rightarrow> emit (CloseSocket k) s1)
      in setState Closed s2)"

definition connect :: "bool \<Rightarrow> ws_client \<Rightarrow> ws_client" where
  "connect dial_ok s =
     (if disposed s \<or> socket s \<noteq> None \<or> retryTimer s \<noteq> None then s
      else if \<not> dial_ok then scheduleReconnect (setState Closed (emit DialRejected s))
      else setState Connecting
        (emit (Dial (nextSocket s))
          (s\<lparr>socket := Some (nextSocket s), nextSocket := Suc (nextSocket s), deliveredSeq := []\<rparr>)))"

definition onopen :: "nat \<Rightarrow> ws_client \<Rightarrow> ws_client" where
  "onopen k s =
     (if socket s \<noteq> Some k then s
      else let s1 = setState Open
                 (s\<lparr>backoffBeforeOpenMs := backoffMs s, backoffMs := RECONNECT_MIN_MS\<rparr>)
           in fold sendSubscribe (keys (handlers s1)) s1)"

text \<open>
  The cursor part of \<open>dispatch\<close>: the new state, and whether the frame is delivered.
\<close>

definition advance :: "envelope \<Rightarrow> ws_client \<Rightarrow> bool \<times> ws_client" where
  "advance env s =
     (if env_kind env = KError then (True, s)
      else case env_seq env of
        None \<Rightarrow> (True, s)
      | Some q \<Rightarrow>
          let topic = env_topic env;
              snapshot = isSnapshotTopic topic;
              s1 = (if env_epoch env \<noteq> [] \<and> env_epoch env \<noteq> epoch s
                    then s\<lparr>epoch := env_epoch env, resumeSeq := [], deliveredSeq := []\<rparr> else s)
          in if snapshot \<and> q \<le> cursor (deliveredSeq s1) topic then (False, s1)
             else let s2 = s1\<lparr>
                      deliveredSeq := AList.update topic (jmax (cursor (deliveredSeq s1) topic) q) (deliveredSeq s1),
                      resumeSeq := AList.update topic (jmax (cursor (resumeSeq s1) topic) q) (resumeSeq s1)\<rparr>
                  in (True, if snapshot then s2\<lparr>snapshotCache := AList.update topic env (snapshotCache s2)\<rparr> else s2))"

fun dispatch :: "raw_frame \<Rightarrow> ws_client \<Rightarrow> ws_client" where
  "dispatch NotText s = s"
| "dispatch Unparseable s = emit Warn s"
| "dispatch NoTopic s = s"
| "dispatch (Frame env) s =
     (case map_of (handlers s) (env_topic env) of
        None \<Rightarrow> s
      | Some listeners \<Rightarrow>
          (case advance env s of
             (False, s1) \<Rightarrow> s1
           | (True, s1) \<Rightarrow> s1\<lparr>log := log s1 @ map (\<lambda>h. Deliver h env) listeners\<rparr>))"

definition onmessage :: "nat \<Rightarrow> raw_frame \<Rightarrow> ws_client \<Rightarrow> ws_client" where
  "onmessage k raw s = (if socket s \<noteq> Some k then s else dispatch raw s)"

definition onerror :: "nat \<Rightarrow> ws_client \<Rightarrow> ws_client" where
  "onerror k s = (if socket s \<noteq> Some k then s else emit Warn s)"

definition onclose :: "nat \<Rightarrow> nat option \<Rightarrow> ws_client \<Rightarrow> ws_client" where
  "onclose k code s =
     (if socket s \<noteq> Some k then s
      else let s1 = s\<lparr>socket := None\<rparr>;
               s2 = (if code = Some CLOSE_TRY_AGAIN_LATER
                     then s1\<lparr>backoffMs := backoffBeforeOpenMs s1\<rparr> else s1)
           in scheduleReconnect (setState Closed s2))"

text \<open>The retry and idle timers' callbacks; they run only while the timer is armed.\<close>

definition retry_fires :: "bool \<Rightarrow> ws_client \<Rightarrow> ws_client" where
  "retry_fires dial_ok s =
     (let s1 = s\<lparr>retryTimer := None\<rparr>
      in if handlers s1 = [] then s1 else connect dial_ok s1)"

definition idle_fires :: "ws_client \<Rightarrow> ws_client" where
  "idle_fires s = (let s1 = s\<lparr>idleTimer := False\<rparr> in if handlers s1 = [] then dropSocket s1 else s1)"

definition subscribe :: "jstring \<Rightarrow> nat \<Rightarrow> bool \<Rightarrow> ws_client \<Rightarrow> ws_client" where
  "subscribe topic h dial_ok s =
     (let listeners = jadd h (case map_of (handlers s) topic of None \<Rightarrow> [] | Some ls \<Rightarrow> ls);
          isFirstForTopic = (length listeners = 1);
          s1 = connect dial_ok (cancelIdleClose (s\<lparr>handlers := AList.update topic listeners (handlers s)\<rparr>));
          s2 = (if isFirstForTopic
                then (if currentState s1 = Open then sendSubscribe topic s1 else s1)
                else (case map_of (snapshotCache s1) topic of
                        None \<Rightarrow> s1 | Some cached \<Rightarrow> emit (Deliver h cached) s1))
      in s2\<lparr>subs := subs s2 @ [(topic, h, False)]\<rparr>)"

definition unsubscribe :: "nat \<Rightarrow> ws_client \<Rightarrow> ws_client" where
  "unsubscribe i s =
     (let (topic, h, released) = subs s ! i
      in if released then s
         else let s0 = s\<lparr>subs := (subs s)[i := (topic, h, True)]\<rparr>
         in case map_of (handlers s0) topic of
              None \<Rightarrow> s0
            | Some current \<Rightarrow>
                let rest = removeAll h current
                in if rest \<noteq> [] then s0\<lparr>handlers := AList.update topic rest (handlers s0)\<rparr>
                   else let s1 = s0\<lparr>handlers := AList.delete topic (handlers s0),
                                   resumeSeq := AList.delete topic (resumeSeq s0),
                                   deliveredSeq := AList.delete topic (deliveredSeq s0),
                                   snapshotCache := AList.delete topic (snapshotCache s0)\<rparr>;
                            s2 = (if currentState s1 = Open
                                  then send \<lparr>msg_action = ActUnsubscribe, msg_topic = topic,
                                             msg_lastSeq = None, msg_epoch = None\<rparr> s1
                                  else s1)
                        in if handlers s2 = [] then scheduleIdleClose s2 else s2)"

definition close :: "ws_client \<Rightarrow> ws_client" where
  "close s =
     (let s1 = s\<lparr>disposed := True\<rparr>;
          s2 = (if retryTimer s1 \<noteq> None then emit ClearRetry (s1\<lparr>retryTimer := None\<rparr>) else s1)
      in dropSocket (cancelIdleClose s2))"

definition onStateChange :: "nat \<Rightarrow> ws_client \<Rightarrow> ws_client" where
  "onStateChange f s = s\<lparr>stateListeners := jadd f (stateListeners s)\<rparr>"

definition offStateChange :: "nat \<Rightarrow> ws_client \<Rightarrow> ws_client" where
  "offStateChange f s = s\<lparr>stateListeners := removeAll f (stateListeners s)\<rparr>"

subsection \<open>Runs\<close>

datatype ws_event =
    EvSubscribe jstring nat bool
  | EvUnsubscribe nat
  | EvOpen nat
  | EvMessage nat raw_frame
  | EvError nat
  | EvClose nat "nat option"
  | EvRetry bool
  | EvIdle
  | EvDispose
  | EvOnState nat
  | EvOffState nat

text \<open>
  The page's calls, the socket's callbacks and the timers, in any order the browser can
  deliver them. A timer fires only while it is armed and an unsubscribe closure exists
  only once \<open>subscribe\<close> has returned it.
\<close>

inductive ws_step :: "ws_client \<Rightarrow> ws_event \<Rightarrow> ws_client \<Rightarrow> bool" where
  st_subscribe: "ws_step s (EvSubscribe topic h d) (subscribe topic h d s)"
| st_unsubscribe: "i < length (subs s) \<Longrightarrow> ws_step s (EvUnsubscribe i) (unsubscribe i s)"
| st_open: "ws_step s (EvOpen k) (onopen k s)"
| st_message: "ws_step s (EvMessage k raw) (onmessage k raw s)"
| st_error: "ws_step s (EvError k) (onerror k s)"
| st_close: "ws_step s (EvClose k code) (onclose k code s)"
| st_retry: "retryTimer s \<noteq> None \<Longrightarrow> ws_step s (EvRetry d) (retry_fires d s)"
| st_idle: "idleTimer s \<Longrightarrow> ws_step s EvIdle (idle_fires s)"
| st_dispose: "ws_step s EvDispose (close s)"
| st_on_state: "ws_step s (EvOnState f) (onStateChange f s)"
| st_off_state: "ws_step s (EvOffState f) (offStateChange f s)"

inductive ws_reachable :: "ws_client \<Rightarrow> bool" where
  ws_init: "ws_reachable new_client"
| ws_next: "ws_reachable s \<Longrightarrow> ws_step s e t \<Longrightarrow> ws_reachable t"

inductive_cases ws_stepE: "ws_step s e t"

subsection \<open>Normal forms of the operations\<close>

text \<open>
  What each operation writes, as one record update: the invariants below are then case
  splits over these equations.
\<close>

named_theorems ws_nf \<open>operations of the client as record updates\<close>

lemma setState_nf [ws_nf]:
  "setState n s = s\<lparr>currentState := n,
     log := log s @ (if currentState s = n then [] else map (\<lambda>f. Notify f n) (stateListeners s))\<rparr>"
  by (auto simp: setState_def)

lemma send_nf [ws_nf]:
  "send m s = s\<lparr>log := log s @ (case socket s of None \<Rightarrow> [] | Some k \<Rightarrow> [Send k m])\<rparr>"
  by (simp add: send_def emit_def split: option.split)

lemma sendSubscribe_nf [ws_nf]:
  "sendSubscribe t s = s\<lparr>log := log s @
     (case socket s of None \<Rightarrow> [] | Some k \<Rightarrow> [Send k (subscribe_frame t s)])\<rparr>"
  by (simp add: sendSubscribe_def send_nf)

lemma subscribe_frame_log [simp]: "subscribe_frame t (s\<lparr>log := l\<rparr>) = subscribe_frame t s"
  by (simp add: subscribe_frame_def lastSeqFor_def Let_def)

lemma fold_sendSubscribe_nf [ws_nf]:
  "fold sendSubscribe ts s = s\<lparr>log := log s @
     (case socket s of None \<Rightarrow> [] | Some k \<Rightarrow> map (\<lambda>t. Send k (subscribe_frame t s)) ts)\<rparr>"
proof (induction ts arbitrary: s)
  case Nil
  then show ?case by (simp split: option.split)
next
  case (Cons t ts)
  then show ?case by (simp add: sendSubscribe_nf split: option.split)
qed

lemma dropSocket_nf [ws_nf]:
  "dropSocket s = s\<lparr>socket := None, currentState := Closed,
     log := log s @ (case socket s of None \<Rightarrow> [] | Some k \<Rightarrow> [CloseSocket k]) @
       (if currentState s = Closed then [] else map (\<lambda>f. Notify f Closed) (stateListeners s))\<rparr>"
  by (simp add: dropSocket_def emit_def setState_nf Let_def split: option.split)

text \<open>A frame moves only the epoch, the cursors, the cache and the log.\<close>

lemma advance_fields [simp]:
  "handlers (snd (advance env s)) = handlers s"
  "stateListeners (snd (advance env s)) = stateListeners s"
  "socket (snd (advance env s)) = socket s"
  "currentState (snd (advance env s)) = currentState s"
  "backoffMs (snd (advance env s)) = backoffMs s"
  "backoffBeforeOpenMs (snd (advance env s)) = backoffBeforeOpenMs s"
  "retryTimer (snd (advance env s)) = retryTimer s"
  "idleTimer (snd (advance env s)) = idleTimer s"
  "disposed (snd (advance env s)) = disposed s"
  "subs (snd (advance env s)) = subs s"
  "nextSocket (snd (advance env s)) = nextSocket s"
  "log (snd (advance env s)) = log s"
  by (simp_all add: advance_def Let_def split: option.split)

lemma dispatch_Frame:
  "dispatch (Frame env) s =
     (case map_of (handlers s) (env_topic env) of
        None \<Rightarrow> s
      | Some ls \<Rightarrow> (let r = advance env s
          in if fst r then (snd r)\<lparr>log := log s @ map (\<lambda>h. Deliver h env) ls\<rparr> else snd r))"
  by (simp add: Let_def split: option.split prod.split bool.split)
    (metis advance_fields(12) snd_conv)

declare dispatch.simps(4) [simp del]

lemma dispatch_fields [simp]:
  "handlers (dispatch raw s) = handlers s"
  "stateListeners (dispatch raw s) = stateListeners s"
  "socket (dispatch raw s) = socket s"
  "currentState (dispatch raw s) = currentState s"
  "backoffMs (dispatch raw s) = backoffMs s"
  "backoffBeforeOpenMs (dispatch raw s) = backoffBeforeOpenMs s"
  "retryTimer (dispatch raw s) = retryTimer s"
  "idleTimer (dispatch raw s) = idleTimer s"
  "disposed (dispatch raw s) = disposed s"
  "subs (dispatch raw s) = subs s"
  "nextSocket (dispatch raw s) = nextSocket s"
  by (cases raw; simp add: emit_def dispatch_Frame Let_def split: option.split)+

subsection \<open>Invariants\<close>

text \<open>The connection: one socket at most, and never a dial beside a pending retry.\<close>

definition conn_inv :: "ws_client \<Rightarrow> bool" where
  "conn_inv s \<longleftrightarrow> (socket s = None \<longleftrightarrow> currentState s = Closed) \<and>
     (retryTimer s \<noteq> None \<longrightarrow> socket s = None)"

text \<open>The timers: a disposed client holds nothing, and idleness means no listener.\<close>

definition timer_inv :: "ws_client \<Rightarrow> bool" where
  "timer_inv s \<longleftrightarrow> (disposed s \<longrightarrow> socket s = None \<and> retryTimer s = None \<and> \<not> idleTimer s) \<and>
     (idleTimer s \<longrightarrow> handlers s = [])"

text \<open>
  Progress: listeners always have a socket or a retry coming, and a socket without
  listeners always has its idle close coming.
\<close>

definition live_inv :: "ws_client \<Rightarrow> bool" where
  "live_inv s \<longleftrightarrow> disposed s \<or>
     ((handlers s \<noteq> [] \<longrightarrow> socket s \<noteq> None \<or> retryTimer s \<noteq> None) \<and>
      (handlers s = [] \<and> socket s \<noteq> None \<longrightarrow> idleTimer s))"

definition in_backoff :: "nat \<Rightarrow> bool" where
  "in_backoff b \<longleftrightarrow> RECONNECT_MIN_MS \<le> b \<and> b \<le> RECONNECT_MAX_MS"

definition backoff_inv :: "ws_client \<Rightarrow> bool" where
  "backoff_inv s \<longleftrightarrow> in_backoff (backoffMs s) \<and> in_backoff (backoffBeforeOpenMs s) \<and>
     (\<forall>d. retryTimer s = Some d \<longrightarrow> in_backoff d)"

text \<open>The maps: no cursor and no cached snapshot outlives its topic's listeners.\<close>

definition map_inv :: "ws_client \<Rightarrow> bool" where
  "map_inv s \<longleftrightarrow> distinct (keys (handlers s)) \<and>
     (\<forall>(t, ls) \<in> set (handlers s). ls \<noteq> [] \<and> distinct ls) \<and>
     set (keys (resumeSeq s)) \<subseteq> set (keys (handlers s)) \<and>
     set (keys (deliveredSeq s)) \<subseteq> set (keys (handlers s)) \<and>
     set (keys (snapshotCache s)) \<subseteq> set (keys (handlers s))"

definition ws_inv :: "ws_client \<Rightarrow> bool" where
  "ws_inv s \<longleftrightarrow> conn_inv s \<and> timer_inv s \<and> live_inv s \<and> backoff_inv s \<and> map_inv s"

lemmas ws_inv_defs = conn_inv_def timer_inv_def live_inv_def backoff_inv_def in_backoff_def
  RECONNECT_MIN_MS_def RECONNECT_MAX_MS_def

lemma update_not_Nil [simp]: "AList.update k v m \<noteq> []"
  by (cases m) auto

definition core_inv :: "ws_client \<Rightarrow> bool" where
  "core_inv s \<longleftrightarrow> conn_inv s \<and> timer_inv s \<and> live_inv s \<and> backoff_inv s"

lemma core_inv_frame [simp]:
  "core_inv (s\<lparr>log := l\<rparr>) = core_inv s"
  "core_inv (s\<lparr>subs := sb\<rparr>) = core_inv s"
  "core_inv (s\<lparr>stateListeners := fs\<rparr>) = core_inv s"
  by (simp_all add: core_inv_def ws_inv_defs)

lemma core_inv_cong:
  "core_inv s \<Longrightarrow> handlers t = handlers s \<Longrightarrow> socket t = socket s \<Longrightarrow> currentState t = currentState s \<Longrightarrow>
   backoffMs t = backoffMs s \<Longrightarrow> backoffBeforeOpenMs t = backoffBeforeOpenMs s \<Longrightarrow>
   retryTimer t = retryTimer s \<Longrightarrow> idleTimer t = idleTimer s \<Longrightarrow> disposed t = disposed s \<Longrightarrow> core_inv t"
  unfolding core_inv_def ws_inv_defs by metis

lemma core_inv_init: "core_inv new_client"
  by (simp add: core_inv_def ws_inv_defs new_client_def)

text \<open>Dialling restores progress for a client that has listeners and no idle timer.\<close>

lemma connect_core:
  assumes "conn_inv s" "timer_inv s" "backoff_inv s" "handlers s \<noteq> []"
  shows "core_inv (connect d s)"
  using assms
  by (auto simp: core_inv_def ws_inv_defs connect_def scheduleReconnect_def emit_def ws_nf)

lemma subscribe_core:
  assumes "core_inv s"
  shows "core_inv (subscribe topic h d s)"
proof -
  define ls where "ls = jadd h (case map_of (handlers s) topic of None \<Rightarrow> [] | Some ls \<Rightarrow> ls)"
  define s0 where "s0 = cancelIdleClose (s\<lparr>handlers := AList.update topic ls (handlers s)\<rparr>)"
  have "core_inv (connect d s0)"
    by (rule connect_core)
      (use assms in \<open>auto simp: s0_def core_inv_def ws_inv_defs cancelIdleClose_def emit_def\<close>)
  then show ?thesis
    by (simp add: subscribe_def Let_def emit_def ws_nf flip: ls_def s0_def split: option.split)
qed

lemma unsubscribe_core:
  assumes "core_inv s"
  shows "core_inv (unsubscribe i s)"
proof -
  obtain t h r where sub: "subs s ! i = (t, h, r)" by (cases "subs s ! i")
  show ?thesis
  proof (cases "r \<or> map_of (handlers s) t = None")
    case True
    with assms sub show ?thesis by (auto simp: unsubscribe_def Let_def)
  next
    case False
    then obtain ls where ls: "map_of (handlers s) t = Some ls" and r: "\<not> r" by auto
    then have ne: "handlers s \<noteq> []" by auto
    have "\<not> idleTimer s" using assms ne by (auto simp: core_inv_def timer_inv_def)
    then show ?thesis
    proof (cases "removeAll h ls = []")
      case True
      with assms sub ls r ne \<open>\<not> idleTimer s\<close> show ?thesis
        by (cases "AList.delete t (handlers s) = []"; cases "disposed s")
          (auto simp: unsubscribe_def Let_def scheduleIdleClose_def emit_def ws_nf core_inv_def ws_inv_defs)
    next
      case False
      with assms sub ls r ne \<open>\<not> idleTimer s\<close> show ?thesis
        by (auto simp: unsubscribe_def Let_def core_inv_def ws_inv_defs)
    qed
  qed
qed

lemma onopen_core: "core_inv s \<Longrightarrow> core_inv (onopen k s)"
  by (auto simp: onopen_def Let_def ws_nf core_inv_def ws_inv_defs)

lemma onclose_core: "core_inv s \<Longrightarrow> core_inv (onclose k code s)"
  by (auto simp: onclose_def Let_def ws_nf scheduleReconnect_def emit_def core_inv_def ws_inv_defs)

lemma retry_core: "core_inv s \<Longrightarrow> retryTimer s \<noteq> None \<Longrightarrow> core_inv (retry_fires d s)"
proof -
  assume s: "core_inv s" "retryTimer s \<noteq> None"
  show "core_inv (retry_fires d s)"
  proof (cases "handlers s = []")
    case True
    with s show ?thesis by (auto simp: retry_fires_def Let_def core_inv_def ws_inv_defs)
  next
    case False
    have "core_inv (connect d (s\<lparr>retryTimer := None\<rparr>))"
      by (rule connect_core) (use s False in \<open>auto simp: core_inv_def ws_inv_defs\<close>)
    with False show ?thesis by (simp add: retry_fires_def)
  qed
qed

lemma idle_core: "core_inv s \<Longrightarrow> idleTimer s \<Longrightarrow> core_inv (idle_fires s)"
  by (auto simp: idle_fires_def Let_def ws_nf core_inv_def ws_inv_defs)

lemma close_core: "core_inv s \<Longrightarrow> core_inv (close s)"
  by (auto simp: close_def Let_def ws_nf cancelIdleClose_def emit_def core_inv_def ws_inv_defs)

lemma onmessage_core: "core_inv s \<Longrightarrow> core_inv (onmessage k raw s)"
  by (auto simp: onmessage_def intro: core_inv_cong)

lemma onerror_core: "core_inv s \<Longrightarrow> core_inv (onerror k s)"
  by (simp add: onerror_def emit_def)

lemma step_core: "ws_step s e t \<Longrightarrow> core_inv s \<Longrightarrow> core_inv t"
  by (induction rule: ws_step.induct)
    (simp_all add: subscribe_core unsubscribe_core onopen_core onclose_core retry_core idle_core
      close_core onmessage_core onerror_core onStateChange_def offStateChange_def)

lemma reachable_core: "ws_reachable s \<Longrightarrow> core_inv s"
  by (induction rule: ws_reachable.induct) (auto intro: core_inv_init step_core)

text \<open>The maps follow the listeners through every operation.\<close>

lemma map_inv_frame [simp]:
  "map_inv (s\<lparr>log := l\<rparr>) = map_inv s"
  "map_inv (s\<lparr>subs := sb\<rparr>) = map_inv s"
  "map_inv (s\<lparr>stateListeners := fs\<rparr>) = map_inv s"
  "map_inv (s\<lparr>currentState := c\<rparr>) = map_inv s"
  "map_inv (s\<lparr>socket := k\<rparr>) = map_inv s"
  "map_inv (s\<lparr>retryTimer := r\<rparr>) = map_inv s"
  "map_inv (s\<lparr>idleTimer := b\<rparr>) = map_inv s"
  "map_inv (s\<lparr>disposed := b\<rparr>) = map_inv s"
  "map_inv (s\<lparr>nextSocket := n\<rparr>) = map_inv s"
  "map_inv (s\<lparr>backoffMs := n\<rparr>) = map_inv s"
  "map_inv (s\<lparr>backoffBeforeOpenMs := n\<rparr>) = map_inv s"
  by (simp_all add: map_inv_def)

lemma map_inv_reset [simp]: "map_inv s \<Longrightarrow> map_inv (s\<lparr>deliveredSeq := []\<rparr>)"
  by (simp add: map_inv_def)

lemma scheduleReconnect_map: "map_inv s \<Longrightarrow> map_inv (scheduleReconnect s)"
  by (simp add: scheduleReconnect_def emit_def)

lemma connect_map: "map_inv s \<Longrightarrow> map_inv (connect d s)"
  by (simp add: connect_def emit_def ws_nf scheduleReconnect_map)

lemma set_update_subset: "set (AList.update k v m) \<subseteq> insert (k, v) (set m)"
  by (induction m) auto

lemma set_delete_subset: "set (AList.delete k m) \<subseteq> set m"
  by (induction m) auto

lemma map_inv_listeners:
  assumes "map_inv s" "ls \<noteq> []" "distinct ls"
  shows "map_inv (s\<lparr>handlers := AList.update t ls (handlers s)\<rparr>)"
proof -
  have "ls' \<noteq> [] \<and> distinct ls'" if "(t', ls') \<in> set (AList.update t ls (handlers s))" for t' ls'
    using that set_update_subset [of t ls "handlers s"] assms by (auto simp: map_inv_def)
  with assms show ?thesis
    by (auto simp: map_inv_def distinct_update)
qed

lemma map_inv_drop_topic:
  assumes "map_inv s"
  shows "map_inv (s\<lparr>handlers := AList.delete t (handlers s), resumeSeq := AList.delete t (resumeSeq s),
    deliveredSeq := AList.delete t (deliveredSeq s), snapshotCache := AList.delete t (snapshotCache s)\<rparr>)"
  using assms set_delete_subset [of t "handlers s"]
  by (auto simp: map_inv_def keys_delete)

lemma map_inv_listeners_at:
  "map_inv s \<Longrightarrow> map_of (handlers s) t = Some ls \<Longrightarrow> ls \<noteq> [] \<and> distinct ls"
  by (auto simp: map_inv_def dest!: map_of_SomeD)

lemma jadd_nonempty [simp]: "jadd x xs \<noteq> []"
  by (auto simp: jadd_def)

lemma subscribe_map:
  assumes "map_inv s"
  shows "map_inv (subscribe topic h d s)"
proof -
  define ls where "ls = jadd h (case map_of (handlers s) topic of None \<Rightarrow> [] | Some ls \<Rightarrow> ls)"
  have "distinct ls"
    using map_inv_listeners_at [OF assms, of topic] by (auto simp: ls_def split: option.split)
  then have "map_inv (connect d (cancelIdleClose (s\<lparr>handlers := AList.update topic ls (handlers s)\<rparr>)))"
    using assms by (intro connect_map) (simp add: cancelIdleClose_def emit_def map_inv_listeners ls_def)
  then show ?thesis
    by (simp add: subscribe_def Let_def emit_def ws_nf flip: ls_def split: option.split)
qed

lemma unsubscribe_map:
  assumes "map_inv s"
  shows "map_inv (unsubscribe i s)"
proof -
  obtain t h r where sub: "subs s ! i = (t, h, r)" by (cases "subs s ! i")
  show ?thesis
  proof (cases "r \<or> map_of (handlers s) t = None")
    case True
    with assms sub show ?thesis by (auto simp: unsubscribe_def Let_def)
  next
    case False
    then obtain ls where ls: "map_of (handlers s) t = Some ls" "\<not> r" by auto
    with map_inv_listeners_at [OF assms] have d: "distinct (removeAll h ls)" by (simp add: distinct_removeAll)
    let ?s0 = "s\<lparr>subs := (subs s)[i := (t, h, True)]\<rparr>"
    have s0: "map_inv ?s0" using assms by simp
    show ?thesis
    proof (cases "removeAll h ls = []")
      case True
      with map_inv_drop_topic [OF s0, of t] sub ls show ?thesis
        by (auto simp: unsubscribe_def Let_def scheduleIdleClose_def emit_def ws_nf)
    next
      case False
      with map_inv_listeners [OF s0 False d] sub ls show ?thesis
        by (simp add: unsubscribe_def Let_def)
    qed
  qed
qed

lemma dispatch_map:
  assumes "map_inv s"
  shows "map_inv (dispatch raw s)"
proof (cases raw)
  case (Frame env)
  show ?thesis
  proof (cases "map_of (handlers s) (env_topic env)")
    case (Some ls)
    then have "env_topic env \<in> fst ` set (handlers s)" by (auto dest!: map_of_SomeD simp: image_iff intro!: bexI)
    with assms have "map_inv (snd (advance env s))"
      by (simp add: advance_def Let_def map_inv_def split: option.split)
    with Frame Some show ?thesis by (simp add: dispatch_Frame Let_def)
  qed (use assms Frame in \<open>simp add: dispatch_Frame\<close>)
qed (use assms in \<open>simp_all add: emit_def\<close>)

lemma step_map: "ws_step s e t \<Longrightarrow> map_inv s \<Longrightarrow> map_inv t"
  by (induction rule: ws_step.induct)
    (simp_all add: subscribe_map unsubscribe_map onopen_def onmessage_def onerror_def onclose_def
      retry_fires_def idle_fires_def close_def onStateChange_def offStateChange_def cancelIdleClose_def
      emit_def ws_nf Let_def dispatch_map scheduleReconnect_map connect_map)

lemma reachable_map: "ws_reachable s \<Longrightarrow> map_inv s"
proof (induction rule: ws_reachable.induct)
  case ws_init
  show ?case by (simp add: new_client_def map_inv_def)
qed (rule step_map)

lemma reachable_ws_inv: "ws_reachable s \<Longrightarrow> ws_inv s"
  using reachable_core reachable_map by (auto simp: ws_inv_def core_inv_def)

subsection \<open>What listeners and the hub see\<close>

text \<open>The sequence numbers of topic \<open>t\<close> that handler \<open>h\<close> was handed in a log.\<close>

definition delivered_seqs :: "jstring \<Rightarrow> nat \<Rightarrow> ws_effect list \<Rightarrow> jsnum list" where
  "delivered_seqs t h l = concat (map (\<lambda>e. case e of
     Deliver h' env \<Rightarrow> (if h' = h \<and> env_topic env = t \<and> env_kind env \<noteq> KError
                      then (case env_seq env of Some q \<Rightarrow> [q] | None \<Rightarrow> []) else [])
   | _ \<Rightarrow> []) l)"

text \<open>A frame of the hub numbered by \<open>ep\<close>; JSON has no NaN.\<close>

fun frame_of :: "jstring \<Rightarrow> raw_frame \<Rightarrow> bool" where
  "frame_of ep (Frame env) \<longleftrightarrow> env_seq env \<noteq> Some NaN \<and> env_epoch env \<in> {[], ep}"
| "frame_of ep raw \<longleftrightarrow> True"

text \<open>The sequence numbers a batch of frames carries for topic \<open>t\<close>.\<close>

fun frame_seqs :: "jstring \<Rightarrow> raw_frame list \<Rightarrow> jsnum list" where
  "frame_seqs t [] = []"
| "frame_seqs t (Frame env # fs) =
     (if env_topic env = t \<and> env_kind env \<noteq> KError
      then (case env_seq env of Some q \<Rightarrow> [q] | None \<Rightarrow> []) else []) @ frame_seqs t fs"
| "frame_seqs t (_ # fs) = frame_seqs t fs"

lemma delivered_seqs_append [simp]: "delivered_seqs t h (l @ m) = delivered_seqs t h l @ delivered_seqs t h m"
  by (simp add: delivered_seqs_def)

lemma delivered_seqs_other [simp]: "delivered_seqs t h [] = []" "delivered_seqs t h [Warn] = []"
  by (simp_all add: delivered_seqs_def)

lemma delivered_seqs_deliver:
  assumes "distinct ls"
  shows "delivered_seqs t h (map (\<lambda>h. Deliver h env) ls) =
    (if h \<in> set ls \<and> env_topic env = t \<and> env_kind env \<noteq> KError
     then (case env_seq env of Some q \<Rightarrow> [q] | None \<Rightarrow> []) else [])"
  using assms by (induction ls) (auto simp: delivered_seqs_def split: option.split)

lemma cursor_update: "cursor (AList.update t v m) t' = (if t' = t then v else cursor m t')"
  by (simp add: cursor_def update_conv')

lemma jmax_greater: "\<not> q \<le> c \<Longrightarrow> q \<noteq> NaN \<Longrightarrow> c \<noteq> NaN \<Longrightarrow> jmax c q = q \<and> c < q"
  using jle_total [of q c] by (auto simp: jmax_def jless_iff)

text \<open>One frame on a snapshot topic is dropped, or handed on with a larger number.\<close>

lemma dispatch_snapshot_step:
  assumes s: "map_inv s" and fr: "frame_of (epoch s) raw" and t: "isSnapshotTopic t"
    and c: "cursor (deliveredSeq s) t \<noteq> NaN"
  shows "\<exists>l. log (dispatch raw s) = log s @ l \<and> epoch (dispatch raw s) = epoch s \<and>
    (delivered_seqs t h l = [] \<and>
       (cursor (deliveredSeq (dispatch raw s)) t = cursor (deliveredSeq s) t \<or>
        cursor (deliveredSeq s) t < cursor (deliveredSeq (dispatch raw s)) t)
     \<or> delivered_seqs t h l = [cursor (deliveredSeq (dispatch raw s)) t] \<and>
       cursor (deliveredSeq s) t < cursor (deliveredSeq (dispatch raw s)) t)"
proof (cases raw)
  case (Frame env)
  show ?thesis
  proof (cases "map_of (handlers s) (env_topic env)")
    case None
    with Frame show ?thesis by (auto simp: dispatch_Frame intro!: exI [of _ "[]"])
  next
    case (Some ls)
    then have d: "distinct ls" using map_inv_listeners_at [OF s] by blast
    have ep: "env_epoch env = [] \<or> env_epoch env = epoch s" and q: "env_seq env \<noteq> Some NaN"
      using fr Frame by auto
    note dl = delivered_seqs_deliver [OF d, of t h env]
    show ?thesis
    proof (cases "env_kind env = KError \<or> env_seq env = None")
      case True
      with Frame Some ep dl show ?thesis
        by (intro exI [of _ "map (\<lambda>h. Deliver h env) ls"]) (auto simp: dispatch_Frame advance_def Let_def)
    next
      case False
      then obtain q where sq: "env_seq env = Some q" "q \<noteq> NaN" and k: "env_kind env \<noteq> KError" using q by auto
      show ?thesis
      proof (cases "isSnapshotTopic (env_topic env) \<and> q \<le> cursor (deliveredSeq s) (env_topic env)")
        case True
        with Frame Some sq k ep show ?thesis
          by (intro exI [of _ "[]"]) (auto simp: dispatch_Frame advance_def Let_def)
      next
        case False
        with Frame Some sq k ep dl t c jmax_greater [of q "cursor (deliveredSeq s) t"] show ?thesis
          by (intro exI [of _ "map (\<lambda>h. Deliver h env) ls"])
            (auto simp: dispatch_Frame advance_def Let_def cursor_update)
      qed
    qed
  qed
qed (auto simp: emit_def intro!: exI [of _ "[]"] exI [of _ "[Warn]"])

lemma dispatch_snapshot_run:
  assumes "map_inv s" "\<forall>raw \<in> set raws. frame_of (epoch s) raw" "isSnapshotTopic t"
    and "cursor (deliveredSeq s) t \<noteq> NaN"
  shows "\<exists>l. log (fold dispatch raws s) = log s @ l \<and> sorted_wrt (<) (delivered_seqs t h l) \<and>
    (\<forall>q \<in> set (delivered_seqs t h l). cursor (deliveredSeq s) t < q)"
  using assms
proof (induction raws arbitrary: s)
  case Nil
  then show ?case by (auto intro!: exI [of _ "[]"])
next
  case (Cons raw raws)
  let ?s = "dispatch raw s" and ?c = "cursor (deliveredSeq s) t"
  let ?c' = "cursor (deliveredSeq ?s) t"
  obtain l where l: "log ?s = log s @ l" "epoch ?s = epoch s"
    and step: "delivered_seqs t h l = [] \<and> (?c' = ?c \<or> ?c < ?c') \<or> delivered_seqs t h l = [?c'] \<and> ?c < ?c'"
    using dispatch_snapshot_step [of s raw t h] Cons.prems by auto
  have "?c' \<noteq> NaN" using step Cons.prems(4) by auto
  then obtain l' where l': "log (fold dispatch raws ?s) = log ?s @ l'"
    "sorted_wrt (<) (delivered_seqs t h l')" "\<forall>q \<in> set (delivered_seqs t h l'). ?c' < q"
    using Cons.IH [of ?s] Cons.prems l(2) dispatch_map by auto
  show ?case
    by (intro exI [of _ "l @ l'"]) (use l l' step jless_trans in auto)
qed

text \<open>The replay cursor of a feed topic is the largest number seen.\<close>

lemma dispatch_cursor_step:
  assumes "frame_of (epoch s) raw" "\<not> isSnapshotTopic t" "t \<in> set (keys (handlers s))"
  shows "cursor (resumeSeq (dispatch raw s)) t = foldl jmax (cursor (resumeSeq s) t) (frame_seqs t [raw])
    \<and> epoch (dispatch raw s) = epoch s"
proof (cases raw)
  case (Frame env)
  obtain ls where t: "map_of (handlers s) t = Some ls"
    using assms(3) by (cases "map_of (handlers s) t") (auto simp: map_of_eq_None_iff)
  show ?thesis
  proof (cases "map_of (handlers s) (env_topic env)")
    case None
    with t have "env_topic env \<noteq> t" by auto
    with Frame None show ?thesis by (simp add: dispatch_Frame)
  next
    case (Some ls')
    with Frame assms(1,2) show ?thesis
      by (cases "env_seq env") (auto simp: dispatch_Frame advance_def Let_def cursor_update)
  qed
qed (use assms in \<open>simp_all add: emit_def\<close>)

lemma frame_seqs_Cons: "frame_seqs t (raw # raws) = frame_seqs t [raw] @ frame_seqs t raws"
  by (cases raw) auto

lemma dispatch_cursor_run:
  assumes "\<forall>raw \<in> set raws. frame_of (epoch s) raw" "\<not> isSnapshotTopic t" "t \<in> set (keys (handlers s))"
  shows "lastSeqFor (fold dispatch raws s) t = foldl jmax (lastSeqFor s t) (frame_seqs t raws) \<and>
    epoch (fold dispatch raws s) = epoch s"
  using assms
proof (induction raws arbitrary: s)
  case (Cons raw raws)
  have "lastSeqFor (dispatch raw s) t = foldl jmax (lastSeqFor s t) (frame_seqs t [raw])"
    "epoch (dispatch raw s) = epoch s"
    using dispatch_cursor_step [of s raw t] Cons.prems by (auto simp: lastSeqFor_def)
  with Cons.IH [of "dispatch raw s"] Cons.prems show ?case
    by (simp add: frame_seqs_Cons [of t raw raws])
qed simp

subsection \<open>The retry delays\<close>

text \<open>
  One refused reconnection: the retry timer fires, the socket opens and the hub closes it
  at its connection cap.
\<close>

definition refused_retry :: "ws_client \<Rightarrow> ws_client" where
  "refused_retry s = onclose (nextSocket s) (Some CLOSE_TRY_AGAIN_LATER) (onopen (nextSocket s) (retry_fires True s))"

definition waiting :: "ws_client \<Rightarrow> bool" where
  "waiting s \<longleftrightarrow> \<not> disposed s \<and> handlers s \<noteq> [] \<and> socket s = None \<and> retryTimer s \<noteq> None"

lemma refused_retry_step:
  assumes "waiting s"
  shows "waiting (refused_retry s) \<and> retryTimer (refused_retry s) = Some (backoffMs s) \<and>
    backoffMs (refused_retry s) = min (backoffMs s * 2) RECONNECT_MAX_MS"
  using assms
  by (simp add: waiting_def refused_retry_def retry_fires_def connect_def onopen_def onclose_def
      scheduleReconnect_def emit_def ws_nf Let_def CLOSE_TRY_AGAIN_LATER_def)

lemma failed_retry_step:
  assumes "waiting s"
  shows "waiting (retry_fires False s) \<and> retryTimer (retry_fires False s) = Some (backoffMs s) \<and>
    backoffMs (retry_fires False s) = min (backoffMs s * 2) RECONNECT_MAX_MS"
  using assms
  by (simp add: waiting_def retry_fires_def connect_def scheduleReconnect_def emit_def ws_nf Let_def)

text \<open>A step that waits one backoff and doubles it walks the capped powers of two.\<close>

lemma doubling_delays:
  assumes step: "\<And>s. waiting s \<Longrightarrow> waiting (f s) \<and> retryTimer (f s) = Some (backoffMs s) \<and>
      backoffMs (f s) = min (backoffMs s * 2) RECONNECT_MAX_MS"
    and "waiting s" "backoffMs s \<le> RECONNECT_MAX_MS"
  shows "waiting ((f ^^ n) s) \<and> backoffMs ((f ^^ n) s) = min (backoffMs s * 2 ^ n) RECONNECT_MAX_MS"
proof (induction n)
  case 0
  with assms(2,3) show ?case by simp
next
  case (Suc n)
  with step [of "(f ^^ n) s"] show ?case by (auto simp: min_def)
qed

subsection \<open>Sockets are never revived\<close>

definition ws_runs :: "ws_client \<Rightarrow> ws_client \<Rightarrow> bool" where
  "ws_runs s t \<longleftrightarrow> (\<lambda>a b. \<exists>e. ws_step a e b)\<^sup>*\<^sup>* s t"

text \<open>Only \<open>connect\<close> sets the socket, and it takes a number no dial had.\<close>

definition socket_kept :: "ws_client \<Rightarrow> ws_client \<Rightarrow> bool" where
  "socket_kept s t \<longleftrightarrow> nextSocket s \<le> nextSocket t \<and>
     (socket t = None \<or> socket t = socket s \<or> socket t = Some (nextSocket s))"

lemma socket_keptI [intro]:
  "nextSocket t = nextSocket s \<Longrightarrow> socket t = socket s \<or> socket t = None \<Longrightarrow> socket_kept s t"
  by (auto simp: socket_kept_def)

lemma connect_socket:
  "nextSocket s \<le> nextSocket (connect d s) \<and>
   (socket (connect d s) = socket s \<or> socket (connect d s) = Some (nextSocket s))"
  by (simp add: connect_def scheduleReconnect_def emit_def ws_nf)

lemma subscribe_socket: "socket_kept s (subscribe topic h d s)"
proof -
  define ls where "ls = jadd h (case map_of (handlers s) topic of None \<Rightarrow> [] | Some ls \<Rightarrow> ls)"
  define c where "c = connect d (cancelIdleClose (s\<lparr>handlers := AList.update topic ls (handlers s)\<rparr>))"
  have "socket_kept s c"
    using connect_socket [of "cancelIdleClose (s\<lparr>handlers := AList.update topic ls (handlers s)\<rparr>)" d]
    by (auto simp: c_def socket_kept_def cancelIdleClose_def emit_def split: if_splits)
  then show ?thesis
    by (simp add: subscribe_def Let_def ws_nf emit_def socket_kept_def flip: ls_def c_def split: option.split)
qed

lemma unsubscribe_socket: "socket (unsubscribe i s) = socket s \<and> nextSocket (unsubscribe i s) = nextSocket s"
  by (simp add: unsubscribe_def Let_def ws_nf emit_def scheduleIdleClose_def split: prod.split option.split)

lemma retry_socket: "socket_kept s (retry_fires d s)"
  using connect_socket [of "s\<lparr>retryTimer := None\<rparr>" d]
  by (auto simp: socket_kept_def retry_fires_def Let_def)

lemma step_socket: "ws_step s e t \<Longrightarrow> socket_kept s t"
proof (induction rule: ws_step.induct)
  case (st_unsubscribe i s)
  then show ?case using unsubscribe_socket by auto
qed (auto simp: subscribe_socket retry_socket onopen_def onmessage_def onerror_def onclose_def
    scheduleReconnect_def idle_fires_def close_def cancelIdleClose_def onStateChange_def
    offStateChange_def emit_def ws_nf Let_def)

lemma runs_socket:
  assumes "ws_runs s t" "k < nextSocket s" "socket s \<noteq> Some k"
  shows "k < nextSocket t \<and> socket t \<noteq> Some k"
  using assms(1) unfolding ws_runs_def
proof (induction rule: rtranclp_induct)
  case base
  with assms(2,3) show ?case by simp
next
  case (step t u)
  then show ?case using step_socket [of t _ u] by (force simp: socket_kept_def)
qed

text \<open>A lost connection that is dialled again keeps the listeners, the cursors and the epoch.\<close>

lemma reconnect_fields:
  assumes "socket s = Some k" "\<not> disposed s" "retryTimer s = None" "handlers s \<noteq> []"
    and "t = retry_fires True (onclose k code s)"
  shows "handlers t = handlers s" "socket t = Some (nextSocket s)" "epoch t = epoch s"
    "lastSeqFor t u = lastSeqFor s u"
  using assms(1-4) unfolding assms(5)
  by (simp_all add: retry_fires_def onclose_def connect_def scheduleReconnect_def emit_def ws_nf Let_def
      lastSeqFor_def)

subsection \<open>What the client guarantees\<close>

text \<open>A concrete run: a page subscribes to the live feed and the dial succeeds.\<close>

definition demo_client :: ws_client where
  "demo_client = onopen 0 (subscribe TOPIC_LIVE 7 True new_client)"

lemma demo_reachable: "ws_reachable demo_client"
  unfolding demo_client_def by (intro ws_next [OF ws_next [OF ws_init st_subscribe] st_open])

lemma demo_fields:
  "handlers demo_client = [(TOPIC_LIVE, [7])]" "socket demo_client = Some 0" "nextSocket demo_client = 1"
  "disposed demo_client = False" "epoch demo_client = []" "deliveredSeq demo_client = []"
  "resumeSeq demo_client = []" "retryTimer demo_client = None" "idleTimer demo_client = False"
  "backoffMs demo_client = 1000" "currentState demo_client = Open"
  by (simp_all add: demo_client_def subscribe_def new_client_def jadd_def cancelIdleClose_def connect_def
      emit_def ws_nf onopen_def Let_def RECONNECT_MIN_MS_def)

text \<open>
  C1: in every state the client can reach, while it is not disposed, a
  topic with listeners has a socket or an armed retry timer, and a socket nobody listens
  to has its idle close armed. There is never a socket beside a pending retry, the
  reported state is \<open>closed\<close> exactly when there is no socket, and a disposed client holds
  neither a socket nor a timer.
\<close>

theorem ws_never_stranded:
  assumes "ws_reachable s"
  shows "(\<not> disposed s \<and> handlers s \<noteq> [] \<longrightarrow> socket s \<noteq> None \<or> retryTimer s \<noteq> None) \<and>
    (\<not> disposed s \<and> handlers s = [] \<and> socket s \<noteq> None \<longrightarrow> idleTimer s) \<and>
    (retryTimer s \<noteq> None \<longrightarrow> socket s = None) \<and>
    (socket s = None \<longleftrightarrow> currentState s = Closed) \<and>
    (disposed s \<longrightarrow> socket s = None \<and> retryTimer s = None \<and> \<not> idleTimer s)"
  using reachable_core [OF assms] by (auto simp: core_inv_def conn_inv_def timer_inv_def live_inv_def)

theorem ws_never_stranded_witness:
  "ws_reachable demo_client \<and> socket demo_client = Some 0 \<and> retryTimer demo_client = None"
  using ws_never_stranded [OF demo_reachable] demo_reachable by (auto simp: demo_fields(2))

text \<open>
  No replay cursor, delivery cursor or cached snapshot outlives the
  listeners of its topic, a topic is kept only while somebody listens, and no handler is
  listed twice.
\<close>

lemma ws_no_orphan_state:
  assumes "ws_reachable s"
  shows "distinct (keys (handlers s)) \<and>
    (\<forall>t ls. map_of (handlers s) t = Some ls \<longrightarrow> ls \<noteq> [] \<and> distinct ls) \<and>
    set (keys (resumeSeq s)) \<union> set (keys (deliveredSeq s)) \<union> set (keys (snapshotCache s))
      \<subseteq> set (keys (handlers s))"
  using reachable_map [OF assms] map_inv_listeners_at [OF reachable_map [OF assms]]
  by (auto simp: map_inv_def)

text \<open>
  The retry delay stays between one and fifteen seconds. When the hub
  refuses every reconnection at its connection cap, or when every dial is rejected, the
  \<open>n\<close>-th delay is the current backoff doubled \<open>n\<close> times and capped; when an opened
  connection is lost for any other reason the next delay is one second again.
\<close>

lemma ws_retry_delays:
  assumes "ws_reachable s" "waiting s"
  shows "retryTimer ((refused_retry ^^ Suc n) s) = Some (min (backoffMs s * 2 ^ n) RECONNECT_MAX_MS) \<and>
    retryTimer ((retry_fires False ^^ Suc n) s) = Some (min (backoffMs s * 2 ^ n) RECONNECT_MAX_MS) \<and>
    (\<forall>code. code \<noteq> Some CLOSE_TRY_AGAIN_LATER \<longrightarrow>
      retryTimer (onclose (nextSocket s) code (onopen (nextSocket s) (retry_fires True s))) = Some RECONNECT_MIN_MS) \<and>
    RECONNECT_MIN_MS \<le> the (retryTimer s) \<and> the (retryTimer s) \<le> RECONNECT_MAX_MS"
proof (intro conjI allI impI)
  have b: "backoff_inv s" using reachable_core [OF assms(1)] by (simp add: core_inv_def)
  then have le: "backoffMs s \<le> RECONNECT_MAX_MS" by (simp add: backoff_inv_def in_backoff_def)
  note d = doubling_delays [OF _ assms(2) le, of _ n]
  show "retryTimer ((refused_retry ^^ Suc n) s) = Some (min (backoffMs s * 2 ^ n) RECONNECT_MAX_MS)"
    using d [of refused_retry, OF refused_retry_step] refused_retry_step [of "(refused_retry ^^ n) s"] by simp
  show "retryTimer ((retry_fires False ^^ Suc n) s) = Some (min (backoffMs s * 2 ^ n) RECONNECT_MAX_MS)"
    using d [of "retry_fires False", OF failed_retry_step]
      failed_retry_step [of "(retry_fires False ^^ n) s"] by simp
  show "RECONNECT_MIN_MS \<le> the (retryTimer s)" "the (retryTimer s) \<le> RECONNECT_MAX_MS"
    using b assms(2) by (auto simp: backoff_inv_def in_backoff_def waiting_def)
  fix code assume "code \<noteq> Some CLOSE_TRY_AGAIN_LATER"
  then show "retryTimer (onclose (nextSocket s) code (onopen (nextSocket s) (retry_fires True s))) = Some RECONNECT_MIN_MS"
    using assms(2)
    by (simp add: waiting_def retry_fires_def connect_def onopen_def onclose_def
        scheduleReconnect_def emit_def ws_nf Let_def)
qed

text \<open>
  A frame as one hub sends it (\<open>hub.go\<close>): every published frame carries the hub's own epoch,
  which is empty for a hub that stamps none, and an error frame carries no epoch at all. JSON
  has no NaN.
\<close>

fun hub_frame :: "jstring \<Rightarrow> raw_frame \<Rightarrow> bool" where
  "hub_frame ep (Frame env) \<longleftrightarrow> env_seq env \<noteq> Some NaN \<and>
     (env_epoch env = ep \<or> env_kind env = KError \<and> env_epoch env = [])"
| "hub_frame ep raw \<longleftrightarrow> True"

text \<open>
  The client that has taken up the numbering \<open>ep\<close>. The first numbered frame of another hub is
  handled as this client handles it; the frames before it are passed on without a number.
\<close>

definition adopt :: "jstring \<Rightarrow> ws_client \<Rightarrow> ws_client" where
  "adopt ep s = s\<lparr>epoch := ep, resumeSeq := [], deliveredSeq := []\<rparr>"

lemma adopt_fields [simp]: "log (adopt ep s) = log s" "epoch (adopt ep s) = ep" "deliveredSeq (adopt ep s) = []"
  by (simp_all add: adopt_def)

lemma adopt_map: "map_inv s \<Longrightarrow> map_inv (adopt ep s)"
  by (simp add: adopt_def map_inv_def)

lemma dispatch_other_hub:
  assumes "hub_frame ep raw" "ep \<noteq> []" "ep \<noteq> epoch s" "map_inv s"
  shows "dispatch raw s = dispatch raw (adopt ep s) \<or>
    (\<exists>l. dispatch raw s = s\<lparr>log := log s @ l\<rparr> \<and> delivered_seqs t h l = [])"
proof (cases raw)
  case (Frame env)
  show ?thesis
  proof (cases "map_of (handlers s) (env_topic env)")
    case None
    with Frame show ?thesis by (auto simp: dispatch_Frame intro!: exI [of _ "[]"])
  next
    case (Some ls)
    then have "distinct ls" using map_inv_listeners_at [OF assms(4)] by blast
    note dl = delivered_seqs_deliver [OF this, of t h env]
    show ?thesis
    proof (cases "env_kind env = KError \<or> env_seq env = None")
      case True
      with Frame Some dl have "dispatch raw s = s\<lparr>log := log s @ map (\<lambda>h. Deliver h env) ls\<rparr>"
          "delivered_seqs t h (map (\<lambda>h. Deliver h env) ls) = []"
        by (auto simp: dispatch_Frame advance_def)
      then show ?thesis by blast
    next
      case False
      then have "env_epoch env = ep" using assms(1) Frame by simp
      then have "advance env s = advance env (adopt ep s)"
        using assms(2,3) False by (auto simp: advance_def adopt_def Let_def)
      then have "dispatch raw s = dispatch raw (adopt ep s)"
        using Frame Some by (simp add: dispatch_Frame adopt_def Let_def)
      then show ?thesis by blast
    qed
  qed
next
  case Unparseable
  then show ?thesis by (intro disjI2 exI [of _ "[Warn]"]) (simp add: emit_def)
qed (intro disjI2 exI [of _ "[]"], simp)+

lemma hub_frames_run:
  assumes "map_inv s" "\<forall>raw \<in> set raws. hub_frame ep raw" "isSnapshotTopic t"
    and "cursor (deliveredSeq s) t \<noteq> NaN"
  shows "\<exists>l. log (fold dispatch raws s) = log s @ l \<and> sorted_wrt (<) (delivered_seqs t h l) \<and>
    (ep \<in> {[], epoch s} \<longrightarrow> (\<forall>q \<in> set (delivered_seqs t h l). cursor (deliveredSeq s) t < q))"
proof (cases "ep \<in> {[], epoch s}")
  case True
  have "frame_of (epoch s) raw" if "hub_frame ep raw" for raw
    using that True by (cases raw) auto
  with assms(2) dispatch_snapshot_run [OF assms(1) _ assms(3,4), of raws h] show ?thesis by blast
next
  case False
  have other: "frame_of ep raw" if "hub_frame ep raw" for raw
    using that by (cases raw) auto
  have "\<exists>l. log (fold dispatch raws s) = log s @ l \<and> sorted_wrt (<) (delivered_seqs t h l)"
    using assms(1,2) False
  proof (induction raws arbitrary: s)
    case Nil
    then show ?case by (auto intro!: exI [of _ "[]"])
  next
    case (Cons raw raws)
    consider (adopts) "dispatch raw s = dispatch raw (adopt ep s)"
      | (passes) l where "dispatch raw s = s\<lparr>log := log s @ l\<rparr>" "delivered_seqs t h l = []"
      using dispatch_other_hub [of ep raw s t h] Cons.prems by auto
    then show ?case
    proof cases
      case adopts
      then have "fold dispatch (raw # raws) s = fold dispatch (raw # raws) (adopt ep s)" by simp
      moreover have "\<forall>r \<in> set (raw # raws). frame_of (epoch (adopt ep s)) r"
        using Cons.prems(2) other by simp
      ultimately show ?thesis
        using dispatch_snapshot_run [of "adopt ep s" "raw # raws" t h] adopt_map [OF Cons.prems(1)] assms(3)
        by (fastforce simp: cursor_def)
    next
      case passes
      have "map_inv (s\<lparr>log := log s @ l\<rparr>)" using Cons.prems(1) by (simp add: map_inv_def)
      then obtain l' where "log (fold dispatch raws (s\<lparr>log := log s @ l\<rparr>)) = (log s @ l) @ l'"
        "sorted_wrt (<) (delivered_seqs t h l')"
        using Cons.IH [of "s\<lparr>log := log s @ l\<rparr>"] Cons.prems by auto
      then show ?thesis using passes by (intro exI [of _ "l @ l'"]) simp
    qed
  qed
  with False show ?thesis by blast
qed

text \<open>
  C2: take any client a run can reach, at any moment, and any batch of
  frames one hub sends, in whatever order they arrive. Every handler of a snapshot topic then
  receives numbers that strictly increase: a stale or repeated snapshot is never handed on.
  The hub may be the one the client last heard, another one with a new epoch (the first
  connection of a fresh client included), or one that stamps no epoch. When it is the hub the
  client last heard, or an unstamped one, the numbers are also above the last one delivered
  on this connection.
\<close>

theorem ws_snapshots_in_order:
  assumes "ws_reachable s" "isSnapshotTopic t" "cursor (deliveredSeq s) t \<noteq> NaN"
    and "\<forall>raw \<in> set raws. hub_frame ep raw"
  shows "\<exists>l. log (fold dispatch raws s) = log s @ l \<and> sorted_wrt (<) (delivered_seqs t h l) \<and>
    (ep \<in> {[], epoch s} \<longrightarrow> (\<forall>q \<in> set (delivered_seqs t h l). cursor (deliveredSeq s) t < q))"
  by (rule hub_frames_run [OF reachable_map [OF assms(1)] assms(4,2,3)])

definition demo_frame :: "rat \<Rightarrow> raw_frame" where
  "demo_frame n = Frame \<lparr>env_topic = TOPIC_TOPOLOGY, env_kind = KSnapshot, env_seq = Some (Fin n),
     env_epoch = js ''hub-1'', env_data = JNull\<rparr>"

theorem ws_snapshots_in_order_witness:
  "\<exists>l. log (fold dispatch [demo_frame 5, demo_frame 3, demo_frame 8] (subscribe TOPIC_TOPOLOGY 7 True new_client)) =
     log (subscribe TOPIC_TOPOLOGY 7 True new_client) @ l \<and>
     sorted_wrt (<) (delivered_seqs TOPIC_TOPOLOGY 7 l) \<and>
     (js ''hub-1'' \<in> {[], epoch (subscribe TOPIC_TOPOLOGY 7 True new_client)} \<longrightarrow>
       (\<forall>q \<in> set (delivered_seqs TOPIC_TOPOLOGY 7 l).
          cursor (deliveredSeq (subscribe TOPIC_TOPOLOGY 7 True new_client)) TOPIC_TOPOLOGY < q))"
proof (rule ws_snapshots_in_order)
  show "ws_reachable (subscribe TOPIC_TOPOLOGY 7 True new_client)"
    by (rule ws_next [OF ws_init st_subscribe])
qed (simp_all add: isSnapshotTopic_def demo_frame_def subscribe_def new_client_def jadd_def
    cancelIdleClose_def connect_def emit_def ws_nf cursor_def Let_def)

text \<open>
  C3: after a batch of frames of one hub, in any order, the replay cursor of
  a feed topic is the maximum of what it was and of every number received. When the next
  socket opens the client sends one subscribe frame per topic, in subscription order, and
  the feed topic's frame carries that maximum and the hub's epoch.
\<close>

theorem ws_resume_exact:
  assumes "ws_reachable s" "socket s = Some k" "\<not> isSnapshotTopic t" "t \<in> set (keys (handlers s))"
    and "\<forall>raw \<in> set raws. frame_of (epoch s) raw"
    and "q = foldl jmax (lastSeqFor s t) (frame_seqs t raws)" "Fin 0 < q"
    and "s' = retry_fires True (onclose k code (fold dispatch raws s))" "nextSocket s = k'"
  shows "\<exists>l. log (onopen k' s') = log s' @ l @ map (\<lambda>t. Send k' (subscribe_frame t s')) (keys (handlers s)) \<and>
      (\<forall>e \<in> set l. \<exists>f. e = Notify f Open) \<and>
      subscribe_frame t s' = \<lparr>msg_action = ActSubscribe, msg_topic = t, msg_lastSeq = Some q,
        msg_epoch = (if epoch s = [] then None else Some (epoch s))\<rparr>"
proof -
  let ?d = "fold dispatch raws s"
  have keep: "handlers ?d = handlers s \<and> socket ?d = socket s \<and> nextSocket ?d = nextSocket s \<and>
      disposed ?d = disposed s \<and> retryTimer ?d = retryTimer s"
    by (induction raws arbitrary: s) simp_all
  have core: "\<not> disposed s" "retryTimer s = None" "handlers s \<noteq> []"
    using reachable_core [OF assms(1)] assms(2,4) by (auto simp: core_inv_def conn_inv_def timer_inv_def)
  have c: "lastSeqFor ?d t = q" "epoch ?d = epoch s"
    using dispatch_cursor_run [OF assms(5,3,4)] assms(6) by auto
  have s': "handlers s' = handlers s" "socket s' = Some k'" "epoch s' = epoch s" "lastSeqFor s' t = q"
    using reconnect_fields [of ?d k s' code, OF _ _ _ _ assms(8)] keep core c assms(2,9) by (auto simp only:)
  have f: "subscribe_frame t s' = \<lparr>msg_action = ActSubscribe, msg_topic = t, msg_lastSeq = Some q,
        msg_epoch = (if epoch s = [] then None else Some (epoch s))\<rparr>"
    using assms(3) jless_iff [of "Fin 0" q] assms(7) by (simp add: subscribe_frame_def Let_def s'(3,4))
  have "subscribe_frame u (s'\<lparr>backoffBeforeOpenMs := a, backoffMs := b, currentState := c, log := l\<rparr>) =
      subscribe_frame u s'" for u a b c l
    by (simp add: subscribe_frame_def lastSeqFor_def Let_def)
  then have "log (onopen k' s') = log s' @
      (if currentState s' = Open then [] else map (\<lambda>f. Notify f Open) (stateListeners s')) @
      map (\<lambda>t. Send k' (subscribe_frame t s')) (keys (handlers s))"
    by (simp add: onopen_def ws_nf Let_def s'(1,2))
  with f show ?thesis by (intro exI conjI) (assumption, auto)
qed

definition demo_event :: "rat \<Rightarrow> raw_frame" where
  "demo_event n = Frame \<lparr>env_topic = TOPIC_LIVE, env_kind = KEvent, env_seq = Some (Fin n),
     env_epoch = [], env_data = JNull\<rparr>"

theorem ws_resume_exact_witness:
  "subscribe_frame TOPIC_LIVE (retry_fires True (onclose 0 None (fold dispatch [demo_event 4, demo_event 9, demo_event 6] demo_client))) =
    \<lparr>msg_action = ActSubscribe, msg_topic = TOPIC_LIVE, msg_lastSeq = Some (Fin 9), msg_epoch = None\<rparr>"
proof -
  let ?raws = "[demo_event 4, demo_event 9, demo_event 6]"
  have 1: "\<not> isSnapshotTopic TOPIC_LIVE" by code_simp
  have 2: "TOPIC_LIVE \<in> set (keys (handlers demo_client))" by (simp add: demo_fields)
  have 3: "\<forall>raw \<in> set ?raws. frame_of (epoch demo_client) raw" by (simp add: demo_event_def)
  have 4: "Fin 9 = foldl jmax (lastSeqFor demo_client TOPIC_LIVE) (frame_seqs TOPIC_LIVE ?raws)"
    by (simp add: demo_event_def lastSeqFor_def cursor_def demo_fields)
  show ?thesis
    using ws_resume_exact [OF demo_reachable demo_fields(2) 1 2 3 4 _ HOL.refl HOL.refl, of None] demo_fields(5)
    by auto
qed

text \<open>
  Once a socket has been replaced, closed or dropped, nothing it
  still reports reaches the client, however the client runs on.
\<close>

lemma ws_stale_socket_silent:
  assumes "ws_runs s t" "k < nextSocket s" "socket s \<noteq> Some k"
  shows "onopen k t = t \<and> onmessage k raw t = t \<and> onerror k t = t \<and> onclose k code t = t"
  using runs_socket [OF assms] by (simp add: onopen_def onmessage_def onerror_def onclose_def)

end
