(* ===== verification/Live_Events.thy ===== *)
theory Live_Events
  imports Js_Prelude
begin

section \<open>The live event ring (lib/live-events.ts)\<close>

text \<open>
  The newest-first ring of the live feed. \<open>Date.parse\<close> is the argument \<open>parse\<close>. The
  \<open>WeakMap\<close> that memoises a parsed timestamp is transparent and not modelled. The three
  \<open>while\<close> loops of \<open>pushEvents\<close> are the recursions \<open>merge_loop\<close> and \<open>drain_loop\<close>, with the
  cap \<open>LIVE_RING_CAP\<close> tested before every push as the code does.

  The ring is shown to be sorted, duplicate free and capped after every push, to hold the
  top of the stable sort of what was offered, and not to depend on how arrivals were
  batched.
\<close>

datatype LiveEventType =
  topology_changed | check_observed | mtr_triggered | mtr_completed | diagnostic_progress

datatype severity = sev_info | sev_warn | sev_error

text \<open>\<open>ev_id\<close> is \<open>None\<close> for a row that arrives with an id that is not a string.\<close>

record LiveEvent =
  ev_id :: "jstring option"
  ev_seq :: jsnum
  ev_type :: LiveEventType
  ev_severity :: severity
  ev_scope :: jstring
  ev_timestamp :: jstring
  ev_summary :: jstring
  ev_details :: jsval
  filteredHistory :: bool

definition LIVE_RING_CAP :: nat where
  "LIVE_RING_CAP = 2000"

type_synonym date_parse = "jstring \<Rightarrow> jsnum"

definition timeOf :: "date_parse \<Rightarrow> LiveEvent \<Rightarrow> jsnum" where
  "timeOf parse e = (let parsed = parse (ev_timestamp e) in if is_nan parsed then NInf else parsed)"

definition compareDesc :: "date_parse \<Rightarrow> LiveEvent \<Rightarrow> LiveEvent \<Rightarrow> jsnum" where
  "compareDesc parse a b =
     (let ta = timeOf parse a; tb = timeOf parse b
      in if \<not> jeq ta tb then (if tb < ta then Fin (- 1) else Fin 1)
         else if \<not> jeq (ev_seq a) (ev_seq b) then (if ev_seq b < ev_seq a then Fin (- 1) else Fin 1)
         else Fin 0)"

definition isAbove :: "date_parse \<Rightarrow> LiveEvent \<Rightarrow> LiveEvent \<Rightarrow> bool" where
  "isAbove parse a b \<longleftrightarrow> compareDesc parse a b < Fin 0"

definition identified :: "LiveEvent \<Rightarrow> bool" where
  "identified e \<longleftrightarrow> ev_id e \<noteq> None \<and> ev_id e \<noteq> Some []"

text \<open>The loop that collects \<open>fresh\<close>: \<open>seen\<close> grows with every identified arrival kept.\<close>

fun take_fresh :: "jstring option list \<Rightarrow> LiveEvent list \<Rightarrow> LiveEvent list" where
  "take_fresh seen [] = []"
| "take_fresh seen (e # es) =
     (if identified e
      then if ev_id e \<in> set seen then take_fresh seen es else e # take_fresh (jadd (ev_id e) seen) es
      else e # take_fresh seen es)"

fun merge_loop :: "date_parse \<Rightarrow> LiveEvent list \<Rightarrow> LiveEvent list \<Rightarrow> LiveEvent list \<Rightarrow>
    LiveEvent list \<times> LiveEvent list \<times> LiveEvent list" where
  "merge_loop parse nxt (p # ps) (f # fs) =
     (if length nxt < LIVE_RING_CAP
      then if isAbove parse f p then merge_loop parse (nxt @ [f]) (p # ps) fs
           else merge_loop parse (nxt @ [p]) ps (f # fs)
      else (nxt, p # ps, f # fs))"
| "merge_loop parse nxt ps fs = (nxt, ps, fs)"

fun drain_loop :: "LiveEvent list \<Rightarrow> LiveEvent list \<Rightarrow> LiveEvent list" where
  "drain_loop nxt [] = nxt"
| "drain_loop nxt (x # xs) = (if length nxt < LIVE_RING_CAP then drain_loop (nxt @ [x]) xs else nxt)"

definition pushEvents :: "date_parse \<Rightarrow> LiveEvent list \<Rightarrow> LiveEvent list \<Rightarrow> LiveEvent list" where
  "pushEvents parse prev incoming =
     (if incoming = [] then prev
      else let fresh = take_fresh (js_set (map ev_id prev)) incoming
           in if fresh = [] then prev
              else let sorted_fresh = js_sort (compareDesc parse) fresh;
                       (nxt, ps, fs) = merge_loop parse [] prev sorted_fresh
                   in drain_loop (drain_loop nxt ps) fs)"

subsection \<open>The order of the feed\<close>

definition numbered :: "LiveEvent set" where
  "numbered = {e. ev_seq e \<noteq> NaN}"

lemma timeOf_not_NaN [simp]: "timeOf parse e \<noteq> NaN"
  by (simp add: timeOf_def Let_def is_nan_def)

lemma compareDesc_cases:
  assumes "a \<in> numbered" "b \<in> numbered"
  obtains "timeOf parse a < timeOf parse b" "compareDesc parse a b = Fin 1"
  | "timeOf parse b < timeOf parse a" "compareDesc parse a b = Fin (- 1)"
  | "timeOf parse a = timeOf parse b" "ev_seq a < ev_seq b" "compareDesc parse a b = Fin 1"
  | "timeOf parse a = timeOf parse b" "ev_seq b < ev_seq a" "compareDesc parse a b = Fin (- 1)"
  | "timeOf parse a = timeOf parse b" "ev_seq a = ev_seq b" "compareDesc parse a b = Fin 0"
proof -
  consider "timeOf parse a < timeOf parse b" | "timeOf parse b < timeOf parse a"
    | "timeOf parse a = timeOf parse b" "ev_seq a < ev_seq b"
    | "timeOf parse a = timeOf parse b" "ev_seq b < ev_seq a"
    | "timeOf parse a = timeOf parse b" "ev_seq a = ev_seq b"
    using jless_linear [OF timeOf_not_NaN timeOf_not_NaN] jless_linear [of "ev_seq a" "ev_seq b"] assms
    by (auto simp: numbered_def)
  then show thesis
  proof cases
    case 1
    then have "timeOf parse a \<noteq> timeOf parse b" by auto
    with 1 show thesis using that(1) jless_asym [OF 1] by (simp add: compareDesc_def jeq_def Let_def)
  next
    case 2
    then have "timeOf parse a \<noteq> timeOf parse b" by auto
    with 2 show thesis using that(2) by (simp add: compareDesc_def jeq_def Let_def)
  next
    case 3
    then have "ev_seq a \<noteq> ev_seq b" by auto
    with 3 show thesis using that(3) jless_asym [OF 3(2)] by (simp add: compareDesc_def jeq_def Let_def)
  next
    case 4
    then have "ev_seq a \<noteq> ev_seq b" by auto
    with 4 show thesis using that(4) by (simp add: compareDesc_def jeq_def Let_def)
  next
    case 5
    then show thesis using that(5) assms by (simp add: compareDesc_def jeq_def Let_def numbered_def)
  qed
qed

lemma gt_by_compareDesc:
  assumes "a \<in> numbered" "b \<in> numbered"
  shows "gt_by (compareDesc parse) a b \<longleftrightarrow>
    timeOf parse a < timeOf parse b \<or> timeOf parse a = timeOf parse b \<and> ev_seq a < ev_seq b"
  using assms by (rule compareDesc_cases [of a b parse]) (auto simp: gt_by_def jless_iff)

lemma isAbove_gt_by:
  assumes "a \<in> numbered" "b \<in> numbered"
  shows "isAbove parse a b \<longleftrightarrow> gt_by (compareDesc parse) b a"
  unfolding gt_by_compareDesc [OF assms(2,1)]
  using assms by (rule compareDesc_cases [of a b parse]) (auto simp: isAbove_def jless_iff)

lemma before_compareDesc:
  assumes "a \<in> numbered" "b \<in> numbered"
  shows "\<not> gt_by (compareDesc parse) a b \<longleftrightarrow>
    timeOf parse b < timeOf parse a \<or> timeOf parse a = timeOf parse b \<and> ev_seq b \<le> ev_seq a"
  unfolding gt_by_compareDesc [OF assms]
  using assms by (intro jlex_not_less) (auto simp: numbered_def)

interpretation feed: comparator_on "compareDesc parse" numbered for parse
proof
  fix x y z
  assume xy: "x \<in> numbered" "y \<in> numbered"
  then show "gt_by (compareDesc parse) x y \<Longrightarrow> \<not> gt_by (compareDesc parse) y x"
    by (auto simp: gt_by_compareDesc jless_iff)
  assume z: "z \<in> numbered" and le: "\<not> gt_by (compareDesc parse) x y" "\<not> gt_by (compareDesc parse) y z"
  from le xy z show "\<not> gt_by (compareDesc parse) x z"
    by (simp only: before_compareDesc) (auto intro: jless_trans jle_trans)
qed

subsection \<open>The loops\<close>

lemma drain_loop_take: "drain_loop nxt xs = nxt @ take (LIVE_RING_CAP - length nxt) xs"
proof (induction nxt xs rule: drain_loop.induct)
  case (2 nxt x xs)
  show ?case
  proof (cases "length nxt < LIVE_RING_CAP")
    case True
    with 2 show ?thesis by (simp add: Suc_diff_Suc [symmetric])
  qed simp
qed simp

lemma merge_drain:
  assumes "set ps \<subseteq> numbered" "set fs \<subseteq> numbered"
  shows "(case merge_loop parse nxt ps fs of (nxt', ps', fs') \<Rightarrow> drain_loop (drain_loop nxt' ps') fs') =
    nxt @ take (LIVE_RING_CAP - length nxt) (merge_by (compareDesc parse) ps fs)"
  using assms
proof (induction parse nxt ps fs rule: merge_loop.induct)
  case (1 parse nxt p ps f fs)
  show ?case
  proof (cases "length nxt < LIVE_RING_CAP")
    case True
    then have k: "LIVE_RING_CAP - length nxt = Suc (LIVE_RING_CAP - Suc (length nxt))" by simp
    have "isAbove parse f p \<longleftrightarrow> gt_by (compareDesc parse) p f"
      using 1(3,4) by (simp add: isAbove_gt_by)
    with 1 True show ?thesis by (cases "gt_by (compareDesc parse) p f") (simp_all add: k)
  qed (simp add: drain_loop_take)
qed (simp_all add: drain_loop_take)

lemma set_take_fresh: "set (take_fresh seen es) \<subseteq> set es"
  by (induction seen es rule: take_fresh.induct) auto

text \<open>The real ids of a list of events.\<close>

definition real_ids :: "LiveEvent list \<Rightarrow> jstring option list" where
  "real_ids es = map ev_id (filter identified es)"

lemma real_ids_simps [simp]:
  "real_ids [] = []"
  "real_ids (e # es) = (if identified e then ev_id e # real_ids es else real_ids es)"
  "real_ids (xs @ ys) = real_ids xs @ real_ids ys"
  by (simp_all add: real_ids_def)

lemma real_ids_iff: "i \<in> set (real_ids es) \<longleftrightarrow> i \<in> ev_id ` set es \<and> i \<noteq> None \<and> i \<noteq> Some []"
  by (auto simp: real_ids_def identified_def)

lemma real_ids_subset: "set (real_ids es) \<subseteq> set (map ev_id es)"
  by (auto simp: real_ids_def)

lemma take_fresh_distinct:
  "distinct (real_ids (take_fresh seen es)) \<and> set (real_ids (take_fresh seen es)) \<inter> set seen = {}"
  by (induction seen es rule: take_fresh.induct) auto

lemma take_fresh_all: "distinct (real_ids es) \<Longrightarrow> set (real_ids es) \<inter> set seen = {} \<Longrightarrow> take_fresh seen es = es"
  by (induction seen es rule: take_fresh.induct) (auto split: if_splits)

lemma take_fresh_complete:
  "set (real_ids es) \<subseteq> set (real_ids (take_fresh seen es)) \<union> set seen"
  by (induction seen es rule: take_fresh.induct) (auto split: if_splits)

lemma real_ids_mset: "mset xs = mset ys \<Longrightarrow> mset (real_ids xs) = mset (real_ids ys)"
  by (simp add: real_ids_def mset_map mset_filter)

subsection \<open>The ring\<close>

definition ring :: "date_parse \<Rightarrow> LiveEvent list \<Rightarrow> bool" where
  "ring parse r \<longleftrightarrow> sorted_wrt (\<lambda>x y. \<not> gt_by (compareDesc parse) x y) r \<and> length r \<le> LIVE_RING_CAP \<and>
     distinct (real_ids r) \<and> set r \<subseteq> numbered"

abbreviation fresh_of :: "LiveEvent list \<Rightarrow> LiveEvent list \<Rightarrow> LiveEvent list" where
  "fresh_of r es \<equiv> take_fresh (js_set (map ev_id r)) es"

lemma pushEvents_sort:
  assumes "ring parse r" "set es \<subseteq> numbered"
  shows "pushEvents parse r es = take LIVE_RING_CAP (js_sort (compareDesc parse) (r @ fresh_of r es))"
proof (cases "fresh_of r es = []")
  case True
  with assms show ?thesis by (simp add: pushEvents_def ring_def feed.sort_id)
next
  case False
  let ?f = "js_sort (compareDesc parse) (fresh_of r es)"
  have f: "set (fresh_of r es) \<subseteq> numbered" using assms(2) set_take_fresh by blast
  have "pushEvents parse r es = take LIVE_RING_CAP (merge_by (compareDesc parse) r ?f)"
    using False merge_drain [of r ?f parse "[]"] assms(1) f by (auto simp: pushEvents_def Let_def ring_def)
  with feed.merge_sort [of r "fresh_of r es" parse] assms(1) f show ?thesis by (simp add: ring_def)
qed

lemma distinct_real_ids_take: "distinct (real_ids xs) \<Longrightarrow> distinct (real_ids (take n xs))"
proof (induction xs arbitrary: n)
  case (Cons x xs)
  have "set (real_ids (take m xs)) \<subseteq> set (real_ids xs)" for m
    by (auto simp: real_ids_def dest: in_set_takeD)
  with Cons show ?case by (cases n) (auto split: if_splits)
qed simp

lemma ring_offer:
  assumes "ring parse r" "set es \<subseteq> numbered"
  shows "set (r @ fresh_of r es) \<subseteq> numbered \<and> distinct (real_ids (r @ fresh_of r es))"
proof
  show "set (r @ fresh_of r es) \<subseteq> numbered"
    using assms set_take_fresh [of _ es] unfolding ring_def by auto
  have "set (real_ids r) \<inter> set (real_ids (fresh_of r es)) = {}"
    using take_fresh_distinct [of "js_set (map ev_id r)" es] real_ids_subset [of r] by auto
  then show "distinct (real_ids (r @ fresh_of r es))"
    using assms(1) take_fresh_distinct [of "js_set (map ev_id r)" es] by (simp add: ring_def)
qed

lemma ring_top:
  assumes "set xs \<subseteq> numbered" "distinct (real_ids xs)"
  shows "ring parse (take LIVE_RING_CAP (js_sort (compareDesc parse) xs))"
proof -
  have "mset (real_ids (js_sort (compareDesc parse) xs)) = mset (real_ids xs)"
    by (rule real_ids_mset) simp
  then have "distinct (real_ids (js_sort (compareDesc parse) xs))"
    using assms(2) by (metis mset_eq_imp_distinct_iff)
  moreover have "set (take n (js_sort (compareDesc parse) xs)) \<subseteq> numbered" for n
    using assms(1) set_take_subset [of n "js_sort (compareDesc parse) xs"] by simp
  ultimately show ?thesis
    using feed.sort_sorted [OF assms(1), of parse]
    by (simp add: ring_def sorted_wrt_take distinct_real_ids_take)
qed

lemma ring_Nil [simp]: "ring parse []"
  by (simp add: ring_def)

subsection \<open>What the ring guarantees\<close>

text \<open>Two events with the same timestamp and a third that is older.\<close>

definition demo_ev :: "string \<Rightarrow> rat \<Rightarrow> string \<Rightarrow> LiveEvent" where
  "demo_ev i n ts = \<lparr>ev_id = Some (js i), ev_seq = Fin n, ev_type = check_observed, ev_severity = sev_info,
     ev_scope = [], ev_timestamp = js ts, ev_summary = [], ev_details = JNull, filteredHistory = False\<rparr>"

definition demo_parse :: date_parse where
  "demo_parse s = (if s = [] then NaN else jnat (digits_value s))"

text \<open>
  C11: on a sorted, capped ring, pushing a batch is the stable newest-first
  sort of the ring followed by the arrivals not seen before, cut to the cap; the result is
  again sorted, capped and free of duplicated ids.
\<close>

theorem pushEvents_is_sort:
  assumes "ring parse r" "set es \<subseteq> numbered"
  shows "pushEvents parse r es = take LIVE_RING_CAP (js_sort (compareDesc parse) (r @ fresh_of r es)) \<and>
    ring parse (pushEvents parse r es) \<and>
    set (real_ids (r @ fresh_of r es)) = set (real_ids (r @ es))"
proof (intro conjI)
  show "pushEvents parse r es = take LIVE_RING_CAP (js_sort (compareDesc parse) (r @ fresh_of r es))"
    by (rule pushEvents_sort [OF assms])
  then show "ring parse (pushEvents parse r es)"
    using ring_top ring_offer [OF assms] by simp
  have "set (real_ids (fresh_of r es)) \<subseteq> set (real_ids es)"
    using set_take_fresh [of "js_set (map ev_id r)" es] by (auto simp: real_ids_def)
  moreover have "set (real_ids es) \<subseteq> set (real_ids (fresh_of r es)) \<union> set (real_ids r)"
  proof
    fix i assume i: "i \<in> set (real_ids es)"
    then have "i \<in> set (real_ids (fresh_of r es)) \<union> ev_id ` set r"
      using take_fresh_complete [of es "js_set (map ev_id r)"] by auto
    with i show "i \<in> set (real_ids (fresh_of r es)) \<union> set (real_ids r)" by (auto simp: real_ids_iff)
  qed
  ultimately show "set (real_ids (r @ fresh_of r es)) = set (real_ids (r @ es))" by auto
qed

theorem pushEvents_is_sort_witness:
  "ring demo_parse (pushEvents demo_parse [] [demo_ev ''a'' 1 ''5'', demo_ev ''b'' 2 ''7'', demo_ev ''a'' 1 ''5''])"
proof -
  have "set [demo_ev ''a'' 1 ''5'', demo_ev ''b'' 2 ''7'', demo_ev ''a'' 1 ''5''] \<subseteq> numbered"
    by (simp add: demo_ev_def numbered_def)
  from pushEvents_is_sort [OF ring_Nil this, of demo_parse] show ?thesis by blast
qed

text \<open>
  How arrivals are batched does not matter. When no id repeats, filing
  two batches one after the other leaves the same ring as filing them at once, even when the
  ring overflows in between.
\<close>

lemma pushEvents_batches:
  assumes "ring parse r" "set (a @ b) \<subseteq> numbered" "distinct (real_ids (r @ a @ b))"
  shows "pushEvents parse (pushEvents parse r a) b = pushEvents parse r (a @ b)"
proof -
  let ?s = "js_sort (compareDesc parse)" and ?m = "merge_by (compareDesc parse)"
  have sub: "set r \<subseteq> numbered" "set a \<subseteq> numbered" "set b \<subseteq> numbered"
    using assms(1,2) by (auto simp: ring_def)
  have all: "fresh_of r' xs = xs"
    if "distinct (real_ids xs)" "set (real_ids r') \<inter> set (real_ids xs) = {}" for r' xs
  proof -
    have "set (real_ids xs) \<inter> set (js_set (map ev_id r')) \<subseteq> set (real_ids r')"
      by (auto simp: real_ids_iff)
    with that show ?thesis by (intro take_fresh_all) auto
  qed
  have d: "distinct (real_ids a)" "distinct (real_ids b)" "set (real_ids r) \<inter> set (real_ids a) = {}"
      "set (real_ids (r @ a)) \<inter> set (real_ids b) = {}" "set (real_ids r) \<inter> set (real_ids (a @ b)) = {}"
    using assms(3) by auto
  have p1: "pushEvents parse r a = take LIVE_RING_CAP (?s (r @ a))"
    using pushEvents_sort [OF assms(1) sub(2)] all [of a r] d by simp
  let ?r = "take LIVE_RING_CAP (?s (r @ a))"
  have ring: "ring parse ?r" using ring_top [of "r @ a"] sub assms(3) d(3) by simp
  have rsub: "set ?r \<subseteq> set (r @ a)" using set_take_subset [of LIVE_RING_CAP "?s (r @ a)"] by simp
  have "set (real_ids ?r) \<subseteq> set (real_ids (r @ a))" using rsub by (auto simp: real_ids_def)
  with d(4) have "set (real_ids ?r) \<inter> set (real_ids b) = {}" by blast
  then have fr: "fresh_of ?r b = b" using all d(2) by simp
  have "pushEvents parse ?r b = take LIVE_RING_CAP (?m ?r (?s b))"
    using pushEvents_sort [OF ring sub(3)] fr feed.merge_sort [of ?r b parse] ring sub(3)
    by (simp add: ring_def)
  also have "\<dots> = take LIVE_RING_CAP (?m (?s (r @ a)) (?s b))" by (rule take_merge_take_left)
  also have "?m (?s (r @ a)) (?s b) = ?s (?s (r @ a) @ b)"
    using sub by (intro feed.merge_sort feed.sort_sorted) auto
  also have "\<dots> = ?s (r @ a @ b)"
    using feed.sort_append_sorted [of "r @ a" b parse] sub by simp
  finally have "pushEvents parse ?r b = take LIVE_RING_CAP (?s (r @ a @ b))" .
  moreover have "pushEvents parse r (a @ b) = take LIVE_RING_CAP (?s (r @ a @ b))"
    using pushEvents_sort [OF assms(1), of "a @ b"] all [of "a @ b" r] d assms(2,3) by simp
  ultimately show ?thesis using p1 by simp
qed

end
