(* ===== verification/Pagination.thy ===== *)
theory Pagination
  imports Js_Prelude
begin

section \<open>Pages of a list (lib/pagination.ts, components/ui/pager.tsx)\<close>

text \<open>
  \<open>pageSlice\<close> and \<open>pageOfIndex\<close> on arbitrary JS numbers, and the state behind \<open>usePager\<close>: a
  render is \<open>pager_render\<close>, which resets the page when the list's key changed, and the two
  setters are \<open>setPage\<close> and \<open>setSize\<close>. The drawing of the pager is not modelled.

  Whatever numbers arrive, the cut is a real page; the pages of a list partition it; and a
  change of page size keeps the first visible row in view.
\<close>

definition PAGE_SIZES :: "jsnum list" where
  "PAGE_SIZES = [Fin 10, Fin 20, Fin 50, Fin 100]"

definition DEFAULT_PAGE_SIZE :: jsnum where
  "DEFAULT_PAGE_SIZE = PAGE_SIZES ! 0"

record PageSlice =
  ps_page :: jsnum
  ps_pageCount :: jsnum
  ps_start :: jsnum
  ps_end :: jsnum

text \<open>The rows per page, as both functions compute it.\<close>

definition page_per :: "jsnum \<Rightarrow> jsnum" where
  "page_per sz = (if is_finite sz \<and> Fin 1 \<le> sz then jfloor sz else DEFAULT_PAGE_SIZE)"

definition pageSlice :: "jsnum \<Rightarrow> jsnum \<Rightarrow> jsnum \<Rightarrow> PageSlice" where
  "pageSlice tot page sz =
     (let rows = (if is_finite tot \<and> Fin 0 < tot then jfloor tot else Fin 0);
          per = page_per sz;
          pageCount = jmax (Fin 1) (jceil (divide rows per));
          wanted = (if is_nan page then Fin 1 else page);
          clamped = jmin (jmax (jfloor (jmin wanted pageCount)) (Fin 1)) pageCount;
          start = jmin ((clamped - Fin 1) * per) rows
      in \<lparr>ps_page = clamped, ps_pageCount = pageCount, ps_start = start,
          ps_end = jmin (start + per) rows\<rparr>)"

definition pageOfIndex :: "jsnum \<Rightarrow> jsnum \<Rightarrow> jsnum" where
  "pageOfIndex index sz =
     (if \<not> is_finite index \<or> index \<le> Fin 0 then Fin 1
      else jfloor (divide index (page_per sz)) + Fin 1)"

record pager_state =
  pg_size :: jsnum
  pg_page :: jsnum
  pg_seenKey :: "jstring option"

definition usePager :: "jsnum option \<Rightarrow> jstring option \<Rightarrow> pager_state" where
  "usePager sz resetKey =
     \<lparr>pg_size = (case sz of Some n \<Rightarrow> n | None \<Rightarrow> DEFAULT_PAGE_SIZE), pg_page = Fin 1, pg_seenKey = resetKey\<rparr>"

definition pager_render :: "jstring option \<Rightarrow> pager_state \<Rightarrow> pager_state" where
  "pager_render resetKey s =
     (if pg_seenKey s \<noteq> resetKey then s\<lparr>pg_seenKey := resetKey, pg_page := Fin 1\<rparr> else s)"

definition pager_slice :: "'a list \<Rightarrow> pager_state \<Rightarrow> PageSlice" where
  "pager_slice items s = pageSlice (jnat (length items)) (pg_page s) (pg_size s)"

definition cut :: "'a list \<Rightarrow> PageSlice \<Rightarrow> 'a list" where
  "cut items sl = take (to_nat (ps_end sl) - to_nat (ps_start sl)) (drop (to_nat (ps_start sl)) items)"

definition visible :: "'a list \<Rightarrow> pager_state \<Rightarrow> 'a list" where
  "visible items s = cut items (pager_slice items s)"

definition setPage :: "jsnum \<Rightarrow> pager_state \<Rightarrow> pager_state" where
  "setPage page s = s\<lparr>pg_page := page\<rparr>"

definition setSize :: "'a list \<Rightarrow> jsnum \<Rightarrow> pager_state \<Rightarrow> pager_state" where
  "setSize items nxt s = s\<lparr>pg_page := pageOfIndex (ps_start (pager_slice items s)) nxt, pg_size := nxt\<rparr>"

subsection \<open>The arithmetic in whole numbers\<close>

lemma page_per_nat: obtains k where "page_per sz = jnat k" "1 \<le> k"
proof (cases "is_finite sz \<and> Fin 1 \<le> sz")
  case True
  then obtain r where r: "sz = Fin r" "1 \<le> r" by (cases sz) auto
  then have f: "1 \<le> \<lfloor>r\<rfloor>" by linarith
  show thesis
  proof (rule that [of "nat \<lfloor>r\<rfloor>"])
    show "page_per sz = jnat (nat \<lfloor>r\<rfloor>)" using r f by (simp add: page_per_def)
    show "1 \<le> nat \<lfloor>r\<rfloor>" using f by linarith
  qed
next
  case False
  with that [of 10] show thesis by (auto simp: page_per_def DEFAULT_PAGE_SIZE_def PAGE_SIZES_def)
qed

lemma rows_nat:
  obtains n where "(if is_finite tot \<and> Fin 0 < tot then jfloor tot else Fin 0) = jnat n"
proof (cases "is_finite tot \<and> Fin 0 < tot")
  case True
  then obtain r where r: "tot = Fin r" "0 < r" by (cases tot) auto
  then have "0 \<le> \<lfloor>r\<rfloor>" by linarith
  with r that [of "nat \<lfloor>r\<rfloor>"] show thesis by simp
next
  case False
  then show thesis using that [of 0] by (simp only: if_False of_nat_0)
qed

definition page_count :: "nat \<Rightarrow> nat \<Rightarrow> nat" where
  "page_count n k = max 1 ((n + k - 1) div k)"

lemma ceil_div: "1 \<le> k \<Longrightarrow> \<lceil>(of_nat n :: rat) / of_nat k\<rceil> = int ((n + k - 1) div k)"
proof -
  assume k: "1 \<le> k"
  let ?q = "(n + k - 1) div k"
  have "n \<le> ?q * k" "?q * k < n + k"
    using k div_mult_mod_eq [of "n + k - 1" k] mod_less_divisor [of k "n + k - 1"] by linarith+
  then have "(of_nat n :: rat) \<le> of_nat ?q * of_nat k" "of_nat ?q * of_nat k < (of_nat n + of_nat k :: rat)"
    by (metis of_nat_le_iff of_nat_mult, metis of_nat_add of_nat_less_iff of_nat_mult)
  then have "(of_nat n :: rat) / of_nat k \<le> of_nat ?q" "of_nat ?q - 1 < (of_nat n :: rat) / of_nat k"
    using k by (simp_all add: field_simps)
  then show ?thesis by (intro ceiling_unique) simp_all
qed

lemma pageCount_nat:
  "1 \<le> k \<Longrightarrow> jmax (Fin 1) (jceil (divide (jnat n) (jnat k))) = jnat (page_count n k)"
  by (simp add: page_count_def ceil_div max_def)

lemma page_count_bounds: "1 \<le> k \<Longrightarrow> 1 \<le> page_count n k \<and> n \<le> page_count n k * k"
proof -
  assume k: "1 \<le> k"
  have "n \<le> (n + k - 1) div k * k"
    using k div_mult_mod_eq [of "n + k - 1" k] mod_less_divisor [of k "n + k - 1"] by linarith
  also have "\<dots> \<le> page_count n k * k" by (simp add: page_count_def)
  finally show ?thesis by (simp add: page_count_def)
qed

text \<open>The page granted for a wish.\<close>

definition clamp_page :: "jsnum \<Rightarrow> nat \<Rightarrow> jsnum" where
  "clamp_page page c = jmin (jmax (jfloor (jmin (if is_nan page then Fin 1 else page) (jnat c))) (Fin 1)) (jnat c)"

lemma clamp_page_nat:
  assumes "1 \<le> c"
  obtains p where "clamp_page page c = jnat p" "1 \<le> p" "p \<le> c"
proof (cases page)
  case (Fin r)
  let ?p = "min (max \<lfloor>min r (of_nat c)\<rfloor> 1) (int c)"
  have "clamp_page page c = jint ?p"
    using Fin by (simp add: clamp_page_def of_int_min of_int_max)
  moreover have "?p = int (nat ?p)" "1 \<le> ?p" "?p \<le> int c" using assms by auto
  ultimately show thesis using that [of "nat ?p"] by (metis nat_le_iff of_int_of_nat_eq of_nat_1 of_nat_le_iff)
next
  case PInf
  then have "clamp_page page c = jnat c" using assms by (auto simp: clamp_page_def jmin_def jmax_def)
  with that [of c] assms show thesis by simp
next
  case NInf
  then have "clamp_page page c = jnat 1" using assms by (simp add: clamp_page_def jmin_def jmax_def)
  with that [of 1] assms show thesis by simp
next
  case NaN
  then have "clamp_page page c = jnat 1" using assms by (simp add: clamp_page_def jmin_def jmax_def)
  with that [of 1] assms show thesis by simp
qed

lemma clamp_page_id: "1 \<le> p \<Longrightarrow> p \<le> c \<Longrightarrow> clamp_page (jnat p) c = jnat p"
  by (simp add: clamp_page_def min_def max_def)

lemma pageSlice_clamp:
  assumes "1 \<le> k" "page_per sz = jnat k" "clamp_page page (page_count n k) = jnat p" "1 \<le> p"
  shows "pageSlice (jnat n) page sz = \<lparr>ps_page = jnat p, ps_pageCount = jnat (page_count n k),
    ps_start = jnat (min ((p - 1) * k) n), ps_end = jnat (min (min ((p - 1) * k) n + k) n)\<rparr>"
proof -
  have rows: "(if is_finite (jnat n) \<and> Fin 0 < jnat n then jfloor (jnat n) else Fin 0) = jnat n" by simp
  have c: "jmin (jmax (jfloor (jmin (if is_nan page then Fin 1 else page) (jnat (page_count n k)))) (Fin 1))
      (jnat (page_count n k)) = jnat p"
    using assms(3) by (simp only: clamp_page_def)
  have start: "jmin ((jnat p - Fin 1) * jnat k) (jnat n) = jnat (min ((p - 1) * k) n)"
  proof -
    have "(of_nat (p - 1) :: rat) = of_nat p - 1" using assms(4) by (simp add: of_nat_diff)
    then have "(jnat p - Fin 1) * jnat k = jnat ((p - 1) * k)" by (simp only: minus_Fin times_jsnum.simps(1) of_nat_mult)
    then show ?thesis by (simp only: jmin_Fin of_nat_min)
  qed
  have "jmin (jnat (min ((p - 1) * k) n) + jnat k) (jnat n) = jnat (min (min ((p - 1) * k) n + k) n)"
    by (simp add: of_nat_min)
  then show ?thesis
    unfolding pageSlice_def Let_def rows assms(2) pageCount_nat [OF assms(1)] c start by simp
qed

text \<open>Any three numbers give a proper cut of the rows counted.\<close>

lemma pageSlice_total:
  obtains n where "pageSlice tot page sz = pageSlice (jnat n) page sz"
    "(if is_finite tot \<and> Fin 0 < tot then jfloor tot else Fin 0) = jnat n"
proof -
  obtain n where n: "(if is_finite tot \<and> Fin 0 < tot then jfloor tot else Fin 0) = jnat n"
    by (rule rows_nat)
  have m: "(if is_finite (jnat n) \<and> Fin 0 < jnat n then jfloor (jnat n) else Fin 0) = jnat n" by simp
  have "pageSlice tot page sz = pageSlice (jnat n) page sz"
    unfolding pageSlice_def Let_def n m ..
  with n show thesis by (rule that [rotated])
qed

lemma pageSlice_nat:
  obtains p k where "page_per sz = jnat k" "1 \<le> k" "1 \<le> p" "p \<le> page_count n k"
    "pageSlice (jnat n) page sz = \<lparr>ps_page = jnat p, ps_pageCount = jnat (page_count n k),
      ps_start = jnat (min ((p - 1) * k) n), ps_end = jnat (min (min ((p - 1) * k) n + k) n)\<rparr>"
proof -
  obtain k where k: "page_per sz = jnat k" "1 \<le> k" by (rule page_per_nat)
  obtain p where "clamp_page page (page_count n k) = jnat p" "1 \<le> p" "p \<le> page_count n k"
    using clamp_page_nat [of "page_count n k" page] page_count_bounds [OF k(2), of n] by blast
  with that k pageSlice_clamp show thesis by blast
qed

lemma last_page_nonempty: "1 \<le> k \<Longrightarrow> 1 \<le> p \<Longrightarrow> p \<le> page_count n k \<Longrightarrow> 0 < n \<Longrightarrow> (p - 1) * k < n"
proof -
  assume k: "1 \<le> k" and p: "1 \<le> p" "p \<le> page_count n k" and n: "0 < n"
  have "1 \<le> (n + k - 1) div k" using k n by (simp add: Suc_leI div_greater_zero_iff)
  with p have "p - 1 < (n + k - 1) div k" by (auto simp: page_count_def)
  then have "Suc (p - 1) * k \<le> (n + k - 1) div k * k" by (intro mult_le_mono1) simp
  also have "\<dots> \<le> n + k - 1" by (metis div_times_less_eq_dividend)
  finally show ?thesis using k n by simp
qed

lemma concat_pages: "concat (map (\<lambda>p. take k (drop (p * k) xs)) [0..<c]) = take (c * k) xs"
proof (induction c)
  case (Suc c)
  have "take (Suc c * k) xs = take (c * k) xs @ take k (drop (c * k) xs)"
    by (simp add: add.commute [of k] take_add)
  with Suc show ?case by simp
qed simp

lemma cut_jnat:
  "cut xs \<lparr>ps_page = p, ps_pageCount = c, ps_start = jnat a, ps_end = jnat b\<rparr> = take (b - a) (drop a xs)"
  by (simp add: cut_def)

lemma cut_page:
  assumes "1 \<le> k" "page_per sz = jnat k" "1 \<le> p" "p \<le> page_count (length xs) k"
  shows "cut xs (pageSlice (jnat (length xs)) (jnat p) sz) = take k (drop ((p - 1) * k) xs)"
proof -
  have "clamp_page (jnat p) (page_count (length xs) k) = jnat p"
    using assms(3,4) by (rule clamp_page_id)
  note sl = pageSlice_clamp [OF assms(1,2) this assms(3)]
  define a where "a = (p - 1) * k"
  show ?thesis
    unfolding sl cut_jnat a_def [symmetric] by (cases "a \<le> length xs") (auto simp: min_def)
qed

subsection \<open>What pages guarantee\<close>

text \<open>
  For any three numbers, NaN, infinities and fractions included, the page
  granted is between 1 and the page count, the cut lies inside the rows counted, is no longer
  than a page, and is empty only when there are no rows.
\<close>

lemma pageSlice_sound:
  "\<exists>n k p c a b. pageSlice tot page sz = \<lparr>ps_page = jnat p, ps_pageCount = jnat c, ps_start = jnat a, ps_end = jnat b\<rparr> \<and>
     (if is_finite tot \<and> Fin 0 < tot then jfloor tot else Fin 0) = jnat n \<and>
     page_per sz = jnat k \<and> 1 \<le> p \<and> p \<le> c \<and> a \<le> b \<and> b \<le> n \<and> b - a \<le> k \<and> (a < b \<or> n = 0)"
proof -
  obtain n where n: "pageSlice tot page sz = pageSlice (jnat n) page sz"
    "(if is_finite tot \<and> Fin 0 < tot then jfloor tot else Fin 0) = jnat n" by (rule pageSlice_total)
  obtain p k where pk: "page_per sz = jnat k" "1 \<le> k" "1 \<le> p" "p \<le> page_count n k"
    "pageSlice (jnat n) page sz = \<lparr>ps_page = jnat p, ps_pageCount = jnat (page_count n k),
      ps_start = jnat (min ((p - 1) * k) n), ps_end = jnat (min (min ((p - 1) * k) n + k) n)\<rparr>"
    by (rule pageSlice_nat)
  let ?a = "min ((p - 1) * k) n" and ?b = "min (min ((p - 1) * k) n + k) n"
  have b: "?a \<le> ?b" "?b \<le> n" "?b - ?a \<le> k" by auto
  have e: "?a < ?b \<or> n = 0" using last_page_nonempty [OF pk(2,3,4)] pk(2) by auto
  show ?thesis
    unfolding n(1) pk(5)
    by (intro exI conjI) (rule HOL.refl, rule n(2), rule pk(1), rule pk(3), rule pk(4), rule b(1), rule b(2), rule b(3), rule e)
qed

text \<open>
  Walking the pages of a list from the first to the last shows every row
  once and in order, whatever the page size asked for.
\<close>

lemma pages_partition:
  "concat (map (\<lambda>p. cut xs (pageSlice (jnat (length xs)) (jnat p) sz))
     [1..<Suc (to_nat (ps_pageCount (pageSlice (jnat (length xs)) (Fin 1) sz)))]) = xs"
proof -
  obtain k where k: "page_per sz = jnat k" "1 \<le> k" by (rule page_per_nat)
  let ?c = "page_count (length xs) k"
  have one: "clamp_page (jnat 1) ?c = jnat 1" using page_count_bounds [OF k(2)] by (intro clamp_page_id) auto
  have "ps_pageCount (pageSlice (jnat (length xs)) (Fin 1) sz) = jnat ?c"
    using pageSlice_clamp [OF k(2,1) one] by simp
  moreover have "map (\<lambda>p. cut xs (pageSlice (jnat (length xs)) (jnat p) sz)) [1..<Suc ?c] =
      map (\<lambda>p. take k (drop (p * k) xs)) [0..<?c]"
  proof -
    have "[1..<Suc ?c] = map Suc [0..<?c]" by (simp add: map_Suc_upt)
    moreover have "cut xs (pageSlice (jnat (length xs)) (jnat (Suc p)) sz) = take k (drop (p * k) xs)"
      if "p \<in> set [0..<?c]" for p
      using cut_page [OF k(2,1), of "Suc p" xs] that by (simp del: of_nat_Suc)
    ultimately show ?thesis by (simp only: map_map o_def cong: map_cong)
  qed
  ultimately show ?thesis
    using concat_pages [of k xs ?c] page_count_bounds [OF k(2), of "length xs"] by simp
qed

lemma pageOfIndex_nat:
  assumes "page_per sz = jnat k" "1 \<le> k"
  shows "pageOfIndex (jnat a) sz = jnat (a div k + 1)"
proof (cases "a = 0")
  case False
  have "\<lfloor>(of_nat a :: rat) / of_nat k\<rfloor> = int (a div k)"
    by (simp add: floor_divide_of_nat_eq)
  with False assms show ?thesis by (simp add: pageOfIndex_def)
qed (simp add: pageOfIndex_def)

lemma page_of_row:
  assumes "1 \<le> k" "a < n"
  shows "a div k + 1 \<le> page_count n k"
proof -
  have "a div k * k \<le> a" by (metis div_times_less_eq_dividend)
  with assms have "a div k * k < page_count n k * k" using page_count_bounds [OF assms(1), of n] by linarith
  then show ?thesis by simp
qed

text \<open>A page of a non-empty list starts at a row, and \<open>setSize\<close> shows the page holding it.\<close>

lemma pageSlice_row:
  assumes "items \<noteq> []"
  obtains p k a where "1 \<le> k" "a < length items"
    "pageSlice (jnat (length items)) page sz = \<lparr>ps_page = jnat p, ps_pageCount = jnat (page_count (length items) k),
      ps_start = jnat a, ps_end = jnat (min (a + k) (length items))\<rparr>"
proof -
  let ?n = "length items"
  obtain p k where pk: "1 \<le> k" "1 \<le> p" "p \<le> page_count ?n k" and
    sl: "pageSlice (jnat ?n) page sz = \<lparr>ps_page = jnat p, ps_pageCount = jnat (page_count ?n k),
      ps_start = jnat (min ((p - 1) * k) ?n), ps_end = jnat (min (min ((p - 1) * k) ?n + k) ?n)\<rparr>"
    by (rule pageSlice_nat)
  have a: "(p - 1) * k < ?n" using last_page_nonempty [OF pk] assms by simp
  then have "min ((p - 1) * k) ?n = (p - 1) * k" by simp
  with that [of k "(p - 1) * k" p] pk(1) a sl show thesis by (simp only:)
qed

lemma setSize_slice:
  assumes "a < length items" "ps_start (pager_slice items s) = jnat a"
  obtains k b where "b \<le> a" "a < b + k"
    "pager_slice items (setSize items nxt s) = \<lparr>ps_page = jnat (a div k + 1),
      ps_pageCount = jnat (page_count (length items) k), ps_start = jnat b, ps_end = jnat (min (b + k) (length items))\<rparr>"
proof -
  let ?n = "length items"
  obtain k where k: "page_per nxt = jnat k" "1 \<le> k" by (rule page_per_nat)
  let ?q = "a div k + 1"
  have q: "clamp_page (jnat ?q) (page_count ?n k) = jnat ?q"
    using page_of_row [OF k(2) assms(1)] by (intro clamp_page_id) auto
  define b where "b = (?q - 1) * k"
  have b: "b \<le> a" "a < b + k"
    using k(2) div_mult_mod_eq [of a k] mod_less_divisor [of k a] by (simp_all only: b_def add_diff_cancel_right') linarith+
  then have m: "min b ?n = b" using assms(1) by simp
  have "pager_slice items (setSize items nxt s) = pageSlice (jnat ?n) (jnat ?q) nxt"
    unfolding pager_slice_def setSize_def assms(2) [unfolded pager_slice_def] pageOfIndex_nat [OF k] by simp
  also have "\<dots> = \<lparr>ps_page = jnat ?q, ps_pageCount = jnat (page_count ?n k), ps_start = jnat b, ps_end = jnat (min (b + k) ?n)\<rparr>"
    unfolding pageSlice_clamp [OF k(2,1) q le_add2] b_def [symmetric] m ..
  finally show thesis using that b by blast
qed

text \<open>
  Changing the page size of a non-empty list keeps the row that was
  first on the page among the rows shown.
\<close>

lemma pager_setSize_anchor:
  assumes "items \<noteq> []"
  shows "hd (visible items s) \<in> set (visible items (setSize items nxt s)) \<and>
    to_nat (ps_start (pager_slice items (setSize items nxt s))) \<le> to_nat (ps_start (pager_slice items s)) \<and>
    to_nat (ps_start (pager_slice items s)) < to_nat (ps_end (pager_slice items (setSize items nxt s)))"
proof -
  let ?n = "length items" and ?s' = "setSize items nxt s"
  obtain p k a where k: "1 \<le> k" and a: "a < ?n" and
    sl: "pager_slice items s = \<lparr>ps_page = jnat p, ps_pageCount = jnat (page_count ?n k),
      ps_start = jnat a, ps_end = jnat (min (a + k) ?n)\<rparr>"
    unfolding pager_slice_def using assms by (rule pageSlice_row)
  have "ps_start (pager_slice items s) = jnat a" by (simp add: sl)
  then obtain k' b where b: "b \<le> a" "a < b + k'" and
    sl': "pager_slice items ?s' = \<lparr>ps_page = jnat (a div k' + 1), ps_pageCount = jnat (page_count ?n k'),
      ps_start = jnat b, ps_end = jnat (min (b + k') ?n)\<rparr>"
    by (rule setSize_slice [OF a])
  have v: "visible items s = take (min (a + k) ?n - a) (drop a items)"
    "visible items ?s' = take (min (b + k') ?n - b) (drop b items)"
    unfolding visible_def sl sl' cut_jnat by (rule HOL.refl)+
  have "hd (visible items s) = items ! a"
    unfolding v using a k by (simp add: hd_drop_conv_nth)
  moreover have "items ! a = visible items ?s' ! (a - b)" "a - b < length (visible items ?s')"
    unfolding v using a b by auto
  ultimately have "hd (visible items s) \<in> set (visible items ?s')" by simp
  with a b show ?thesis by (simp add: sl sl' del: of_nat_min)
qed

end
