(* ===== verification/Investigation.thy ===== *)
theory Investigation
  imports Live_Events
begin

section \<open>Timeline assembly and correlation (lib/investigation.ts)\<close>

text \<open>
  The timeline is sorted by \<open>compareEntries\<close> and deduplicated by reference; threshold
  crossings are the edges of a signal; the onset is the earliest crossing and causes are
  ranked by how closely they precede it. \<open>Date.prototype.toISOString\<close> (\<open>toISO\<close>), the translator
  (\<open>t\<close>) and \<open>String(number)\<close> (\<open>num_str\<close>) are arguments.
\<close>

datatype TimelineKind =
  k_event | k_audit | k_annotation | k_path_change | k_run | k_k8s | k_maintenance | k_threshold | k_alert

fun kind_name :: "TimelineKind \<Rightarrow> jstring" where
  "kind_name k_event = js ''event''"
| "kind_name k_audit = js ''audit''"
| "kind_name k_annotation = js ''annotation''"
| "kind_name k_path_change = js ''path-change''"
| "kind_name k_run = js ''run''"
| "kind_name k_k8s = js ''k8s''"
| "kind_name k_maintenance = js ''maintenance''"
| "kind_name k_threshold = js ''threshold''"
| "kind_name k_alert = js ''alert''"

lemma kind_name_inject [simp]: "kind_name a = kind_name b \<longleftrightarrow> a = b"
  by (cases a; cases b) simp_all

text \<open>Kinds compare as the strings they are.\<close>

instantiation TimelineKind :: linorder
begin

definition less_eq_TimelineKind :: "TimelineKind \<Rightarrow> TimelineKind \<Rightarrow> bool" where
  "a \<le> b \<longleftrightarrow> kind_name a \<le> kind_name b"

definition less_TimelineKind :: "TimelineKind \<Rightarrow> TimelineKind \<Rightarrow> bool" where
  "a < b \<longleftrightarrow> kind_name a < kind_name b"

instance
  by standard (auto simp: less_eq_TimelineKind_def less_TimelineKind_def less_le_not_le dest: order_antisym)

end

record TimelineEntry =
  te_at :: date
  te_kind :: TimelineKind
  te_severity :: severity
  te_title :: jstring
  te_detail :: "jstring option"
  te_detailTitle :: "jstring option"
  te_ref :: "(TimelineKind \<times> jstring) option"
  te_readOnly :: bool
  te_notACause :: bool

definition ref_id :: "TimelineEntry \<Rightarrow> jstring" where
  "ref_id e = (case te_ref e of None \<Rightarrow> [] | Some (k, i) \<Rightarrow> i)"

definition compareEntries :: "TimelineEntry \<Rightarrow> TimelineEntry \<Rightarrow> jsnum" where
  "compareEntries a b =
     (let byTime = te_at a - te_at b
      in if \<not> jeq byTime (Fin 0) then byTime
         else if te_kind a \<noteq> te_kind b then (if te_kind a < te_kind b then Fin (- 1) else Fin 1)
         else if ref_id a \<noteq> ref_id b then (if ref_id a < ref_id b then Fin (- 1) else Fin 1)
         else Fin 0)"

text \<open>The loop of \<open>mergeTimeline\<close>, with its nested \<open>seen\<close> map.\<close>

fun dedupe_refs :: "(TimelineKind, jstring list) jmap \<Rightarrow> TimelineEntry list \<Rightarrow> TimelineEntry list" where
  "dedupe_refs seen [] = []"
| "dedupe_refs seen (e # es) =
     (case te_ref e of
        None \<Rightarrow> e # dedupe_refs seen es
      | Some (k, i) \<Rightarrow>
          (let ids = (case map_of seen k of None \<Rightarrow> [] | Some ids \<Rightarrow> ids)
           in if i \<in> set ids then dedupe_refs (AList.update k ids seen) es
              else e # dedupe_refs (AList.update k (jadd i ids) seen) es))"

definition mergeTimeline :: "TimelineEntry list list \<Rightarrow> TimelineEntry list" where
  "mergeTimeline sources = dedupe_refs [] (js_sort compareEntries (concat sources))"

record ThresholdRules =
  lossPct :: jsnum
  rttFactor :: jsnum

definition DEFAULT_THRESHOLDS :: ThresholdRules where
  "DEFAULT_THRESHOLDS = \<lparr>lossPct = Fin 1, rttFactor = Fin 2\<rparr>"

record SignalSample =
  ss_at :: date
  ss_loss :: "jsnum option"
  ss_rttNs :: "jsnum option"

definition median :: "jsnum list \<Rightarrow> jsnum option" where
  "median values =
     (if values = [] then None
      else let sorted = js_sort num_cmp values; mid = length sorted div 2
           in Some (if length sorted mod 2 = 1 then sorted ! mid
                    else divide (sorted ! (mid - 1) + sorted ! mid) (Fin 2)))"

datatype signal = sig_loss | sig_rtt

definition signal_name :: "signal \<Rightarrow> jstring" where
  "signal_name s = (case s of sig_loss \<Rightarrow> js ''loss'' | sig_rtt \<Rightarrow> js ''rtt'')"

definition edge_name :: "bool \<Rightarrow> jstring" where
  "edge_name up = (if up then js ''above'' else js ''recovered'')"

definition crossing_entry :: "(date \<Rightarrow> jstring) \<Rightarrow> translator \<Rightarrow> signal \<Rightarrow> (jsnum \<Rightarrow> jstring) \<Rightarrow>
    bool \<Rightarrow> date \<times> jsnum \<Rightarrow> TimelineEntry" where
  "crossing_entry toISO t signal describe up sample =
     \<lparr>te_at = fst sample, te_kind = k_threshold, te_severity = (if up then sev_warn else sev_info),
      te_title = t (js ''entry.threshold.'' @ signal_name signal @ js ''.'' @ edge_name up) [],
      te_detail = Some (describe (snd sample)), te_detailTitle = None,
      te_ref = Some (k_threshold, signal_name signal @ js '':'' @ edge_name up @ js '':'' @ toISO (fst sample)),
      te_readOnly = False, te_notACause = False\<rparr>"

fun crossings_from :: "(date \<Rightarrow> jstring) \<Rightarrow> translator \<Rightarrow> signal \<Rightarrow> (jsnum \<Rightarrow> jstring) \<Rightarrow> jsnum \<Rightarrow>
    bool \<Rightarrow> (date \<times> jsnum) list \<Rightarrow> TimelineEntry list" where
  "crossings_from toISO t signal describe threshold was [] = []"
| "crossings_from toISO t signal describe threshold was (s # ss) =
     (if \<not> is_finite (fst s) then crossings_from toISO t signal describe threshold was ss
      else let up = (threshold < snd s)
           in if up = was then crossings_from toISO t signal describe threshold was ss
              else crossing_entry toISO t signal describe up s # crossings_from toISO t signal describe threshold up ss)"

definition crossings :: "(date \<Rightarrow> jstring) \<Rightarrow> translator \<Rightarrow> (date \<times> jsnum) list \<Rightarrow> jsnum \<Rightarrow> signal \<Rightarrow>
    (jsnum \<Rightarrow> jstring) \<Rightarrow> TimelineEntry list" where
  "crossings toISO t samples threshold signal describe = crossings_from toISO t signal describe threshold False samples"

definition formatPct :: "(jsnum \<Rightarrow> jstring) \<Rightarrow> jsnum \<Rightarrow> jstring" where
  "formatPct num_str ratio = to_fixed num_str 2 (ratio * Fin 100) @ js ''%''"

definition formatMs :: "(jsnum \<Rightarrow> jstring) \<Rightarrow> jsnum \<Rightarrow> jstring" where
  "formatMs num_str ns = to_fixed num_str 2 (divide ns (Fin 1000000)) @ js ''ms''"

definition by_at :: "SignalSample \<Rightarrow> SignalSample \<Rightarrow> jsnum" where
  "by_at a b = ss_at a - ss_at b"

definition signal_of :: "(SignalSample \<Rightarrow> jsnum option) \<Rightarrow> SignalSample list \<Rightarrow> (date \<times> jsnum) list" where
  "signal_of f ss = map (\<lambda>s. (ss_at s, the (f s))) (filter (\<lambda>s. f s \<noteq> None) ss)"

definition thresholdCrossings :: "(date \<Rightarrow> jstring) \<Rightarrow> (jsnum \<Rightarrow> jstring) \<Rightarrow> translator \<Rightarrow>
    SignalSample list \<Rightarrow> ThresholdRules \<Rightarrow> TimelineEntry list" where
  "thresholdCrossings toISO num_str t series rules =
     (let ordered = js_sort by_at series;
          lossEntries = crossings toISO t (signal_of ss_loss ordered) (divide (lossPct rules) (Fin 100)) sig_loss
            (\<lambda>v. t (js ''entry.threshold.loss.detail'')
               [(js ''value'', TS (formatPct num_str v)), (js ''threshold'', TS (num_str (lossPct rules) @ js ''%''))]);
          rttSamples = signal_of ss_rttNs ordered;
          rttEntries = (case median (map snd rttSamples) of
              None \<Rightarrow> []
            | Some baseline \<Rightarrow>
                if baseline \<le> Fin 0 then []
                else crossings toISO t rttSamples (baseline * rttFactor rules) sig_rtt
                  (\<lambda>v. t (js ''entry.threshold.rtt.detail'')
                     [(js ''value'', TS (formatMs num_str v)),
                      (js ''threshold'', TS (formatMs num_str (baseline * rttFactor rules))),
                      (js ''factor'', TN (rttFactor rules)), (js ''median'', TS (formatMs num_str baseline))]))
      in mergeTimeline [lossEntries, rttEntries])"

text \<open>The loop of \<open>anomalyOnset\<close>, with the onset found so far.\<close>

fun onset_from :: "date option \<Rightarrow> TimelineEntry list \<Rightarrow> date option" where
  "onset_from onset [] = onset"
| "onset_from onset (e # es) =
     (if te_kind e \<noteq> k_threshold \<or> te_severity e = sev_info then onset_from onset es
      else case onset of
        None \<Rightarrow> onset_from (Some (te_at e)) es
      | Some d \<Rightarrow> if te_at e < d then onset_from (Some (te_at e)) es else onset_from onset es)"

definition anomalyOnset :: "TimelineEntry list \<Rightarrow> date option" where
  "anomalyOnset entries = onset_from None entries"

fun CAUSE_WEIGHTS :: "TimelineKind \<Rightarrow> rat" where
  "CAUSE_WEIGHTS k_path_change = 3"
| "CAUSE_WEIGHTS k_k8s = 3"
| "CAUSE_WEIGHTS k_event = 2"
| "CAUSE_WEIGHTS k_audit = 2"
| "CAUSE_WEIGHTS k_maintenance = 1"
| "CAUSE_WEIGHTS k_annotation = 0"
| "CAUSE_WEIGHTS k_run = 0"
| "CAUSE_WEIGHTS k_threshold = 0"
| "CAUSE_WEIGHTS k_alert = 0"

definition DEFAULT_CAUSE_WINDOW_SECONDS :: jsnum where
  "DEFAULT_CAUSE_WINDOW_SECONDS = Fin 300"

record RankedCause =
  rc_entry :: TimelineEntry
  rc_score :: jsnum

definition compareCauses :: "RankedCause \<Rightarrow> RankedCause \<Rightarrow> jsnum" where
  "compareCauses a b =
     (if \<not> jeq (rc_score a) (rc_score b) then rc_score b - rc_score a
      else let byTime = te_at (rc_entry b) - te_at (rc_entry a)
      in if \<not> jeq byTime (Fin 0) then byTime
         else if te_kind (rc_entry a) \<noteq> te_kind (rc_entry b)
         then (if te_kind (rc_entry a) < te_kind (rc_entry b) then Fin (- 1) else Fin 1)
         else if ref_id (rc_entry a) \<noteq> ref_id (rc_entry b)
         then (if ref_id (rc_entry a) < ref_id (rc_entry b) then Fin (- 1) else Fin 1)
         else Fin 0)"

fun cause_of :: "jsnum \<Rightarrow> date \<Rightarrow> TimelineEntry \<Rightarrow> RankedCause option" where
  "cause_of windowSeconds onset e =
     (if te_readOnly e \<or> te_notACause e then None
      else let weight = CAUSE_WEIGHTS (te_kind e)
      in if weight \<le> 0 then None
         else let deltaSeconds = divide (onset - te_at e) (Fin 1000)
         in if deltaSeconds < Fin 0 \<or> windowSeconds < deltaSeconds then None
            else Some \<lparr>rc_entry = e, rc_score = Fin weight * (Fin 1 - divide deltaSeconds windowSeconds)\<rparr>)"

declare cause_of.simps [simp del]

definition rankCauses :: "TimelineEntry list \<Rightarrow> date \<Rightarrow> jsnum option \<Rightarrow> RankedCause list" where
  "rankCauses entries onset opt_window =
     (let windowSeconds = (case opt_window of None \<Rightarrow> DEFAULT_CAUSE_WINDOW_SECONDS | Some w \<Rightarrow> w)
      in if \<not> is_finite windowSeconds \<or> windowSeconds \<le> Fin 0 then []
         else js_sort compareCauses (List.map_filter (cause_of windowSeconds onset) entries))"

subsection \<open>The order of the timeline\<close>

definition timed :: "TimelineEntry set" where
  "timed = {e. is_finite (te_at e)}"

definition entry_key :: "TimelineEntry \<Rightarrow> rat \<times> TimelineKind \<times> jstring" where
  "entry_key e = (fin_val (te_at e), te_kind e, ref_id e)"

lemma gt_by_compareEntries:
  assumes "a \<in> timed" "b \<in> timed"
  shows "gt_by compareEntries a b \<longleftrightarrow> entry_key b < entry_key a"
proof -
  obtain ta tb where t: "te_at a = Fin ta" "te_at b = Fin tb"
    using assms by (auto simp: timed_def is_finite_iff)
  show ?thesis
    by (cases "ta = tb"; cases "te_kind a = te_kind b"; cases "ref_id a = ref_id b")
      (auto simp: gt_by_def compareEntries_def Let_def entry_key_def t less_prod_def')
qed

interpretation timeline: comparator_on compareEntries timed
  by (rule comparator_by_key [of _ _ entry_key]) (rule gt_by_compareEntries)

lemma before_compareEntries:
  "a \<in> timed \<Longrightarrow> b \<in> timed \<Longrightarrow> \<not> gt_by compareEntries a b \<longleftrightarrow> entry_key a \<le> entry_key b"
  by (simp add: gt_by_compareEntries not_less)

subsection \<open>Deduplication by reference\<close>

text \<open>What the loop means: the first entry of every reference, and every entry without one.\<close>

fun first_refs :: "(TimelineKind \<times> jstring) set \<Rightarrow> TimelineEntry list \<Rightarrow> TimelineEntry list" where
  "first_refs S [] = []"
| "first_refs S (e # es) =
     (case te_ref e of
        None \<Rightarrow> e # first_refs S es
      | Some r \<Rightarrow> if r \<in> S then first_refs S es else e # first_refs (insert r S) es)"

definition seen_refs :: "(TimelineKind, jstring list) jmap \<Rightarrow> (TimelineKind \<times> jstring) set" where
  "seen_refs seen = {(k, i). \<exists>ids. map_of seen k = Some ids \<and> i \<in> set ids}"

lemma seen_refs_lookup:
  "(k, i) \<in> seen_refs seen \<longleftrightarrow> i \<in> set (case map_of seen k of None \<Rightarrow> [] | Some ids \<Rightarrow> ids)"
  by (cases "map_of seen k") (simp_all add: seen_refs_def)

lemma seen_refs_add:
  "seen_refs (AList.update k (jadd i (case map_of seen k of None \<Rightarrow> [] | Some ids \<Rightarrow> ids)) seen) =
   insert (k, i) (seen_refs seen)"
  by (auto simp: seen_refs_def update_conv' split: if_splits option.splits)

lemma seen_refs_keep:
  "seen_refs (AList.update k (case map_of seen k of None \<Rightarrow> [] | Some ids \<Rightarrow> ids) seen) = seen_refs seen"
  by (auto simp: seen_refs_def update_conv' split: if_splits option.splits)

lemma dedupe_refs_first: "dedupe_refs seen es = first_refs (seen_refs seen) es"
proof (induction es arbitrary: seen)
  case (Cons e es)
  show ?case
  proof (cases "te_ref e")
    case None
    with Cons show ?thesis by simp
  next
    case (Some r)
    obtain k i where r: "r = (k, i)" by (cases r)
    define ids where "ids = (case map_of seen k of None \<Rightarrow> [] | Some ids \<Rightarrow> ids)"
    have "i \<in> set ids \<longleftrightarrow> (k, i) \<in> seen_refs seen" by (simp only: ids_def seen_refs_lookup)
    moreover have "seen_refs (AList.update k (jadd i ids) seen) = insert (k, i) (seen_refs seen)"
      "seen_refs (AList.update k ids seen) = seen_refs seen"
      by (simp_all only: ids_def seen_refs_add seen_refs_keep)
    moreover have "dedupe_refs seen (e # es) =
        (if i \<in> set ids then dedupe_refs (AList.update k ids seen) es
         else e # dedupe_refs (AList.update k (jadd i ids) seen) es)"
      using Some r by (simp only: dedupe_refs.simps option.case prod.case Let_def ids_def)
    ultimately show ?thesis using Cons Some r by simp
  qed
qed simp

lemma set_first_refs: "set (first_refs S es) \<subseteq> set es"
  by (induction S es rule: first_refs.induct) (auto split: option.splits if_splits)

lemma sorted_first_refs: "sorted_wrt P es \<Longrightarrow> sorted_wrt P (first_refs S es)"
proof (induction es arbitrary: S)
  case (Cons e es)
  then show ?case using set_first_refs by (fastforce split: option.split)
qed simp

definition refs :: "TimelineEntry list \<Rightarrow> (TimelineKind \<times> jstring) list" where
  "refs es = List.map_filter te_ref es"

lemma refs_simps [simp]:
  "refs [] = []"
  "refs (e # es) = (case te_ref e of None \<Rightarrow> refs es | Some r \<Rightarrow> r # refs es)"
  by (simp_all add: refs_def map_filter_simps split: option.split)

lemma in_refs: "r \<in> set (refs es) \<longleftrightarrow> (\<exists>e \<in> set es. te_ref e = Some r)"
  by (induction es) (auto split: option.split)

lemma distinct_first_refs: "distinct (refs (first_refs S es)) \<and> set (refs (first_refs S es)) \<inter> S = {}"
  by (induction S es rule: first_refs.induct) (auto split: option.split)

lemma first_refs_id: "distinct (refs es) \<Longrightarrow> set (refs es) \<inter> S = {} \<Longrightarrow> first_refs S es = es"
  by (induction es arbitrary: S) (auto split: option.split)

text \<open>What is dropped repeats a reference already seen or kept earlier in the list.\<close>

lemma first_refs_complete:
  assumes "e \<in> set es" "sorted_wrt P es" "reflp_on (set es) P"
  shows "e \<in> set (first_refs S es) \<or> (\<exists>r. te_ref e = Some r \<and>
    (r \<in> S \<or> (\<exists>e' \<in> set (first_refs S es). te_ref e' = Some r \<and> P e' e)))"
  using assms
proof (induction es arbitrary: S)
  case (Cons x xs)
  show ?case
  proof (cases "e = x")
    case True
    then show ?thesis by (auto split: option.split)
  next
    case False
    then have e: "e \<in> set xs" "P x e" using Cons.prems by auto
    have ih: "e \<in> set (first_refs S' xs) \<or> (\<exists>r. te_ref e = Some r \<and>
        (r \<in> S' \<or> (\<exists>e' \<in> set (first_refs S' xs). te_ref e' = Some r \<and> P e' e)))" for S'
      using Cons e by (auto intro: Cons.IH simp: reflp_on_def)
    show ?thesis
    proof (cases "te_ref x")
      case None
      with ih [of S] show ?thesis by auto
    next
      case (Some r)
      with ih [of S] ih [of "insert r S"] e(2) show ?thesis by auto
    qed
  qed
qed simp

subsection \<open>Edges of a signal\<close>

fun level_after :: "jsnum \<Rightarrow> bool \<Rightarrow> (date \<times> jsnum) list \<Rightarrow> bool" where
  "level_after threshold was [] = was"
| "level_after threshold was (s # ss) =
     level_after threshold (if is_finite (fst s) then threshold < snd s else was) ss"

lemma crossings_alternate:
  "i < length (crossings_from toISO t sg describe th was ss) \<Longrightarrow>
   te_severity (crossings_from toISO t sg describe th was ss ! i) = (if even i \<noteq> was then sev_warn else sev_info)"
proof (induction ss arbitrary: was i)
  case (Cons s ss)
  show ?case
  proof (cases "is_finite (fst s) \<and> (th < snd s) \<noteq> was")
    case True
    with Cons show ?thesis by (cases i) (auto simp: Let_def crossing_entry_def)
  next
    case False
    with Cons show ?thesis by (auto simp: Let_def)
  qed
qed simp

lemma crossings_parity:
  "odd (length (crossings_from toISO t sg describe th was ss)) \<longleftrightarrow> level_after th was ss \<noteq> was"
  by (induction ss arbitrary: was) (auto simp: Let_def)

lemma crossings_append:
  "crossings_from toISO t sg describe th was (xs @ ys) =
   crossings_from toISO t sg describe th was xs @ crossings_from toISO t sg describe th (level_after th was xs) ys"
  by (induction xs arbitrary: was) (auto simp: Let_def)

lemma level_after_last:
  "level_after th was ss = (case filter (\<lambda>s. is_finite (fst s)) ss of [] \<Rightarrow> was | vs \<Rightarrow> th < snd (last vs))"
proof (induction ss arbitrary: was)
  case (Cons s ss)
  then show ?case by (auto split: list.split)
qed simp

subsection \<open>The onset\<close>

definition anomalous :: "TimelineEntry \<Rightarrow> bool" where
  "anomalous e \<longleftrightarrow> te_kind e = k_threshold \<and> te_severity e \<noteq> sev_info"

lemma Min_insert_min: "finite M \<Longrightarrow> Min (insert (min a d) M) = Min (insert d (insert (a :: rat) M))"
  by (cases "M = {}") (simp_all add: ac_simps)

lemma onset_from_Some:
  assumes "\<forall>e \<in> set es. is_finite (te_at e)"
  shows "onset_from (Some (Fin d)) es = Some (Fin (Min (insert d (fin_val ` te_at ` {e \<in> set es. anomalous e}))))"
  using assms
proof (induction es arbitrary: d)
  case (Cons e es)
  then obtain a where a: "te_at e = Fin a" by (auto simp: is_finite_iff)
  show ?case
  proof (cases "anomalous e")
    case False
    then have "{x \<in> set (e # es). anomalous x} = {x \<in> set es. anomalous x}" by auto
    with Cons False show ?thesis by (simp add: anomalous_def)
  next
    case True
    let ?M = "fin_val ` te_at ` {x \<in> set es. anomalous x}"
    have s: "fin_val ` te_at ` {x \<in> set (e # es). anomalous x} = insert a ?M" using True a by force
    have "onset_from (Some (Fin d)) (e # es) = onset_from (Some (Fin (min a d))) es"
      using True a by (auto simp: anomalous_def min_def)
    also have "\<dots> = Some (Fin (Min (insert (min a d) ?M)))" using Cons by simp
    also have "Min (insert (min a d) ?M) = Min (insert d (insert a ?M))"
      by (rule Min_insert_min) simp
    finally show ?thesis using s by simp
  qed
qed simp

lemma anomalyOnset_Min:
  assumes "\<forall>e \<in> set es. is_finite (te_at e)"
  shows "anomalyOnset es = (if \<exists>e \<in> set es. anomalous e
    then Some (Fin (Min (fin_val ` te_at ` {e \<in> set es. anomalous e}))) else None)"
  using assms unfolding anomalyOnset_def
proof (induction es)
  case (Cons e es)
  then obtain a where a: "te_at e = Fin a" by (auto simp: is_finite_iff)
  show ?case
  proof (cases "anomalous e")
    case False
    then have "{x \<in> set (e # es). anomalous x} = {x \<in> set es. anomalous x}" by auto
    with Cons False show ?thesis by (auto simp: anomalous_def)
  next
    case True
    have s: "fin_val ` te_at ` {x \<in> set (e # es). anomalous x} =
        insert a (fin_val ` te_at ` {x \<in> set es. anomalous x})" using True a by force
    have "onset_from None (e # es) = onset_from (Some (Fin a)) es" using True a by (auto simp: anomalous_def)
    with onset_from_Some [of es a] Cons.prems True s show ?thesis by simp
  qed
qed simp

subsection \<open>Ranked causes\<close>

definition ranked :: "RankedCause set" where
  "ranked = {c. is_finite (rc_score c) \<and> is_finite (te_at (rc_entry c))}"

definition cause_key :: "RankedCause \<Rightarrow> rat \<times> rat \<times> TimelineKind \<times> jstring" where
  "cause_key c = (- fin_val (rc_score c), - fin_val (te_at (rc_entry c)), te_kind (rc_entry c), ref_id (rc_entry c))"

lemma gt_by_compareCauses:
  assumes "a \<in> ranked" "b \<in> ranked"
  shows "gt_by compareCauses a b \<longleftrightarrow> cause_key b < cause_key a"
proof -
  obtain sa sb ta tb where t: "rc_score a = Fin sa" "rc_score b = Fin sb"
    "te_at (rc_entry a) = Fin ta" "te_at (rc_entry b) = Fin tb"
    using assms by (auto simp: ranked_def is_finite_iff)
  show ?thesis
    by (cases "sa = sb"; cases "ta = tb"; cases "te_kind (rc_entry a) = te_kind (rc_entry b)";
        cases "ref_id (rc_entry a) = ref_id (rc_entry b)")
      (auto simp: gt_by_def compareCauses_def Let_def cause_key_def t less_prod_def')
qed

interpretation causes: comparator_on compareCauses ranked
  by (rule comparator_by_key [of _ _ cause_key]) (rule gt_by_compareCauses)

text \<open>An entry is a suspect when it is no read, has a weight and lies in the window before the onset.\<close>

definition suspect :: "rat \<Rightarrow> rat \<Rightarrow> TimelineEntry \<Rightarrow> bool" where
  "suspect w onset e \<longleftrightarrow> \<not> te_readOnly e \<and> \<not> te_notACause e \<and> 0 < CAUSE_WEIGHTS (te_kind e) \<and>
     fin_val (te_at e) \<le> onset \<and> onset - 1000 * w \<le> fin_val (te_at e)"

definition score :: "rat \<Rightarrow> rat \<Rightarrow> TimelineEntry \<Rightarrow> rat" where
  "score w onset e = CAUSE_WEIGHTS (te_kind e) * (1 - (onset - fin_val (te_at e)) / 1000 / w)"

lemma cause_of_suspect:
  assumes "is_finite (te_at e)" "0 < w"
  shows "cause_of (Fin w) (Fin onset) e =
    (if suspect w onset e then Some \<lparr>rc_entry = e, rc_score = Fin (score w onset e)\<rparr> else None)"
proof -
  obtain a where a: "te_at e = Fin a" using assms(1) by (auto simp: is_finite_iff)
  have "(onset - a) / 1000 < 0 \<longleftrightarrow> onset < a" "w < (onset - a) / 1000 \<longleftrightarrow> a < onset - 1000 * w"
    by (auto simp: field_simps)
  with a assms(2) show ?thesis
    by (auto simp: cause_of.simps Let_def suspect_def score_def)
qed

lemma score_bounds:
  assumes "suspect w onset e" "0 < w"
  shows "0 \<le> score w onset e \<and> score w onset e \<le> CAUSE_WEIGHTS (te_kind e)"
proof -
  define x where "x = (onset - fin_val (te_at e)) / 1000 / w"
  have x: "0 \<le> x" "x \<le> 1" using assms by (auto simp: x_def suspect_def field_simps)
  have w: "0 < CAUSE_WEIGHTS (te_kind e)" using assms(1) by (simp add: suspect_def)
  have "0 \<le> CAUSE_WEIGHTS (te_kind e) * (1 - x)" using w x by simp
  moreover have "CAUSE_WEIGHTS (te_kind e) * (1 - x) \<le> CAUSE_WEIGHTS (te_kind e) * 1"
    using w x by (intro mult_left_mono) auto
  ultimately show ?thesis by (simp add: score_def x_def)
qed

lemma map_filter_causes:
  assumes "\<forall>e \<in> set es. is_finite (te_at e)" "0 < w"
  shows "List.map_filter (cause_of (Fin w) (Fin onset)) es =
    map (\<lambda>e. \<lparr>rc_entry = e, rc_score = Fin (score w onset e)\<rparr>) (filter (suspect w onset) es)"
  using assms by (induction es) (auto simp: map_filter_simps cause_of_suspect)

subsection \<open>What the timeline guarantees\<close>

definition demo_entry :: "rat \<Rightarrow> TimelineKind \<Rightarrow> string \<Rightarrow> TimelineEntry" where
  "demo_entry ms k i = \<lparr>te_at = Fin ms, te_kind = k, te_severity = sev_warn, te_title = [], te_detail = None,
     te_detailTitle = None, te_ref = Some (k, js i), te_readOnly = False, te_notACause = False\<rparr>"

text \<open>
  When every entry has a readable instant, the merged timeline is
  sorted by time, kind and reference, repeats no reference, invents nothing, and loses
  nothing: an entry that is left out repeats the reference of one that is shown no later.
\<close>

lemma mergeTimeline_correct:
  assumes "set (concat sources) \<subseteq> timed"
  shows "sorted_wrt (\<lambda>a b. entry_key a \<le> entry_key b) (mergeTimeline sources) \<and>
    distinct (refs (mergeTimeline sources)) \<and>
    set (mergeTimeline sources) \<subseteq> set (concat sources) \<and>
    (\<forall>e \<in> set (concat sources). e \<in> set (mergeTimeline sources) \<or>
      (\<exists>e' \<in> set (mergeTimeline sources). te_ref e' = te_ref e \<and> te_ref e \<noteq> None \<and> entry_key e' \<le> entry_key e))"
proof -
  let ?s = "js_sort compareEntries (concat sources)" and ?le = "\<lambda>a b. entry_key a \<le> entry_key b"
  have m: "mergeTimeline sources = first_refs {} ?s"
    by (simp add: mergeTimeline_def dedupe_refs_first seen_refs_def)
  have sorted: "sorted_wrt ?le ?s"
    using timeline.sort_sorted [OF assms] assms
    by (auto elim!: sorted_wrt_mono_rel [rotated] simp: before_compareEntries subset_iff)
  have "reflp_on (set ?s) ?le" by (simp add: reflp_on_def)
  note complete = first_refs_complete [OF _ sorted this, of _ "{}"]
  show ?thesis
    unfolding m
  proof (intro conjI ballI)
    show "sorted_wrt ?le (first_refs {} ?s)" by (rule sorted_first_refs [OF sorted])
    show "distinct (refs (first_refs {} ?s))" using distinct_first_refs by blast
    show "set (first_refs {} ?s) \<subseteq> set (concat sources)" using set_first_refs [of "{}" ?s] by simp
    fix e assume "e \<in> set (concat sources)"
    then have "e \<in> set ?s" by simp
    from complete [OF this] show "e \<in> set (first_refs {} ?s) \<or>
      (\<exists>e' \<in> set (first_refs {} ?s). te_ref e' = te_ref e \<and> te_ref e \<noteq> None \<and> entry_key e' \<le> entry_key e)"
      by (elim disjE exE conjE bexE) auto
  qed
qed

text \<open>
  The timeline does not depend on the order in which the
  sources answered, as long as entries that tie on time, kind and reference are the same.
\<close>

lemma mergeTimeline_order_independent:
  assumes "set (concat xs) \<subseteq> timed" "mset (concat xs) = mset (concat ys)"
    and "\<forall>a \<in> set (concat xs). \<forall>b \<in> set (concat xs). entry_key a = entry_key b \<longrightarrow> a = b"
  shows "mergeTimeline xs = mergeTimeline ys"
proof -
  have "js_sort compareEntries (concat xs) = js_sort compareEntries (concat ys)"
  proof (rule timeline.sort_cong [OF assms(1,2)])
    fix a b assume ab: "a \<in> set (concat xs)" "b \<in> set (concat xs)"
      and le: "\<not> gt_by compareEntries a b" "\<not> gt_by compareEntries b a"
    then have "entry_key a = entry_key b"
      using before_compareEntries [of a b] before_compareEntries [of b a] assms(1) by (simp add: subset_iff order_antisym)
    with assms(3) ab show "a = b" by blast
  qed
  then show ?thesis by (simp add: mergeTimeline_def)
qed

text \<open>
  The rows derived from a signal are its edges: they alternate between an
  alarm and a recovery, starting with an alarm, and after any prefix of the samples the
  number of rows is odd exactly when the last readable sample is over the threshold.
\<close>

lemma crossings_edges:
  "(\<forall>i. i < length (crossings toISO t ss th sg describe) \<longrightarrow>
      te_severity (crossings toISO t ss th sg describe ! i) = (if even i then sev_warn else sev_info)) \<and>
   (odd (length (crossings toISO t ss th sg describe)) \<longleftrightarrow>
      (case filter (\<lambda>s. is_finite (fst s)) ss of [] \<Rightarrow> False | vs \<Rightarrow> th < snd (last vs))) \<and>
   (\<exists>rest. crossings toISO t (ss @ later) th sg describe = crossings toISO t ss th sg describe @ rest)"
  using crossings_alternate [of _ toISO t sg describe th False ss] crossings_parity [of toISO t sg describe th False ss]
  by (auto simp: crossings_def crossings_append simp flip: level_after_last)

text \<open>
  The onset is the earliest threshold crossing that is not a
  recovery, and there is none exactly when no such crossing is in the timeline.
\<close>

lemma anomalyOnset_earliest:
  assumes "\<forall>e \<in> set es. is_finite (te_at e)"
  shows "(anomalyOnset es = None \<longleftrightarrow> \<not> (\<exists>e \<in> set es. anomalous e)) \<and>
    (\<forall>d. anomalyOnset es = Some d \<longrightarrow> (\<exists>e \<in> set es. anomalous e \<and> te_at e = d) \<and>
      (\<forall>e \<in> set es. anomalous e \<longrightarrow> d \<le> te_at e))"
proof (cases "\<exists>e \<in> set es. anomalous e")
  case True
  let ?A = "{e \<in> set es. anomalous e}"
  have fin: "te_at e = Fin (fin_val (te_at e))" if "e \<in> ?A" for e
    using assms that by (auto simp: is_finite_iff)
  define m where "m = Min (fin_val ` te_at ` ?A)"
  have "m \<in> fin_val ` te_at ` ?A" unfolding m_def using True by (intro Min_in) auto
  then obtain e where e: "e \<in> ?A" "m = fin_val (te_at e)" by auto
  have "Fin m \<le> te_at x" if "x \<in> ?A" for x
  proof -
    have "m \<le> fin_val (te_at x)" unfolding m_def using that by (intro Min_le) auto
    then show ?thesis using fin [OF that] by (metis less_eq_jsnum.simps(1))
  qed
  moreover have "anomalyOnset es = Some (Fin m)"
    using anomalyOnset_Min [OF assms] True by (simp add: m_def)
  moreover have "te_at e = Fin m" using fin [OF e(1)] e(2) by simp
  ultimately show ?thesis using e(1) True by auto
next
  case False
  with anomalyOnset_Min [OF assms] show ?thesis by auto
qed

text \<open>
  C13: with a readable onset and a positive window, the causes listed are
  exactly the suspects of the timeline, once per entry, ordered by falling score; a suspect
  is no read, has a weight and happened in the window before the onset, and its score is
  between zero and its weight.
\<close>

theorem rankCauses_correct:
  assumes "\<forall>e \<in> set es. is_finite (te_at e)" "0 < w"
  shows "mset (map rc_entry (rankCauses es (Fin onset) (Some (Fin w)))) = mset (filter (suspect w onset) es) \<and>
    sorted_wrt (\<lambda>a b. rc_score b \<le> rc_score a) (rankCauses es (Fin onset) (Some (Fin w))) \<and>
    (\<forall>c \<in> set (rankCauses es (Fin onset) (Some (Fin w))). rc_score c = Fin (score w onset (rc_entry c)) \<and>
      0 \<le> score w onset (rc_entry c) \<and> score w onset (rc_entry c) \<le> CAUSE_WEIGHTS (te_kind (rc_entry c)))"
proof -
  let ?c = "map (\<lambda>e. \<lparr>rc_entry = e, rc_score = Fin (score w onset e)\<rparr>) (filter (suspect w onset) es)"
  have r: "rankCauses es (Fin onset) (Some (Fin w)) = js_sort compareCauses ?c"
    using assms(2) by (simp add: rankCauses_def map_filter_causes [OF assms])
  have sub: "set ?c \<subseteq> ranked" using assms(1) by (auto simp: ranked_def)
  have "sorted_wrt (\<lambda>a b. rc_score b \<le> rc_score a) (js_sort compareCauses ?c)"
  proof (rule sorted_wrt_mono_rel [OF _ causes.sort_sorted [OF sub]])
    fix a b assume ab: "a \<in> set (js_sort compareCauses ?c)" "b \<in> set (js_sort compareCauses ?c)"
      and "\<not> gt_by compareCauses a b"
    with sub have "\<not> cause_key b < cause_key a" using gt_by_compareCauses by (simp add: subset_iff)
    with ab show "rc_score b \<le> rc_score a" by (auto simp: cause_key_def less_prod_def')
  qed
  moreover have "mset (map rc_entry (js_sort compareCauses ?c)) = mset (filter (suspect w onset) es)"
    by (simp add: image_mset.compositionality comp_def)
  moreover have "\<forall>c \<in> set (js_sort compareCauses ?c). rc_score c = Fin (score w onset (rc_entry c)) \<and>
      0 \<le> score w onset (rc_entry c) \<and> score w onset (rc_entry c) \<le> CAUSE_WEIGHTS (te_kind (rc_entry c))"
    using score_bounds [OF _ assms(2)] by simp
  ultimately show ?thesis unfolding r by blast
qed

theorem rankCauses_correct_witness:
  "mset (map rc_entry (rankCauses [demo_entry 2000 k_k8s ''a'', demo_entry 9000 k_run ''b''] (Fin 3000) (Some (Fin 60)))) =
   {#demo_entry 2000 k_k8s ''a''#}"
  using rankCauses_correct [of "[demo_entry 2000 k_k8s ''a'', demo_entry 9000 k_run ''b'']" 60 3000]
  by (simp add: demo_entry_def suspect_def)

end
