(* ===== verification/Run_Samples.thy ===== *)
theory Run_Samples
  imports Js_Prelude
begin

section \<open>Samples of an interval run (lib/run-samples.ts)\<close>

text \<open>
  Grouping a run's results by pair, the aggregate of their latencies, the cadence they were
  observed at and the stored routes that cover a probe. \<open>parse\<close> is \<open>new Date(s).getTime()\<close>.
  A field of a result row that the body may lack is an option; \<open>durationNs\<close> is read as the
  unknown JSON value it is.

  Grouping is shown to be the stable partition by pair, the aggregate to describe exactly
  the successful latencies, and the percentile to be the nearest rank.
\<close>

record RunResult =
  rr_sourceNode :: "jstring option"
  rr_destinationNode :: "jstring option"
  rr_success :: bool
  rr_durationNs :: jsval
  rr_error :: "jstring option"
  rr_result :: jsval
  rr_recordedAt :: "jstring option"
  rr_sampleSeq :: nat

record PairSamples =
  grp_source :: jstring
  grp_destination :: jstring
  grp_samples :: "RunResult list"

record SampleAggregate =
  sent :: nat
  failed :: nat
  failRatio :: jsnum
  minNs :: "jsnum option"
  avgNs :: "jsnum option"
  maxNs :: "jsnum option"
  p95Ns :: "jsnum option"

subsection \<open>Operations\<close>

definition or_empty :: "jstring option \<Rightarrow> jstring" where
  "or_empty s = (case s of None \<Rightarrow> [] | Some x \<Rightarrow> x)"

definition pair_key :: "jstring \<Rightarrow> jstring \<Rightarrow> jstring" where
  "pair_key source destination = dec (length source) @ 0 # source @ destination"

definition add_sample :: "(jstring, PairSamples) jmap \<Rightarrow> RunResult \<Rightarrow> (jstring, PairSamples) jmap" where
  "add_sample byPair r =
     (let source = or_empty (rr_sourceNode r);
          destination = or_empty (rr_destinationNode r);
          key = pair_key source destination
      in case map_of byPair key of
           Some existing \<Rightarrow> AList.update key (existing\<lparr>grp_samples := grp_samples existing @ [r]\<rparr>) byPair
         | None \<Rightarrow> AList.update key \<lparr>grp_source = source, grp_destination = destination, grp_samples = [r]\<rparr> byPair)"

definition groupSamplesByPair :: "RunResult list \<Rightarrow> PairSamples list" where
  "groupSamplesByPair results = map snd (foldl add_sample [] results)"

definition percentileNs :: "jsnum list \<Rightarrow> jsnum \<Rightarrow> jsnum option" where
  "percentileNs sortedAsc p =
     (if sortedAsc = [] then None
      else let rank = jceil (divide p (Fin 100) * jnat (length sortedAsc));
               idx = jmin (jmax (rank - Fin 1) (Fin 0)) (jnat (length sortedAsc) - Fin 1)
           in array_at sortedAsc idx)"

fun isLatency :: "jsval \<Rightarrow> bool" where
  "isLatency (JNum n) \<longleftrightarrow> is_finite n \<and> Fin 0 \<le> n"
| "isLatency v \<longleftrightarrow> False"

fun num_of :: "jsval \<Rightarrow> jsnum" where
  "num_of (JNum n) = n"
| "num_of v = NaN"

definition okLatencies :: "RunResult list \<Rightarrow> jsnum list" where
  "okLatencies results = map (\<lambda>r. num_of (rr_durationNs r)) (filter (\<lambda>r. rr_success r \<and> isLatency (rr_durationNs r)) results)"

definition aggregateSamples :: "RunResult list \<Rightarrow> SampleAggregate" where
  "aggregateSamples results =
     (let n = length results;
          bad = length (filter (\<lambda>r. \<not> rr_success r) results);
          agg = \<lparr>sent = n, failed = bad, failRatio = (if n = 0 then Fin 0 else divide (jnat bad) (jnat n)),
                 minNs = None, avgNs = None, maxNs = None, p95Ns = None\<rparr>;
          ok = okLatencies results
      in if ok = [] then agg
         else let srt = js_sort num_cmp ok
              in agg\<lparr>minNs := Some (srt ! 0), maxNs := Some (srt ! (length srt - 1)),
                     avgNs := Some (divide (foldl (+) (Fin 0) srt) (jnat (length srt))),
                     p95Ns := percentileNs srt (Fin 95)\<rparr>)"

record ObservedCadence =
  oc_intervalNs :: jsnum
  oc_samplesPerPair :: jsnum
  oc_pairs :: nat

definition stamps_of :: "(jstring \<Rightarrow> jsnum) \<Rightarrow> PairSamples \<Rightarrow> jsnum list" where
  "stamps_of parse g = filter is_finite (map (\<lambda>s. parse (or_empty (rr_recordedAt s))) (grp_samples g))"

definition group_interval :: "(jstring \<Rightarrow> jsnum) \<Rightarrow> PairSamples \<Rightarrow> jsnum option" where
  "group_interval parse g =
     (let stamps = stamps_of parse g
      in if length stamps < 2 then None
         else let span = jmax_list stamps - jmin_list stamps
              in if \<not> Fin 0 < span then None
                 else Some (divide (span * Fin 1000000) (jnat (length stamps) - Fin 1)))"

definition observedCadence :: "(jstring \<Rightarrow> jsnum) \<Rightarrow> PairSamples list \<Rightarrow> ObservedCadence option" where
  "observedCadence parse groups =
     (let intervals = List.map_filter (group_interval parse) groups;
          minCount = foldl (\<lambda>m g. jmin m (jnat (length (grp_samples g)))) PInf groups
      in if intervals = [] then None
         else let srt = js_sort num_cmp intervals;
                  mid = length srt div 2;
                  i = (if length srt mod 2 = 1 then srt ! mid
                       else divide (srt ! (mid - 1) + srt ! mid) (Fin 2))
              in Some \<lparr>oc_intervalNs = i, oc_samplesPerPair = (if is_finite minCount then minCount else Fin 0),
                       oc_pairs = length intervals\<rparr>)"

record PathSnapshot =
  snap_id :: jstring
  firstSeen :: jstring
  lastSeen :: jstring

definition SNAPSHOT_START_GRACE_MS :: jsnum where
  "SNAPSHOT_START_GRACE_MS = Fin 5000"

definition covers :: "(jstring \<Rightarrow> jsnum) \<Rightarrow> jsnum \<Rightarrow> jsnum \<Rightarrow> PathSnapshot \<Rightarrow> bool" where
  "covers parse instant grace s \<longleftrightarrow>
     (let from = parse (firstSeen s); until = parse (lastSeen s)
      in is_finite from \<and> is_finite until \<and> from - grace \<le> instant \<and> instant \<le> until)"

definition coveringSnapshots :: "(jstring \<Rightarrow> jsnum) \<Rightarrow> PathSnapshot list \<Rightarrow> jstring option \<Rightarrow> PathSnapshot list" where
  "coveringSnapshots parse snapshots recordedAt =
     (if or_empty recordedAt = [] then []
      else let instant = parse (or_empty recordedAt)
      in if is_nan instant then []
         else let strict = filter (covers parse instant (Fin 0)) snapshots
              in if strict \<noteq> [] then strict else filter (covers parse instant SNAPSHOT_START_GRACE_MS) snapshots)"

subsection \<open>Grouping\<close>

definition pair_of :: "RunResult \<Rightarrow> jstring \<times> jstring" where
  "pair_of r = (or_empty (rr_sourceNode r), or_empty (rr_destinationNode r))"

definition group_of :: "RunResult list \<Rightarrow> jstring \<times> jstring \<Rightarrow> PairSamples" where
  "group_of rs p = \<lparr>grp_source = fst p, grp_destination = snd p, grp_samples = filter (\<lambda>r. pair_of r = p) rs\<rparr>"

lemma append_zero_inject:
  "0 \<notin> set (a :: jstring) \<Longrightarrow> 0 \<notin> set b \<Longrightarrow> a @ 0 # x = b @ 0 # y \<longleftrightarrow> a = b \<and> x = y"
  by (induction a arbitrary: b) (case_tac b; auto)+

lemma zero_not_digit: "0 \<notin> set (dec n)"
  using dec_digits [of 0 n] by (auto simp: is_digit_def)

text \<open>The length prefix makes the key unambiguous for any two names.\<close>

lemma pair_key_inject: "pair_key s d = pair_key s' d' \<longleftrightarrow> s = s' \<and> d = d'"
  by (auto simp: pair_key_def append_zero_inject zero_not_digit)

abbreviation key_of :: "jstring \<times> jstring \<Rightarrow> jstring" where
  "key_of p \<equiv> pair_key (fst p) (snd p)"

lemma inj_key_of: "inj key_of"
  by (auto simp: inj_def pair_key_inject)

lemma map_of_keyed:
  fixes k :: "'a \<Rightarrow> 'b"
  assumes "inj k"
  shows "map_of (map (\<lambda>p. (k p, f p)) ps) (k q) = (if q \<in> set ps then Some (f q) else None)"
  using assms by (induction ps) (auto simp: inj_eq)

lemma update_keyed:
  fixes k :: "'a \<Rightarrow> 'b"
  assumes "inj k" "distinct ps"
  shows "AList.update (k q) v (map (\<lambda>p. (k p, f p)) ps) =
    (if q \<in> set ps then map (\<lambda>p. (k p, if p = q then v else f p)) ps else map (\<lambda>p. (k p, f p)) ps @ [(k q, v)])"
  using assms by (induction ps) (auto simp: inj_eq)

lemma add_sample_step:
  fixes rs r
  defines "m \<equiv> map (\<lambda>p. (key_of p, group_of rs p)) (js_set (map pair_of rs))"
  shows "add_sample m r = map (\<lambda>p. (key_of p, group_of (rs @ [r]) p)) (js_set (map pair_of (rs @ [r])))"
proof -
  let ?ps = "js_set (map pair_of rs)"
  define q where "q = pair_of r"
  have add: "add_sample m r = (case map_of m (key_of q) of
      Some g \<Rightarrow> AList.update (key_of q) (g\<lparr>grp_samples := grp_samples g @ [r]\<rparr>) m
    | None \<Rightarrow> AList.update (key_of q) \<lparr>grp_source = fst q, grp_destination = snd q, grp_samples = [r]\<rparr> m)"
    unfolding add_sample_def Let_def q_def pair_of_def fst_conv snd_conv ..
  have look: "map_of m (key_of q) = (if q \<in> set ?ps then Some (group_of rs q) else None)"
    unfolding m_def by (rule map_of_keyed [OF inj_key_of])
  have upd: "AList.update (key_of q) v m = (if q \<in> set ?ps then map (\<lambda>p. (key_of p, if p = q then v else group_of rs p)) ?ps
      else m @ [(key_of q, v)])" for v
    unfolding m_def by (rule update_keyed [OF inj_key_of distinct_js_set])
  have other: "group_of (rs @ [r]) p = group_of rs p" if "p \<noteq> q" for p
    using that by (simp add: group_of_def q_def)
  show ?thesis
  proof (cases "q \<in> set ?ps")
    case True
    then have "js_set (map pair_of (rs @ [r])) = ?ps" by (simp add: js_set_snoc jadd_def q_def)
    moreover have "(group_of rs q)\<lparr>grp_samples := grp_samples (group_of rs q) @ [r]\<rparr> = group_of (rs @ [r]) q"
      by (simp add: group_of_def q_def)
    ultimately show ?thesis
      unfolding add look upd using True other by (simp del: set_js_set map_append)
  next
    case False
    then have new: "js_set (map pair_of (rs @ [r])) = ?ps @ [q]" by (simp add: js_set_snoc jadd_def q_def)
    have "filter (\<lambda>x. pair_of x = q) rs = []" using False by (simp add: filter_empty_conv) (metis imageI)
    then have "group_of (rs @ [r]) q = \<lparr>grp_source = fst q, grp_destination = snd q, grp_samples = [r]\<rparr>"
      by (simp add: group_of_def q_def)
    moreover have "map (\<lambda>p. (key_of p, group_of (rs @ [r]) p)) ?ps = m"
      unfolding m_def using False other by (intro map_cong HOL.refl) (metis)
    ultimately show ?thesis
      unfolding add look upd new using False by simp
  qed
qed

lemma foldl_add_sample:
  "foldl add_sample [] rs = map (\<lambda>p. (key_of p, group_of rs p)) (js_set (map pair_of rs))"
proof (induction rs rule: rev_induct)
  case Nil
  then show ?case by (simp add: js_set_def)
next
  case (snoc r rs)
  then show ?case by (simp add: add_sample_step del: map_append)
qed

subsection \<open>Latencies\<close>

lemma okLatencies_finite:
  obtains xs where "okLatencies rs = map Fin xs" "\<forall>x \<in> set xs. 0 \<le> x"
proof -
  have "\<exists>xs. okLatencies rs = map Fin xs \<and> (\<forall>x \<in> set xs. 0 \<le> x)"
  proof (induction rs)
    case (Cons r rs)
    then obtain xs where xs: "okLatencies rs = map Fin xs" "\<forall>x \<in> set xs. 0 \<le> x" by blast
    show ?case
    proof (cases "rr_success r \<and> isLatency (rr_durationNs r)")
      case True
      then obtain x where x: "rr_durationNs r = JNum (Fin x)" "0 \<le> x"
        by (cases "rr_durationNs r") (auto simp: is_finite_iff)
      with xs True show ?thesis by (intro exI [of _ "x # xs"]) (simp add: okLatencies_def)
    next
      case False
      with xs show ?thesis by (intro exI [of _ xs]) (auto simp: okLatencies_def)
    qed
  qed (simp add: okLatencies_def)
  with that show thesis by blast
qed

lemma foldl_plus_Fin: "foldl (+) (Fin a) (map Fin xs) = Fin (a + sum_list xs)"
  by (induction xs arbitrary: a) (simp_all add: ac_simps)

lemma sorted_hd_last: "sorted xs \<Longrightarrow> xs \<noteq> [] \<Longrightarrow> xs ! 0 = Min (set xs) \<and> xs ! (length xs - 1) = Max (set (xs :: rat list))"
proof -
  assume s: "sorted xs" and ne: "xs \<noteq> []"
  have "x \<in> set xs \<Longrightarrow> xs ! 0 \<le> x \<and> x \<le> xs ! (length xs - 1)" for x
    using s by (auto simp: in_set_conv_nth sorted_iff_nth_mono)
  moreover have "xs ! 0 \<in> set xs" "xs ! (length xs - 1) \<in> set xs" using ne by (auto intro: nth_mem)
  ultimately show ?thesis by (metis List.finite_set Max_eqI Min_eqI)
qed

lemma sum_list_bounds:
  "\<forall>x \<in> set xs. a \<le> x \<and> x \<le> b \<Longrightarrow> of_nat (length xs) * a \<le> sum_list xs \<and> sum_list xs \<le> of_nat (length xs) * (b :: rat)"
  by (induction xs) (auto simp: algebra_simps)

text \<open>How many values of a sorted list lie at or below, and strictly below, its entry \<open>i\<close>.\<close>

lemma length_filter_split: "length (filter P xs) = length (filter P (take n xs)) + length (filter P (drop n xs))"
  by (metis append_take_drop_id filter_append length_append)

lemma count_le_nth:
  assumes "sorted xs" "i < length xs"
  shows "Suc i \<le> length (filter (\<lambda>y. y \<le> xs ! i) (xs :: rat list))"
proof -
  have "filter (\<lambda>y. y \<le> xs ! i) (take (Suc i) xs) = take (Suc i) xs"
    using assms by (auto simp: filter_id_conv in_set_conv_nth sorted_iff_nth_mono)
  then show ?thesis
    using assms(2) length_filter_split [of "\<lambda>y. y \<le> xs ! i" xs "Suc i"] by simp
qed

lemma count_less_nth:
  assumes "sorted xs" "i < length xs"
  shows "length (filter (\<lambda>y. y < xs ! i) (xs :: rat list)) \<le> i"
proof -
  have "filter (\<lambda>y. y < xs ! i) (drop i xs) = []"
    using assms by (auto simp: filter_empty_conv in_set_conv_nth sorted_iff_nth_mono not_less)
  then show ?thesis
    using length_filter_split [of "\<lambda>y. y < xs ! i" xs i] length_filter_le [of "\<lambda>y. y < xs ! i" "take i xs"]
    by simp
qed

lemma percentile_rank:
  assumes "xs \<noteq> []" "0 < p" "p \<le> 100"
  obtains i where "i < length xs" "of_nat i < p / 100 * of_nat (length xs)" "p / 100 * of_nat (length xs) \<le> of_nat (Suc i)"
    "percentileNs (map Fin xs) (Fin p) = Some (Fin (xs ! i))"
proof -
  define n where "n = length xs"
  define q where "q = p / 100 * of_nat n"
  have n: "0 < n" using assms(1) by (simp add: n_def)
  have q: "0 < q" "q \<le> of_nat n" using assms n by (auto simp: q_def field_simps)
  have c: "of_int \<lceil>q\<rceil> - 1 < q" "q \<le> of_int \<lceil>q\<rceil>" by linarith+
  have r: "1 \<le> \<lceil>q\<rceil>" "\<lceil>q\<rceil> \<le> int n" using q by (auto simp: ceiling_le_iff one_le_ceiling)
  define i where "i = nat \<lceil>q\<rceil> - 1"
  have i: "i < n" "int i = \<lceil>q\<rceil> - 1" using r unfolding i_def by linarith+
  then have oi: "(of_nat i :: rat) = of_int \<lceil>q\<rceil> - 1" by (metis of_int_1 of_int_diff of_int_of_nat_eq)
  have "min (max (of_int \<lceil>q\<rceil> - 1) 0) (of_nat n - 1) = (of_nat i :: rat)"
  proof -
    have "(of_nat (Suc i) :: rat) \<le> of_nat n" using i(1) by (subst of_nat_le_iff) simp
    then show ?thesis unfolding oi [symmetric] by simp
  qed
  then have idx: "jmin (jmax (jceil (divide (Fin p) (Fin 100) * jnat n) - Fin 1) (Fin 0)) (jnat n - Fin 1) = jnat i"
    by (simp add: q_def)
  show thesis
  proof (rule that [of i])
    show "percentileNs (map Fin xs) (Fin p) = Some (Fin (xs ! i))"
      using assms(1) i(1) idx by (simp only: percentileNs_def Let_def length_map n_def [symmetric])
        (simp add: array_at_jnat n_def del: array_at.simps)
  qed (use i(1) oi c in \<open>simp_all add: n_def q_def\<close>)
qed

lemma aggregate_counts:
  "sent (aggregateSamples rs) = length rs"
  "failed (aggregateSamples rs) = length (filter (\<lambda>r. \<not> rr_success r) rs)"
  "Fin 0 \<le> failRatio (aggregateSamples rs)" "failRatio (aggregateSamples rs) \<le> Fin 1"
proof -
  have "(of_nat (length (filter (\<lambda>r. \<not> rr_success r) rs)) :: rat) \<le> of_nat (length rs)"
    by (subst of_nat_le_iff) (rule length_filter_le)
  then show "Fin 0 \<le> failRatio (aggregateSamples rs)" "failRatio (aggregateSamples rs) \<le> Fin 1"
    by (simp_all add: aggregateSamples_def Let_def divide_le_eq)
qed (simp_all add: aggregateSamples_def Let_def)

lemma aggregate_empty:
  assumes "okLatencies rs = []"
  shows "minNs (aggregateSamples rs) = None" "avgNs (aggregateSamples rs) = None"
    "maxNs (aggregateSamples rs) = None" "p95Ns (aggregateSamples rs) = None"
  using assms by (simp_all add: aggregateSamples_def Let_def)

lemma aggregate_fields:
  assumes "okLatencies rs = map Fin xs" "xs \<noteq> []" "ys = sort xs"
  shows "minNs (aggregateSamples rs) = Some (Fin (ys ! 0))"
    "maxNs (aggregateSamples rs) = Some (Fin (ys ! (length ys - 1)))"
    "avgNs (aggregateSamples rs) = Some (Fin (sum_list ys / of_nat (length ys)))"
    "p95Ns (aggregateSamples rs) = percentileNs (map Fin ys) (Fin 95)"
proof -
  have ne: "okLatencies rs \<noteq> []" "0 < length ys" using assms by auto
  have srt: "js_sort num_cmp (okLatencies rs) = map Fin ys" using assms by (simp add: js_sort_num)
  have agg: "minNs (aggregateSamples rs) = Some (map Fin ys ! 0)"
    "maxNs (aggregateSamples rs) = Some (map Fin ys ! (length (map Fin ys) - 1))"
    "avgNs (aggregateSamples rs) = Some (divide (foldl (+) (Fin 0) (map Fin ys)) (jnat (length (map Fin ys))))"
    "p95Ns (aggregateSamples rs) = percentileNs (map Fin ys) (Fin 95)"
    using ne(1) by (simp_all add: aggregateSamples_def Let_def srt)
  show "minNs (aggregateSamples rs) = Some (Fin (ys ! 0))"
    "maxNs (aggregateSamples rs) = Some (Fin (ys ! (length ys - 1)))"
    "avgNs (aggregateSamples rs) = Some (Fin (sum_list ys / of_nat (length ys)))"
    using ne(2) unfolding agg foldl_plus_Fin by simp_all
  show "p95Ns (aggregateSamples rs) = percentileNs (map Fin ys) (Fin 95)" by (rule agg)
qed

lemma aggregate_latencies:
  assumes "okLatencies rs \<noteq> []"
  shows "\<exists>lo avg hi p. minNs (aggregateSamples rs) = Some (Fin lo) \<and> avgNs (aggregateSamples rs) = Some (Fin avg) \<and>
         maxNs (aggregateSamples rs) = Some (Fin hi) \<and> p95Ns (aggregateSamples rs) = Some (Fin p) \<and>
         {Fin lo, Fin hi, Fin p} \<subseteq> set (okLatencies rs) \<and> 0 \<le> lo \<and> lo \<le> avg \<and> avg \<le> hi \<and>
         (\<forall>x. Fin x \<in> set (okLatencies rs) \<longrightarrow> lo \<le> x \<and> x \<le> hi)"
proof -
  obtain xs where xs: "okLatencies rs = map Fin xs" "\<forall>x \<in> set xs. 0 \<le> x" by (rule okLatencies_finite)
  define ys where "ys = sort xs"
  have ne: "xs \<noteq> []" using assms xs(1) by simp
  have ys: "sorted ys" "ys \<noteq> []" "set ys = set xs" by (simp_all add: ys_def) (use ne in \<open>metis set_empty set_sort\<close>)
  note f = aggregate_fields [OF xs(1) ne ys_def]
  obtain i where i: "i < length ys" "percentileNs (map Fin ys) (Fin 95) = Some (Fin (ys ! i))"
    by (rule percentile_rank [OF ys(2), of 95]) (simp, simp, rule that)
  let ?lo = "ys ! 0" and ?hi = "ys ! (length ys - 1)" and ?avg = "sum_list ys / of_nat (length ys)"
  have bounds: "\<forall>x \<in> set ys. ?lo \<le> x \<and> x \<le> ?hi" using sorted_hd_last [OF ys(1,2)] by simp
  have "0 < (of_nat (length ys) :: rat)" using ys(2) by simp
  then have avg: "?lo \<le> ?avg" "?avg \<le> ?hi"
    using sum_list_bounds [OF bounds] by (simp_all only: pos_le_divide_eq pos_divide_le_eq mult.commute)
  have mem: "?lo \<in> set xs" "?hi \<in> set xs" "ys ! i \<in> set xs"
    using ys(2,3) nth_mem [OF i(1)] nth_mem [of 0 ys] nth_mem [of "length ys - 1" ys] by simp_all
  have range: "\<forall>x. Fin x \<in> set (okLatencies rs) \<longrightarrow> ?lo \<le> x \<and> x \<le> ?hi" using bounds by (simp add: xs(1) ys(3) image_iff)
  show ?thesis
  proof (intro exI conjI)
    show "minNs (aggregateSamples rs) = Some (Fin ?lo)" "avgNs (aggregateSamples rs) = Some (Fin ?avg)"
      "maxNs (aggregateSamples rs) = Some (Fin ?hi)" by (rule f)+
    show "p95Ns (aggregateSamples rs) = Some (Fin (ys ! i))" using f(4) i(2) by simp
    show "{Fin ?lo, Fin ?hi, Fin (ys ! i)} \<subseteq> set (okLatencies rs)" using mem xs(1) by simp
    show "0 \<le> ?lo" using mem(1) xs(2) by blast
  qed (rule avg range)+
qed

subsection \<open>What the run permalink may rely on\<close>

definition demo_result :: "string \<Rightarrow> string \<Rightarrow> bool \<Rightarrow> rat \<Rightarrow> RunResult" where
  "demo_result a b ok ns = \<lparr>rr_sourceNode = Some (js a), rr_destinationNode = Some (js b), rr_success = ok,
     rr_durationNs = JNum (Fin ns), rr_error = None, rr_result = JUndef, rr_recordedAt = None, rr_sampleSeq = 0\<rparr>"

text \<open>
  Grouping is the stable partition of the results by their
  pair: one group per pair of names, whatever characters the names contain, in first-seen
  order, each with exactly its pair's results in completion order.
\<close>

lemma groupSamplesByPair_partition:
  "groupSamplesByPair rs = map (group_of rs) (js_set (map pair_of rs))"
  by (simp add: groupSamplesByPair_def foldl_add_sample)

text \<open>
  Over a sorted list, the percentile returned is a value that
  was measured, at least \<open>p\<close> per cent of the values are at or below it, and fewer than \<open>p\<close> per
  cent are below it.
\<close>

lemma percentileNs_nearest_rank:
  assumes "sorted xs" "xs \<noteq> []" "0 < p" "p \<le> 100"
  shows "\<exists>x \<in> set xs. percentileNs (map Fin xs) (Fin p) = Some (Fin x) \<and>
    p / 100 * of_nat (length xs) \<le> of_nat (length (filter (\<lambda>y. y \<le> x) xs)) \<and>
    of_nat (length (filter (\<lambda>y. y < x) xs)) < p / 100 * of_nat (length xs)"
proof -
  obtain i where i: "i < length xs" "of_nat i < p / 100 * of_nat (length xs)"
    "p / 100 * of_nat (length xs) \<le> of_nat (Suc i)" "percentileNs (map Fin xs) (Fin p) = Some (Fin (xs ! i))"
    using percentile_rank [OF assms(2-4)] by blast
  have "(of_nat (Suc i) :: rat) \<le> of_nat (length (filter (\<lambda>y. y \<le> xs ! i) xs))"
    by (subst of_nat_le_iff) (rule count_le_nth [OF assms(1) i(1)])
  moreover have "(of_nat (length (filter (\<lambda>y. y < xs ! i) xs)) :: rat) \<le> of_nat i"
    by (subst of_nat_le_iff) (rule count_less_nth [OF assms(1) i(1)])
  ultimately show ?thesis
    by (intro bexI [of _ "xs ! i"] conjI i(4)) (use i in \<open>auto intro: order_trans le_less_trans\<close>)
qed

text \<open>
  The aggregate counts every sample and every failure, its fail
  ratio is between zero and one, and it has latencies exactly when a successful sample has
  one. Then minimum and maximum are those of the successful latencies alone, the mean lies
  between them, and the 95th percentile is one of the latencies measured.
\<close>

lemma aggregateSamples_correct:
  "sent (aggregateSamples rs) = length rs \<and>
   failed (aggregateSamples rs) = length (filter (\<lambda>r. \<not> rr_success r) rs) \<and>
   Fin 0 \<le> failRatio (aggregateSamples rs) \<and> failRatio (aggregateSamples rs) \<le> Fin 1 \<and>
   (if okLatencies rs = []
    then minNs (aggregateSamples rs) = None \<and> avgNs (aggregateSamples rs) = None \<and>
         maxNs (aggregateSamples rs) = None \<and> p95Ns (aggregateSamples rs) = None
    else \<exists>lo avg hi p. minNs (aggregateSamples rs) = Some (Fin lo) \<and> avgNs (aggregateSamples rs) = Some (Fin avg) \<and>
         maxNs (aggregateSamples rs) = Some (Fin hi) \<and> p95Ns (aggregateSamples rs) = Some (Fin p) \<and>
         {Fin lo, Fin hi, Fin p} \<subseteq> set (okLatencies rs) \<and> 0 \<le> lo \<and> lo \<le> avg \<and> avg \<le> hi \<and>
         (\<forall>x. Fin x \<in> set (okLatencies rs) \<longrightarrow> lo \<le> x \<and> x \<le> hi))"
proof (intro conjI)
  show "if okLatencies rs = []
    then minNs (aggregateSamples rs) = None \<and> avgNs (aggregateSamples rs) = None \<and>
         maxNs (aggregateSamples rs) = None \<and> p95Ns (aggregateSamples rs) = None
    else \<exists>lo avg hi p. minNs (aggregateSamples rs) = Some (Fin lo) \<and> avgNs (aggregateSamples rs) = Some (Fin avg) \<and>
         maxNs (aggregateSamples rs) = Some (Fin hi) \<and> p95Ns (aggregateSamples rs) = Some (Fin p) \<and>
         {Fin lo, Fin hi, Fin p} \<subseteq> set (okLatencies rs) \<and> 0 \<le> lo \<and> lo \<le> avg \<and> avg \<le> hi \<and>
         (\<forall>x. Fin x \<in> set (okLatencies rs) \<longrightarrow> lo \<le> x \<and> x \<le> hi)"
  proof (cases "okLatencies rs = []")
    case True
    then show ?thesis by (simp add: aggregate_empty)
  next
    case False
    then show ?thesis unfolding if_not_P [OF False] by (rule aggregate_latencies)
  qed
qed (simp_all add: aggregate_counts)

end
