(* ===== verification/Run_Cadence.thy ===== *)
theory Run_Cadence
  imports Run_Samples
begin

section \<open>Planned cadence of an interval run (lib/run-samples.ts)\<close>

text \<open>
  The client's mirror of the server's planner, the progress frame of a pair and the
  spellings of a duration. \<open>to_num\<close> is \<open>Number(x)\<close> on a value that is not a number, and
  \<open>num_str\<close> is \<open>String(x)\<close> on a number that is not an integer below \<open>10\<^sup>2\<^sup>1\<close>. A unit table has
  the two locales the console ships, with English for any other.

  Plans are shown to stay within the sample cap, to keep a request or say why not, and to
  leave room for a round of a slow check; a progress frame always adds up; and a cadence
  is spelled exactly.
\<close>

record RunDetail =
  rd_spec :: jsval
  rd_type :: jstring
  rd_pairTotal :: jsval

fun duration_of :: "jsval \<Rightarrow> jsnum" where
  "duration_of (JNum d) = (if is_finite d \<and> Fin 0 < d then d else Fin 0)"
| "duration_of v = Fin 0"

definition runDurationNs :: "RunDetail option \<Rightarrow> jsnum" where
  "runDurationNs run =
     (case run of None \<Rightarrow> Fin 0
      | Some r \<Rightarrow> if \<not> is_object (rd_spec r) then Fin 0 else duration_of (jfield (rd_spec r) (js ''Duration'')))"

definition isIntervalRun :: "RunDetail option \<Rightarrow> bool" where
  "isIntervalRun run \<longleftrightarrow> Fin 0 < runDurationNs run"

definition MAX_SAMPLES_PER_PAIR :: jsnum where
  "MAX_SAMPLES_PER_PAIR = Fin 500"

definition MIN_SAMPLE_INTERVAL_NS :: jsnum where
  "MIN_SAMPLE_INTERVAL_NS = Fin 5000000000"

definition sampleIntervalNs :: "jsnum \<Rightarrow> jsnum" where
  "sampleIntervalNs durationNs =
     (if \<not> Fin 0 < durationNs \<or> \<not> is_finite durationNs then Fin 0
      else jmax (jfloor (divide durationNs MAX_SAMPLES_PER_PAIR)) MIN_SAMPLE_INTERVAL_NS)"

definition plannedSamplesPerPair :: "jsnum \<Rightarrow> jsnum" where
  "plannedSamplesPerPair durationNs =
     (let interval = sampleIntervalNs durationNs
      in if interval \<le> Fin 0 then Fin 1
         else jmin (jmax (jfloor (divide durationNs interval)) (Fin 1)) MAX_SAMPLES_PER_PAIR)"

record PairProgress =
  pp_planned :: jsnum
  pp_expected :: jsnum
  pp_arrived :: jsnum
  pp_remaining :: jsnum
  pp_remainingNs :: jsnum
  pp_framed :: bool

definition pairProgress :: "jsnum \<Rightarrow> jsnum \<Rightarrow> (jsnum \<times> jsnum) option \<Rightarrow> PairProgress" where
  "pairProgress durationNs arrived cadence =
     (let planned = (case cadence of
            Some (i, n) \<Rightarrow> if is_finite n \<and> Fin 1 \<le> n then jfloor n else plannedSamplesPerPair durationNs
          | None \<Rightarrow> plannedSamplesPerPair durationNs);
          intervalNs = (case cadence of
            Some (i, n) \<Rightarrow> if is_finite i \<and> Fin 0 < i then i else sampleIntervalNs durationNs
          | None \<Rightarrow> sampleIntervalNs durationNs);
          count = (if is_finite arrived \<and> Fin 0 < arrived then jfloor arrived else Fin 0);
          expected = jmax planned count;
          remaining = jmax (expected - count) (Fin 0)
      in \<lparr>pp_planned = planned, pp_expected = expected, pp_arrived = count, pp_remaining = remaining,
          pp_remainingNs = remaining * intervalNs, pp_framed = (Fin 1 < expected)\<rparr>)"

subsection \<open>The planner's mirror\<close>

definition MTR_PER_PAIR_BUDGET_NS :: jsnum where
  "MTR_PER_PAIR_BUDGET_NS = Fin 90000000000"

definition PMTU_PER_PAIR_BUDGET_NS :: jsnum where
  "PMTU_PER_PAIR_BUDGET_NS = Fin 15000000000"

definition MAX_CONCURRENCY :: jsnum where
  "MAX_CONCURRENCY = Fin 8"

definition MAX_PER_SOURCE_CONCURRENCY :: jsnum where
  "MAX_PER_SOURCE_CONCURRENCY = Fin 2"

definition perPairBudgetNs :: "jstring \<Rightarrow> jsnum" where
  "perPairBudgetNs checkType =
     (if checkType = js ''mtr'' then MTR_PER_PAIR_BUDGET_NS
      else if checkType = js ''pmtu'' then PMTU_PER_PAIR_BUDGET_NS else Fin 0)"

definition ceilDiv :: "jsnum \<Rightarrow> jsnum \<Rightarrow> jsnum" where
  "ceilDiv a b = (if b \<le> Fin 0 then a else jmax (jceil (divide a b)) (Fin 1))"

definition asCount :: "(jsval \<Rightarrow> jsnum) \<Rightarrow> jsval \<Rightarrow> jsnum" where
  "asCount to_num n =
     (let v = (case n of JNum x \<Rightarrow> x | _ \<Rightarrow> to_num n)
      in if is_finite v \<and> Fin 0 < v then jfloor v else Fin 0)"

definition baseSampleIntervalNs :: "jsnum \<Rightarrow> jsnum \<Rightarrow> jsnum" where
  "baseSampleIntervalNs durationNs requestedNs =
     (let derived = sampleIntervalNs durationNs
      in if derived \<le> Fin 0 then Fin 0
         else if \<not> Fin 0 < requestedNs \<or> \<not> is_finite requestedNs then derived
         else jmax requestedNs (jfloor (divide durationNs MAX_SAMPLES_PER_PAIR)))"

datatype CadenceAdjustment = adj_none | adj_cap | adj_round

record PlannedCadence =
  pc_requestedNs :: jsnum
  pc_baseNs :: jsnum
  pc_intervalNs :: jsnum
  pc_samplesPerPair :: jsnum
  pc_adjusted :: CadenceAdjustment

text \<open>One round's floor: the slower of the two concurrency gates, times the budget.\<close>

definition round_floor :: "jsnum \<Rightarrow> jsnum \<Rightarrow> jsnum \<Rightarrow> jsnum" where
  "round_floor budget pairs sources =
     (let perSource = (if Fin 0 < sources then ceilDiv pairs sources else pairs);
          batches = jmax (ceilDiv pairs MAX_CONCURRENCY) (ceilDiv perSource MAX_PER_SOURCE_CONCURRENCY)
      in batches * budget)"

definition planCadenceFor :: "(jsval \<Rightarrow> jsnum) \<Rightarrow> jsnum \<Rightarrow> jstring \<Rightarrow> jsval \<Rightarrow> jsval \<Rightarrow> jsnum \<Rightarrow> PlannedCadence" where
  "planCadenceFor to_num durationNs checkType pairCount sourceCount requestedNs =
     (let requested = (if is_finite requestedNs \<and> Fin 0 < requestedNs then requestedNs else Fin 0);
          baseNs = baseSampleIntervalNs durationNs requested;
          plan = \<lparr>pc_requestedNs = requested, pc_baseNs = baseNs, pc_intervalNs = baseNs,
                  pc_samplesPerPair = Fin 1, pc_adjusted = adj_none\<rparr>
      in if baseNs \<le> Fin 0 then plan
         else let budget = perPairBudgetNs checkType;
                  pairs = asCount to_num pairCount;
                  sources = asCount to_num sourceCount;
                  plan1 = (if Fin 0 < budget \<and> Fin 0 < pairs \<and> baseNs < round_floor budget pairs sources
                           then plan\<lparr>pc_intervalNs := round_floor budget pairs sources, pc_adjusted := adj_round\<rparr>
                           else plan);
                  plan2 = (if pc_adjusted plan1 = adj_none \<and> Fin 0 < requested \<and> requested < baseNs
                           then plan1\<lparr>pc_adjusted := adj_cap\<rparr> else plan1)
              in plan2\<lparr>pc_samplesPerPair :=
                   jmin (jmax (jfloor (divide durationNs (pc_intervalNs plan2))) (Fin 1)) MAX_SAMPLES_PER_PAIR\<rparr>)"

definition effectiveSampleIntervalNs :: "(jsval \<Rightarrow> jsnum) \<Rightarrow> jsnum \<Rightarrow> jstring \<Rightarrow> jsval \<Rightarrow> jsval \<Rightarrow> jsnum \<Rightarrow> jsnum" where
  "effectiveSampleIntervalNs to_num durationNs checkType pairCount sourceCount requestedNs =
     pc_intervalNs (planCadenceFor to_num durationNs checkType pairCount sourceCount requestedNs)"

definition effectivePlannedSamplesPerPair :: "(jsval \<Rightarrow> jsnum) \<Rightarrow> jsnum \<Rightarrow> jstring \<Rightarrow> jsval \<Rightarrow> jsval \<Rightarrow> jsnum \<Rightarrow> jsnum" where
  "effectivePlannedSamplesPerPair to_num durationNs checkType pairCount sourceCount requestedNs =
     pc_samplesPerPair (planCadenceFor to_num durationNs checkType pairCount sourceCount requestedNs)"

definition plannedCadenceFromSpec :: "RunDetail option \<Rightarrow> (jsnum \<times> jsnum) option" where
  "plannedCadenceFromSpec run =
     (case run of None \<Rightarrow> None
      | Some r \<Rightarrow>
          if \<not> is_object (rd_spec r) then None
          else (case (jfield (rd_spec r) (js ''PlannedSampleIntervalNs''), jfield (rd_spec r) (js ''PlannedSamplesPerPair'')) of
                  (JNum i, JNum n) \<Rightarrow>
                    if \<not> is_finite i \<or> i \<le> Fin 0 then None
                    else if \<not> is_finite n \<or> n < Fin 1 then None else Some (i, n)
                | _ \<Rightarrow> None))"

record RunCadence =
  rcd_intervalNs :: jsnum
  rcd_samplesPerPair :: jsnum
  rcd_fromSpec :: bool

definition runCadence :: "(jsval \<Rightarrow> jsnum) \<Rightarrow> RunDetail option \<Rightarrow> jsval \<Rightarrow> RunCadence option" where
  "runCadence to_num run sourceCount =
     (let durationNs = runDurationNs run
      in if durationNs \<le> Fin 0 then None
         else case plannedCadenceFromSpec run of
             Some (i, n) \<Rightarrow> Some \<lparr>rcd_intervalNs = i, rcd_samplesPerPair = n, rcd_fromSpec = True\<rparr>
           | None \<Rightarrow>
               let checkType = (case run of None \<Rightarrow> [] | Some r \<Rightarrow> rd_type r);
                   pairCount = (case run of None \<Rightarrow> JNum (Fin 0)
                     | Some r \<Rightarrow> if rd_pairTotal r = JNull \<or> rd_pairTotal r = JUndef then JNum (Fin 0) else rd_pairTotal r)
               in Some \<lparr>rcd_intervalNs = effectiveSampleIntervalNs to_num durationNs checkType pairCount sourceCount (Fin 0),
                        rcd_samplesPerPair = effectivePlannedSamplesPerPair to_num durationNs checkType pairCount sourceCount (Fin 0),
                        rcd_fromSpec = False\<rparr>)"

subsection \<open>Spelling a duration\<close>

definition MICROSECOND_FLOOR_NS :: jsnum where
  "MICROSECOND_FLOOR_NS = Fin 100000"

text \<open>The unit tables; the Russian units and the micro sign by their code units.\<close>

definition LATENCY_UNITS :: "jstring \<Rightarrow> jstring \<times> jstring \<times> jstring" where
  "LATENCY_UNITS locale =
     (if locale = js ''ru'' then ([32, 1084, 1082, 1089], [32, 1084, 1089], js '','')
      else ([181, 115], js ''ms'', js ''.''))"

definition DURATION_UNITS :: "jstring \<Rightarrow> jstring \<times> jstring \<times> jstring" where
  "DURATION_UNITS locale =
     (if locale = js ''ru'' then ([32, 1089], [32, 1084, 1080, 1085], [32, 1095])
      else (js ''s'', js ''m'', js ''h''))"

definition fmtMicrosNs :: "(jsnum \<Rightarrow> jstring) \<Rightarrow> jsnum \<Rightarrow> jstring \<Rightarrow> jstring option" where
  "fmtMicrosNs num_str ns locale =
     (if Fin 0 < jabs ns \<and> jabs ns < MICROSECOND_FLOOR_NS
      then Some (show_num num_str (jround (divide ns (Fin 1000))) @ fst (LATENCY_UNITS locale)) else None)"

definition fmtNsCompact :: "(jsnum \<Rightarrow> jstring) \<Rightarrow> jsnum option \<Rightarrow> jstring \<Rightarrow> jstring" where
  "fmtNsCompact num_str ns locale =
     (case ns of None \<Rightarrow> [8212]
      | Some n \<Rightarrow>
          if \<not> is_finite n then [8212]
          else case fmtMicrosNs num_str n locale of
              Some micros \<Rightarrow> micros
            | None \<Rightarrow>
                let (micro, milli, mark) = LATENCY_UNITS locale;
                    ms = divide n (Fin 1000000)
                in replace_first 46 mark (if ms < Fin 10 then to_fixed num_str 1 ms else to_fixed num_str 0 ms) @ milli)"

definition formatDurationNs :: "(jsnum \<Rightarrow> jstring) \<Rightarrow> jsnum \<Rightarrow> jstring \<Rightarrow> jstring" where
  "formatDurationNs num_str ns locale =
     (let (sec, minu, hour) = DURATION_UNITS locale;
          s = (if is_finite ns then jround (divide ns (Fin 1000000000)) else Fin 0)
      in if s < Fin 60 then show_num num_str s @ sec
         else let m = jround (divide s (Fin 60))
         in if m < Fin 60 then show_num num_str m @ minu
            else let rest = jmod m (Fin 60)
            in if jeq rest (Fin 0) then show_num num_str (divide m (Fin 60)) @ hour
               else show_num num_str (jfloor (divide m (Fin 60))) @ hour @ js '' '' @ show_num num_str rest @ minu)"

datatype DurationUnitName = u_second | u_minute | u_hour

definition cadenceParts :: "jsnum \<Rightarrow> jsnum \<times> DurationUnitName" where
  "cadenceParts ns =
     (let s = (if is_finite ns then jround (divide ns (Fin 1000000000)) else Fin 0)
      in if s < Fin 60 \<or> \<not> jeq (jmod s (Fin 60)) (Fin 0) then (s, u_second)
         else if s < Fin 3600 \<or> \<not> jeq (jmod s (Fin 3600)) (Fin 0) then (divide s (Fin 60), u_minute)
         else (divide s (Fin 3600), u_hour))"

definition formatCadenceNs :: "(jsnum \<Rightarrow> jstring) \<Rightarrow> jsnum \<Rightarrow> jstring \<Rightarrow> jstring" where
  "formatCadenceNs num_str ns locale =
     (let (value, unit) = cadenceParts ns; (sec, minu, hour) = DURATION_UNITS locale
      in show_num num_str value @ (case unit of u_second \<Rightarrow> sec | u_minute \<Rightarrow> minu | u_hour \<Rightarrow> hour))"

definition CADENCE_WORDS_RU :: "DurationUnitName \<Rightarrow> jstring list" where
  "CADENCE_WORDS_RU u = (case u of
       u_second \<Rightarrow> [[1089, 1077, 1082, 1091, 1085, 1076, 1091], [1089, 1077, 1082, 1091, 1085, 1076, 1099], [1089, 1077, 1082, 1091, 1085, 1076]]
     | u_minute \<Rightarrow> [[1084, 1080, 1085, 1091, 1090, 1091], [1084, 1080, 1085, 1091, 1090, 1099], [1084, 1080, 1085, 1091, 1090]]
     | u_hour \<Rightarrow> [[1095, 1072, 1089], [1095, 1072, 1089, 1072], [1095, 1072, 1089, 1086, 1074]])"

definition ruForm :: "jsnum \<Rightarrow> nat" where
  "ruForm n =
     (let teen = jmod (jabs n) (Fin 100)
      in if Fin 11 \<le> teen \<and> teen \<le> Fin 14 then 2
         else let lst = jmod (jabs n) (Fin 10)
         in if jeq lst (Fin 1) then 0 else if Fin 2 \<le> lst \<and> lst \<le> Fin 4 then 1 else 2)"

definition formatCadenceProse :: "(jsnum \<Rightarrow> jstring) \<Rightarrow> jsnum \<Rightarrow> jstring \<Rightarrow> jstring" where
  "formatCadenceProse num_str ns locale =
     (if locale \<noteq> js ''ru'' then formatCadenceNs num_str ns locale
      else let (value, unit) = cadenceParts ns; forms = CADENCE_WORDS_RU unit
      in if jeq value (Fin 1) then forms ! 0 else show_num num_str value @ js '' '' @ forms ! ruForm value)"

subsection \<open>The arithmetic on finite numbers\<close>

lemma sampleIntervalNs_Fin: "0 < d \<Longrightarrow> sampleIntervalNs (Fin d) = Fin (max (of_int \<lfloor>d / 500\<rfloor>) 5000000000)"
  by (simp add: sampleIntervalNs_def MAX_SAMPLES_PER_PAIR_def MIN_SAMPLE_INTERVAL_NS_def)

lemma sampleIntervalNs_none: "\<not> (\<exists>d. 0 < d \<and> x = Fin d) \<Longrightarrow> sampleIntervalNs x = Fin 0"
  by (cases x) (auto simp: sampleIntervalNs_def)


lemma baseSampleIntervalNs_Fin:
  assumes "0 < d" "0 \<le> r"
  obtains b where "baseSampleIntervalNs (Fin d) (Fin r) = Fin b" "0 < b" "of_int \<lfloor>d / 500\<rfloor> \<le> b" "r \<le> b"
    "0 < r \<longrightarrow> b = max r (of_int \<lfloor>d / 500\<rfloor>)"
proof (cases "0 < r")
  case True
  have "baseSampleIntervalNs (Fin d) (Fin r) = Fin (max r (of_int \<lfloor>d / 500\<rfloor>))"
    using assms(1) True by (simp add: baseSampleIntervalNs_def Let_def sampleIntervalNs_Fin MAX_SAMPLES_PER_PAIR_def)
  with True that [of "max r (of_int \<lfloor>d / 500\<rfloor>)"] show thesis by simp
next
  case False
  have "baseSampleIntervalNs (Fin d) (Fin r) = Fin (max (of_int \<lfloor>d / 500\<rfloor>) 5000000000)"
    using assms(1) False by (simp add: baseSampleIntervalNs_def Let_def sampleIntervalNs_Fin)
  with False assms(2) that [of "max (of_int \<lfloor>d / 500\<rfloor>) 5000000000"] show thesis by simp
qed

text \<open>A count of samples: whole, at least one and at most the cap.\<close>

definition sample_count :: "rat \<Rightarrow> rat \<Rightarrow> nat" where
  "sample_count d i = nat (min (max \<lfloor>d / i\<rfloor> 1) 500)"

lemma sample_count_eq:
  "0 < i \<Longrightarrow> jmin (jmax (jfloor (divide (Fin d) (Fin i))) (Fin 1)) MAX_SAMPLES_PER_PAIR = jnat (sample_count d i)"
  by (simp add: MAX_SAMPLES_PER_PAIR_def sample_count_def min_def max_def)

lemma sample_count_bounds:
  assumes "0 < i"
  shows "1 \<le> sample_count d i" "sample_count d i \<le> 500" "sample_count d i = 1 \<or> of_nat (sample_count d i) * i \<le> d"
proof -
  show "1 \<le> sample_count d i" "sample_count d i \<le> 500" unfolding sample_count_def by linarith+
  show "sample_count d i = 1 \<or> of_nat (sample_count d i) * i \<le> d"
  proof (cases "1 \<le> \<lfloor>d / i\<rfloor>")
    case True
    then have "int (sample_count d i) \<le> \<lfloor>d / i\<rfloor>" unfolding sample_count_def by linarith
    then have "(of_int (int (sample_count d i)) :: rat) \<le> d / i" by (simp only: le_floor_iff)
    then show ?thesis using assms by (simp add: field_simps)
  qed (simp add: sample_count_def)
qed

lemma asCount_nat: obtains n where "asCount to_num v = jnat n"
proof -
  define x where "x = (case v of JNum x \<Rightarrow> x | _ \<Rightarrow> to_num v)"
  have "\<exists>n. asCount to_num v = jnat n"
  proof (cases "is_finite x \<and> Fin 0 < x")
    case True
    then obtain r where "x = Fin r" "0 < r" by (cases x) auto
    then show ?thesis
      by (intro exI [of _ "nat \<lfloor>r\<rfloor>"]) (simp add: asCount_def Let_def flip: x_def)
  next
    case False
    then show ?thesis by (intro exI [of _ 0]) (auto simp: asCount_def Let_def simp flip: x_def)
  qed
  with that show thesis by blast
qed

lemma ceilDiv_nat:
  assumes "0 < b"
  obtains q where "ceilDiv (jnat a) (jnat b) = jnat q" "a \<le> q * b" "1 \<le> q"
proof -
  define q where "q = nat (max \<lceil>(of_nat a :: rat) / of_nat b\<rceil> 1)"
  have "(of_nat a :: rat) / of_nat b \<le> of_nat q" unfolding q_def by linarith
  then have "(of_nat a :: rat) \<le> of_nat q * of_nat b" using assms by (simp add: field_simps)
  then have "a \<le> q * b" by (metis of_nat_le_iff of_nat_mult)
  moreover have "ceilDiv (jnat a) (jnat b) = jnat q" using assms by (simp add: ceilDiv_def q_def max_def)
  moreover have "1 \<le> q" unfolding q_def by linarith
  ultimately show thesis using that by blast
qed

text \<open>The round floor is a whole number of batches that drains both concurrency gates.\<close>

lemma round_floor_batches:
  obtains k where "round_floor (Fin b) (jnat pairs) (jnat sources) = Fin (of_nat k * b)" "1 \<le> k"
    "pairs \<le> 8 * k" "0 < sources \<longrightarrow> pairs \<le> 2 * k * sources" "sources = 0 \<longrightarrow> pairs \<le> 2 * k"
proof -
  obtain p where p: "(if Fin 0 < jnat sources then ceilDiv (jnat pairs) (jnat sources) else jnat pairs) = jnat p"
    "0 < sources \<longrightarrow> pairs \<le> p * sources" "sources = 0 \<longrightarrow> p = pairs"
  proof (cases "0 < sources")
    case True
    then obtain q where "ceilDiv (jnat pairs) (jnat sources) = jnat q" "pairs \<le> q * sources" by (rule ceilDiv_nat)
    with True that [of q] show thesis by simp
  qed (use that [of pairs] in simp)
  obtain k1 where k1: "ceilDiv (jnat pairs) (jnat 8) = jnat k1" "pairs \<le> k1 * 8" "1 \<le> k1"
    by (rule ceilDiv_nat [of 8 pairs]) simp_all
  obtain k2 where k2: "ceilDiv (jnat p) (jnat 2) = jnat k2" "p \<le> k2 * 2"
    by (rule ceilDiv_nat [of 2 p]) simp_all
  have "round_floor (Fin b) (jnat pairs) (jnat sources) = Fin (of_nat (max k1 k2) * b)"
    unfolding round_floor_def Let_def p(1) MAX_CONCURRENCY_def MAX_PER_SOURCE_CONCURRENCY_def
    using k1(1) k2(1) by (simp add: of_nat_max)
  moreover have "pairs \<le> 8 * max k1 k2" using k1(2) by linarith
  moreover have "0 < sources \<longrightarrow> pairs \<le> 2 * max k1 k2 * sources"
  proof
    assume "0 < sources"
    with p(2) have "pairs \<le> p * sources" by simp
    also have "\<dots> \<le> 2 * max k1 k2 * sources" using k2(2) by (intro mult_right_mono) auto
    finally show "pairs \<le> 2 * max k1 k2 * sources" .
  qed
  moreover have "sources = 0 \<longrightarrow> pairs \<le> 2 * max k1 k2" using p(3) k2(2) by auto
  ultimately show thesis using that [of "max k1 k2"] k1(3) by simp
qed


lemma planCadenceFor_Fin:
  assumes "0 < d" "r = (if is_finite req \<and> Fin 0 < req then fin_val req else 0)"
  obtains b i where "planCadenceFor to_num (Fin d) ct pc sc req = \<lparr>pc_requestedNs = Fin r, pc_baseNs = Fin b,
      pc_intervalNs = Fin i, pc_samplesPerPair = jnat (sample_count d i),
      pc_adjusted = (if b < i then adj_round else if 0 < r \<and> r < b then adj_cap else adj_none)\<rparr>"
    "0 < b" "b \<le> i" "of_int \<lfloor>d / 500\<rfloor> \<le> b" "r \<le> b" "0 < r \<longrightarrow> b = max r (of_int \<lfloor>d / 500\<rfloor>)"
    "Fin 0 < perPairBudgetNs ct \<longrightarrow> Fin 0 < asCount to_num pc \<longrightarrow>
       round_floor (perPairBudgetNs ct) (asCount to_num pc) (asCount to_num sc) \<le> Fin i"
proof -
  have r0: "0 \<le> r" and req: "(if is_finite req \<and> Fin 0 < req then req else Fin 0) = Fin r"
    using assms(2) by (cases req; simp)+
  obtain b where b: "baseSampleIntervalNs (Fin d) (Fin r) = Fin b" "0 < b" "of_int \<lfloor>d / 500\<rfloor> \<le> b" "r \<le> b"
      "0 < r \<longrightarrow> b = max r (of_int \<lfloor>d / 500\<rfloor>)"
    by (rule baseSampleIntervalNs_Fin [OF assms(1) r0])
  obtain pairs where pairs: "asCount to_num pc = jnat pairs" by (rule asCount_nat)
  obtain sources where sources: "asCount to_num sc = jnat sources" by (rule asCount_nat)
  note ps = pairs sources
  obtain bud where bud: "perPairBudgetNs ct = Fin bud"
    by (cases "perPairBudgetNs ct")
      (auto simp: perPairBudgetNs_def MTR_PER_PAIR_BUDGET_NS_def PMTU_PER_PAIR_BUDGET_NS_def split: if_splits)
  obtain k where k: "round_floor (Fin bud) (jnat pairs) (jnat sources) = Fin (of_nat k * bud)"
    by (rule round_floor_batches [of bud pairs sources])
  define stretch where "stretch \<longleftrightarrow> 0 < bud \<and> 0 < pairs \<and> b < of_nat k * bud"
  define i where "i = (if stretch then of_nat k * bud else b)"
  have i: "0 < i" "b \<le> i" "b < i \<longleftrightarrow> stretch" using b(2) by (auto simp: i_def stretch_def)
  have plan: "planCadenceFor to_num (Fin d) ct pc sc req = \<lparr>pc_requestedNs = Fin r, pc_baseNs = Fin b,
      pc_intervalNs = Fin i, pc_samplesPerPair = jmin (jmax (jfloor (divide (Fin d) (Fin i))) (Fin 1)) MAX_SAMPLES_PER_PAIR,
      pc_adjusted = (if stretch then adj_round else if 0 < r \<and> r < b then adj_cap else adj_none)\<rparr>"
    unfolding planCadenceFor_def Let_def req b(1) ps bud k using b(2) by (auto simp: i_def stretch_def)
  have fl: "Fin 0 < perPairBudgetNs ct \<longrightarrow> Fin 0 < asCount to_num pc \<longrightarrow>
       round_floor (perPairBudgetNs ct) (asCount to_num pc) (asCount to_num sc) \<le> Fin i"
    unfolding ps bud k by (auto simp: i_def stretch_def)
  show thesis
    by (rule that [OF plan [unfolded sample_count_eq [OF i(1)], folded i(3)] b(2) i(2) b(3-5) fl])
qed

subsection \<open>What a plan, a frame and a spelling guarantee\<close>






text \<open>
  For a slow check the planned interval holds one whole round. There
  is a number of batches that drains eight probes at a time over all pairs and two at a time
  per source, and the interval is at least the per-pair budget times that number.
\<close>

lemma planCadence_fits_round:
  assumes "0 < d" "perPairBudgetNs ct = Fin bud" "0 < bud"
    and "asCount to_num pc = jnat pairs" "0 < pairs" "asCount to_num sc = jnat sources" "0 < sources"
  shows "\<exists>k i. pc_intervalNs (planCadenceFor to_num (Fin d) ct pc sc req) = Fin i \<and> of_nat k * bud \<le> i \<and>
    pairs \<le> 8 * k \<and> pairs \<le> 2 * k * sources"
proof -
  define r where "r = (if is_finite req \<and> Fin 0 < req then fin_val req else 0)"
  obtain b i where p: "planCadenceFor to_num (Fin d) ct pc sc req = \<lparr>pc_requestedNs = Fin r, pc_baseNs = Fin b,
      pc_intervalNs = Fin i, pc_samplesPerPair = jnat (sample_count d i),
      pc_adjusted = (if b < i then adj_round else if 0 < r \<and> r < b then adj_cap else adj_none)\<rparr>"
    and fl: "Fin 0 < perPairBudgetNs ct \<longrightarrow> Fin 0 < asCount to_num pc \<longrightarrow>
       round_floor (perPairBudgetNs ct) (asCount to_num pc) (asCount to_num sc) \<le> Fin i"
    by (rule planCadenceFor_Fin [OF assms(1) r_def])
  obtain k where k: "round_floor (Fin bud) (jnat pairs) (jnat sources) = Fin (of_nat k * bud)"
    "pairs \<le> 8 * k" "0 < sources \<longrightarrow> pairs \<le> 2 * k * sources"
    by (rule round_floor_batches [of bud pairs sources])
  have "of_nat k * bud \<le> i" using fl assms(2-6) k(1) by simp
  with k assms(7) p show ?thesis by (intro exI [of _ k] exI [of _ i]) simp
qed

lemma plannedSamples_nat: obtains n where "plannedSamplesPerPair dur = jnat n" "1 \<le> n" "n \<le> 500"
proof (cases "\<exists>d. 0 < d \<and> dur = Fin d")
  case False
  then show thesis using that [of 1] by (simp add: plannedSamplesPerPair_def sampleIntervalNs_none)
next
  case True
  then obtain d where d: "0 < d" "dur = Fin d" by blast
  define i where "i = max (of_int \<lfloor>d / 500\<rfloor>) (5000000000 :: rat)"
  have i: "0 < i" "sampleIntervalNs (Fin d) = Fin i" using d by (simp_all add: i_def sampleIntervalNs_Fin)
  have "plannedSamplesPerPair dur = jnat (sample_count d i)"
    unfolding plannedSamplesPerPair_def Let_def d(2) i(2) sample_count_eq [OF i(1)] using i(1) by simp
  with that sample_count_bounds(1,2) [OF i(1), of d] show thesis by blast
qed

lemma sampleIntervalNs_nonneg: obtains i where "sampleIntervalNs dur = Fin i" "0 \<le> i"
proof (cases "\<exists>d. 0 < d \<and> dur = Fin d")
  case True
  then obtain d where "0 < d" "dur = Fin d" by blast
  with that show thesis by (simp add: sampleIntervalNs_Fin)
qed (use that [of 0] in \<open>simp add: sampleIntervalNs_none\<close>)

lemma floor_nat: "is_finite x \<Longrightarrow> Fin 0 < x \<Longrightarrow> \<exists>n. jfloor x = jnat n \<and> (Fin 1 \<le> x \<longrightarrow> 1 \<le> n)"
proof -
  assume "is_finite x" "Fin 0 < x"
  then obtain r where r: "x = Fin r" "0 < r" by (cases x) auto
  show ?thesis
  proof (intro exI [of _ "nat \<lfloor>r\<rfloor>"] conjI impI)
    show "jfloor x = jnat (nat \<lfloor>r\<rfloor>)" using r by simp
    assume "Fin 1 \<le> x"
    then show "1 \<le> nat \<lfloor>r\<rfloor>" using r(1) by simp linarith
  qed
qed

text \<open>
  Whatever numbers arrive, NaN and infinities included, a pair's frame
  is whole: arrived plus remaining is the drawn width, the width is the larger of the plan
  and the arrivals, the plan is at least one slot, and the remaining time is not negative.
\<close>

lemma pairProgress_adds_up:
  "\<exists>p a t. pairProgress dur arrived cadence = \<lparr>pp_planned = jnat p, pp_expected = jnat (max p a), pp_arrived = jnat a,
      pp_remaining = jnat (max p a - a), pp_remainingNs = Fin t, pp_framed = (1 < max p a)\<rparr> \<and> 1 \<le> p \<and> 0 \<le> t"
proof -
  obtain n0 where n0: "plannedSamplesPerPair dur = jnat n0" "1 \<le> n0" by (rule plannedSamples_nat)
  obtain i0 where i0: "sampleIntervalNs dur = Fin i0" "0 \<le> i0" by (rule sampleIntervalNs_nonneg)
  have "\<exists>p. (case cadence of Some (i, n) \<Rightarrow> if is_finite n \<and> Fin 1 \<le> n then jfloor n else plannedSamplesPerPair dur
      | None \<Rightarrow> plannedSamplesPerPair dur) = jnat p \<and> 1 \<le> p"
  proof (cases cadence)
    case (Some c)
    obtain i n where c: "c = (i, n)" by (cases c)
    show ?thesis
    proof (cases "is_finite n \<and> Fin 1 \<le> n")
      case True
      then have "Fin 0 < n" by (cases n) auto
      with floor_nat [of n] True Some c show ?thesis by auto
    qed (use n0 Some c in auto)
  qed (use n0 in auto)
  then obtain p where p: "(case cadence of Some (i, n) \<Rightarrow> if is_finite n \<and> Fin 1 \<le> n then jfloor n else plannedSamplesPerPair dur
      | None \<Rightarrow> plannedSamplesPerPair dur) = jnat p" "1 \<le> p" by blast
  have "\<exists>i. (case cadence of Some (i, n) \<Rightarrow> if is_finite i \<and> Fin 0 < i then i else sampleIntervalNs dur
      | None \<Rightarrow> sampleIntervalNs dur) = Fin i \<and> 0 \<le> i"
  proof (cases cadence)
    case (Some c)
    obtain i n where c: "c = (i, n)" by (cases c)
    with i0 Some show ?thesis by (cases i) (auto intro: less_imp_le)
  qed (use i0 in auto)
  then obtain i where i: "(case cadence of Some (i, n) \<Rightarrow> if is_finite i \<and> Fin 0 < i then i else sampleIntervalNs dur
      | None \<Rightarrow> sampleIntervalNs dur) = Fin i" "0 \<le> i" by blast
  have "\<exists>a. (if is_finite arrived \<and> Fin 0 < arrived then jfloor arrived else Fin 0) = jnat a"
    using floor_nat [of arrived] by (auto intro: exI [of _ 0])
  then obtain a where a: "(if is_finite arrived \<and> Fin 0 < arrived then jfloor arrived else Fin 0) = jnat a" by blast
  have e: "jmax (jnat p) (jnat a) = jnat (max p a)" by (simp only: jmax_Fin of_nat_max)
  have r: "jmax (jnat (max p a) - jnat a) (Fin 0) = jnat (max p a - a)"
    by (simp add: of_nat_diff max_def)
  show ?thesis
    unfolding pairProgress_def Let_def p(1) i(1) a e r
    using p(2) i(2) by (intro exI [of _ p] exI [of _ a] exI [of _ "of_nat (max p a - a) * i"]) simp
qed

definition unit_seconds :: "DurationUnitName \<Rightarrow> nat" where
  "unit_seconds u = (case u of u_second \<Rightarrow> 1 | u_minute \<Rightarrow> 60 | u_hour \<Rightarrow> 3600)"

text \<open>
  A cadence of a whole number of seconds is spelled without rounding: the
  number times its unit is that number of seconds, the number is whole, and minutes or hours
  are used exactly when they divide it.
\<close>

lemma cadenceParts_exact:
  assumes "ns = Fin r" "jround (Fin (r / 1000000000)) = jnat s"
  shows "\<exists>v u. cadenceParts ns = (jnat v, u) \<and> v * unit_seconds u = s \<and>
    (u = u_hour \<longleftrightarrow> 0 < s \<and> 3600 dvd s) \<and> (u = u_minute \<longleftrightarrow> 0 < s \<and> 60 dvd s \<and> \<not> 3600 dvd s)"
proof -
  have s: "(if is_finite ns then jround (divide ns (Fin 1000000000)) else Fin 0) = jnat s" using assms by simp
  have m: "jmod (jnat s) (Fin 60) = jnat (s mod 60)" "jmod (jnat s) (Fin 3600) = jnat (s mod 3600)"
    using jmod_jnat [of 60 s] jmod_jnat [of 3600 s] by simp_all
  have parts: "cadenceParts ns = (if s < 60 \<or> s mod 60 \<noteq> 0 then (jnat s, u_second)
      else if s < 3600 \<or> s mod 3600 \<noteq> 0 then (Fin (of_nat s / 60), u_minute) else (Fin (of_nat s / 3600), u_hour))"
    unfolding cadenceParts_def Let_def s m by simp
  consider "s < 60 \<or> s mod 60 \<noteq> 0" | "\<not> (s < 60 \<or> s mod 60 \<noteq> 0)" "s < 3600 \<or> s mod 3600 \<noteq> 0"
    | "3600 \<le> s" "s mod 3600 = 0" by linarith
  then show ?thesis
  proof cases
    case 1
    then have "\<not> (0 < s \<and> 60 dvd s)" by (auto simp: mod_eq_0_iff_dvd dest: dvd_imp_le)
    moreover from this have "\<not> (0 < s \<and> 3600 dvd s)" using dvd_trans [of 60 3600 s] by auto
    ultimately show ?thesis using 1 parts by (intro exI [of _ s] exI [of _ u_second]) (auto simp: unit_seconds_def)
  next
    case 2
    then have "60 dvd s" "\<not> 3600 dvd s" "0 < s" by (auto simp: mod_eq_0_iff_dvd dest: dvd_imp_le)
    then obtain v where "s = v * 60" by (metis dvd_div_mult_self)
    with 2 parts \<open>60 dvd s\<close> \<open>\<not> 3600 dvd s\<close> \<open>0 < s\<close> show ?thesis
      by (intro exI [of _ v] exI [of _ u_minute]) (auto simp: unit_seconds_def)
  next
    case 3
    then obtain v where "s = v * 3600" by (metis dvd_div_mult_self mod_eq_0_iff_dvd)
    with 3 parts show ?thesis by (intro exI [of _ v] exI [of _ u_hour]) (auto simp: unit_seconds_def)
  qed
qed

end
