(* ===== verification/Text_Rules.thy ===== *)
theory Text_Rules
  imports Js_Prelude
begin

section \<open>Shared text rules (lib/utils.ts)\<close>

text \<open>
  Escaping a PromQL label value, the canonical spelling of a typed pair, the clock of an
  event row and the Time Machine's cut across runs. What the browser's locale renders, the
  local calendar day and \<open>Date.parse\<close> are arguments.

  An escaped name is read back exactly by a double-quoted string reader, so it can neither
  end the literal nor change another name; a typed pair has one spelling, and normalising
  twice changes nothing.
\<close>

definition replace_all :: "jchar \<Rightarrow> jstring \<Rightarrow> jstring \<Rightarrow> jstring" where
  "replace_all c w s = concat (map (\<lambda>x. if x = c then w else [x]) s)"

definition escapeLabelValue :: "jstring \<Rightarrow> jstring" where
  "escapeLabelValue v = replace_all 34 [92, 34] (replace_all 92 [92, 92] v)"

definition fmtEventTime :: "(jstring \<Rightarrow> jsnum) \<Rightarrow> (date \<Rightarrow> jstring option \<Rightarrow> jstring) \<Rightarrow> jstring \<Rightarrow> jstring option \<Rightarrow> jstring" where
  "fmtEventTime parse localeTime timestamp locale =
     (let d = parse timestamp in if is_nan d then timestamp else localeTime d locale)"

definition fmtEventStamp :: "(jstring \<Rightarrow> jsnum) \<Rightarrow> (date \<Rightarrow> jstring option \<Rightarrow> jstring) \<Rightarrow> (date \<Rightarrow> jstring option \<Rightarrow> jstring) \<Rightarrow>
    (date \<Rightarrow> int \<times> int \<times> int) \<Rightarrow> jstring \<Rightarrow> jstring option \<Rightarrow> date \<Rightarrow> jstring" where
  "fmtEventStamp parse localeTime localeDate localDay timestamp locale now =
     (let d = parse timestamp
      in if is_nan d then timestamp
         else let sameDay = (localDay d = localDay now); time = localeTime d locale
              in if sameDay then time else localeDate d locale @ js '' '' @ time)"

record RunInstant =
  ri_createdAt :: jstring
  ri_startedAt :: "jstring option"

definition runInstant :: "(jstring \<Rightarrow> jsnum) \<Rightarrow> RunInstant \<Rightarrow> jsnum" where
  "runInstant parse run =
     (let parsed = parse (case ri_startedAt run of Some s \<Rightarrow> s | None \<Rightarrow> ri_createdAt run)
      in if is_nan parsed then PInf else parsed)"

definition runsAtOrBefore :: "(jstring \<Rightarrow> jsnum) \<Rightarrow> RunInstant list \<Rightarrow> date option \<Rightarrow> RunInstant list" where
  "runsAtOrBefore parse runs instant =
     (case instant of None \<Rightarrow> runs | Some cutoff \<Rightarrow> filter (\<lambda>r. runInstant parse r \<le> cutoff) runs)"

definition plural :: "(jsnum \<Rightarrow> jstring) \<Rightarrow> jsnum \<Rightarrow> jstring \<Rightarrow> jstring option \<Rightarrow> jstring" where
  "plural num_str n singular pluralForm =
     show_num num_str n @ js '' '' @
     (if jeq n (Fin 1) then singular else (case pluralForm of Some p \<Rightarrow> p | None \<Rightarrow> singular @ js ''s''))"

definition endSentence :: "jstring \<Rightarrow> jstring" where
  "endSentence text =
     (let trimmed = trim text
      in if trimmed = [] then []
         else if last trimmed \<in> set (js ''.!?:;'') then trimmed else trimmed @ js ''.'')"

definition PAIR_ARROW :: jchar where
  "PAIR_ARROW = 8594"

text \<open>
  The separator pattern at the start of a string, with what follows the match: white space,
  an arrow, hyphens or equals signs ending in \<open>>\<close>, or \<open>>\<close> alone, and white space.
\<close>

definition arrow_tail :: "jstring \<Rightarrow> jstring option" where
  "arrow_tail s = (case s of
       [] \<Rightarrow> None
     | c # cs \<Rightarrow>
         if c = PAIR_ARROW \<or> c = 62 then Some cs
         else if c = 45 \<or> c = 61
         then (case dropWhile (\<lambda>x. x = c) cs of x # rest \<Rightarrow> if x = 62 then Some rest else None | [] \<Rightarrow> None)
         else None)"

definition match_separator :: "jstring \<Rightarrow> jstring option" where
  "match_separator s = map_option (dropWhile is_space) (arrow_tail (dropWhile is_space s))"

lemma arrow_tail_shorter: "arrow_tail s = Some t \<Longrightarrow> length t < length s"
proof -
  assume a: "arrow_tail s = Some t"
  then obtain c cs where s: "s = c # cs" by (cases s) (auto simp: arrow_tail_def)
  have "length (dropWhile (\<lambda>x. x = c) cs) \<le> length cs" by (rule length_dropWhile_le)
  with a s show ?thesis by (auto simp: arrow_tail_def split: if_splits list.splits)
qed

lemma match_separator_shorter: "match_separator s = Some t \<Longrightarrow> length t < length s"
proof -
  assume "match_separator s = Some t"
  then obtain u where u: "arrow_tail (dropWhile is_space s) = Some u" "t = dropWhile is_space u"
    by (auto simp: match_separator_def)
  have "length t \<le> length u" by (simp add: u(2) length_dropWhile_le)
  also have "\<dots> < length (dropWhile is_space s)" by (rule arrow_tail_shorter [OF u(1)])
  also have "\<dots> \<le> length s" by (rule length_dropWhile_le)
  finally show ?thesis .
qed

text \<open>\<open>replace\<close> with the global pattern: leftmost matches, one after the other.\<close>

function replace_separators :: "jstring \<Rightarrow> jstring" where
  "replace_separators [] = []"
| "replace_separators (c # cs) =
     (case match_separator (c # cs) of
        Some rest \<Rightarrow> PAIR_ARROW # replace_separators rest
      | None \<Rightarrow> c # replace_separators cs)"
  by pat_completeness auto
termination by (relation "measure length") (auto dest: match_separator_shorter)

definition normalizePairInput :: "jstring \<Rightarrow> jstring" where
  "normalizePairInput raw = replace_separators (trim raw)"

subsection \<open>Escaping\<close>

text \<open>A reader of a double-quoted string: the text up to the closing quote, and what follows.\<close>

fun read_quoted :: "jstring \<Rightarrow> (jstring \<times> jstring) option" where
  "read_quoted [] = None"
| "read_quoted (c # cs) =
     (if c = 34 then Some ([], cs)
      else if c = 92
      then (case cs of
              [] \<Rightarrow> None
            | d # ds \<Rightarrow> (case read_quoted ds of None \<Rightarrow> None | Some (v, rest) \<Rightarrow> Some (d # v, rest)))
      else (case read_quoted cs of None \<Rightarrow> None | Some (v, rest) \<Rightarrow> Some (c # v, rest)))"

lemma escape_simps [simp]:
  "escapeLabelValue [] = []"
  "escapeLabelValue (c # cs) = (if c = 92 then [92, 92] else if c = 34 then [92, 34] else [c]) @ escapeLabelValue cs"
  by (simp_all add: escapeLabelValue_def replace_all_def)

subsection \<open>The canonical pair\<close>

fun clean :: "jstring \<Rightarrow> bool" where
  "clean [] \<longleftrightarrow> True"
| "clean (c # cs) \<longleftrightarrow> c \<noteq> 62 \<and> clean cs \<and>
     (cs \<noteq> [] \<longrightarrow> (c = PAIR_ARROW \<longrightarrow> \<not> is_space (hd cs)) \<and> (hd cs = PAIR_ARROW \<longrightarrow> \<not> is_space c))"

lemma clean_no_gt: "clean s \<Longrightarrow> 62 \<notin> set s"
  by (induction s) auto

lemma arrow_not_space [simp]: "\<not> is_space PAIR_ARROW" "PAIR_ARROW \<noteq> 62" "PAIR_ARROW \<noteq> 45" "PAIR_ARROW \<noteq> 61"
  by (simp_all add: is_space_def PAIR_ARROW_def)

lemma match_space: "is_space c \<Longrightarrow> match_separator (c # cs) = match_separator cs"
  by (simp add: match_separator_def)

lemma match_arrow: "c = PAIR_ARROW \<or> c = 62 \<Longrightarrow> match_separator (c # cs) = Some (dropWhile is_space cs)"
proof -
  assume c: "c = PAIR_ARROW \<or> c = 62"
  then have "\<not> is_space c" by (auto simp: is_space_def PAIR_ARROW_def)
  with c show ?thesis by (auto simp: match_separator_def arrow_tail_def)
qed

lemma hd_replace:
  "s \<noteq> [] \<Longrightarrow> hd (replace_separators s) = (if match_separator s = None then hd s else PAIR_ARROW) \<and> replace_separators s \<noteq> []"
  by (cases s) (auto split: option.split)

lemma match_suffix: "match_separator s = Some t \<Longrightarrow> t = [] \<or> \<not> is_space (hd t)"
proof -
  assume "match_separator s = Some t"
  then obtain u where "t = dropWhile is_space u" by (auto simp: match_separator_def)
  then show ?thesis using hd_dropWhile [of is_space u] by (cases "t = []") simp_all
qed

lemma replace_clean: "clean (replace_separators s)"
proof (induction s rule: replace_separators.induct)
  case (2 c cs)
  show ?case
  proof (cases "match_separator (c # cs)")
    case None
    have c: "c \<noteq> PAIR_ARROW" "c \<noteq> 62" using None match_arrow [of c cs] by auto
    have "hd (replace_separators cs) = PAIR_ARROW \<longrightarrow> \<not> is_space c" if "replace_separators cs \<noteq> []"
    proof (intro impI notI)
      assume h: "hd (replace_separators cs) = PAIR_ARROW" and sp: "is_space c"
      have ne: "cs \<noteq> []" using that by auto
      then have "match_separator cs \<noteq> None \<or> hd cs = PAIR_ARROW" using hd_replace [OF ne] h by (auto split: if_splits)
      then have "match_separator cs \<noteq> None" using match_arrow ne by (cases cs) auto
      with None match_space [OF sp] show False by simp
    qed
    with 2 None c show ?thesis by (simp add: clean.simps)
  next
    case (Some t)
    have "\<not> is_space (hd (replace_separators t))" if "replace_separators t \<noteq> []"
    proof -
      have "t \<noteq> []" using that by auto
      with match_suffix [OF Some] hd_replace [of t] show ?thesis by auto
    qed
    with 2 Some show ?thesis by (simp add: clean.simps)
  qed
qed simp

lemma clean_space_run: "clean (c # cs) \<Longrightarrow> is_space c \<Longrightarrow> dropWhile is_space cs \<noteq> [] \<Longrightarrow> hd (dropWhile is_space cs) \<noteq> PAIR_ARROW"
proof (induction cs arbitrary: c)
  case (Cons a cs)
  show ?case
  proof (cases "is_space a")
    case True
    with Cons.IH [of a] Cons.prems show ?thesis by simp
  next
    case False
    with Cons.prems show ?thesis by simp
  qed
qed simp

lemma arrow_tail_plain: "62 \<notin> set s \<Longrightarrow> (s \<noteq> [] \<longrightarrow> hd s \<noteq> PAIR_ARROW) \<Longrightarrow> arrow_tail s = None"
proof (cases s)
  case (Cons c cs)
  assume a: "62 \<notin> set s" "s \<noteq> [] \<longrightarrow> hd s \<noteq> PAIR_ARROW"
  have "x \<noteq> 62" if "dropWhile (\<lambda>x. x = c) cs = x # r" for x r
    using a(1) Cons that set_dropWhileD [of x "\<lambda>x. x = c" cs] by auto
  with a Cons show ?thesis by (auto simp: arrow_tail_def split: list.split)
qed (simp add: arrow_tail_def)

lemma match_clean:
  assumes "clean (c # cs)" "c \<noteq> PAIR_ARROW"
  shows "match_separator (c # cs) = None"
proof -
  have "62 \<notin> set (dropWhile is_space (c # cs))"
    using clean_no_gt [OF assms(1)] set_dropWhileD [of 62 is_space "c # cs"] by blast
  moreover have "dropWhile is_space (c # cs) \<noteq> [] \<longrightarrow> hd (dropWhile is_space (c # cs)) \<noteq> PAIR_ARROW"
    using assms clean_space_run [OF assms(1)] by auto
  ultimately show ?thesis by (simp add: match_separator_def arrow_tail_plain del: dropWhile.simps)
qed

lemma replace_clean_id: "clean s \<Longrightarrow> replace_separators s = s"
proof (induction s)
  case (Cons c cs)
  show ?case
  proof (cases "c = PAIR_ARROW")
    case True
    then have "dropWhile is_space cs = cs" using Cons.prems by (cases cs) auto
    then have "match_separator (c # cs) = Some cs" using match_arrow [of c cs] True by simp
    with Cons True show ?thesis by simp
  next
    case False
    with match_clean [OF Cons.prems] Cons show ?thesis by simp
  qed
qed simp

text \<open>Normalised text has no white space at its ends.\<close>

definition trimmed :: "jstring \<Rightarrow> bool" where
  "trimmed s \<longleftrightarrow> (s \<noteq> [] \<longrightarrow> \<not> is_space (hd s) \<and> \<not> is_space (last s))"

lemma trim_id: "trimmed s \<Longrightarrow> trim s = s"
proof (cases "s = []")
  case False
  assume "trimmed s"
  with False have h: "\<not> is_space (hd s)" and l: "\<not> is_space (hd (rev s))" by (auto simp: trimmed_def hd_rev)
  have d: "dropWhile is_space t = t" if "t \<noteq> []" "\<not> is_space (hd t)" for t using that by (cases t) auto
  show ?thesis using d [OF False h] d [of "rev s"] False l by (simp add: trim_def)
qed (simp add: trim_def)

lemma trim_trimmed: "trimmed (trim s)"
proof -
  let ?a = "dropWhile is_space s" and ?b = "dropWhile is_space (rev (dropWhile is_space s))"
  have "\<not> is_space (last (trim s))" if "trim s \<noteq> []"
    using that hd_dropWhile [of is_space "rev ?a"] by (auto simp: trim_def last_rev dropWhile_eq_Nil_conv)
  moreover have "\<not> is_space (hd (trim s))" if "trim s \<noteq> []"
  proof -
    have "?a = trim s @ rev (takeWhile is_space (rev ?a))"
      unfolding trim_def by (metis rev_append rev_rev_ident takeWhile_dropWhile_id)
    then have "hd ?a = hd (trim s)" "?a \<noteq> []" using that by (metis hd_append2, metis append_is_Nil_conv)
    moreover have "\<not> is_space (hd ?a)" using hd_dropWhile [of is_space s] \<open>?a \<noteq> []\<close> by (auto simp: dropWhile_eq_Nil_conv)
    ultimately show ?thesis by simp
  qed
  ultimately show ?thesis by (simp add: trimmed_def)
qed

lemma match_is_suffix: "match_separator s = Some t \<Longrightarrow> t \<noteq> [] \<Longrightarrow> last t = last s"
proof -
  assume m: "match_separator s = Some t" and t: "t \<noteq> []"
  then obtain u where u: "arrow_tail (dropWhile is_space s) = Some u" "t = dropWhile is_space u"
    by (auto simp: match_separator_def)
  have lst: "last (dropWhile P xs) = last xs" if "dropWhile P xs \<noteq> []" for P and xs :: jstring
    using that by (metis last_appendR takeWhile_dropWhile_id)
  have u_ne: "u \<noteq> []" using t u(2) by auto
  obtain c cs where c: "dropWhile is_space s = c # cs" using u(1) by (cases "dropWhile is_space s") (auto simp: arrow_tail_def)
  have "last u = last cs"
  proof (cases "c = PAIR_ARROW \<or> c = 62")
    case False
    then have "dropWhile (\<lambda>x. x = c) cs = 62 # u"
      using u(1) c by (auto simp: arrow_tail_def split: if_splits list.splits)
    with lst [of "\<lambda>x. x = c" cs] u_ne show ?thesis by simp
  qed (use u(1) c in \<open>auto simp: arrow_tail_def\<close>)
  moreover have "cs \<noteq> []"
    using u(1) c u_ne by (cases cs) (auto simp: arrow_tail_def split: if_splits)
  ultimately show ?thesis using lst [of is_space u] lst [of is_space s] t u(2) c by simp
qed

lemma last_replace: "s \<noteq> [] \<Longrightarrow> \<not> is_space (last s) \<Longrightarrow> \<not> is_space (last (replace_separators s))"
proof (induction s rule: replace_separators.induct)
  case (2 c cs)
  show ?case
  proof (cases "match_separator (c # cs)")
    case None
    with 2 hd_replace [of cs] show ?thesis by (cases "cs = []") auto
  next
    case (Some t)
    with 2(2) [OF Some] 2(4) match_is_suffix [OF Some] hd_replace [of t] show ?thesis by (cases "t = []") auto
  qed
qed simp

lemma normalize_trimmed: "trimmed (normalizePairInput raw)"
proof (cases "trim raw = []")
  case True
  then show ?thesis by (simp add: normalizePairInput_def trimmed_def)
next
  case False
  then have "\<not> is_space (hd (trim raw))" "\<not> is_space (last (trim raw))" using trim_trimmed [of raw] by (simp_all add: trimmed_def)
  with hd_replace [OF False] last_replace [OF False] show ?thesis
    by (auto simp: normalizePairInput_def trimmed_def)
qed

text \<open>A name without arrows passes through, up to the separator that follows it.\<close>

definition plain_name :: "jstring \<Rightarrow> bool" where
  "plain_name s \<longleftrightarrow> s \<noteq> [] \<and> trimmed s \<and> 62 \<notin> set s \<and> PAIR_ARROW \<notin> set s \<and> last s \<noteq> 45 \<and> last s \<noteq> 61"

lemma dropWhile_append_last: "xs \<noteq> [] \<Longrightarrow> \<not> P (last xs) \<Longrightarrow> dropWhile P (xs @ ys) = dropWhile P xs @ ys \<and> dropWhile P xs \<noteq> []"
  by (induction xs) (auto split: if_splits)

lemma match_name:
  assumes "s \<noteq> []" "62 \<notin> set s" "PAIR_ARROW \<notin> set s" "\<not> is_space (last s)" "last s \<noteq> 45" "last s \<noteq> 61"
  shows "match_separator (s @ t) = None"
proof -
  have d: "dropWhile is_space (s @ t) = dropWhile is_space s @ t" "dropWhile is_space s \<noteq> []"
    using dropWhile_append_last [OF assms(1), of is_space t] assms(4) by auto
  then obtain c cs where c: "dropWhile is_space s = c # cs" by (cases "dropWhile is_space s") auto
  have sub: "set (c # cs) \<subseteq> set s" using c set_dropWhileD [of _ is_space s] by (metis subsetI)
  have lst: "last (c # cs) = last s" using c d(2) by (metis last_appendR takeWhile_dropWhile_id)
  have "arrow_tail (c # cs @ t) = None"
  proof (cases "c = 45 \<or> c = 61")
    case True
    then have "cs \<noteq> []" "last cs \<noteq> c" using lst assms(5,6) by (auto split: if_splits)
    then have "dropWhile (\<lambda>x. x = c) (cs @ t) = dropWhile (\<lambda>x. x = c) cs @ t" "dropWhile (\<lambda>x. x = c) cs \<noteq> []"
      using dropWhile_append_last [of cs "\<lambda>x. x = c" t] by auto
    moreover have "hd (dropWhile (\<lambda>x. x = c) cs) \<noteq> 62"
      using calculation(2) sub assms(2) set_dropWhileD [of _ "\<lambda>x. x = c" cs] by (metis hd_in_set list.set_intros(2) subsetD)
    ultimately show ?thesis
      using sub assms(2,3) by (cases "dropWhile (\<lambda>x. x = c) cs") (auto simp: arrow_tail_def)
  next
    case False
    with sub assms(2,3) show ?thesis by (auto simp: arrow_tail_def)
  qed
  with d c show ?thesis by (simp add: match_separator_def)
qed

lemma replace_name:
  assumes "62 \<notin> set s" "PAIR_ARROW \<notin> set s" "s = [] \<or> \<not> is_space (last s) \<and> last s \<noteq> 45 \<and> last s \<noteq> 61"
  shows "replace_separators (s @ t) = s @ replace_separators t"
  using assms
proof (induction s)
  case (Cons c cs)
  have "match_separator ((c # cs) @ t) = None" using Cons.prems by (intro match_name) auto
  moreover have "replace_separators (cs @ t) = cs @ replace_separators t"
    using Cons by (auto split: if_splits)
  ultimately show ?case by simp
qed simp

subsection \<open>What the text rules guarantee\<close>

lemma read_escaped: "read_quoted (escapeLabelValue v @ 34 # rest) = Some (v, rest)"
  by (induction v) auto

text \<open>
  An escaped name between double quotes is read back as that very
  name, and the reader stops at the quote the query put there: no name can close the
  literal early, and no two names are escaped alike.
\<close>

lemma escapeLabelValue_roundtrip: "read_quoted (escapeLabelValue v @ 34 # rest) = Some (v, rest)"
  by (rule read_escaped)

text \<open>
  Normalising what an operator typed is idempotent, and the
  result has no typed arrow head left, no white space at either end and none around an arrow.
\<close>

lemma normalizePairInput_canonical:
  "normalizePairInput (normalizePairInput raw) = normalizePairInput raw \<and>
   clean (normalizePairInput raw) \<and> trimmed (normalizePairInput raw) \<and> 62 \<notin> set (normalizePairInput raw)"
proof -
  have c: "clean (normalizePairInput raw)" by (simp add: normalizePairInput_def replace_clean)
  have "normalizePairInput (normalizePairInput raw) = replace_separators (normalizePairInput raw)"
    using trim_id [OF normalize_trimmed] by (simp add: normalizePairInput_def)
  with c replace_clean_id [OF c] normalize_trimmed clean_no_gt [OF c] show ?thesis by simp
qed

text \<open>
  Every typeable spelling of a pair, with any white space around
  the separator and around the whole, normalises to the one spelling the console draws.
\<close>

lemma normalizePairInput_spelling:
  assumes "plain_name a" "plain_name b"
    and "set sp1 \<subseteq> Collect is_space" "set sp2 \<subseteq> Collect is_space"
    and "w \<in> {[PAIR_ARROW], js ''>'', js ''->'', js ''-->'', js ''=>''}"
  shows "normalizePairInput (a @ sp1 @ w @ sp2 @ b) = a @ PAIR_ARROW # b"
proof -
  have a: "a \<noteq> []" "\<not> is_space (hd a)" "\<not> is_space (last a)" and b: "b \<noteq> []" "\<not> is_space (hd b)" "\<not> is_space (last b)"
    using assms(1,2) by (auto simp: plain_name_def trimmed_def)
  have "trim (a @ sp1 @ w @ sp2 @ b) = a @ sp1 @ w @ sp2 @ b"
    using a b by (intro trim_id) (simp add: trimmed_def)
  moreover have m: "match_separator (sp1 @ w @ sp2 @ b) = Some b"
  proof -
    have sp: "dropWhile is_space (sp @ x) = dropWhile is_space x" if "set sp \<subseteq> Collect is_space" for sp x
      using that by (induction sp) auto
    have "dropWhile is_space b = b" using b by (cases b) auto
    moreover have "dropWhile is_space (w @ x) = w @ x" for x
      using assms(5) by (auto simp: is_space_def PAIR_ARROW_def)
    moreover have "arrow_tail (w @ x) = Some x" for x using assms(5) by (auto simp: arrow_tail_def)
    ultimately show ?thesis using sp [OF assms(3)] sp [OF assms(4)] by (simp add: match_separator_def)
  qed
  moreover have "sp1 @ w @ sp2 @ b \<noteq> []" using b by simp
  then have "replace_separators (sp1 @ w @ sp2 @ b) = PAIR_ARROW # replace_separators b"
    using m by (cases "sp1 @ w @ sp2 @ b") auto
  moreover have "replace_separators b = b"
    using replace_name [of b "[]"] assms(2) by (simp add: plain_name_def trimmed_def)
  ultimately show ?thesis
    using replace_name [of a "sp1 @ w @ sp2 @ b"] assms(1) a by (simp add: normalizePairInput_def plain_name_def)
qed

end
