(* ===== verification/Adhoc_Address.thy ===== *)
theory Adhoc_Address
  imports Text_Rules
begin

section \<open>Ad-hoc destination addresses (lib/utils.ts)\<close>

text \<open>
  The validator of a typed destination. \<open>url_hostname\<close> is \<open>new URL(value).hostname\<close>, \<open>None\<close>
  when the constructor throws. \<open>toLowerCase\<close> is applied to ASCII letters only: the result is
  compared with two ASCII prefixes, and no other letter lowers to one of theirs.

  A host and port split exactly when they were joined, a port is a decimal number in range,
  and every dotted quad and every full IPv6 literal is accepted.
\<close>

definition is_hex :: "jchar \<Rightarrow> bool" where
  "is_hex c \<longleftrightarrow> is_digit c \<or> (65 \<le> c \<and> c \<le> 70) \<or> (97 \<le> c \<and> c \<le> 102)"

definition is_label_char :: "jchar \<Rightarrow> bool" where
  "is_label_char c \<longleftrightarrow> is_digit c \<or> (65 \<le> c \<and> c \<le> 90) \<or> (97 \<le> c \<and> c \<le> 122) \<or> c = 95"

definition HOST_LABEL :: "jstring \<Rightarrow> bool" where
  "HOST_LABEL l \<longleftrightarrow> l \<noteq> [] \<and> is_label_char (hd l) \<and> is_label_char (last l) \<and>
     list_all (\<lambda>c. is_label_char c \<or> c = 45) l"

definition HOSTNAME_MAX :: nat where
  "HOSTNAME_MAX = 253"

definition HOST_LABEL_MAX :: nat where
  "HOST_LABEL_MAX = 63"

definition octet :: "jstring \<Rightarrow> bool" where
  "octet p \<longleftrightarrow> p \<noteq> [] \<and> length p \<le> 3 \<and> list_all is_digit p \<and> digits_value p \<le> 255"

definition isIPv4Dotted :: "jstring \<Rightarrow> bool" where
  "isIPv4Dotted s \<longleftrightarrow> (let parts = split_on 46 s in length parts = 4 \<and> list_all octet parts)"

definition hex_group :: "jstring \<Rightarrow> bool" where
  "hex_group g \<longleftrightarrow> g \<noteq> [] \<and> length g \<le> 4 \<and> list_all is_hex g"

definition isIPv6Literal :: "jstring \<Rightarrow> bool" where
  "isIPv6Literal host =
     (let zone = index_of host (js ''%'');
          s = (case zone of None \<Rightarrow> host | Some z \<Rightarrow> take z host)
      in if (case zone of None \<Rightarrow> False | Some z \<Rightarrow> z + 1 = length host) then False
         else if 58 \<notin> set s then False
         else let dc = index_of s (js ''::'')
         in if dc \<noteq> last_index_of s (js ''::'') then False
            else let (head, tail) =
                (case dc of
                   None \<Rightarrow> (split_on 58 s, [])
                 | Some d \<Rightarrow> let before = take d s; after = drop (d + 2) s
                     in (if before = [] then [] else split_on 58 before, if after = [] then [] else split_on 58 after))
            in if [] \<in> set head \<or> [] \<in> set tail then False
               else let groups = head @ tail;
                        quad = (groups \<noteq> [] \<and> 46 \<in> set (last groups))
               in if quad \<and> \<not> isIPv4Dotted (last groups) then False
                  else let hexGroups = (if quad then butlast groups else groups);
                           total = length groups + (if quad then 1 else 0)
                  in if \<not> list_all hex_group hexGroups then False
                     else if dc = None then total = 8 else total < 8)"

definition isIPLiteral :: "jstring \<Rightarrow> bool" where
  "isIPLiteral host =
     (let bare = (if 1 < length host \<and> starts_with host (js ''['') \<and> ends_with host (js '']'')
                  then butlast (tl host) else host)
      in if bare = [] then False else isIPv4Dotted bare \<or> isIPv6Literal bare)"

definition isHostname :: "jstring \<Rightarrow> bool" where
  "isHostname host =
     (if host = [] \<or> HOSTNAME_MAX < length host then False
      else let labels = split_on 46 (if ends_with host (js ''.'') then butlast host else host)
           in list_all (\<lambda>l. 0 < length l \<and> length l \<le> HOST_LABEL_MAX \<and> HOST_LABEL l) labels)"

definition splitHostPort :: "jstring \<Rightarrow> (jstring \<times> jstring) option" where
  "splitHostPort hostport =
     (case last_index_of hostport (js '':'') of
        None \<Rightarrow> None
      | Some i \<Rightarrow>
          if starts_with hostport (js ''['')
          then (case index_of hostport (js '']'') of
                  None \<Rightarrow> None
                | Some e \<Rightarrow>
                    if e + 1 = length hostport then None
                    else if e + 1 \<noteq> i then None
                    else if 91 \<in> set (drop 1 hostport) then None
                    else if 93 \<in> set (drop (e + 1) hostport) then None
                    else Some (drop 1 (take e hostport), drop (i + 1) hostport))
          else let host = take i hostport
               in if 58 \<in> set host then None
                  else if 91 \<in> set hostport \<or> 93 \<in> set hostport then None
                  else Some (host, drop (i + 1) hostport))"

definition isDecimalPort :: "jstring \<Rightarrow> bool" where
  "isDecimalPort p =
     (if \<not> (p \<noteq> [] \<and> list_all is_digit p) then False
      else let n = digits_value p in 1 \<le> n \<and> n \<le> 65535)"

definition ascii_lower :: "jstring \<Rightarrow> jstring" where
  "ascii_lower s = map (\<lambda>c. if 65 \<le> c \<and> c \<le> 90 then c + 32 else c) s"

definition isValidAdhocAddress :: "(jstring \<Rightarrow> jstring option) \<Rightarrow> jstring \<Rightarrow> bool" where
  "isValidAdhocAddress url_hostname raw =
     (let value = trim raw
      in if value = [] then False
         else let lower = ascii_lower value
         in if starts_with lower (js ''http://'') \<or> starts_with lower (js ''https://'')
            then (case url_hostname value of Some h \<Rightarrow> h \<noteq> [] | None \<Rightarrow> False)
            else case splitHostPort value of
                Some (host, port) \<Rightarrow> if \<not> isDecimalPort port then False else isIPLiteral host \<or> isHostname host
              | None \<Rightarrow> isIPLiteral value \<or> isHostname value)"

subsection \<open>Host and port\<close>

lemma last_index_single_None: "last_index_of s [c] = None \<longleftrightarrow> c \<notin> set s"
  by (induction s) (auto simp: js_text split: option.split)

lemma last_index_single_append: "c \<notin> set t \<Longrightarrow> last_index_of (s @ c # t) [c] = Some (length s)"
proof (induction s)
  case Nil
  then have "last_index_of t [c] = None" by (simp add: last_index_single_None)
  then show ?case by (simp add: js_text)
qed simp

lemma last_index_single_Some:
  assumes "last_index_of s [c] = Some i"
  obtains a b where "s = a @ c # b" "c \<notin> set b" "i = length a"
proof -
  have "c \<in> set s" using assms last_index_single_None [of s c] by auto
  then obtain a b where ab: "s = a @ c # b" "c \<notin> set b" by (metis split_list_last)
  with assms last_index_single_append [OF ab(2), of a] that show thesis by simp
qed

lemma index_single_Some:
  assumes "index_of s [c] = Some i"
  obtains a b where "s = a @ c # b" "c \<notin> set a" "i = length a"
proof -
  have "c \<in> set s" using assms index_of_single_None [of s c] by auto
  then obtain a b where ab: "s = a @ c # b" "c \<notin> set a" by (metis split_list_first)
  with assms index_of_single_append [OF ab(2), of b] that show thesis by simp
qed

text \<open>The two ways a host and a port are written together.\<close>

definition joined :: "jstring \<Rightarrow> jstring \<Rightarrow> jstring \<Rightarrow> bool" where
  "joined s h p \<longleftrightarrow> 58 \<notin> set p \<and> 91 \<notin> set h \<and> 93 \<notin> set h \<and> 91 \<notin> set p \<and> 93 \<notin> set p \<and>
     (s = h @ 58 # p \<and> 58 \<notin> set h \<or> s = 91 # h @ 93 # 58 # p)"

lemma joined_split: "joined s h p \<Longrightarrow> splitHostPort s = Some (h, p)"
proof -
  assume j: "joined s h p"
  show ?thesis
  proof (cases "s = h @ 58 # p \<and> 58 \<notin> set h")
    case True
    with j have "last_index_of s [58] = Some (length h)" by (simp add: joined_def last_index_single_append)
    moreover have "\<not> starts_with s [91]"
      using True j by (cases h) (auto simp: joined_def js_text)
    ultimately show ?thesis using True j by (simp add: splitHostPort_def joined_def)
  next
    case False
    with j have s: "s = 91 # h @ 93 # 58 # p" by (auto simp: joined_def)
    have l: "last_index_of s [58] = Some (Suc (Suc (length h)))"
      using last_index_single_append [of 58 p "91 # h @ [93]"] j s by (simp add: joined_def)
    have e: "index_of s [93] = Some (Suc (length h))"
      using index_of_single_append [of 93 "91 # h" "58 # p"] j s by (simp add: joined_def)
    have "starts_with s [91]" by (simp add: s js_text)
    with l e j show ?thesis by (simp add: splitHostPort_def joined_def s)
  qed
qed

lemma split_joined: "splitHostPort s = Some (h, p) \<Longrightarrow> joined s h p"
proof -
  assume sp: "splitHostPort s = Some (h, p)"
  then obtain i where i: "last_index_of s [58] = Some i" by (cases "last_index_of s [58]") (auto simp: splitHostPort_def)
  then obtain a b where ab: "s = a @ 58 # b" "58 \<notin> set b" "i = length a" by (rule last_index_single_Some)
  show ?thesis
  proof (cases "starts_with s [91]")
    case True
    with sp i obtain e where e: "index_of s [93] = Some e" by (cases "index_of s [93]") (auto simp: splitHostPort_def)
    then obtain x y where xy: "s = x @ 93 # y" "93 \<notin> set x" "e = length x" by (rule index_single_Some)
    have cond: "e + 1 = i" "91 \<notin> set (drop 1 s)" "93 \<notin> set (drop (e + 1) s)"
      "h = drop 1 (take e s)" "p = drop (i + 1) s"
      using sp i e True by (auto simp: splitHostPort_def split: if_splits)
    have a: "a = x @ [93]" "58 # b = y"
      using xy ab cond(1) by (auto simp: append_eq_append_conv_if) (metis append_eq_conv_conj append_Cons append_assoc append_Nil length_append_singleton)+
    obtain x' where x': "x = 91 # x'" using True xy(1) a by (cases x) (auto simp: js_text)
    have s2: "s = 91 # x' @ 93 # 58 # b" using xy(1) a(2) x' by simp
    have "h = x'" using cond(4) xy(3) x' by (simp add: s2)
    moreover have "p = b" using cond(5) ab by simp
    ultimately show ?thesis using cond(2,3) xy(2,3) ab(2) x' by (auto simp: joined_def s2)
  next
    case False
    with sp i ab show ?thesis by (auto simp: splitHostPort_def joined_def split: if_splits)
  qed
qed

subsection \<open>Octets and groups\<close>

lemma length_dec: "n < 1000 \<Longrightarrow> length (dec n) \<le> 3"
  by (simp add: dec.simps [of n] dec.simps [of "n div 10"] dec.simps [of "n div 10 div 10"])

lemma octet_dec: "n \<le> 255 \<Longrightarrow> octet (dec n)"
  by (auto simp: octet_def list_all_iff dec_digits intro!: length_dec)

lemma dot_not_digit: "octet p \<Longrightarrow> 46 \<notin> set p"
  by (auto simp: octet_def list_all_iff is_digit_def)

lemma hex_group_chars: "hex_group g \<Longrightarrow> 58 \<notin> set g \<and> 37 \<notin> set g \<and> 46 \<notin> set g"
  by (auto simp: hex_group_def list_all_iff is_hex_def is_digit_def)

text \<open>Groups joined by single colons contain no double colon.\<close>

lemma no_double_colon:
  "(\<forall>g \<in> set gs. g \<noteq> [] \<and> 58 \<notin> set g) \<Longrightarrow> index_of (join [58] gs) [58, 58] = None \<and> last_index_of (join [58] gs) [58, 58] = None \<and>
    (gs \<noteq> [] \<longrightarrow> hd (join [58] gs) \<noteq> (58 :: nat))"
proof (induction "[58 :: nat]" gs rule: join.induct)
  case (2 x)
  have "index_of x [58, 58] = None \<and> last_index_of x [58, 58] = None" if "58 \<notin> set x" for x :: jstring
    using that by (induction x) (auto simp: starts_with_def)
  note none = this [of x]
  have "58 \<notin> set x" "x \<noteq> []" using 2 by auto
  with none show ?case by (cases x) (auto simp del: index_of.simps last_index_of.simps)
next
  case (3 x y xs)
  let ?t = "join [58] (y # xs)"
  have t: "index_of ?t [58, 58] = None" "last_index_of ?t [58, 58] = None" "?t \<noteq> [] \<and> hd ?t \<noteq> 58"
    using 3 by (cases xs; auto)+
  have "index_of (x @ 58 # ?t) [58, 58] = None \<and> last_index_of (x @ 58 # ?t) [58, 58] = None" if "58 \<notin> set x" for x
    using that t by (induction x) (auto simp: starts_with_def take_Suc neq_Nil_conv)
  note none = this [of x]
  have "58 \<notin> set x" "x \<noteq> []" using 3 by auto
  with none show ?case by (cases x) (auto simp del: index_of.simps last_index_of.simps)
qed simp

subsection \<open>What the validator guarantees\<close>

text \<open>
  The string splits into a host and a port exactly when it is that host
  and port joined, either with one colon and no bracket anywhere or with the host in
  brackets; nothing else splits.
\<close>

lemma splitHostPort_exact: "splitHostPort s = Some (h, p) \<longleftrightarrow> joined s h p"
  using joined_split split_joined by blast

text \<open>
  A port is accepted exactly when it is a non-empty run of decimal digits
  whose value is between 1 and 65535; in particular every such number as the console prints it.
\<close>

lemma isDecimalPort_range:
  "(isDecimalPort p \<longleftrightarrow> p \<noteq> [] \<and> (\<forall>c \<in> set p. is_digit c) \<and> digits_value p \<in> {1..65535}) \<and>
   (isDecimalPort (dec n) \<longleftrightarrow> n \<in> {1..65535})"
  by (auto simp: isDecimalPort_def Let_def list_all_iff dec_digits)

lemma quad_accepted:
  assumes "a \<le> 255" "b \<le> 255" "c \<le> 255" "d \<le> 255"
  shows "isIPv4Dotted (join [46] [dec a, dec b, dec c, dec d])"
proof -
  have "split_on 46 (join [46] [dec a, dec b, dec c, dec d]) = [dec a, dec b, dec c, dec d]"
    using assms by (intro split_on_join) (auto dest: dot_not_digit [OF octet_dec])
  with assms show ?thesis by (simp add: isIPv4Dotted_def octet_dec)
qed

lemma groups_accepted:
  assumes "length gs = 8" "\<forall>g \<in> set gs. hex_group g"
  shows "isIPv6Literal (join [58] gs)"
proof -
  let ?s = "join [58] gs"
  have g: "\<forall>g \<in> set gs. g \<noteq> [] \<and> 58 \<notin> set g" using assms(2) hex_group_chars by (auto simp: hex_group_def)
  have chars: "set (join [58] xs) \<subseteq> insert 58 (\<Union> (set ` set xs))" for xs :: "jstring list"
    by (induction "[58 :: nat]" xs rule: join.induct) auto
  have "37 \<notin> set ?s" using chars [of gs] assms(2) hex_group_chars by auto
  then have z: "index_of ?s [37] = None" by (simp add: index_of_single_None)
  have split: "split_on 58 ?s = gs" using assms(1) g by (intro split_on_join) auto
  have colon: "58 \<in> set ?s"
  proof (rule ccontr)
    assume "58 \<notin> set ?s"
    then have "length gs = 1" using split split_on_no_sep [of 58 ?s] by (metis One_nat_def length_Cons list.size(3))
    with assms(1) show False by simp
  qed
  have "46 \<notin> set (last gs)" using assms hex_group_chars [of "last gs"] by (metis last_in_set length_0_conv zero_neq_numeral)
  with z colon no_double_colon [OF g] split g assms show ?thesis
    by (auto simp: isIPv6Literal_def list_all_iff)
qed

text \<open>A literal that is no URL is valid on its own or joined with a valid port.\<close>

lemma not_url: "v \<noteq> [] \<Longrightarrow> hd v \<notin> {72, 104} \<Longrightarrow> \<not> starts_with (ascii_lower v) (js ''http://'') \<and> \<not> starts_with (ascii_lower v) (js ''https://'')"
  by (cases v) (auto simp: starts_with_def ascii_lower_def split: if_splits)

lemma valid_literal:
  assumes "v \<noteq> []" "trimmed v" "hd v \<notin> {72, 104}" "splitHostPort v = None" "isIPLiteral v"
  shows "isValidAdhocAddress url v"
  using assms not_url [OF assms(1,3)] by (simp add: isValidAdhocAddress_def trim_id)

lemma valid_literal_port:
  assumes "v \<noteq> []" "trimmed v" "hd v \<notin> {72, 104}" "joined v h p" "isIPLiteral h" "isDecimalPort p"
  shows "isValidAdhocAddress url v"
  using assms not_url [OF assms(1,3)] joined_split [OF assms(4)] by (simp add: isValidAdhocAddress_def trim_id)

lemma no_split: "58 \<notin> set s \<Longrightarrow> splitHostPort s = None"
proof -
  assume "58 \<notin> set s"
  then have "last_index_of s [58] = None" by (simp add: last_index_single_None)
  then show ?thesis by (simp add: splitHostPort_def)
qed

lemma plain_char: "is_hex c \<or> c = 46 \<or> c = 58 \<or> c = 91 \<or> c = 93 \<Longrightarrow> \<not> is_space c \<and> c \<noteq> 72 \<and> c \<noteq> 104"
  by (auto simp: is_hex_def is_digit_def is_space_def)

lemma plain_chars: "x \<noteq> [] \<Longrightarrow> \<forall>c \<in> set x. is_hex c \<or> c = 46 \<or> c = 58 \<or> c = 91 \<or> c = 93 \<Longrightarrow> trimmed x \<and> hd x \<notin> {72, 104}"
  using plain_char [of "hd x"] plain_char [of "last x"] by (simp add: trimmed_def)

lemma IPLiteral_bare: "x \<noteq> [] \<Longrightarrow> hd x \<noteq> 91 \<Longrightarrow> isIPLiteral x \<longleftrightarrow> isIPv4Dotted x \<or> isIPv6Literal x"
  by (cases x) (auto simp: isIPLiteral_def starts_with_def)

lemma dec_hex: "c \<in> set (dec n) \<Longrightarrow> is_hex c"
  by (simp add: is_hex_def dec_digits)

lemma port_chars: "58 \<notin> set (dec n)" "91 \<notin> set (dec n)" "93 \<notin> set (dec n)"
  using dec_digits [of 58 n] dec_digits [of 91 n] dec_digits [of 93 n] by (auto simp: is_digit_def)

lemma quad_valid:
  assumes "isDecimalPort p" "p = dec port" "q = join [46] [dec a, dec b, dec c, dec d]" "isIPv4Dotted q"
  shows "isValidAdhocAddress url q" "isValidAdhocAddress url (q @ 58 # p)"
proof -
  have chars: "\<forall>c \<in> set q. is_hex c \<or> c = 46" and ne: "q \<noteq> []"
    using assms(3) dec_hex by auto
  have br: "58 \<notin> set q" "91 \<notin> set q" "93 \<notin> set q" using chars by (auto simp: is_hex_def is_digit_def)
  have hd: "hd q \<noteq> 91" using ne br by (metis hd_in_set)
  have lit: "isIPLiteral q" using IPLiteral_bare [OF ne hd] assms(4) by simp
  show "isValidAdhocAddress url q"
    using valid_literal [OF ne _ _ no_split [OF br(1)] lit] plain_chars [OF ne] chars by blast
  have pc: "\<forall>c \<in> set (q @ 58 # p). is_hex c \<or> c = 46 \<or> c = 58 \<or> c = 91 \<or> c = 93"
    using chars assms(2) dec_hex by auto
  have j: "joined (q @ 58 # p) q p" using br assms(2) port_chars by (simp add: joined_def)
  show "isValidAdhocAddress url (q @ 58 # p)"
    using valid_literal_port [OF _ _ _ j lit assms(1)] plain_chars [OF _ pc] by simp
qed

lemma groups_valid:
  assumes "isDecimalPort p" "p = dec port" "length gs = 8" "\<forall>g \<in> set gs. hex_group g" "q = join [58] gs"
  shows "isValidAdhocAddress url q" "isValidAdhocAddress url (91 # q @ 93 # 58 # p)"
proof -
  have chars: "set (join [58] xs) \<subseteq> insert 58 (\<Union> (set ` set xs))" for xs :: "jstring list"
    by (induction "[58 :: nat]" xs rule: join.induct) auto
  have qc: "\<forall>c \<in> set q. is_hex c \<or> c = 58"
    using chars [of gs] assms(4,5) by (auto simp: hex_group_def list_all_iff)
  have split: "split_on 58 q = gs"
    unfolding assms(5) using assms(3,4) hex_group_chars by (intro split_on_join) auto
  have ne: "q \<noteq> []" using split assms(3) by auto
  have br: "91 \<notin> set q" "93 \<notin> set q" using qc by (auto simp: is_hex_def is_digit_def)
  have hd: "hd q \<noteq> 91" using ne br by (metis hd_in_set)
  have lit: "isIPLiteral q" using IPLiteral_bare [OF ne hd] groups_accepted [OF assms(3,4)] assms(5) by simp
  have "splitHostPort q = None"
  proof (rule ccontr)
    assume "splitHostPort q \<noteq> None"
    then obtain h r where "splitHostPort q = Some (h, r)" by auto
    then have "joined q h r" by (rule split_joined)
    then have "q = h @ 58 # r \<and> 58 \<notin> set h \<and> 58 \<notin> set r" using br by (auto simp: joined_def)
    then have "split_on 58 q = [h, r]" by (simp add: split_on_append split_on_no_sep)
    with split assms(3) show False by auto
  qed
  with valid_literal [OF ne _ _ _ lit] plain_chars [OF ne] qc show "isValidAdhocAddress url q" by blast
  have pc: "\<forall>c \<in> set (91 # q @ 93 # 58 # p). is_hex c \<or> c = 46 \<or> c = 58 \<or> c = 91 \<or> c = 93"
    using qc assms(2) dec_hex by auto
  have j: "joined (91 # q @ 93 # 58 # p) q p" using br assms(2) port_chars by (simp add: joined_def)
  show "isValidAdhocAddress url (91 # q @ 93 # 58 # p)"
    using valid_literal_port [OF _ _ _ j lit assms(1)] plain_chars [OF _ pc] by simp
qed

text \<open>
  Every dotted quad of octets and every IPv6 address written as eight
  groups of hexadecimal digits is a valid destination, on its own and with any valid port.
\<close>

lemma ip_literals_accepted:
  assumes "port \<in> {1..65535}" "a \<le> 255" "b \<le> 255" "c \<le> 255" "d \<le> 255"
    and "length gs = 8" "\<forall>g \<in> set gs. hex_group g"
  shows "isValidAdhocAddress url (join [46] [dec a, dec b, dec c, dec d]) \<and>
    isValidAdhocAddress url (join [46] [dec a, dec b, dec c, dec d] @ 58 # dec port) \<and>
    isValidAdhocAddress url (join [58] gs) \<and>
    isValidAdhocAddress url (91 # join [58] gs @ 93 # 58 # dec port)"
proof -
  have p: "isDecimalPort (dec port)" using assms(1) by (simp add: isDecimalPort_def list_all_iff dec_digits)
  note q = quad_valid [OF p HOL.refl HOL.refl quad_accepted [OF assms(2-5)]]
  note g = groups_valid [OF p HOL.refl assms(6,7) HOL.refl]
  show ?thesis by (intro conjI q g)
qed

end
