(* ===== verification/Matrix_Cells.thy ===== *)
theory Matrix_Cells
  imports Js_Prelude
begin

section \<open>Cells of the matrix, the sparse plan and the protocol in the URL\<close>

text \<open>
  lib/matrix-cells.ts: the tier a cell is painted with. lib/matrix-plan.ts: which pairs a
  sparse plan leaves out. lib/protocol-param.ts: the protocol a URL names; a query string is
  the list of its parameters, \<open>URLSearchParams\<close> with \<open>get\<close> the first value and \<open>set\<close>
  replacing the first and dropping the others.

  A field of a cell is \<open>None\<close> when it is null or absent. A calm cell is shown to hide no
  problem, and a pair is called excluded only when the plan says so.
\<close>

record MatrixCell =
  mc_source :: jstring
  mc_destination :: jstring
  mc_failRatio :: "jsnum option"
  mc_rttP95 :: "jsnum option"
  mc_lossRatio :: "jsnum option"
  mc_mtuBytes :: "jsnum option"
  mc_probeMtuBytes :: "jsnum option"
  mc_recentFailRatio :: "jsnum option"

datatype CellTier = tier_ok | tier_warn | tier_bad | tier_unknown

definition DEGRADED_AT :: jsnum where
  "DEGRADED_AT = Fin (1 / 100)"

definition FAILING_AT :: jsnum where
  "FAILING_AT = Fin (1 / 10)"

definition finite_num :: "jsnum option \<Rightarrow> bool" where
  "finite_num v = (case v of Some n \<Rightarrow> is_finite n | None \<Rightarrow> False)"

definition isMeasured :: "MatrixCell option \<Rightarrow> bool" where
  "isMeasured cell = (case cell of None \<Rightarrow> False
     | Some c \<Rightarrow> finite_num (mc_failRatio c) \<or> finite_num (mc_rttP95 c) \<or> finite_num (mc_lossRatio c) \<or> finite_num (mc_mtuBytes c))"

definition isReducedPath :: "MatrixCell option \<Rightarrow> bool" where
  "isReducedPath cell = (case cell of None \<Rightarrow> False
     | Some c \<Rightarrow> finite_num (mc_mtuBytes c) \<and> finite_num (mc_probeMtuBytes c) \<and> the (mc_mtuBytes c) < the (mc_probeMtuBytes c))"

definition severityRatio :: "MatrixCell option \<Rightarrow> jsnum option" where
  "severityRatio cell = (case cell of None \<Rightarrow> None
     | Some c \<Rightarrow>
         let ratios = (if finite_num (mc_failRatio c) then [the (mc_failRatio c)] else []) @
                      (if finite_num (mc_lossRatio c) then [the (mc_lossRatio c)] else [])
         in if ratios = [] then None else Some (jmax_list ratios))"

datatype pmtu_reading = r_blackhole | r_reduced | r_recovering | r_full

definition pmtuReading :: "MatrixCell option \<Rightarrow> pmtu_reading option" where
  "pmtuReading cell = (case cell of None \<Rightarrow> None
     | Some c \<Rightarrow>
         if \<not> finite_num (mc_mtuBytes c) then None
         else let fail = (if finite_num (mc_failRatio c) then the (mc_failRatio c) else Fin 0)
         in if isReducedPath cell then Some (if Fin 0 < fail then r_blackhole else r_reduced)
            else if Fin 0 < fail \<and> finite_num (mc_recentFailRatio c)
            then Some (if Fin 0 < the (mc_recentFailRatio c) then r_blackhole else r_recovering)
            else Some (if FAILING_AT \<le> fail then r_blackhole else r_full))"

definition cellTier :: "MatrixCell option \<Rightarrow> CellTier" where
  "cellTier cell =
     (if \<not> isMeasured cell then tier_unknown
      else if pmtuReading cell = Some r_blackhole then tier_bad
      else if pmtuReading cell = Some r_recovering then tier_warn
      else let ratio = severityRatio cell
      in if ratio \<noteq> None \<and> FAILING_AT \<le> the ratio then tier_bad
         else if ratio \<noteq> None \<and> DEGRADED_AT \<le> the ratio then tier_warn
         else if isReducedPath cell then tier_warn
         else tier_ok)"

definition isProblemCell :: "MatrixCell option \<Rightarrow> bool" where
  "isProblemCell cell \<longleftrightarrow> cellTier cell = tier_warn \<or> cellTier cell = tier_bad"

definition fmtRatio :: "(jsnum \<Rightarrow> jstring) \<Rightarrow> jsnum option \<Rightarrow> jstring" where
  "fmtRatio num_str ratio =
     (if finite_num ratio then to_fixed num_str 1 (Fin 100 * the ratio) @ js ''%'' else [8212])"

definition fmtRtt :: "(jsnum \<Rightarrow> jstring) \<Rightarrow> jsnum option \<Rightarrow> jstring" where
  "fmtRtt num_str ns =
     (if finite_num ns then to_fixed num_str 1 (divide (the ns) (Fin 1000000)) @ js ''ms'' else [8212])"

definition cellSummary :: "(jsnum \<Rightarrow> jstring) \<Rightarrow> MatrixCell option \<Rightarrow> translator \<Rightarrow> jstring" where
  "cellSummary num_str cell t =
     (if \<not> isMeasured cell then t (js ''noData'') []
      else let c = the cell
      in join (js '', '')
        ([if finite_num (mc_failRatio c) then t (js ''fail'') [(js ''ratio'', TS (fmtRatio num_str (mc_failRatio c)))]
          else t (js ''noFailSignal'') []] @
         (if finite_num (mc_rttP95 c) then [t (js ''rttP95'') [(js ''rtt'', TS (fmtRtt num_str (mc_rttP95 c)))]] else []) @
         (if finite_num (mc_lossRatio c) then [t (js ''packetLoss'') [(js ''ratio'', TS (fmtRatio num_str (mc_lossRatio c)))]] else []) @
         (if finite_num (mc_mtuBytes c)
          then [if isReducedPath cell
                then t (js ''pathMtuReduced'') [(js ''mtu'', TS (show_num num_str (the (mc_mtuBytes c)))),
                                               (js ''probe'', TS (show_num num_str (the (mc_probeMtuBytes c))))]
                else t (js ''pathMtu'') [(js ''mtu'', TS (show_num num_str (the (mc_mtuBytes c))))]] @
               (if pmtuReading cell = Some r_blackhole then [t (js ''mtuBlackhole'') []] else []) @
               (if pmtuReading cell = Some r_recovering then [t (js ''mtuRecovering'') []] else [])
          else [])))"

subsection \<open>The sparse plan\<close>

type_synonym ProbePlan = "(jstring, jstring list) jmap"

fun plan_dest :: "jsval \<Rightarrow> jstring list \<Rightarrow> jstring list" where
  "plan_dest (JStr d) ds = (if d \<noteq> [] then jadd d ds else ds)"
| "plan_dest v ds = ds"

fun plan_row :: "jstring \<times> jsval \<Rightarrow> ProbePlan \<Rightarrow> ProbePlan" where
  "plan_row (source, JArr dests) plan = AList.update source (fold plan_dest dests []) plan"
| "plan_row (source, v) plan = plan"

fun readProbePlan :: "jsval \<Rightarrow> ProbePlan option" where
  "readProbePlan (JObj entries) = Some (fold plan_row entries [])"
| "readProbePlan v = None"

definition isPlanExcluded :: "ProbePlan option \<Rightarrow> jstring \<Rightarrow> jstring \<Rightarrow> bool" where
  "isPlanExcluded plan src dst =
     (case plan of None \<Rightarrow> False
      | Some p \<Rightarrow> if src = dst then False
         else (case map_of p src of None \<Rightarrow> False | Some dests \<Rightarrow> dst \<notin> set dests))"

subsection \<open>The protocol in the URL\<close>

datatype Protocol = p_tcp | p_udp | p_icmp | p_pmtu

fun protocol_name :: "Protocol \<Rightarrow> jstring" where
  "protocol_name p_tcp = js ''tcp''"
| "protocol_name p_udp = js ''udp''"
| "protocol_name p_icmp = js ''icmp''"
| "protocol_name p_pmtu = js ''pmtu''"

definition PROTOCOLS :: "Protocol list" where
  "PROTOCOLS = [p_tcp, p_udp, p_icmp, p_pmtu]"

type_synonym search_params = "(jstring \<times> jstring) list"

definition PROTOCOL_PARAM :: jstring where
  "PROTOCOL_PARAM = js ''protocol''"

definition readProtocolFromLocation :: "search_params \<Rightarrow> Protocol" where
  "readProtocolFromLocation search =
     (case map_of search PROTOCOL_PARAM of
        None \<Rightarrow> p_tcp
      | Some raw \<Rightarrow> (case find (\<lambda>p. protocol_name p = raw) PROTOCOLS of Some p \<Rightarrow> p | None \<Rightarrow> p_tcp))"

definition degradedProtocolParam :: "search_params \<Rightarrow> Protocol option" where
  "degradedProtocolParam search =
     (case map_of search PROTOCOL_PARAM of
        None \<Rightarrow> None
      | Some raw \<Rightarrow> let resolved = readProtocolFromLocation search
                    in if raw = protocol_name resolved then None else Some resolved)"

definition matrixHref :: "Protocol \<Rightarrow> jstring" where
  "matrixHref p = (if p = p_tcp then js ''/matrix'' else js ''/matrix?'' @ PROTOCOL_PARAM @ js ''='' @ protocol_name p)"

fun params_set :: "jstring \<Rightarrow> jstring \<Rightarrow> search_params \<Rightarrow> search_params" where
  "params_set k v [] = [(k, v)]"
| "params_set k v (p # ps) = (if fst p = k then (k, v) # filter (\<lambda>q. fst q \<noteq> k) ps else p # params_set k v ps)"

definition writeProtocol :: "Protocol \<Rightarrow> search_params \<Rightarrow> search_params" where
  "writeProtocol p search = params_set PROTOCOL_PARAM (protocol_name p) search"

subsection \<open>Lemmas\<close>

lemma finite_num_Some: "finite_num v \<longleftrightarrow> (\<exists>r. v = Some (Fin r))"
  by (auto simp: finite_num_def is_finite_iff split: option.split)

lemma severity_bounds:
  "severityRatio (Some c) \<noteq> None \<and> \<not> x \<le> the (severityRatio (Some c)) \<or> severityRatio (Some c) = None \<Longrightarrow> x = Fin y \<Longrightarrow>
   (\<forall>r. mc_failRatio c = Some (Fin r) \<or> mc_lossRatio c = Some (Fin r) \<longrightarrow> r < y)"
  by (auto simp: severityRatio_def Let_def finite_num_Some jmax_list_def jmax_def split: if_splits)

lemma set_plan_dests: "set (fold plan_dest ds acc) = set acc \<union> {d. JStr d \<in> set ds \<and> d \<noteq> []}"
proof (induction ds arbitrary: acc)
  case (Cons v ds)
  then show ?case by (cases v) auto
qed simp

lemma plan_rows_other: "src \<notin> set (keys entries) \<Longrightarrow> map_of (fold plan_row entries plan) src = map_of plan src"
proof (induction entries arbitrary: plan)
  case (Cons e es)
  then show ?case by (cases e; cases "snd e") (auto simp: update_conv')
qed simp

lemma plan_rows:
  "distinct (keys entries) \<Longrightarrow> map_of (fold plan_row entries plan) src =
   (case map_of entries src of Some (JArr dests) \<Rightarrow> Some (fold plan_dest dests []) | _ \<Rightarrow> map_of plan src)"
proof (induction entries arbitrary: plan)
  case (Cons e es)
  obtain k v where e: "e = (k, v)" by (cases e)
  show ?case
  proof (cases "k = src")
    case True
    with Cons.prems e have "src \<notin> set (keys es)" by auto
    with True e plan_rows_other [of src es] show ?thesis by (cases v) (simp_all add: update_conv')
  next
    case False
    have "map_of (plan_row e plan) src = map_of plan src" using False e by (cases v) (simp_all add: update_conv')
    with Cons False e show ?thesis by (cases "map_of es src") (auto split: jsval.split)
  qed
qed simp

lemma map_of_params_set: "map_of (params_set k v ps) k' = (if k' = k then Some v else map_of ps k')"
proof (induction ps)
  case (Cons p ps)
  have "map_of (filter (\<lambda>q. fst q \<noteq> k) ps) k' = (if k' = k then None else map_of ps k')"
    by (induction ps) auto
  with Cons show ?case by (cases p) auto
qed simp

subsection \<open>What the grid may be trusted with\<close>

definition demo_cell :: "rat \<Rightarrow> MatrixCell" where
  "demo_cell r = \<lparr>mc_source = js ''a'', mc_destination = js ''b'', mc_failRatio = Some (Fin r), mc_rttP95 = None,
     mc_lossRatio = None, mc_mtuBytes = None, mc_probeMtuBytes = None, mc_recentFailRatio = None\<rparr>"

lemma severity_below:
  "(severityRatio (Some c) \<noteq> None \<and> Fin y \<le> the (severityRatio (Some c))) \<longleftrightarrow>
   (\<exists>r. (mc_failRatio c = Some (Fin r) \<or> mc_lossRatio c = Some (Fin r)) \<and> y \<le> r)"
  by (auto simp: severityRatio_def Let_def finite_num_Some jmax_list_def jmax_def split: if_splits)

text \<open>The readings that colour a cell by its path MTU alone.\<close>

lemma pmtu_alarm:
  assumes "\<not> isReducedPath (Some c)" "\<forall>r. mc_failRatio c = Some (Fin r) \<longrightarrow> r < 1 / 100"
  shows "pmtuReading (Some c) \<in> {Some r_blackhole, Some r_recovering} \<longleftrightarrow>
    (\<exists>m r q. mc_mtuBytes c = Some (Fin m) \<and> mc_failRatio c = Some (Fin r) \<and> 0 < r \<and> mc_recentFailRatio c = Some (Fin q))"
  using assms by (auto simp: pmtuReading_def finite_num_Some Let_def FAILING_AT_def split: if_splits)

text \<open>
  C24: a cell is drawn unknown exactly when nothing was measured. It is drawn ok
  exactly when something was measured, every measured failure and loss ratio is under the degraded
  line, a measured path MTU is no smaller than the probe, and no measured path MTU has beside it both
  a failure and a recent-window reading. Without a path MTU the recent window is not looked at.
\<close>

theorem cellTier_calm_is_safe:
  "(cellTier (Some c) = tier_unknown \<longleftrightarrow>
      \<not> finite_num (mc_failRatio c) \<and> \<not> finite_num (mc_rttP95 c) \<and> \<not> finite_num (mc_lossRatio c) \<and> \<not> finite_num (mc_mtuBytes c)) \<and>
   (cellTier (Some c) = tier_ok \<longleftrightarrow>
      (finite_num (mc_failRatio c) \<or> finite_num (mc_rttP95 c) \<or> finite_num (mc_lossRatio c) \<or> finite_num (mc_mtuBytes c)) \<and>
      (\<nexists>r. (mc_failRatio c = Some (Fin r) \<or> mc_lossRatio c = Some (Fin r)) \<and> 1 / 100 \<le> r) \<and>
      (\<nexists>m p. mc_mtuBytes c = Some (Fin m) \<and> mc_probeMtuBytes c = Some (Fin p) \<and> m < p) \<and>
      (\<nexists>m r q. mc_mtuBytes c = Some (Fin m) \<and> mc_failRatio c = Some (Fin r) \<and> 0 < r \<and> mc_recentFailRatio c = Some (Fin q)))"
proof (intro conjI)
  show "cellTier (Some c) = tier_unknown \<longleftrightarrow>
      \<not> finite_num (mc_failRatio c) \<and> \<not> finite_num (mc_rttP95 c) \<and> \<not> finite_num (mc_lossRatio c) \<and> \<not> finite_num (mc_mtuBytes c)"
    by (simp add: cellTier_def Let_def isMeasured_def)
next
  let ?bad = "\<exists>r. (mc_failRatio c = Some (Fin r) \<or> mc_lossRatio c = Some (Fin r)) \<and> 1 / 100 \<le> r"
  let ?mtu = "\<exists>m r q. mc_mtuBytes c = Some (Fin m) \<and> mc_failRatio c = Some (Fin r) \<and> 0 < r \<and> mc_recentFailRatio c = Some (Fin q)"
  have reduced: "isReducedPath (Some c) \<longleftrightarrow> (\<exists>m p. mc_mtuBytes c = Some (Fin m) \<and> mc_probeMtuBytes c = Some (Fin p) \<and> m < p)"
    by (auto simp: isReducedPath_def finite_num_Some)
  have "cellTier (Some c) = tier_ok \<longleftrightarrow> isMeasured (Some c) \<and> pmtuReading (Some c) \<notin> {Some r_blackhole, Some r_recovering} \<and>
      \<not> (severityRatio (Some c) \<noteq> None \<and> Fin (1 / 10) \<le> the (severityRatio (Some c))) \<and>
      \<not> (severityRatio (Some c) \<noteq> None \<and> Fin (1 / 100) \<le> the (severityRatio (Some c))) \<and> \<not> isReducedPath (Some c)"
    by (simp add: cellTier_def Let_def FAILING_AT_def DEGRADED_AT_def)
  also have "\<dots> \<longleftrightarrow> isMeasured (Some c) \<and> \<not> ?bad \<and> \<not> isReducedPath (Some c) \<and> \<not> ?mtu"
  proof (cases "?bad \<or> isReducedPath (Some c)")
    case False
    then have "\<forall>r. mc_failRatio c = Some (Fin r) \<longrightarrow> r < 1 / 100" by (auto simp: not_le)
    with False have mtu: "pmtuReading (Some c) \<in> {Some r_blackhole, Some r_recovering} \<longleftrightarrow> ?mtu" by (intro pmtu_alarm) auto
    have "\<not> (\<exists>r. (mc_failRatio c = Some (Fin r) \<or> mc_lossRatio c = Some (Fin r)) \<and> 1 / 10 \<le> r)"
    proof
      assume "\<exists>r. (mc_failRatio c = Some (Fin r) \<or> mc_lossRatio c = Some (Fin r)) \<and> 1 / 10 \<le> r"
      then obtain r where "mc_failRatio c = Some (Fin r) \<or> mc_lossRatio c = Some (Fin r)" "1 / 10 \<le> r" by blast
      then have "mc_failRatio c = Some (Fin r) \<or> mc_lossRatio c = Some (Fin r)" "1 / 100 \<le> r" by auto
      with False show False by blast
    qed
    with False mtu show ?thesis unfolding severity_below by blast
  next
    case True
    then show ?thesis unfolding severity_below by blast
  qed
  finally show "cellTier (Some c) = tier_ok \<longleftrightarrow>
      (finite_num (mc_failRatio c) \<or> finite_num (mc_rttP95 c) \<or> finite_num (mc_lossRatio c) \<or> finite_num (mc_mtuBytes c)) \<and>
      (\<nexists>r. (mc_failRatio c = Some (Fin r) \<or> mc_lossRatio c = Some (Fin r)) \<and> 1 / 100 \<le> r) \<and>
      (\<nexists>m p. mc_mtuBytes c = Some (Fin m) \<and> mc_probeMtuBytes c = Some (Fin p) \<and> m < p) \<and>
      (\<nexists>m r q. mc_mtuBytes c = Some (Fin m) \<and> mc_failRatio c = Some (Fin r) \<and> 0 < r \<and> mc_recentFailRatio c = Some (Fin q))"
    unfolding reduced by (simp add: isMeasured_def)
qed

theorem cellTier_calm_is_safe_witness: "cellTier (Some (demo_cell (1 / 1000))) = tier_ok \<and> cellTier (Some (demo_cell (1 / 50))) \<noteq> tier_ok"
proof
  show "cellTier (Some (demo_cell (1 / 1000))) = tier_ok"
    using cellTier_calm_is_safe [of "demo_cell (1 / 1000)"] by (simp add: demo_cell_def finite_num_def)
  have "mc_failRatio (demo_cell (1 / 50)) = Some (Fin (1 / 50))" "(1 / 100 :: rat) \<le> 1 / 50" by (simp_all add: demo_cell_def)
  then show "cellTier (Some (demo_cell (1 / 50))) \<noteq> tier_ok"
    using cellTier_calm_is_safe [of "demo_cell (1 / 50)"] by blast
qed

text \<open>
  Whatever JSON arrives as the plan, a pair is called excluded
  exactly when it is not a self pair, the plan has a row for its source, that row is a list,
  and the destination is not a name in it. Anything unreadable keeps the pair planned.
\<close>

lemma isPlanExcluded_only_by_plan:
  assumes "\<forall>entries. raw = JObj entries \<longrightarrow> distinct (keys entries)"
  shows "isPlanExcluded (readProbePlan raw) src dst \<longleftrightarrow>
    src \<noteq> dst \<and> (\<exists>entries dests. raw = JObj entries \<and> map_of entries src = Some (JArr dests) \<and> (JStr dst \<notin> set dests \<or> dst = []))"
proof (cases raw)
  case (JObj entries)
  with assms have "distinct (keys entries)" by simp
  note rows = plan_rows [OF this, of "[]" src]
  show ?thesis
  proof (cases "\<exists>dests. map_of entries src = Some (JArr dests)")
    case True
    then obtain dests where "map_of entries src = Some (JArr dests)" by blast
    with rows JObj show ?thesis by (auto simp: isPlanExcluded_def set_plan_dests)
  next
    case False
    then have "map_of (fold plan_row entries []) src = None"
      using rows by (auto split: option.splits jsval.splits)
    with False JObj show ?thesis by (auto simp: isPlanExcluded_def)
  qed
qed (simp_all add: isPlanExcluded_def)

end
