(* ===== verification/Matrix_Promql.thy ===== *)
theory Matrix_Promql
  imports Matrix_Cells
begin

section \<open>The matrix at an instant (lib/matrix-promql.ts)\<close>

text \<open>
  The Time Machine's matrix, folded in the browser from instant-vector responses. A sample is
  its labels and the second component of its value; \<open>num\<close> is \<open>Number(s)\<close> on that string. The
  HTTP call is an argument (\<open>prom\<close>, from a query to its response), \<open>toISO\<close> is
  \<open>Date.prototype.toISOString\<close> and \<open>collate\<close> is \<open>String.prototype.localeCompare\<close>. The default
  \<open>sort\<close> of node names compares code units, the order of \<open>List_Lexorder\<close>.

  A pair's value is shown to be its last finite sample, and the folded matrix to have exactly
  one cell for every pair some response measured.
\<close>

definition METRICS_PREFIX :: jstring where
  "METRICS_PREFIX = js ''kconmon_ng''"

definition RATE_WINDOW :: jstring where
  "RATE_WINDOW = js ''5m''"

definition RECENT_WINDOW :: jstring where
  "RECENT_WINDOW = js ''3m''"

definition failRatioQuery :: "Protocol \<Rightarrow> jstring \<Rightarrow> jstring" where
  "failRatioQuery proto window =
     (let m = METRICS_PREFIX @ js ''_'' @ protocol_name proto @ js ''_results_total''
      in js ''sum by (source_node, destination_node) (rate('' @ m @ js ''{result='' @ [34] @ js ''fail'' @ [34] @ js ''}['' @
         window @ js ''])) / '' @
         js ''sum by (source_node, destination_node) (rate('' @ m @ js ''['' @ window @ js '']))'')"

definition p95Query :: "jstring \<Rightarrow> jstring" where
  "p95Query bucketMetric =
     js ''histogram_quantile(0.95, sum by (source_node, destination_node, le) (rate('' @ bucketMetric @ js ''['' @
     RATE_WINDOW @ js ''])))''"

definition lossQuery :: "Protocol \<Rightarrow> jstring" where
  "lossQuery proto = js ''avg by (source_node, destination_node) ('' @ METRICS_PREFIX @ js ''_'' @ protocol_name proto @
     js ''_packet_loss_ratio)''"

definition mtuQuery :: jstring where
  "mtuQuery = js ''min by (source_node, destination_node) ('' @ METRICS_PREFIX @ js ''_pmtu_bytes)''"

definition probeQuery :: jstring where
  "probeQuery = js ''max by (source_node, destination_node) ('' @ METRICS_PREFIX @ js ''_pmtu_probe_bytes)''"

record matrix_queries =
  q_fail :: jstring
  q_rtt :: "jstring option"
  q_loss :: "jstring option"
  q_mtu :: "jstring option"
  q_probe :: "jstring option"
  q_recent :: "jstring option"

fun matrixQueries :: "Protocol \<Rightarrow> matrix_queries" where
  "matrixQueries p_tcp = \<lparr>q_fail = failRatioQuery p_tcp RATE_WINDOW,
     q_rtt = Some (p95Query (METRICS_PREFIX @ js ''_tcp_total_duration_seconds_bucket'')),
     q_loss = None, q_mtu = None, q_probe = None, q_recent = None\<rparr>"
| "matrixQueries p_udp = \<lparr>q_fail = failRatioQuery p_udp RATE_WINDOW,
     q_rtt = Some (p95Query (METRICS_PREFIX @ js ''_udp_rtt_seconds_bucket'')),
     q_loss = Some (lossQuery p_udp), q_mtu = None, q_probe = None, q_recent = None\<rparr>"
| "matrixQueries p_icmp = \<lparr>q_fail = failRatioQuery p_icmp RATE_WINDOW,
     q_rtt = Some (p95Query (METRICS_PREFIX @ js ''_icmp_rtt_seconds_bucket'')),
     q_loss = Some (lossQuery p_icmp), q_mtu = None, q_probe = None, q_recent = None\<rparr>"
| "matrixQueries p_pmtu = \<lparr>q_fail = failRatioQuery p_pmtu RATE_WINDOW, q_rtt = None, q_loss = None,
     q_mtu = Some mtuQuery, q_probe = Some probeQuery, q_recent = Some (failRatioQuery p_pmtu RECENT_WINDOW)\<rparr>"

record PromSample =
  smp_metric :: "(jstring, jstring) jmap"
  smp_value :: "jstring option"

record 'r PromResult =
  pr_success :: bool
  pr_data :: "(jstring \<times> 'r list) option"
  pr_error :: "jstring option"

definition mkey :: "jstring \<Rightarrow> jstring \<Rightarrow> jstring" where
  "mkey src dst = src @ 0 # dst"

text \<open>The loop body of \<open>vectorByPair\<close>: the entry a sample writes, if any.\<close>

definition sample_entry :: "(jstring \<Rightarrow> jsnum) \<Rightarrow> PromSample \<Rightarrow> (jstring \<times> jsnum) option" where
  "sample_entry num s =
     (case (map_of (smp_metric s) (js ''source_node''), map_of (smp_metric s) (js ''destination_node'')) of
        (Some src, Some dst) \<Rightarrow>
          if src = [] \<or> dst = [] then None
          else let v = (case smp_value s of Some x \<Rightarrow> num x | None \<Rightarrow> NaN)
               in if \<not> is_finite v then None else Some (mkey src dst, v)
      | _ \<Rightarrow> None)"

definition vectorByPair :: "(jstring \<Rightarrow> jsnum) \<Rightarrow> PromSample PromResult \<Rightarrow> (jstring, jsnum) jmap" where
  "vectorByPair num res =
     (case pr_data res of
        Some (resultType, samples) \<Rightarrow>
          if \<not> pr_success res \<or> resultType \<noteq> js ''vector'' then []
          else fold (\<lambda>(k, v). AList.update k v) (List.map_filter (sample_entry num) samples) []
      | None \<Rightarrow> [])"

text \<open>\<open>const [src, dst] = k.split("\0")\<close>.\<close>

definition key_pair :: "jstring \<Rightarrow> jstring \<times> jstring" where
  "key_pair k = (let parts = split_on 0 k in (hd parts, if 1 < length parts then parts ! 1 else []))"

definition fold_cell :: "(jstring, jsnum) jmap \<Rightarrow> (jstring, jsnum) jmap \<Rightarrow> (jstring, jsnum) jmap \<Rightarrow>
    (jstring, jsnum) jmap \<Rightarrow> (jstring, jsnum) jmap \<Rightarrow> (jstring, jsnum) jmap \<Rightarrow> jstring \<Rightarrow> MatrixCell" where
  "fold_cell fail rtt loss measuredMtu probe recent k =
     (let (source, destination) = key_pair k
      in \<lparr>mc_source = source, mc_destination = destination, mc_failRatio = map_of fail k,
          mc_rttP95 = map_option (\<lambda>v. jround (v * Fin 1000000000)) (map_of rtt k),
          mc_lossRatio = map_of loss k, mc_mtuBytes = map_of measuredMtu k,
          mc_probeMtuBytes = (if map_of measuredMtu k \<noteq> None then map_of probe k else None),
          mc_recentFailRatio = map_of recent k\<rparr>)"

record Matrix =
  mx_protocol :: Protocol
  mx_plane :: jstring
  mx_nodes :: "jstring list"
  mx_cells :: "MatrixCell list"
  mx_timestamp :: jstring

definition cell_cmp :: "(jstring \<Rightarrow> jstring \<Rightarrow> jsnum) \<Rightarrow> MatrixCell \<Rightarrow> MatrixCell \<Rightarrow> jsnum" where
  "cell_cmp collate a b =
     (if mc_source a = mc_source b then collate (mc_destination a) (mc_destination b) else collate (mc_source a) (mc_source b))"

definition foldMatrix :: "(jstring \<Rightarrow> jstring \<Rightarrow> jsnum) \<Rightarrow> (date \<Rightarrow> jstring) \<Rightarrow> Protocol \<Rightarrow> (jstring, jsnum) jmap \<Rightarrow>
    (jstring, jsnum) jmap \<Rightarrow> (jstring, jsnum) jmap \<Rightarrow> date \<Rightarrow> (jstring, jsnum) jmap \<Rightarrow> (jstring, jsnum) jmap \<Rightarrow>
    (jstring, jsnum) jmap \<Rightarrow> Matrix" where
  "foldMatrix collate toISO protocol fail rtt loss instant mtu probe recent =
     (let measuredMtu = filter (\<lambda>(k, v). map_of fail k \<noteq> None) mtu;
          allKeys = concat (map keys [fail, rtt, loss, measuredMtu]);
          nodes = js_set (concat (map (\<lambda>k. [fst (key_pair k), snd (key_pair k)]) allKeys));
          pairs = js_set allKeys;
          cells = map (fold_cell fail rtt loss measuredMtu probe recent) pairs
      in \<lparr>mx_protocol = protocol, mx_plane = js ''pod'', mx_nodes = sort nodes,
          mx_cells = js_sort (cell_cmp collate) cells, mx_timestamp = toISO instant\<rparr>)"

definition promqlError :: "PromSample PromResult \<Rightarrow> jstring option" where
  "promqlError res = (if \<not> pr_success res
     then Some (case pr_error res of Some e \<Rightarrow> e | None \<Rightarrow> js ''PromQL query failed'') else None)"

definition empty_success :: "PromSample PromResult" where
  "empty_success = \<lparr>pr_success = True, pr_data = None, pr_error = None\<rparr>"

definition optional_query :: "(jstring \<Rightarrow> PromSample PromResult) \<Rightarrow> jstring option \<Rightarrow> PromSample PromResult" where
  "optional_query prom q = (case q of Some s \<Rightarrow> if s \<noteq> [] then prom s else empty_success | None \<Rightarrow> empty_success)"

text \<open>\<open>getMatrixAt\<close>: \<open>Inl\<close> is the error it throws. An empty error message does not throw.\<close>

definition getMatrixAt :: "(jstring \<Rightarrow> jstring \<Rightarrow> jsnum) \<Rightarrow> (date \<Rightarrow> jstring) \<Rightarrow> (jstring \<Rightarrow> jsnum) \<Rightarrow>
    (jstring \<Rightarrow> PromSample PromResult) \<Rightarrow> Protocol \<Rightarrow> date \<Rightarrow> jstring + Matrix" where
  "getMatrixAt collate toISO num prom protocol instant =
     (let q = matrixQueries protocol;
          failRes = prom (q_fail q);
          rttRes = optional_query prom (q_rtt q);
          lossRes = optional_query prom (q_loss q);
          mtuRes = optional_query prom (q_mtu q);
          probeRes = optional_query prom (q_probe q);
          recentRes = optional_query prom (q_recent q);
          errs = List.map_filter promqlError [failRes, rttRes, lossRes, mtuRes, probeRes, recentRes]
      in if errs \<noteq> [] \<and> hd errs \<noteq> [] then Inl (hd errs)
         else Inr (foldMatrix collate toISO protocol (vectorByPair num failRes) (vectorByPair num rttRes)
                (vectorByPair num lossRes) instant (vectorByPair num mtuRes) (vectorByPair num probeRes)
                (vectorByPair num recentRes)))"

subsection \<open>Keys\<close>

lemma key_pair_mkey: "0 \<notin> set s \<Longrightarrow> 0 \<notin> set d \<Longrightarrow> key_pair (mkey s d) = (s, d)"
  by (simp add: key_pair_def mkey_def split_on_append split_on_no_sep)

lemma mkey_inject: "0 \<notin> set s \<Longrightarrow> 0 \<notin> set s' \<Longrightarrow> 0 \<notin> set d \<Longrightarrow> 0 \<notin> set d' \<Longrightarrow> mkey s d = mkey s' d' \<longleftrightarrow> s = s' \<and> d = d'"
  by (metis key_pair_mkey prod.inject)

text \<open>A map of pair values whose names are free of NUL.\<close>

definition pair_map :: "(jstring, jsnum) jmap \<Rightarrow> bool" where
  "pair_map m \<longleftrightarrow> (\<forall>k \<in> set (keys m). \<exists>s d. k = mkey s d \<and> 0 \<notin> set s \<and> 0 \<notin> set d)"

lemma inj_key_pair: "pair_map m \<Longrightarrow> inj_on key_pair (set (keys m))"
  by (auto simp: inj_on_def pair_map_def) (metis fst_conv image_eqI key_pair_mkey prod.inject)

text \<open>The value a list of samples gives a key: the last entry written under it.\<close>

definition last_value :: "(jstring \<Rightarrow> jsnum) \<Rightarrow> PromSample list \<Rightarrow> jstring \<Rightarrow> jsnum option" where
  "last_value num samples k = map_of (rev (List.map_filter (sample_entry num) samples)) k"

lemma vectorByPair_get:
  assumes "pr_success res" "pr_data res = Some (js ''vector'', samples)"
  shows "map_of (vectorByPair num res) k = last_value num samples k"
  using assms by (simp add: vectorByPair_def last_value_def jstore.get_puts split: option.split)

lemma sample_entry_finite: "sample_entry num s = Some (k, v) \<Longrightarrow> is_finite v"
  by (auto simp: sample_entry_def Let_def split: option.splits if_splits)

lemma map_of_measured: "map_of (filter (\<lambda>(k, v). P k) m) k = (if P k then map_of m k else None)"
  by (induction m) auto

lemma mset_at_most_one: "mset xs = mset (if b then [x] else []) \<Longrightarrow> xs = (if b then [x] else [])"
  by (cases b) simp_all

subsection \<open>What the folded matrix guarantees\<close>

definition demo_res :: "PromSample PromResult" where
  "demo_res = \<lparr>pr_success = True, pr_data = Some (js ''vector'',
     [\<lparr>smp_metric = [(js ''source_node'', js ''a''), (js ''destination_node'', js ''b'')], smp_value = Some (js ''7'')\<rparr>]), pr_error = None\<rparr>"

text \<open>
  The value of a pair is that of the last sample that names both ends and
  carries a finite number; every value held is finite; and a response that is not a
  successful vector gives no values at all.
\<close>

lemma vectorByPair_last:
  "(\<forall>samples. pr_success res \<and> pr_data res = Some (js ''vector'', samples) \<longrightarrow>
      map_of (vectorByPair num res) k = last_value num samples k) \<and>
   (\<not> (\<exists>samples. pr_success res \<and> pr_data res = Some (js ''vector'', samples)) \<longrightarrow> vectorByPair num res = []) \<and>
   (\<forall>v. map_of (vectorByPair num res) k = Some v \<longrightarrow> is_finite v)"
proof (intro conjI allI impI)
  show "vectorByPair num res = []" if "\<not> (\<exists>samples. pr_success res \<and> pr_data res = Some (js ''vector'', samples))"
    using that by (auto simp: vectorByPair_def split: option.split)
  fix samples assume "pr_success res \<and> pr_data res = Some (js ''vector'', samples)"
  then show "map_of (vectorByPair num res) k = last_value num samples k" using vectorByPair_get by blast
next
  fix v assume v: "map_of (vectorByPair num res) k = Some v"
  then obtain samples where s: "pr_success res" "pr_data res = Some (js ''vector'', samples)"
    by (cases "pr_data res") (auto simp: vectorByPair_def split: if_splits)
  then have "map_of (rev (List.map_filter (sample_entry num) samples)) k = Some v"
    using v vectorByPair_get [OF s] by (simp add: last_value_def)
  then have "(k, v) \<in> set (List.map_filter (sample_entry num) samples)" using map_of_SomeD by fastforce
  then obtain x where "sample_entry num x = Some (k, v)" by (auto simp: map_filter_def)
  then show "is_finite v" by (rule sample_entry_finite)
qed

text \<open>
  C25: the folded matrix has exactly one cell for every pair that a failure,
  latency or loss response measured, with that pair's values; a path MTU, and the probe size
  beside it, is shown only for a pair that has a result in the window.
\<close>

theorem foldMatrix_cells:
  assumes "pair_map fail" "pair_map rtt" "pair_map loss" "pair_map mtu"
    and "0 \<notin> set s" "0 \<notin> set d" "k = mkey s d"
  shows "(let m = foldMatrix collate toISO p fail rtt loss instant mtu probe recent;
              here = filter (\<lambda>c. mc_source c = s \<and> mc_destination c = d) (mx_cells m)
          in if k \<in> set (keys fail) \<union> set (keys rtt) \<union> set (keys loss)
             then here = [\<lparr>mc_source = s, mc_destination = d, mc_failRatio = map_of fail k,
               mc_rttP95 = map_option (\<lambda>v. jround (v * Fin 1000000000)) (map_of rtt k), mc_lossRatio = map_of loss k,
               mc_mtuBytes = (if k \<in> set (keys fail) then map_of mtu k else None),
               mc_probeMtuBytes = (if k \<in> set (keys fail) \<and> map_of mtu k \<noteq> None then map_of probe k else None),
               mc_recentFailRatio = map_of recent k\<rparr>]
             else here = [])"
proof -
  define mm where "mm = filter (\<lambda>(k, v). map_of fail k \<noteq> None) mtu"
  define ks where "ks = js_set (concat (map keys [fail, rtt, loss, mm]))"
  let ?c = "fold_cell fail rtt loss mm probe recent"
  have mm_keys: "set (keys mm) \<subseteq> set (keys fail)" by (force simp: mm_def map_of_eq_None_iff)
  have set_ks: "set ks = set (keys fail) \<union> set (keys rtt) \<union> set (keys loss)"
    using mm_keys by (auto simp: ks_def)
  have named: "\<exists>s d. x = mkey s d \<and> 0 \<notin> set s \<and> 0 \<notin> set d" if "x \<in> set ks" for x
    using that set_ks assms(1-3) unfolding pair_map_def by blast
  have at: "mc_source (?c x) = s \<and> mc_destination (?c x) = d \<longleftrightarrow> x = k" if x: "x \<in> set ks" for x
  proof -
    obtain s' d' where "x = mkey s' d'" "0 \<notin> set s'" "0 \<notin> set d'" using named [OF x] by blast
    then show ?thesis using assms(5-7) by (auto simp: fold_cell_def key_pair_mkey mkey_inject)
  qed
  have "filter (\<lambda>c. mc_source c = s \<and> mc_destination c = d) (map ?c ks) = map ?c (filter (\<lambda>x. x = k) ks)"
    using at by (simp add: filter_map comp_def cong: filter_cong)
  also have "filter (\<lambda>x. x = k) ks = (if k \<in> set ks then [k] else [])"
  proof -
    have "distinct ks" by (simp add: ks_def)
    then show ?thesis by (induction ks) (auto simp: filter_empty_conv)
  qed
  finally have cells: "filter (\<lambda>c. mc_source c = s \<and> mc_destination c = d) (map ?c ks) = (if k \<in> set ks then [?c k] else [])"
    by simp
  have m: "mset (filter (\<lambda>c. mc_source c = s \<and> mc_destination c = d) (js_sort (cell_cmp collate) (map ?c ks))) =
      mset (if k \<in> set ks then [?c k] else [])"
    by (simp only: mset_filter mset_js_sort) (simp only: cells mset_filter [symmetric])
  have "filter (\<lambda>c. mc_source c = s \<and> mc_destination c = d) (js_sort (cell_cmp collate) (map ?c ks)) =
      (if k \<in> set ks then [?c k] else [])"
    using m by (rule mset_at_most_one)
  moreover have "mx_cells (foldMatrix collate toISO p fail rtt loss instant mtu probe recent) = js_sort (cell_cmp collate) (map ?c ks)"
    by (simp add: foldMatrix_def Let_def mm_def ks_def)
  moreover have "map_of mm k = (if k \<in> set (keys fail) then map_of mtu k else None)"
    unfolding mm_def map_of_measured by (simp add: map_of_eq_None_iff)
  ultimately show ?thesis
    using set_ks by (auto simp: Let_def fold_cell_def assms(5-7) key_pair_mkey)
qed

theorem foldMatrix_cells_witness:
  "map mc_lossRatio (filter (\<lambda>c. mc_source c = js ''a'' \<and> mc_destination c = js ''b'')
     (mx_cells (foldMatrix (\<lambda>x y. Fin 0) (\<lambda>d. []) p_udp [] [] [(mkey (js ''a'') (js ''b''), Fin 3)] (Fin 0) [] [] []))) = [Some (Fin 3)]"
proof -
  have "\<exists>s d. mkey (js ''a'') (js ''b'') = mkey s d \<and> 0 \<notin> set s \<and> 0 \<notin> set d"
    by (rule exI [of _ "js ''a''"], rule exI [of _ "js ''b''"]) simp
  then have "pair_map [(mkey (js ''a'') (js ''b''), Fin 3)]" "pair_map []"
    by (simp_all add: pair_map_def)
  from foldMatrix_cells [OF this(2) this(2) this(1) this(2), of "js ''a''" "js ''b''" _ "\<lambda>x y. Fin 0" "\<lambda>d. []" p_udp "Fin 0" "[]" "[]"]
  show ?thesis by (simp add: Let_def)
qed

end
