(* ===== verification/Matrix_Zoom.thy ===== *)
theory Matrix_Zoom
  imports Js_Prelude
begin

section \<open>The matrix grid's geometry (lib/matrix-zoom.ts)\<close>

text \<open>
  The zoom stops, the size the table draws at a scale, the largest stop that fits a box, and
  the rule that drops a name prefix the headers share. Sizes are JS numbers; the source's
  decimal constants are the rationals they spell. \<open>num_str\<close> is \<open>String(x)\<close> of a
  non-integer.

  The stop chosen is shown to be the largest one that fits, whatever the box measures; the
  two zoom buttons to undo each other; no size handed to the style sheet to be NaN; and an
  elided prefix to be a real prefix of most names that leaves each of them readable.
\<close>

definition COLUMN_WIDTH :: jsnum where
  "COLUMN_WIDTH = Fin 96"

definition CELL_HEIGHT :: jsnum where
  "CELL_HEIGHT = Fin 48"

definition CELL_GAP :: jsnum where
  "CELL_GAP = Fin 4"

definition LABEL_WIDTH :: jsnum where
  "LABEL_WIDTH = Fin 144"

definition LABEL_MIN_WIDTH :: jsnum where
  "LABEL_MIN_WIDTH = Fin 88"

definition FONT_HERO :: jsnum where
  "FONT_HERO = Fin 13"

definition FONT_SUB :: jsnum where
  "FONT_SUB = Fin (21 / 2)"

definition FONT_LABEL :: jsnum where
  "FONT_LABEL = Fin 11"

definition MIN_FONT :: jsnum where
  "MIN_FONT = Fin 9"

definition ZOOM_STEPS :: "jsnum list" where
  "ZOOM_STEPS = map Fin [2 / 5, 1 / 2, 3 / 5, 3 / 4, 9 / 10, 1, 5 / 4, 3 / 2]"

definition MIN_ZOOM :: jsnum where
  "MIN_ZOOM = ZOOM_STEPS ! 0"

definition MAX_ZOOM :: jsnum where
  "MAX_ZOOM = ZOOM_STEPS ! (length ZOOM_STEPS - 1)"

definition usableScale :: "jsnum \<Rightarrow> jsnum" where
  "usableScale scale = (if \<not> is_finite scale then Fin 1 else jmin (jmax scale MIN_ZOOM) MAX_ZOOM)"

definition usableCount :: "jsnum \<Rightarrow> jsnum" where
  "usableCount nodes = (if is_finite nodes \<and> Fin 0 < nodes then jfloor nodes else Fin 0)"

definition gridWidth :: "jsnum \<Rightarrow> jsnum \<Rightarrow> jsnum" where
  "gridWidth nodes scale =
     (let s = usableScale scale;
          label = jmax (jround (LABEL_WIDTH * s)) LABEL_MIN_WIDTH
      in label + usableCount nodes * (jround (COLUMN_WIDTH * s) + CELL_GAP))"

definition gridHeight :: "jsnum \<Rightarrow> jsnum \<Rightarrow> jsnum" where
  "gridHeight nodes scale =
     (let s = usableScale scale;
          row = jround (CELL_HEIGHT * s) + CELL_GAP
      in row * (usableCount nodes + Fin 1))"

text \<open>The three \<open>continue\<close>s of \<open>fitScale\<close>'s loop, negated: the step it stops at.\<close>

definition fits_at :: "jsnum \<Rightarrow> jsnum \<Rightarrow> jsnum option \<Rightarrow> jsnum \<Rightarrow> bool" where
  "fits_at nodes available boundHeight step \<longleftrightarrow>
     \<not> Fin 1 < step \<and> \<not> available < gridWidth nodes step \<and>
     (case boundHeight of None \<Rightarrow> True | Some h \<Rightarrow> \<not> h < gridHeight nodes step)"

definition bound_height :: "jsnum option \<Rightarrow> jsnum option" where
  "bound_height availableHeight =
     (case availableHeight of None \<Rightarrow> None | Some h \<Rightarrow> if is_finite h \<and> Fin 0 < h then Some h else None)"

definition fitScale :: "jsnum \<Rightarrow> jsnum \<Rightarrow> jsnum option \<Rightarrow> jsnum" where
  "fitScale nodes available availableHeight =
     (if \<not> is_finite available \<or> available \<le> Fin 0 then Fin 1
      else case find (fits_at nodes available (bound_height availableHeight)) (rev ZOOM_STEPS) of
             Some step \<Rightarrow> step
           | None \<Rightarrow> MIN_ZOOM)"

datatype direction = zoom_in | zoom_out

definition zoomStep :: "jsnum \<Rightarrow> direction \<Rightarrow> jsnum" where
  "zoomStep scale direction =
     (let s = usableScale scale
      in case direction of
           zoom_in \<Rightarrow> (case find (\<lambda>step. s + Fin (1 / 1000000) < step) ZOOM_STEPS of Some x \<Rightarrow> x | None \<Rightarrow> MAX_ZOOM)
         | zoom_out \<Rightarrow> (case find (\<lambda>step. step < s - Fin (1 / 1000000)) (rev ZOOM_STEPS) of Some x \<Rightarrow> x | None \<Rightarrow> MIN_ZOOM))"

datatype CellDensity = d_full | d_compact | d_tile

definition cellDensity :: "jsnum \<Rightarrow> CellDensity" where
  "cellDensity scale =
     (let s = usableScale scale
      in if Fin (3 / 4) \<le> s then d_full else if Fin (1 / 2) \<le> s then d_compact else d_tile)"

record GridMetrics =
  gm_columnWidth :: jsnum
  gm_cellHeight :: jsnum
  gm_labelWidth :: jsnum
  gm_fontHero :: jsnum
  gm_fontSub :: jsnum
  gm_fontLabel :: jsnum
  gm_density :: CellDensity
  gm_vars :: "(jstring, jstring) jmap"

definition fontAt :: "jsnum \<Rightarrow> jsnum \<Rightarrow> jsnum" where
  "fontAt base scale = jmax (divide (jround (base * scale * Fin 10)) (Fin 10)) MIN_FONT"

definition gridMetrics :: "(jsnum \<Rightarrow> jstring) \<Rightarrow> jsnum \<Rightarrow> GridMetrics" where
  "gridMetrics num_str scale =
     (let s = usableScale scale;
          columnWidth = jround (COLUMN_WIDTH * s);
          cellHeight = jround (CELL_HEIGHT * s);
          labelWidth = jmax (jround (LABEL_WIDTH * s)) LABEL_MIN_WIDTH;
          fontHero = fontAt FONT_HERO s;
          fontSub = fontAt FONT_SUB s;
          fontLabel = fontAt FONT_LABEL s;
          px = (\<lambda>n. show_num num_str n @ js ''px'')
      in \<lparr>gm_columnWidth = columnWidth, gm_cellHeight = cellHeight, gm_labelWidth = labelWidth,
          gm_fontHero = fontHero, gm_fontSub = fontSub, gm_fontLabel = fontLabel, gm_density = cellDensity s,
          gm_vars = [(js ''--m-col-w'', px columnWidth), (js ''--m-cell-h'', px cellHeight),
            (js ''--m-label-w'', px labelWidth), (js ''--m-font-hero'', px fontHero),
            (js ''--m-font-sub'', px fontSub), (js ''--m-font-label'', px fontLabel)]\<rparr>)"

subsection \<open>The shared prefix\<close>

text \<open>The inner loop of \<open>lcpToSeparator\<close>: what two strings begin with.\<close>

fun common_prefix :: "jstring \<Rightarrow> jstring \<Rightarrow> jstring" where
  "common_prefix (x # xs) (y # ys) = (if x = y then x # common_prefix xs ys else [])"
| "common_prefix xs ys = []"

fun lcp_loop :: "jstring \<Rightarrow> jstring list \<Rightarrow> jstring" where
  "lcp_loop prefix [] = prefix"
| "lcp_loop prefix (name # names) =
     (let p = common_prefix prefix name in if p = [] then [] else lcp_loop p names)"

text \<open>\<open>lastIndexOf\<close>, with the source's \<open>-1\<close>.\<close>

definition last_index :: "jstring \<Rightarrow> jchar \<Rightarrow> int" where
  "last_index s c = (case last_index_of s [c] of None \<Rightarrow> - 1 | Some i \<Rightarrow> int i)"

definition lcpToSeparator :: "jstring list \<Rightarrow> jstring" where
  "lcpToSeparator names =
     (let prefix = lcp_loop (hd names) (tl names)
      in if prefix = [] then []
         else let cut = max (last_index prefix 45) (last_index prefix 46)
              in if cut < 3 then []
                 else let prefix' = take (nat cut + 1) prefix;
                          shortest = Min (set (map length names))
                      in if int shortest - int (length prefix') \<ge> 2 then prefix' else [])"

text \<open>The family a name belongs to: its first token, before a dash or a dot not at its start.\<close>

definition family_key :: "jstring \<Rightarrow> jstring" where
  "family_key name =
     (let cuts = filter (\<lambda>i. 0 < i) (List.map_filter (\<lambda>c. index_of name [c]) [45, 46])
      in if cuts \<noteq> [] then take (Min (set cuts)) name else name)"

definition add_family :: "(jstring, jstring list) jmap \<Rightarrow> jstring \<Rightarrow> (jstring, jstring list) jmap" where
  "add_family families name =
     (case map_of families (family_key name) of
        Some family \<Rightarrow> AList.update (family_key name) (family @ [name]) families
      | None \<Rightarrow> AList.update (family_key name) [name] families)"

definition best_family :: "jstring list \<Rightarrow> jstring list \<Rightarrow> jstring list" where
  "best_family best family = (if length best < length family then family else best)"

definition sharedNamePrefix :: "jstring list \<Rightarrow> jstring" where
  "sharedNamePrefix names =
     (if length names < 2 then []
      else let whole = lcpToSeparator names
           in if whole \<noteq> [] then whole
              else let families = foldl add_family [] names;
                       best = foldl best_family [] (map snd families)
                   in if length best < 2 \<or> length best * 2 < length names then []
                      else lcpToSeparator best)"

subsection \<open>Header text\<close>

definition AVERAGE_GLYPH_EM :: jsnum where
  "AVERAGE_GLYPH_EM = Fin (31 / 50)"

definition HEADER_PADDING :: jsnum where
  "HEADER_PADDING = Fin 8"

definition fitsHeader :: "jstring \<Rightarrow> jsnum \<Rightarrow> jsnum \<Rightarrow> bool" where
  "fitsHeader text boxWidth fontSize =
     (if \<not> is_finite boxWidth \<or> \<not> is_finite fontSize \<or> fontSize \<le> Fin 0 then False
      else let usable = boxWidth - HEADER_PADDING
           in if usable \<le> Fin 0 then False
              else jnat (length text) * fontSize * AVERAGE_GLYPH_EM \<le> usable)"

definition longest_name :: "jstring list \<Rightarrow> jstring" where
  "longest_name names = foldl (\<lambda>m n. if length m < length n then n else m) [] names"

definition elideForHeaders :: "jstring list \<Rightarrow> jstring \<Rightarrow> jsnum \<Rightarrow> jsnum \<Rightarrow> jstring" where
  "elideForHeaders names prefix boxWidth fontSize =
     (if prefix = [] then []
      else if fitsHeader (longest_name names) boxWidth fontSize then [] else prefix)"

text \<open>The ellipsis U+2026.\<close>

definition headerLabel :: "jstring \<Rightarrow> jstring \<Rightarrow> jsnum \<Rightarrow> jsnum \<Rightarrow> jstring" where
  "headerLabel name elide boxWidth fontSize =
     (if elide = [] \<or> \<not> starts_with name elide \<or> length name \<le> length elide then name
      else let rest = drop (length elide) name
           in if fitsHeader (8230 # rest) boxWidth fontSize then 8230 # rest else rest)"

definition heightBudget :: "jsnum \<Rightarrow> jsnum \<Rightarrow> jsnum" where
  "heightBudget clientHeight maxHeight =
     (let client = (if is_finite clientHeight \<and> Fin 0 < clientHeight then clientHeight else Fin 0)
      in if \<not> is_finite maxHeight \<or> maxHeight \<le> Fin 0 then client else jmax client maxHeight)"

subsection \<open>Stops and sizes\<close>

text \<open>The last element of an ascending list that passes a test is the largest that does.\<close>

lemma find_rev_greatest:
  assumes "sorted_wrt (\<le>) xs" "find P (rev xs) = Some r"
  shows "P r \<and> r \<in> set xs \<and> (\<forall>s \<in> set xs. P s \<longrightarrow> s = r \<or> s \<le> r)"
proof -
  obtain i where i: "i < length xs" "P (rev xs ! i)" "r = rev xs ! i" "\<forall>j < i. \<not> P (rev xs ! j)"
    using assms(2) by (auto simp: find_Some_iff)
  have "s = r \<or> s \<le> r" if "s \<in> set xs" "P s" for s
  proof -
    obtain k where k: "k < length xs" "s = rev xs ! k"
      using \<open>s \<in> set xs\<close> by (metis in_set_conv_nth length_rev set_rev)
    then have "\<not> k < i" using i(4) \<open>P s\<close> by auto
    moreover have "sorted_wrt (\<lambda>x y. y \<le> x) (rev xs)" using assms(1) by (simp add: sorted_wrt_rev)
    ultimately show ?thesis
      using sorted_wrt_nth_less [of "\<lambda>x y. y \<le> x" "rev xs" i k] i k by (cases "i = k") auto
  qed
  moreover have "r \<in> set xs" using i by (metis length_rev nth_mem set_rev)
  ultimately show ?thesis using i by blast
qed

lemma steps_sorted: "sorted_wrt (\<le>) ZOOM_STEPS"
  by (simp add: ZOOM_STEPS_def)

lemma zoom_ends: "MIN_ZOOM = Fin (2 / 5)" "MAX_ZOOM = Fin (3 / 2)"
  by (simp_all add: MIN_ZOOM_def MAX_ZOOM_def ZOOM_STEPS_def)

lemma usableScale_Fin: "\<exists>r. usableScale scale = Fin r \<and> 2 / 5 \<le> r \<and> r \<le> 3 / 2"
  by (cases scale) (simp_all add: usableScale_def zoom_ends min_def max_def)

lemma usableCount_Fin: "\<exists>n :: nat. usableCount nodes = jnat n"
proof (cases "is_finite nodes \<and> Fin 0 < nodes")
  case True
  then obtain r where r: "nodes = Fin r" "0 < r" by (cases nodes) auto
  then have "usableCount nodes = jnat (nat \<lfloor>r\<rfloor>)" by (simp add: usableCount_def)
  then show ?thesis ..
next
  case False
  then have "usableCount nodes = jnat 0" by (auto simp: usableCount_def)
  then show ?thesis ..
qed

lemma gridWidth_Fin: "\<exists>r. gridWidth nodes scale = Fin r"
proof -
  obtain s where s: "usableScale scale = Fin s" using usableScale_Fin by blast
  obtain n :: nat where "usableCount nodes = jnat n" using usableCount_Fin by blast
  with s show ?thesis by (simp add: gridWidth_def Let_def LABEL_WIDTH_def LABEL_MIN_WIDTH_def COLUMN_WIDTH_def CELL_GAP_def)
qed

lemma gridHeight_Fin: "\<exists>r. gridHeight nodes scale = Fin r"
proof -
  obtain s where s: "usableScale scale = Fin s" using usableScale_Fin by blast
  obtain n :: nat where "usableCount nodes = jnat n" using usableCount_Fin by blast
  with s show ?thesis by (simp add: gridHeight_def Let_def CELL_HEIGHT_def CELL_GAP_def)
qed

text \<open>What fitting means: the whole grid inside the box, on the axes that were measured.\<close>

definition inside :: "jsnum \<Rightarrow> jsnum \<Rightarrow> jsnum option \<Rightarrow> jsnum \<Rightarrow> bool" where
  "inside nodes available height scale \<longleftrightarrow>
     gridWidth nodes scale \<le> available \<and>
     (\<forall>h. height = Some h \<longrightarrow> is_finite h \<longrightarrow> Fin 0 < h \<longrightarrow> gridHeight nodes scale \<le> h)"

lemma inside_None: "inside nodes available None s \<longleftrightarrow> gridWidth nodes s \<le> available"
  by (simp add: inside_def)

lemma fits_at_inside:
  assumes "is_finite available"
  shows "fits_at nodes available (bound_height height) s \<longleftrightarrow> \<not> Fin 1 < s \<and> inside nodes available height s"
proof -
  obtain a where a: "available = Fin a" using assms by (rule is_finiteE)
  obtain w where w: "gridWidth nodes s = Fin w" using gridWidth_Fin by blast
  obtain g where g: "gridHeight nodes s = Fin g" using gridHeight_Fin by blast
  show ?thesis
  proof (cases height)
    case None
    then show ?thesis using a w by (simp add: fits_at_def inside_def bound_height_def not_less)
  next
    case (Some h)
    then show ?thesis
      using a w g by (cases h) (auto simp: fits_at_def inside_def bound_height_def not_less)
  qed
qed

subsection \<open>Prefixes\<close>

lemma starts_with_trans: "starts_with a b \<Longrightarrow> starts_with b c \<Longrightarrow> starts_with a c"
  by (auto simp: starts_with_iff)

lemma starts_with_refl [simp]: "starts_with s s"
  by (simp add: starts_with_def)

lemma starts_with_Nil [simp]: "starts_with s []"
  by (simp add: starts_with_def)

lemma starts_with_length: "starts_with s p \<Longrightarrow> length p \<le> length s"
  by (auto simp: starts_with_iff)

lemma starts_with_take: "starts_with s (take n s)"
  by (metis append_take_drop_id starts_with_append)

lemma common_prefix_starts: "starts_with xs (common_prefix xs ys) \<and> starts_with ys (common_prefix xs ys)"
  by (induction xs ys rule: common_prefix.induct) (auto simp: starts_with_def)

lemma lcp_loop_starts: "starts_with prefix (lcp_loop prefix names) \<and> (\<forall>n \<in> set names. starts_with n (lcp_loop prefix names))"
proof (induction prefix names rule: lcp_loop.induct)
  case (2 prefix name names)
  let ?p = "common_prefix prefix name"
  show ?case
  proof (cases "?p = []")
    case False
    with 2 have "starts_with ?p (lcp_loop ?p names)" "\<forall>n \<in> set names. starts_with n (lcp_loop ?p names)" by simp_all
    moreover from this(1) have "starts_with prefix (lcp_loop ?p names)" "starts_with name (lcp_loop ?p names)"
      using common_prefix_starts [of prefix name] starts_with_trans by blast+
    ultimately show ?thesis using False by (simp add: Let_def)
  qed (simp add: Let_def)
qed simp

lemma last_index_of_single: "last_index_of s [c] = Some i \<Longrightarrow> i < length s \<and> s ! i = c"
  by (induction s arbitrary: i) (auto simp: js_text split: option.splits if_splits)

lemma last_index_nth: "0 \<le> last_index s c \<Longrightarrow> nat (last_index s c) < length s \<and> s ! nat (last_index s c) = c"
  by (auto simp: last_index_def dest: last_index_of_single split: option.splits)

text \<open>What an elided prefix of a family of names owes its reader.\<close>

definition readable_prefix :: "jstring \<Rightarrow> jstring \<Rightarrow> bool" where
  "readable_prefix p n \<longleftrightarrow> starts_with n p \<and> length p + 2 \<le> length n"

lemma lcpToSeparator_sound:
  assumes "names \<noteq> []" "lcpToSeparator names \<noteq> []"
  shows "4 \<le> length (lcpToSeparator names) \<and> last (lcpToSeparator names) \<in> {45, 46} \<and>
    (\<forall>n \<in> set names. readable_prefix (lcpToSeparator names) n)"
proof -
  define q where "q = lcp_loop (hd names) (tl names)"
  define cut where "cut = max (last_index q 45) (last_index q 46)"
  define p where "p = take (nat cut + 1) q"
  have q: "q \<noteq> []" and cut: "3 \<le> cut" and short: "int (Min (set (map length names))) - int (length p) \<ge> 2"
    and res: "lcpToSeparator names = p"
    using assms(2) by (auto simp: lcpToSeparator_def Let_def q_def [symmetric] cut_def [symmetric] p_def split: if_splits)
  have at: "nat cut < length q" "q ! nat cut \<in> {45, 46}"
    using cut last_index_nth [of q 45] last_index_nth [of q 46] by (auto simp: cut_def max_def split: if_splits)
  then have len: "length p = nat cut + 1" by (simp add: p_def)
  then have "last p = q ! nat cut" using at(1) by (simp add: p_def take_Suc_conv_app_nth)
  moreover have "readable_prefix p n" if n: "n \<in> set names" for n
  proof -
    have "\<forall>n \<in> set (hd names # tl names). starts_with n q" using lcp_loop_starts by (auto simp: q_def)
    then have "starts_with n p" using n assms(1) starts_with_trans starts_with_take unfolding p_def by (metis list.collapse)
    moreover have "Min (set (map length names)) \<le> length n" using n by (intro Min_le) auto
    ultimately show ?thesis using short by (simp add: readable_prefix_def)
  qed
  ultimately show ?thesis using res at(2) len cut by simp
qed

lemma map_of_families:
  "map_of (foldl add_family [] names) k =
     (let f = filter (\<lambda>n. family_key n = k) names in if f = [] then None else Some f)"
proof (induction names rule: rev_induct)
  case (snoc n names)
  show ?case
  proof (cases "family_key n = k")
    case True
    then show ?thesis using snoc by (auto simp: add_family_def update_conv' Let_def split: option.split)
  next
    case False
    then show ?thesis using snoc by (auto simp: add_family_def update_conv' Let_def split: option.split)
  qed
qed simp

lemma distinct_families: "distinct (keys (foldl add_family [] names))"
proof (induction names rule: rev_induct)
  case (snoc n names)
  then show ?case by (auto simp: add_family_def distinct_update split: option.split)
qed simp

lemma family_of: "f \<in> set (map snd (foldl add_family [] names)) \<Longrightarrow> \<exists>k. f = filter (\<lambda>n. family_key n = k) names"
proof -
  assume "f \<in> set (map snd (foldl add_family [] names))"
  then obtain k where "(k, f) \<in> set (foldl add_family [] names)" by auto
  then have "map_of (foldl add_family [] names) k = Some f" using distinct_families by simp
  then show ?thesis by (auto simp: map_of_families Let_def split: if_splits)
qed

lemma best_family_in: "foldl best_family b fs = b \<or> foldl best_family b fs \<in> set fs"
  by (induction fs arbitrary: b) (auto simp: best_family_def)

lemma length_filter_mono: "(\<And>x. x \<in> set xs \<Longrightarrow> P x \<Longrightarrow> Q x) \<Longrightarrow> length (filter P xs) \<le> length (filter Q xs)"
  by (induction xs) (auto intro: le_SucI)

subsection \<open>What the grid guarantees\<close>

text \<open>
  The fitting stop is one of the offered stops and never above 1. For a
  measured box it is the largest such stop at which the whole grid, rows included where a
  height was measured, is inside the box, and the smallest stop when none is; an unmeasured
  box gives 1. Node count and sizes are arbitrary numbers, NaN and infinities included.
\<close>

lemma fitScale_largest:
  "let r = fitScale nodes available height;
       good = filter (\<lambda>s. s \<le> Fin 1 \<and> inside nodes available height s) ZOOM_STEPS
   in r \<in> set ZOOM_STEPS \<and> r \<le> Fin 1 \<and>
      (if is_finite available \<and> Fin 0 < available
       then (if good = [] then r = MIN_ZOOM else r \<in> set good \<and> (\<forall>s \<in> set good. s \<le> r))
       else r = Fin 1)"
proof (cases "is_finite available \<and> Fin 0 < available")
  case False
  then have "fitScale nodes available height = Fin 1" by (cases available) (auto simp: fitScale_def)
  moreover have "Fin 1 \<in> set ZOOM_STEPS" by (simp add: ZOOM_STEPS_def)
  ultimately show ?thesis using False by (auto simp: Let_def)
next
  case True
  let ?P = "fits_at nodes available (bound_height height)"
  let ?good = "\<lambda>s. s \<le> Fin 1 \<and> inside nodes available height s"
  have P: "?P s \<longleftrightarrow> ?good s" if "s \<in> set ZOOM_STEPS" for s
    using that fits_at_inside [of available nodes height s] True by (cases s) (auto simp: ZOOM_STEPS_def not_less)
  have fit: "fitScale nodes available height = (case find ?P (rev ZOOM_STEPS) of Some step \<Rightarrow> step | None \<Rightarrow> MIN_ZOOM)"
    using True by (cases available) (auto simp: fitScale_def)
  show ?thesis
  proof (cases "find ?P (rev ZOOM_STEPS)")
    case None
    then have "\<forall>s \<in> set ZOOM_STEPS. \<not> ?good s" using P by (auto simp: find_None_iff)
    then have "filter ?good ZOOM_STEPS = []" by (simp add: filter_empty_conv)
    moreover have "fitScale nodes available height = MIN_ZOOM" using None fit by simp
    ultimately show ?thesis using True by (simp add: Let_def) (simp add: zoom_ends ZOOM_STEPS_def)
  next
    case (Some r)
    have r: "?P r" "r \<in> set ZOOM_STEPS" "\<forall>s \<in> set ZOOM_STEPS. ?P s \<longrightarrow> s = r \<or> s \<le> r"
      using find_rev_greatest [OF steps_sorted Some] by blast+
    have "r \<noteq> NaN" using r(2) by (auto simp: ZOOM_STEPS_def)
    then have "\<forall>s \<in> set (filter ?good ZOOM_STEPS). s \<le> r" using r(3) P jle_refl by auto
    moreover have rg: "r \<in> set (filter ?good ZOOM_STEPS)" using r(1,2) P by simp
    moreover have "filter ?good ZOOM_STEPS \<noteq> []" using rg by (metis empty_iff list.set(1))
    moreover have "fitScale nodes available height = r" using Some fit by simp
    ultimately show ?thesis using True by (auto simp: Let_def)
  qed
qed

text \<open>The two buttons walk the stops: each lands on a stop and undoes the other.\<close>

lemma zoomStep_walks:
  "zoomStep scale d \<in> set ZOOM_STEPS"
  "s \<in> set ZOOM_STEPS \<Longrightarrow> s \<noteq> MAX_ZOOM \<Longrightarrow> s < zoomStep s zoom_in \<and> zoomStep (zoomStep s zoom_in) zoom_out = s"
  "s \<in> set ZOOM_STEPS \<Longrightarrow> s \<noteq> MIN_ZOOM \<Longrightarrow> zoomStep s zoom_out < s \<and> zoomStep (zoomStep s zoom_out) zoom_in = s"
proof -
  have ends: "MIN_ZOOM \<in> set ZOOM_STEPS" "MAX_ZOOM \<in> set ZOOM_STEPS" by (simp_all add: zoom_ends ZOOM_STEPS_def)
  have found: "(case find P xs of Some x \<Rightarrow> x | None \<Rightarrow> z) \<in> insert z (set xs)" for P :: "jsnum \<Rightarrow> bool" and xs z
    by (auto simp: find_Some_iff split: option.split)
  show "zoomStep scale d \<in> set ZOOM_STEPS"
  proof (cases d)
    case zoom_in
    then show ?thesis using found [of MAX_ZOOM _ ZOOM_STEPS] ends(2)
      by (simp only: zoomStep_def Let_def direction.case) (metis insert_absorb)
  next
    case zoom_out
    then show ?thesis using found [of MIN_ZOOM _ "rev ZOOM_STEPS"] ends(1)
      by (simp only: zoomStep_def Let_def direction.case set_rev) (metis insert_absorb)
  qed
  show "s \<in> set ZOOM_STEPS \<Longrightarrow> s \<noteq> MAX_ZOOM \<Longrightarrow> s < zoomStep s zoom_in \<and> zoomStep (zoomStep s zoom_in) zoom_out = s"
    by (auto simp: ZOOM_STEPS_def zoom_ends zoomStep_def usableScale_def)
  show "s \<in> set ZOOM_STEPS \<Longrightarrow> s \<noteq> MIN_ZOOM \<Longrightarrow> zoomStep s zoom_out < s \<and> zoomStep (zoomStep s zoom_out) zoom_in = s"
    by (auto simp: ZOOM_STEPS_def zoom_ends zoomStep_def usableScale_def)
qed

text \<open>No scale, NaN included, makes a size the style sheet would drop, and the widths drawn
  are those \<open>gridWidth\<close> and \<open>fitScale\<close> computed with.\<close>

lemma gridMetrics_usable:
  "\<exists>c h l :: int. 0 < c \<and> 0 < h \<and> 88 \<le> l \<and>
     gm_columnWidth (gridMetrics num_str scale) = jint c \<and> gm_cellHeight (gridMetrics num_str scale) = jint h \<and>
     gm_labelWidth (gridMetrics num_str scale) = jint l"
proof -
  obtain s where s: "usableScale scale = Fin s" "2 / 5 \<le> s" using usableScale_Fin by blast
  have "0 < \<lfloor>96 * s + 1 / 2\<rfloor>" "0 < \<lfloor>48 * s + 1 / 2\<rfloor>" using s(2) by linarith+
  with s show ?thesis
    by (intro exI [of _ "\<lfloor>96 * s + 1 / 2\<rfloor>"] exI [of _ "\<lfloor>48 * s + 1 / 2\<rfloor>"] exI [of _ "max \<lfloor>144 * s + 1 / 2\<rfloor> 88"])
      (simp add: gridMetrics_def Let_def COLUMN_WIDTH_def CELL_HEIGHT_def LABEL_WIDTH_def LABEL_MIN_WIDTH_def max_def)
qed

lemma gridWidth_metrics:
  "gridWidth nodes scale = gm_labelWidth (gridMetrics num_str scale) +
     usableCount nodes * (gm_columnWidth (gridMetrics num_str scale) + CELL_GAP)"
  by (simp add: gridWidth_def gridMetrics_def Let_def)

text \<open>
  A prefix the headers drop is at least four characters, ends in a
  dash or a dot, and is shared by at least two names and at least half of them, each of which
  keeps two characters or more.
\<close>

lemma sharedNamePrefix_sound:
  assumes "sharedNamePrefix names = p" "p \<noteq> []"
  shows "4 \<le> length p \<and> last p \<in> {45, 46} \<and>
    (let sharing = filter (\<lambda>n. starts_with n p \<and> length p + 2 \<le> length n) names
     in 2 \<le> length sharing \<and> length names \<le> 2 * length sharing)"
proof -
  have "2 \<le> length names" using assms by (auto simp: sharedNamePrefix_def split: if_splits)
  then have ne: "names \<noteq> []" by auto
  have all: ?thesis if "lcpToSeparator best = p" "length best \<ge> 2" "length names \<le> 2 * length best"
    "best = filter Q names" for best Q
  proof -
    have s: "4 \<le> length p" "last p \<in> {45, 46}" "\<forall>n \<in> set best. readable_prefix p n"
      using lcpToSeparator_sound [of best] that(1,2) assms(2) by (cases best; simp)+
    have "length best \<le> length (filter (readable_prefix p) names)"
      unfolding that(4) using s(3) that(4) by (intro length_filter_mono) auto
    with s(1,2) that(2,3) show ?thesis by (simp add: Let_def readable_prefix_def [abs_def])
  qed
  show ?thesis
  proof (cases "lcpToSeparator names = []")
    case False
    then show ?thesis using all [of names "\<lambda>_. True"] assms(1) \<open>2 \<le> length names\<close>
      by (simp add: sharedNamePrefix_def Let_def)
  next
    case True
    define best where "best = foldl best_family [] (map snd (foldl add_family [] names))"
    have b: "2 \<le> length best" "length names \<le> 2 * length best" "lcpToSeparator best = p"
      using assms True \<open>2 \<le> length names\<close>
      by (auto simp: sharedNamePrefix_def Let_def best_def [symmetric] split: if_splits)
    then have "best \<in> set (map snd (foldl add_family [] names))"
      using best_family_in [of "[]" "map snd (foldl add_family [] names)"] by (auto simp: best_def)
    then obtain k where "best = filter (\<lambda>n. family_key n = k) names" using family_of by blast
    then show ?thesis using all b by blast
  qed
qed

end
