(* ===== verification/Zone_Layout.thy ===== *)
theory Zone_Layout
  imports Js_Prelude
begin

section \<open>Packing the topology map's zones (lib/zone-layout.ts)\<close>

text \<open>
  Zone boxes are laid out in rows of a fixed column count, and the packing whose bounding box
  has an aspect nearest the pane's wins. \<open>ln_of\<close> is \<open>Math.log\<close>, whose result no exact rational
  determines; it decides only between packings. The state of \<open>layout\<close>'s closure is the record
  \<open>pack\<close>, and the index of \<open>forEach\<close> is the number of points pushed.

  Whatever packing wins, no two boxes touch: each keeps the gap to every box before it.
\<close>

record ZoneSize =
  zs_width :: jsnum
  zs_height :: jsnum

record ZonePoint =
  zp_x :: jsnum
  zp_y :: jsnum

definition ZONE_GAP :: jsnum where
  "ZONE_GAP = Fin 80"

definition LANDSCAPE_PANE_ASPECT :: jsnum where
  "LANDSCAPE_PANE_ASPECT = Fin 2"

definition PORTRAIT_PANE_ASPECT :: jsnum where
  "PORTRAIT_PANE_ASPECT = Fin (3 / 5)"

record pack =
  pk_points :: "ZonePoint list"
  pk_x :: jsnum
  pk_y :: jsnum
  pk_rowHeight :: jsnum
  pk_width :: jsnum

definition new_row :: "pack \<Rightarrow> pack" where
  "new_row p = p\<lparr>pk_x := Fin 0, pk_y := pk_y p + (pk_rowHeight p + ZONE_GAP), pk_rowHeight := Fin 0\<rparr>"

definition place :: "pack \<Rightarrow> ZoneSize \<Rightarrow> pack" where
  "place p s =
     p\<lparr>pk_points := pk_points p @ [\<lparr>zp_x = pk_x p, zp_y = pk_y p\<rparr>],
       pk_width := jmax (pk_width p) (pk_x p + zs_width s),
       pk_x := pk_x p + (zs_width s + ZONE_GAP),
       pk_rowHeight := jmax (pk_rowHeight p) (zs_height s)\<rparr>"

definition layout_step :: "nat \<Rightarrow> pack \<Rightarrow> ZoneSize \<Rightarrow> pack" where
  "layout_step cols p s =
     (let i = length (pk_points p)
      in place (if 0 < i \<and> i mod cols = 0 then new_row p else p) s)"

definition empty_pack :: pack where
  "empty_pack = \<lparr>pk_points = [], pk_x = Fin 0, pk_y = Fin 0, pk_rowHeight = Fin 0, pk_width = Fin 0\<rparr>"

record zone_layout =
  zl_points :: "ZonePoint list"
  zl_width :: jsnum
  zl_height :: jsnum

definition layout :: "ZoneSize list \<Rightarrow> nat \<Rightarrow> zone_layout" where
  "layout sizes cols =
     (let p = foldl (layout_step cols) empty_pack sizes
      in \<lparr>zl_points = pk_points p, zl_width = pk_width p, zl_height = pk_y p + pk_rowHeight p\<rparr>)"

definition misfit :: "(jsnum \<Rightarrow> jsnum) \<Rightarrow> zone_layout \<Rightarrow> jsnum \<Rightarrow> jsnum" where
  "misfit ln_of b paneAspect = jabs (ln_of (divide (divide (zl_width b) (zl_height b)) paneAspect))"

definition column_options :: "ZoneSize list \<Rightarrow> jsnum \<Rightarrow> nat list" where
  "column_options sizes paneAspect =
     (if paneAspect < Fin 1 then [3, 2, 1] else if length sizes \<le> 2 then [length sizes] else [3, 2])"

definition packZones :: "(jsnum \<Rightarrow> jsnum) \<Rightarrow> ZoneSize list \<Rightarrow> jsnum \<Rightarrow> ZonePoint list" where
  "packZones ln_of sizes paneAspect =
     (if sizes = [] then []
      else let layouts = map (layout sizes) (filter (\<lambda>c. c \<le> length sizes) (column_options sizes paneAspect))
           in zl_points (foldl (\<lambda>a b. if misfit ln_of b paneAspect < misfit ln_of a paneAspect then b else a)
                (hd layouts) (tl layouts)))"

subsection \<open>The packing in exact numbers\<close>

definition zone :: "rat \<times> rat \<Rightarrow> ZoneSize" where
  "zone s = \<lparr>zs_width = Fin (fst s), zs_height = Fin (snd s)\<rparr>"

definition zpoint :: "rat \<times> rat \<Rightarrow> ZonePoint" where
  "zpoint q = \<lparr>zp_x = Fin (fst q), zp_y = Fin (snd q)\<rparr>"

text \<open>A pack whose numbers are finite: points, cursor, row height and width.\<close>

definition packed :: "(rat \<times> rat) list \<Rightarrow> rat \<Rightarrow> rat \<Rightarrow> rat \<Rightarrow> rat \<Rightarrow> pack" where
  "packed pts x y r w =
     \<lparr>pk_points = map zpoint pts, pk_x = Fin x, pk_y = Fin y, pk_rowHeight = Fin r, pk_width = Fin w\<rparr>"

lemma new_row_packed: "new_row (packed pts x y r w) = packed pts 0 (y + (r + 80)) 0 w"
  by (simp add: new_row_def packed_def ZONE_GAP_def)

lemma place_packed:
  "place (packed pts x y r w) (zone s) = packed (pts @ [(x, y)]) (x + (fst s + 80)) y (max r (snd s)) (max w (x + fst s))"
  by (simp add: place_def packed_def ZONE_GAP_def zone_def zpoint_def)

text \<open>A box clears a later one: it ends a gap before it on the row, or its row does.\<close>

definition clears :: "rat \<times> rat \<Rightarrow> rat \<times> rat \<Rightarrow> rat \<times> rat \<Rightarrow> bool" where
  "clears q s q' \<longleftrightarrow> fst q + fst s + 80 \<le> fst q' \<or> snd q + snd s + 80 \<le> snd q'"

text \<open>The invariant of the loop: boxes placed are clear of each other, and of the cursor.\<close>

definition pack_inv :: "(rat \<times> rat) list \<Rightarrow> (rat \<times> rat) list \<Rightarrow> rat \<Rightarrow> rat \<Rightarrow> rat \<Rightarrow> bool" where
  "pack_inv done pts x y r \<longleftrightarrow>
     length pts = length done \<and> 0 \<le> x \<and> 0 \<le> y \<and> 0 \<le> r \<and>
     (\<forall>k < length done. 0 \<le> fst (pts ! k) \<and> 0 \<le> snd (pts ! k) \<and>
        (snd (pts ! k) = y \<and> fst (pts ! k) + fst (done ! k) + 80 \<le> x \<and> snd (done ! k) \<le> r \<or>
         snd (pts ! k) + snd (done ! k) + 80 \<le> y)) \<and>
     (\<forall>j < length done. \<forall>i < j. clears (pts ! i) (done ! i) (pts ! j))"

lemma pack_inv_new_row: "pack_inv done pts x y r \<Longrightarrow> pack_inv done pts 0 (y + (r + 80)) 0"
  unfolding pack_inv_def by (intro conjI allI impI; force)

lemma pack_inv_place:
  assumes "pack_inv done pts x y r" "0 \<le> fst s" "0 \<le> snd s"
  shows "pack_inv (done @ [s]) (pts @ [(x, y)]) (x + (fst s + 80)) y (max r (snd s))"
proof -
  have len: "length pts = length done" and at: "\<And>k. k < length done \<Longrightarrow>
      0 \<le> fst (pts ! k) \<and> 0 \<le> snd (pts ! k) \<and>
        (snd (pts ! k) = y \<and> fst (pts ! k) + fst (done ! k) + 80 \<le> x \<and> snd (done ! k) \<le> r \<or>
         snd (pts ! k) + snd (done ! k) + 80 \<le> y)"
    and nn: "0 \<le> x" "0 \<le> y" "0 \<le> r"
    and clr: "\<And>i j. j < length done \<Longrightarrow> i < j \<Longrightarrow> clears (pts ! i) (done ! i) (pts ! j)"
    using assms(1) by (simp_all add: pack_inv_def)
  have "0 \<le> fst ((pts @ [(x, y)]) ! k) \<and> 0 \<le> snd ((pts @ [(x, y)]) ! k) \<and>
      (snd ((pts @ [(x, y)]) ! k) = y \<and> fst ((pts @ [(x, y)]) ! k) + fst ((done @ [s]) ! k) + 80 \<le> x + (fst s + 80) \<and>
        snd ((done @ [s]) ! k) \<le> max r (snd s) \<or>
       snd ((pts @ [(x, y)]) ! k) + snd ((done @ [s]) ! k) + 80 \<le> y)" if "k < Suc (length done)" for k
  proof (cases "k < length done")
    case True
    then show ?thesis using at [OF True] assms(2) len by (auto simp: nth_append)
  next
    case False
    then have "k = length done" using that by simp
    then show ?thesis using nn len by (simp add: nth_append)
  qed
  moreover have "clears ((pts @ [(x, y)]) ! i) ((done @ [s]) ! i) ((pts @ [(x, y)]) ! j)"
    if "j < Suc (length done)" "i < j" for i j
  proof (cases "j < length done")
    case True
    then show ?thesis using clr [OF True \<open>i < j\<close>] \<open>i < j\<close> len by (simp add: nth_append)
  next
    case False
    then have j: "j = length done" "i < length done" using that by simp_all
    then show ?thesis using at [OF j(2)] len by (auto simp: nth_append clears_def)
  qed
  ultimately show ?thesis using len nn assms(2,3) by (simp add: pack_inv_def)
qed

lemma layout_loop:
  assumes "\<forall>s \<in> set sizes. 0 \<le> fst s \<and> 0 \<le> snd s"
  shows "\<exists>pts x y r w. foldl (layout_step cols) empty_pack (map zone sizes) = packed pts x y r w \<and> pack_inv sizes pts x y r"
  using assms
proof (induction sizes rule: rev_induct)
  case Nil
  have "empty_pack = packed [] 0 0 0 0" by (simp add: empty_pack_def packed_def)
  moreover have "pack_inv [] [] 0 0 0" by (simp add: pack_inv_def)
  ultimately show ?case by (metis foldl_Nil list.map(1))
next
  case (snoc s sizes)
  then obtain pts x y r w where IH: "foldl (layout_step cols) empty_pack (map zone sizes) = packed pts x y r w"
    "pack_inv sizes pts x y r" by auto
  have s: "0 \<le> fst s" "0 \<le> snd s" using snoc.prems by simp_all
  have step: "foldl (layout_step cols) empty_pack (map zone (sizes @ [s])) = layout_step cols (packed pts x y r w) (zone s)"
    using IH(1) by simp
  show ?case
  proof (cases "0 < length pts \<and> length pts mod cols = 0")
    case True
    then have "layout_step cols (packed pts x y r w) (zone s) = place (new_row (packed pts x y r w)) (zone s)"
      by (simp add: layout_step_def packed_def)
    then show ?thesis
      using step pack_inv_place [OF pack_inv_new_row [OF IH(2)] s] by (metis new_row_packed place_packed)
  next
    case False
    then have "layout_step cols (packed pts x y r w) (zone s) = place (packed pts x y r w) (zone s)"
      by (auto simp: layout_step_def packed_def)
    then show ?thesis using step pack_inv_place [OF IH(2) s] by (metis place_packed)
  qed
qed

lemma foldl_choice: "xs \<noteq> [] \<Longrightarrow> foldl (\<lambda>a b. if P a b then b else a) (hd xs) (tl xs) \<in> set xs"
proof -
  have "foldl (\<lambda>a b. if P a b then b else a) x ys \<in> insert x (set ys)" for x ys
    by (induction ys arbitrary: x) auto
  then show "xs \<noteq> [] \<Longrightarrow> ?thesis" by (cases xs) auto
qed

lemma packZones_is_layout: "sizes \<noteq> [] \<Longrightarrow> \<exists>cols. packZones ln_of sizes aspect = zl_points (layout sizes cols)"
proof -
  assume ne: "sizes \<noteq> []"
  let ?ls = "map (layout sizes) (filter (\<lambda>c. c \<le> length sizes) (column_options sizes aspect))"
  have "Suc 0 \<le> length sizes" using ne by (simp add: Suc_le_eq)
  then have "filter (\<lambda>c. c \<le> length sizes) (column_options sizes aspect) \<noteq> []"
    by (auto simp: column_options_def filter_empty_conv)
  then have "foldl (\<lambda>a b. if misfit ln_of b aspect < misfit ln_of a aspect then b else a) (hd ?ls) (tl ?ls) \<in> set ?ls"
    by (intro foldl_choice) simp
  then show ?thesis using ne by (auto simp: packZones_def Let_def)
qed

subsection \<open>No two zones touch\<close>

text \<open>
  C30: for zones of non-negative size the packing has one point per zone, in
  the caller's order, and of any two zones the earlier ends at least one gap before the later
  one begins, to its left or above it. This holds for every pane aspect and every logarithm.
\<close>

theorem packZones_disjoint:
  assumes "\<forall>s \<in> set sizes. is_finite (zs_width s) \<and> Fin 0 \<le> zs_width s \<and> is_finite (zs_height s) \<and> Fin 0 \<le> zs_height s"
    and "points = packZones ln_of sizes aspect"
  shows "length points = length sizes \<and>
    (\<forall>j < length sizes. \<forall>i < j.
       zp_x (points ! i) + zs_width (sizes ! i) + ZONE_GAP \<le> zp_x (points ! j) \<or>
       zp_y (points ! i) + zs_height (sizes ! i) + ZONE_GAP \<le> zp_y (points ! j))"
proof (cases "sizes = []")
  case True
  then show ?thesis using assms(2) by (simp add: packZones_def)
next
  case False
  define ss where "ss = map (\<lambda>s. (fin_val (zs_width s), fin_val (zs_height s))) sizes"
  have zone: "zone (fin_val (zs_width s), fin_val (zs_height s)) = s" if "s \<in> set sizes" for s
    using that assms(1) by (auto simp: zone_def is_finite_iff)
  then have sizes: "sizes = map zone ss" by (simp add: ss_def comp_def map_idI)
  have nn: "\<forall>s \<in> set ss. 0 \<le> fst s \<and> 0 \<le> snd s"
    using assms(1) by (auto simp: ss_def is_finite_iff)
  obtain cols where "points = zl_points (layout sizes cols)" using packZones_is_layout [OF False] assms(2) by metis
  moreover obtain pts x y r w where p: "foldl (layout_step cols) empty_pack (map zone ss) = packed pts x y r w"
    "pack_inv ss pts x y r" using layout_loop [OF nn] by blast
  ultimately have points: "points = map zpoint pts" using sizes by (simp add: layout_def packed_def)
  have len: "length pts = length ss" using p(2) by (simp add: pack_inv_def)
  have "clears (pts ! i) (ss ! i) (pts ! j)" if "j < length ss" "i < j" for i j
    using p(2) that by (simp add: pack_inv_def)
  then show ?thesis using points sizes len by (simp add: clears_def zpoint_def zone_def ZONE_GAP_def)
qed

theorem packZones_disjoint_witness:
  "zp_x (packZones (\<lambda>x. x) [zone (100, 50), zone (30, 20)] LANDSCAPE_PANE_ASPECT ! 0) + Fin 100 + ZONE_GAP
     \<le> zp_x (packZones (\<lambda>x. x) [zone (100, 50), zone (30, 20)] LANDSCAPE_PANE_ASPECT ! 1)"
proof -
  have "\<forall>s \<in> set [zone (100, 50), zone (30, 20)].
      is_finite (zs_width s) \<and> Fin 0 \<le> zs_width s \<and> is_finite (zs_height s) \<and> Fin 0 \<le> zs_height s"
    by (simp add: zone_def)
  from packZones_disjoint [OF this refl, of "\<lambda>x. x" LANDSCAPE_PANE_ASPECT] show ?thesis
    by (simp add: packZones_def column_options_def LANDSCAPE_PANE_ASPECT_def layout_def layout_step_def empty_pack_def
      place_def zone_def ZONE_GAP_def All_less_Suc numeral_2_eq_2)
qed

end
