(* ===== verification/Time_Machine.thy ===== *)
theory Time_Machine
  imports Matrix_Cells
begin

section \<open>The console-wide time context (lib/timemachine.tsx)\<close>

text \<open>
  The Time Machine holds the instant the console shows (\<open>tm_at\<close>, null while Live) and writes it
  to the URL as \<open>?at=\<close>. The state is the provider's, the browser's session history (the entry
  on screen and the entries behind and ahead of it), the module's \<open>traversing\<close> flag and the
  microtask that \<open>AtParamSync\<close> has queued. The listeners, effects, microtask and timer are
  separate steps, so a Back is delivered to the module, the router and the provider in turn.

  \<open>parse\<close> is \<open>Date.parse\<close>, \<open>toISO\<close> is \<open>Date.prototype.toISOString\<close> on a valid date (the only
  ones the module formats), \<open>qs_parse\<close> and \<open>qs_string\<close> read and print a query string. A URL is
  its path, its decoded query and its hash. The console warnings are not modelled.

  The address bar is shown to state the instant on screen in every state reached, so that a
  reload or a copied link opens the same console, and Back to undo an engagement whatever is
  queued in between.
\<close>

subsection \<open>Instants\<close>

definition AT_PARAM :: jstring where
  "AT_PARAM = js ''at''"

definition digits_at :: "nat list \<Rightarrow> jstring \<Rightarrow> bool" where
  "digits_at ns s \<longleftrightarrow> list_all (\<lambda>i. is_digit (s ! i)) ns"

definition rfc_zone :: "jstring \<Rightarrow> bool" where
  "rfc_zone z \<longleftrightarrow> z = [90] \<or> z = [122] \<or>
     length z = 6 \<and> (z ! 0 = 43 \<or> z ! 0 = 45) \<and> digits_at [1, 2, 4, 5] z \<and> z ! 3 = 58"

definition rfc_fraction :: "jstring \<Rightarrow> bool" where
  "rfc_fraction s \<longleftrightarrow> rfc_zone s \<or>
     s \<noteq> [] \<and> hd s = 46 \<and> takeWhile is_digit (tl s) \<noteq> [] \<and> rfc_zone (dropWhile is_digit (tl s))"

definition RFC3339 :: "jstring \<Rightarrow> bool" where
  "RFC3339 s \<longleftrightarrow> 19 \<le> length s \<and> digits_at [0, 1, 2, 3, 5, 6, 8, 9, 11, 12, 14, 15, 17, 18] s \<and>
     s ! 4 = 45 \<and> s ! 7 = 45 \<and> (s ! 10 = 84 \<or> s ! 10 = 116) \<and> s ! 13 = 58 \<and> s ! 16 = 58 \<and>
     rfc_fraction (drop 19 s)"

definition truncateToSecond :: "jsnum \<Rightarrow> jsnum" where
  "truncateToSecond ms = jfloor (ms / Fin 1000) * Fin 1000"

definition strip_millis :: "jstring \<Rightarrow> jstring" where
  "strip_millis s =
     (let z = drop (length s - 5) s
      in if length z = 5 \<and> z ! 0 = 46 \<and> digits_at [1, 2, 3] z \<and> z ! 4 = 90 then take (length s - 5) s @ js ''Z'' else s)"

definition formatAtParam :: "(date \<Rightarrow> jstring) \<Rightarrow> date \<Rightarrow> jstring" where
  "formatAtParam toISO d = strip_millis (toISO (new_date (truncateToSecond d)))"

definition normalize_at :: "date \<Rightarrow> date \<Rightarrow> date option" where
  "normalize_at now d =
     (if is_nan d then None
      else if now < d then Some (new_date (truncateToSecond now))
      else Some (new_date (truncateToSecond d)))"

subsection \<open>The address\<close>

record page_url =
  pu_path :: jstring
  pu_params :: search_params
  pu_hash :: jstring

definition readAtFromLocation :: "(jstring \<Rightarrow> date) \<Rightarrow> date \<Rightarrow> page_url \<Rightarrow> date option" where
  "readAtFromLocation parse now url =
     (case map_of (pu_params url) AT_PARAM of
        None \<Rightarrow> None
      | Some raw \<Rightarrow> if raw = [] then None else if \<not> RFC3339 raw then None else normalize_at now (new_date (parse raw)))"

definition params_delete :: "jstring \<Rightarrow> search_params \<Rightarrow> search_params" where
  "params_delete k ps = filter (\<lambda>p. fst p \<noteq> k) ps"

definition atHref :: "(date \<Rightarrow> jstring) \<Rightarrow> date option \<Rightarrow> page_url \<Rightarrow> page_url \<times> bool" where
  "atHref toISO d url =
     (let next_at = map_option (formatAtParam toISO) d
      in (case next_at of
            Some v \<Rightarrow> if v \<noteq> [] then url\<lparr>pu_params := params_set AT_PARAM v (pu_params url)\<rparr>
                      else url\<lparr>pu_params := params_delete AT_PARAM (pu_params url)\<rparr>
          | None \<Rightarrow> url\<lparr>pu_params := params_delete AT_PARAM (pu_params url)\<rparr>,
          map_of (pu_params url) AT_PARAM = next_at))"

definition second_piece :: "jstring list \<Rightarrow> jstring" where
  "second_piece ps = (if 1 < length ps then ps ! 1 else [])"

definition withAtParam :: "(jstring \<Rightarrow> search_params) \<Rightarrow> (search_params \<Rightarrow> jstring) \<Rightarrow> (date \<Rightarrow> jstring) \<Rightarrow>
    (jstring \<Rightarrow> date) \<Rightarrow> date \<Rightarrow> page_url \<Rightarrow> jstring \<Rightarrow> jstring" where
  "withAtParam qs_parse qs_string toISO parse now url path =
     (case readAtFromLocation parse now url of
        None \<Rightarrow> path
      | Some d \<Rightarrow>
          (let pieces = split_on 35 path;
               hash = second_piece pieces;
               parts = split_on 63 (pieces ! 0);
               params = params_set AT_PARAM (formatAtParam toISO d) (qs_parse (second_piece parts))
           in parts ! 0 @ js ''?'' @ qs_string params @ (if hash \<noteq> [] then js ''#'' @ hash else [])))"

subsection \<open>The provider and the session history\<close>

record history_entry =
  he_url :: page_url
  he_state :: jsval

record time_machine =
  tm_at :: "date option"
  tm_entry :: history_entry
  tm_back :: "history_entry list"
  tm_forward :: "history_entry list"
  tm_traversing :: bool
  tm_task :: "date option option"

definition TSR_INDEX :: jstring where
  "TSR_INDEX = js ''__TSR_index''"

definition next_state :: "jsval \<Rightarrow> jsval" where
  "next_state prev =
     (case prev of
        JObj fs \<Rightarrow> (case map_of fs TSR_INDEX of
                       Some (JNum i) \<Rightarrow> JObj (AList.update TSR_INDEX (JNum (i + Fin 1)) fs)
                     | _ \<Rightarrow> JObj [])
      | _ \<Rightarrow> JObj [])"

definition pushState :: "jsval \<Rightarrow> page_url \<Rightarrow> time_machine \<Rightarrow> time_machine" where
  "pushState st url s = s\<lparr>tm_entry := \<lparr>he_url = url, he_state = st\<rparr>, tm_back := tm_entry s # tm_back s, tm_forward := []\<rparr>"

definition writeAt :: "(date \<Rightarrow> jstring) \<Rightarrow> date option \<Rightarrow> time_machine \<Rightarrow> time_machine" where
  "writeAt toISO d s = pushState (next_state (he_state (tm_entry s))) (fst (atHref toISO d (he_url (tm_entry s)))) s"

definition syncAtParam :: "(date \<Rightarrow> jstring) \<Rightarrow> date option \<Rightarrow> time_machine \<Rightarrow> time_machine" where
  "syncAtParam toISO d s =
     (let (href, unchanged) = atHref toISO d (he_url (tm_entry s))
      in if unchanged then s else s\<lparr>tm_entry := (tm_entry s)\<lparr>he_url := href\<rparr>\<rparr>)"

text \<open>
  \<open>setAt\<close>, and the effects of the render it causes: the provider's \<open>syncAtParam(at)\<close> and
  \<open>AtParamSync\<close>'s microtask, which replaces the one queued before. A fresh \<open>Date\<close> is a new value
  whatever instant it holds, so only null after null renders nothing.
\<close>

definition setAt :: "(date \<Rightarrow> jstring) \<Rightarrow> date option \<Rightarrow> time_machine \<Rightarrow> time_machine" where
  "setAt toISO v s =
     (if v = None \<and> tm_at s = None then s
      else (syncAtParam toISO v (s\<lparr>tm_at := v\<rparr>))\<lparr>tm_task := Some v\<rparr>)"

definition tm_mount :: "(date \<Rightarrow> jstring) \<Rightarrow> (jstring \<Rightarrow> date) \<Rightarrow> date \<Rightarrow> history_entry \<Rightarrow> time_machine" where
  "tm_mount toISO parse now e =
     (let v = readAtFromLocation parse now (he_url e)
      in syncAtParam toISO v \<lparr>tm_at = v, tm_entry = e, tm_back = [], tm_forward = [], tm_traversing = False, tm_task = Some v\<rparr>)"

definition engage :: "(date \<Rightarrow> jstring) \<Rightarrow> date \<Rightarrow> date \<Rightarrow> time_machine \<Rightarrow> time_machine" where
  "engage toISO now d s =
     (case normalize_at now d of None \<Rightarrow> s | Some v \<Rightarrow> setAt toISO (Some v) (writeAt toISO (Some v) s))"

definition returnToLive :: "(date \<Rightarrow> jstring) \<Rightarrow> time_machine \<Rightarrow> time_machine" where
  "returnToLive toISO s = (if tm_at s = None then s else setAt toISO None (writeAt toISO None s))"

definition onPopState :: "(date \<Rightarrow> jstring) \<Rightarrow> (jstring \<Rightarrow> date) \<Rightarrow> date \<Rightarrow> time_machine \<Rightarrow> time_machine" where
  "onPopState toISO parse now s = setAt toISO (readAtFromLocation parse now (he_url (tm_entry s))) s"

text \<open>The module's own \<open>popstate\<close> listener runs first, when the browser has moved to the entry.\<close>

definition popstate_module :: "time_machine \<Rightarrow> time_machine" where
  "popstate_module s = s\<lparr>tm_traversing := True\<rparr>"

definition traversing_timer :: "time_machine \<Rightarrow> time_machine" where
  "traversing_timer s = s\<lparr>tm_traversing := False\<rparr>"

fun go_back :: "time_machine \<Rightarrow> time_machine" where
  "go_back s = (case tm_back s of [] \<Rightarrow> s | e # es \<Rightarrow>
     popstate_module (s\<lparr>tm_entry := e, tm_back := es, tm_forward := tm_entry s # tm_forward s\<rparr>))"

fun go_forward :: "time_machine \<Rightarrow> time_machine" where
  "go_forward s = (case tm_forward s of [] \<Rightarrow> s | e # es \<Rightarrow>
     popstate_module (s\<lparr>tm_entry := e, tm_forward := es, tm_back := tm_entry s # tm_back s\<rparr>))"

text \<open>\<open>AtParamSync\<close>: the effect on a new href, and the microtask it queued.\<close>

definition AtParamSync_effect :: "time_machine \<Rightarrow> time_machine" where
  "AtParamSync_effect s = s\<lparr>tm_task := Some (tm_at s)\<rparr>"

definition AtParamSync_task :: "(date \<Rightarrow> jstring) \<Rightarrow> time_machine \<Rightarrow> time_machine" where
  "AtParamSync_task toISO s =
     (case tm_task s of
        None \<Rightarrow> s
      | Some d \<Rightarrow> if tm_traversing s then s\<lparr>tm_task := None\<rparr> else syncAtParam toISO d (s\<lparr>tm_task := None\<rparr>))"

subsection \<open>What a control reads of it\<close>

record WriteGuard =
  wg_disabled :: bool
  wg_title :: "jstring option"
  wg_describedby :: "jstring option"

definition TIME_MACHINE_REASON_ID :: jstring where
  "TIME_MACHINE_REASON_ID = js ''timemachine-writes-disabled-reason''"

text \<open>The context is absent without a provider; \<open>LIVE\<close> stands in for it.\<close>

definition useTimeContext :: "date option option \<Rightarrow> date option" where
  "useTimeContext ctx = (case ctx of None \<Rightarrow> None | Some v \<Rightarrow> v)"

definition useWritesDisabled :: "date option option \<Rightarrow> bool" where
  "useWritesDisabled ctx \<longleftrightarrow> \<not> useTimeContext ctx = None"

definition useWriteGuard :: "translator \<Rightarrow> date option option \<Rightarrow> WriteGuard" where
  "useWriteGuard t ctx =
     (if useWritesDisabled ctx
      then \<lparr>wg_disabled = True, wg_title = Some (t (js ''timemachine.disabledReason'') []), wg_describedby = Some TIME_MACHINE_REASON_ID\<rparr>
      else \<lparr>wg_disabled = False, wg_title = None, wg_describedby = None\<rparr>)"

subsection \<open>The states a session reaches\<close>

text \<open>
  The instants RFC 3339 can spell have a four-digit year: \<open>toISOString\<close> prints others with a
  sign and six digits. The clock is within them.
\<close>

definition YEAR_0 :: int where
  "YEAR_0 = - 62167219200000"

definition YEAR_10000 :: int where
  "YEAR_10000 = 253402300800000"

definition in_years :: "date \<Rightarrow> bool" where
  "in_years d \<longleftrightarrow> d = NaN \<or> (\<exists>n. d = jint n \<and> YEAR_0 \<le> n \<and> n \<le> 8640000000000000)"

text \<open>What \<open>toISOString\<close> and \<open>Date.parse\<close> promise of a whole second.\<close>

definition iso_law :: "(date \<Rightarrow> jstring) \<Rightarrow> (jstring \<Rightarrow> date) \<Rightarrow> bool" where
  "iso_law toISO parse \<longleftrightarrow>
     (\<forall>k. YEAR_0 \<le> 1000 * k \<and> 1000 * k < YEAR_10000 \<longrightarrow>
        (let s = strip_millis (toISO (jint (1000 * k))) in RFC3339 s \<and> parse s = jint (1000 * k)))"

datatype quiet_step = Href_effect | Sync_task

fun quiet :: "(date \<Rightarrow> jstring) \<Rightarrow> quiet_step \<Rightarrow> time_machine \<Rightarrow> time_machine" where
  "quiet toISO Href_effect s = AtParamSync_effect s"
| "quiet toISO Sync_task s = AtParamSync_task toISO s"

text \<open>
  A traversal: the module's listener, then the router's render and its microtask as often as
  they come, then the provider's listener, and the flag's timer once the microtasks are done.
\<close>

definition traverse :: "(date \<Rightarrow> jstring) \<Rightarrow> (jstring \<Rightarrow> date) \<Rightarrow> int \<Rightarrow> quiet_step list \<Rightarrow> quiet_step list \<Rightarrow>
    (time_machine \<Rightarrow> time_machine) \<Rightarrow> time_machine \<Rightarrow> time_machine" where
  "traverse toISO parse now q1 q2 go s =
     traversing_timer (fold (quiet toISO) q2 (onPopState toISO parse (jint now) (fold (quiet toISO) q1 (go s))))"

text \<open>A navigation: the router's push, the effect on the new href and its microtask.\<close>

definition navigate :: "(date \<Rightarrow> jstring) \<Rightarrow> page_url \<Rightarrow> jsval \<Rightarrow> time_machine \<Rightarrow> time_machine" where
  "navigate toISO url st s = AtParamSync_task toISO (AtParamSync_effect (pushState st url s))"

inductive session :: "(date \<Rightarrow> jstring) \<Rightarrow> (jstring \<Rightarrow> date) \<Rightarrow> int \<Rightarrow> time_machine \<Rightarrow> bool"
  for toISO parse where
  mount: "YEAR_0 \<le> now \<Longrightarrow> now < YEAR_10000 \<Longrightarrow> (\<And>raw. map_of (pu_params (he_url e)) AT_PARAM = Some raw \<Longrightarrow> in_years (new_date (parse raw))) \<Longrightarrow>
    session toISO parse now (tm_mount toISO parse (jint now) e)"
| clock: "session toISO parse now s \<Longrightarrow> now \<le> now' \<Longrightarrow> now' < YEAR_10000 \<Longrightarrow> session toISO parse now' s"
| engage: "session toISO parse now s \<Longrightarrow> in_years d \<Longrightarrow> session toISO parse now (engage toISO (jint now) d s)"
| return_live: "session toISO parse now s \<Longrightarrow> session toISO parse now (returnToLive toISO s)"
| navigate: "session toISO parse now s \<Longrightarrow> session toISO parse now (navigate toISO url st s)"
| quiet: "session toISO parse now s \<Longrightarrow> session toISO parse now (quiet toISO q s)"
| walk_back: "session toISO parse now s \<Longrightarrow> tm_back s \<noteq> [] \<Longrightarrow> session toISO parse now (traverse toISO parse now q1 q2 go_back s)"
| walk_forward: "session toISO parse now s \<Longrightarrow> tm_forward s \<noteq> [] \<Longrightarrow> session toISO parse now (traverse toISO parse now q1 q2 go_forward s)"

subsection \<open>Instants and the address\<close>

definition instant_ok :: "int \<Rightarrow> date option \<Rightarrow> bool" where
  "instant_ok now v \<longleftrightarrow> (\<forall>x. v = Some x \<longrightarrow> (\<exists>k. x = jint (1000 * k) \<and> YEAR_0 \<le> 1000 * k \<and> 1000 * k \<le> now))"

definition states_at :: "(date \<Rightarrow> jstring) \<Rightarrow> page_url \<Rightarrow> date option \<Rightarrow> bool" where
  "states_at toISO url v \<longleftrightarrow> map_of (pu_params url) AT_PARAM = map_option (formatAtParam toISO) v"

lemma instant_ok_None [simp]: "instant_ok now None"
  by (simp add: instant_ok_def)

lemma instant_ok_mono:
  assumes "instant_ok now v" "now \<le> now'"
  shows "instant_ok now' v"
  unfolding instant_ok_def
proof (intro allI impI)
  fix x
  assume "v = Some x"
  with assms(1) obtain k where k: "x = jint (1000 * k)" "YEAR_0 \<le> 1000 * k" "1000 * k \<le> now"
    unfolding instant_ok_def by blast
  show "\<exists>k. x = jint (1000 * k) \<and> YEAR_0 \<le> 1000 * k \<and> 1000 * k \<le> now'"
    using k assms(2) by (intro exI [of _ k] conjI) linarith+
qed

lemma truncate_jint: "truncateToSecond (jint n) = jint (1000 * (n div 1000))"
  using floor_divide_of_int_eq [of n 1000, where 'a = rat] by (simp add: truncateToSecond_def)

lemma second_date:
  assumes "YEAR_0 \<le> n" "n \<le> 8640000000000000"
  shows "new_date (truncateToSecond (jint n)) = jint (1000 * (n div 1000))" "YEAR_0 \<le> 1000 * (n div 1000)" "1000 * (n div 1000) \<le> n"
proof -
  have "YEAR_0 div 1000 \<le> n div 1000" using assms(1) by (rule zdiv_mono1) simp
  moreover have "1000 * (YEAR_0 div 1000) = YEAR_0" by (simp add: YEAR_0_def)
  ultimately show lo: "YEAR_0 \<le> 1000 * (n div 1000)" by linarith
  have "0 \<le> n mod 1000" by simp
  with mult_div_mod_eq [of 1000 n] show hi: "1000 * (n div 1000) \<le> n" by linarith
  have "\<bar>1000 * (n div 1000)\<bar> \<le> 8640000000000000" using lo hi assms(2) unfolding YEAR_0_def by linarith
  then have "\<bar>of_int (1000 * (n div 1000)) :: rat\<bar> \<le> MAX_TIME" unfolding MAX_TIME_def by linarith
  then show "new_date (truncateToSecond (jint n)) = jint (1000 * (n div 1000))"
    unfolding truncate_jint by (rule new_date_jint)
qed

lemma normalize_in_years:
  assumes "YEAR_0 \<le> now" "now < YEAR_10000" "in_years d"
  shows "instant_ok now (normalize_at (jint now) d)"
proof (cases "d = NaN")
  case True
  then show ?thesis by (simp add: normalize_at_def is_nan_def)
next
  case False
  with assms(3) obtain n where n: "d = jint n" "YEAR_0 \<le> n" "n \<le> 8640000000000000" by (auto simp: in_years_def)
  have now: "now \<le> 8640000000000000" using assms(2) unfolding YEAR_10000_def by linarith
  show ?thesis
  proof (cases "now < n")
    case True
    then have "normalize_at (jint now) d = Some (jint (1000 * (now div 1000)))"
      using n second_date(1) [OF assms(1) now] by (simp add: normalize_at_def is_nan_def del: new_date.simps)
    then show ?thesis using second_date(2,3) [OF assms(1) now] by (auto simp: instant_ok_def)
  next
    case less: False
    then have "normalize_at (jint now) d = Some (jint (1000 * (n div 1000)))"
      using n second_date(1) [OF n(2,3)] by (simp add: normalize_at_def is_nan_def del: new_date.simps)
    then show ?thesis using second_date(2,3) [OF n(2,3)] less by (fastforce simp: instant_ok_def)
  qed
qed

lemma format_second:
  assumes "iso_law toISO parse" "YEAR_0 \<le> 1000 * k" "1000 * k < YEAR_10000"
  shows "RFC3339 (formatAtParam toISO (jint (1000 * k)))" "parse (formatAtParam toISO (jint (1000 * k))) = jint (1000 * k)"
    "formatAtParam toISO (jint (1000 * k)) \<noteq> []"
proof -
  have "1000 * k \<le> 8640000000000000" using assms(3) unfolding YEAR_10000_def by linarith
  from second_date(1) [OF assms(2) this]
  have f: "formatAtParam toISO (jint (1000 * k)) = strip_millis (toISO (jint (1000 * k)))"
    by (simp only: formatAtParam_def) simp
  show r: "RFC3339 (formatAtParam toISO (jint (1000 * k)))"
    and "parse (formatAtParam toISO (jint (1000 * k))) = jint (1000 * k)"
    using assms unfolding f iso_law_def Let_def by blast+
  show "formatAtParam toISO (jint (1000 * k)) \<noteq> []" using r by (auto simp: RFC3339_def)
qed

lemma read_stated:
  assumes "iso_law toISO parse" "states_at toISO url v" "instant_ok now v" "now < YEAR_10000"
  shows "readAtFromLocation parse (jint now) url = v"
proof (cases v)
  case None
  with assms(2) show ?thesis by (simp add: states_at_def readAtFromLocation_def)
next
  case (Some x)
  with assms(3) obtain k where k: "x = jint (1000 * k)" "YEAR_0 \<le> 1000 * k" "1000 * k \<le> now"
    by (auto simp: instant_ok_def)
  have lt: "1000 * k < YEAR_10000" using k(3) assms(4) by linarith
  then have le: "1000 * k \<le> 8640000000000000" unfolding YEAR_10000_def by linarith
  note f = format_second [OF assms(1) k(2) lt]
  have bound: "\<bar>of_int (1000 * k) :: rat\<bar> \<le> MAX_TIME"
    using k(2) le unfolding MAX_TIME_def YEAR_0_def by linarith
  have nd: "new_date (parse (formatAtParam toISO (jint (1000 * k)))) = jint (1000 * k)"
    unfolding f(2) by (rule new_date_jint [OF bound])
  have "normalize_at (jint now) (jint (1000 * k)) = Some (jint (1000 * k))"
    using second_date(1) [OF k(2) le] k(3) unfolding normalize_at_def by (simp add: is_nan_def del: new_date.simps)
  moreover have "map_of (pu_params url) AT_PARAM = Some (formatAtParam toISO (jint (1000 * k)))"
    using assms(2) Some k(1) by (simp only: states_at_def option.map)
  ultimately show ?thesis
    unfolding readAtFromLocation_def Some k(1) using f(1,3) nd by simp
qed

lemma map_of_params_delete: "map_of (params_delete k ps) k' = (if k' = k then None else map_of ps k')"
  unfolding params_delete_def by (induction ps) auto

lemma atHref_other: "k \<noteq> AT_PARAM \<Longrightarrow> map_of (pu_params (fst (atHref toISO v url))) k = map_of (pu_params url) k"
  by (simp add: atHref_def Let_def map_of_params_set map_of_params_delete split: option.split)

lemma atHref_kept: "pu_path (fst (atHref toISO v url)) = pu_path url" "pu_hash (fst (atHref toISO v url)) = pu_hash url"
  by (simp_all add: atHref_def Let_def split: option.split)

lemma atHref_states:
  assumes "iso_law toISO parse" "instant_ok now v" "now < YEAR_10000"
  shows "states_at toISO (fst (atHref toISO v url)) v"
proof (cases v)
  case None
  then show ?thesis by (simp add: states_at_def atHref_def map_of_params_delete)
next
  case (Some x)
  with assms obtain k where k: "x = jint (1000 * k)" "YEAR_0 \<le> 1000 * k" "1000 * k < YEAR_10000"
    by (auto simp: instant_ok_def)
  from format_second(3) [OF assms(1) k(2,3)] have "formatAtParam toISO x \<noteq> []" by (simp only: k(1)) simp
  with Some show ?thesis by (simp add: states_at_def atHref_def map_of_params_set)
qed

subsection \<open>The invariant of a session\<close>

definition entry_ok :: "(date \<Rightarrow> jstring) \<Rightarrow> int \<Rightarrow> history_entry \<Rightarrow> bool" where
  "entry_ok toISO now e \<longleftrightarrow> (\<exists>v. instant_ok now v \<and> states_at toISO (he_url e) v)"

definition tm_inv :: "(date \<Rightarrow> jstring) \<Rightarrow> int \<Rightarrow> time_machine \<Rightarrow> bool" where
  "tm_inv toISO now s \<longleftrightarrow> YEAR_0 \<le> now \<and> now < YEAR_10000 \<and> instant_ok now (tm_at s) \<and>
     states_at toISO (he_url (tm_entry s)) (tm_at s) \<and>
     (\<forall>e \<in> set (tm_back s) \<union> set (tm_forward s). entry_ok toISO now e) \<and>
     \<not> tm_traversing s \<and> (tm_task s = None \<or> tm_task s = Some (tm_at s))"

lemma sync_stated: "states_at toISO (he_url (tm_entry s)) v \<Longrightarrow> syncAtParam toISO v s = s"
  by (simp add: syncAtParam_def atHref_def states_at_def Let_def)

lemma sync_states:
  assumes "iso_law toISO parse" "instant_ok now v" "now < YEAR_10000"
  shows "states_at toISO (he_url (tm_entry (syncAtParam toISO v s))) v"
proof (cases "map_of (pu_params (he_url (tm_entry s))) AT_PARAM = map_option (formatAtParam toISO) v")
  case True
  then have "states_at toISO (he_url (tm_entry s)) v" by (simp add: states_at_def)
  then show ?thesis by (simp add: sync_stated)
next
  case False
  then have "syncAtParam toISO v s = s\<lparr>tm_entry := (tm_entry s)\<lparr>he_url := fst (atHref toISO v (he_url (tm_entry s)))\<rparr>\<rparr>"
    by (simp add: syncAtParam_def atHref_def Let_def)
  then show ?thesis using atHref_states [OF assms] by simp
qed

lemma sync_frame [simp]:
  "tm_at (syncAtParam toISO v s) = tm_at s" "tm_back (syncAtParam toISO v s) = tm_back s"
  "tm_forward (syncAtParam toISO v s) = tm_forward s" "tm_traversing (syncAtParam toISO v s) = tm_traversing s"
  "tm_task (syncAtParam toISO v s) = tm_task s"
  by (simp_all add: syncAtParam_def split: prod.split)

lemma setAt_inv:
  assumes "iso_law toISO parse" "YEAR_0 \<le> now" "now < YEAR_10000" "instant_ok now v"
    and "\<forall>e \<in> set (tm_back s) \<union> set (tm_forward s). entry_ok toISO now e" "\<not> tm_traversing s"
    and "tm_at s = None \<and> v = None \<Longrightarrow> tm_inv toISO now s"
  shows "tm_inv toISO now (setAt toISO v s)"
proof (cases "v = None \<and> tm_at s = None")
  case True
  with assms(7) show ?thesis by (simp add: setAt_def)
next
  case False
  then have "setAt toISO v s = (syncAtParam toISO v (s\<lparr>tm_at := v\<rparr>))\<lparr>tm_task := Some v\<rparr>" by (simp only: setAt_def if_False)
  then show ?thesis using assms sync_states [OF assms(1,4,3), of "s\<lparr>tm_at := v\<rparr>"] by (simp add: tm_inv_def)
qed

lemma write_frame [simp]:
  "tm_at (writeAt toISO v s) = tm_at s" "tm_forward (writeAt toISO v s) = []"
  "tm_back (writeAt toISO v s) = tm_entry s # tm_back s" "tm_traversing (writeAt toISO v s) = tm_traversing s"
  "he_url (tm_entry (writeAt toISO v s)) = fst (atHref toISO v (he_url (tm_entry s)))"
  "tm_task (writeAt toISO v s) = tm_task s"
  by (simp_all add: writeAt_def pushState_def)

lemma inv_entry: "tm_inv toISO now s \<Longrightarrow> entry_ok toISO now (tm_entry s)"
  by (auto simp: tm_inv_def entry_ok_def)

lemma engage_inv:
  assumes "iso_law toISO parse" "tm_inv toISO now s" "in_years d"
  shows "tm_inv toISO now (engage toISO (jint now) d s)"
proof (cases "normalize_at (jint now) d")
  case None
  with assms(2) show ?thesis by (simp add: engage_def)
next
  case (Some v)
  have b: "YEAR_0 \<le> now" "now < YEAR_10000" using assms(2) by (simp_all add: tm_inv_def)
  from normalize_in_years [OF b assms(3)] Some have ok: "instant_ok now (Some v)" by simp
  have "tm_inv toISO now (setAt toISO (Some v) (writeAt toISO (Some v) s))"
    by (rule setAt_inv [OF assms(1) b ok]) (use assms(2) inv_entry [OF assms(2)] in \<open>simp_all add: tm_inv_def\<close>)
  with Some show ?thesis by (simp add: engage_def)
qed

lemma return_inv:
  assumes "iso_law toISO parse" "tm_inv toISO now s"
  shows "tm_inv toISO now (returnToLive toISO s)"
proof (cases "tm_at s = None")
  case False
  have b: "YEAR_0 \<le> now" "now < YEAR_10000" using assms(2) by (simp_all add: tm_inv_def)
  have "tm_inv toISO now (setAt toISO None (writeAt toISO None s))"
    by (rule setAt_inv [OF assms(1) b]) (use False assms(2) inv_entry [OF assms(2)] in \<open>simp_all add: tm_inv_def\<close>)
  with False show ?thesis by (simp only: returnToLive_def if_False)
qed (use assms(2) in \<open>simp add: returnToLive_def\<close>)

lemma navigate_inv:
  assumes "iso_law toISO parse" "tm_inv toISO now s"
  shows "tm_inv toISO now (navigate toISO url st s)"
proof -
  have ok: "instant_ok now (tm_at s)" "now < YEAR_10000" using assms(2) by (simp_all add: tm_inv_def)
  have n: "navigate toISO url st s = syncAtParam toISO (tm_at s) ((pushState st url s)\<lparr>tm_task := None\<rparr>)"
    using assms(2) by (simp add: navigate_def AtParamSync_task_def AtParamSync_effect_def pushState_def tm_inv_def)
  show ?thesis
    using assms(2) inv_entry [OF assms(2)] sync_states [OF assms(1) ok, of "(pushState st url s)\<lparr>tm_task := None\<rparr>"]
    unfolding n by (simp add: tm_inv_def pushState_def)
qed

lemma quiet_inv: "tm_inv toISO now s \<Longrightarrow> tm_inv toISO now (quiet toISO q s)"
proof (cases q)
  case Sync_task
  assume inv: "tm_inv toISO now s"
  have "syncAtParam toISO (tm_at s) (s\<lparr>tm_task := None\<rparr>) = s\<lparr>tm_task := None\<rparr>"
    using inv by (intro sync_stated) (simp add: tm_inv_def)
  with inv Sync_task show ?thesis by (auto simp: tm_inv_def AtParamSync_task_def)
qed (auto simp: tm_inv_def AtParamSync_effect_def)

text \<open>While a traversal is delivered, what AtParamSync queues writes nothing.\<close>

lemma quiet_traversing:
  "tm_traversing s \<Longrightarrow> \<exists>task. fold (quiet toISO) qs s = s\<lparr>tm_task := task\<rparr> \<and> task \<in> {None, Some (tm_at s), tm_task s}"
proof (induction qs arbitrary: s)
  case Nil
  have "fold (quiet toISO) [] s = s\<lparr>tm_task := tm_task s\<rparr>" by simp
  then show ?case by blast
next
  case (Cons q qs)
  have "\<exists>task. quiet toISO q s = s\<lparr>tm_task := task\<rparr> \<and> task \<in> {None, Some (tm_at s), tm_task s}"
  proof (cases q)
    case Sync_task
    show ?thesis
    proof (cases "tm_task s")
      case None
      with Sync_task have "quiet toISO q s = s\<lparr>tm_task := tm_task s\<rparr>" by (simp add: AtParamSync_task_def)
      then show ?thesis by blast
    qed (use Sync_task Cons.prems in \<open>auto simp: AtParamSync_task_def\<close>)
  qed (auto simp: AtParamSync_effect_def)
  then obtain task where task: "quiet toISO q s = s\<lparr>tm_task := task\<rparr>" "task \<in> {None, Some (tm_at s), tm_task s}" by blast
  have "tm_traversing (s\<lparr>tm_task := task\<rparr>)" using Cons.prems by simp
  from Cons.IH [OF this] task show ?case by auto
qed

lemma pop_stated:
  assumes "iso_law toISO parse" "states_at toISO (he_url (tm_entry s)) v" "instant_ok now v" "now < YEAR_10000"
  shows "\<exists>task. onPopState toISO parse (jint now) s = s\<lparr>tm_at := v, tm_task := task\<rparr> \<and>
    (task = Some v \<or> v = None \<and> tm_at s = None \<and> task = tm_task s)"
proof -
  have pop: "onPopState toISO parse (jint now) s = setAt toISO v s"
    using read_stated [OF assms] by (simp add: onPopState_def)
  show ?thesis
  proof (cases "v = None \<and> tm_at s = None")
    case True
    then have "setAt toISO v s = s\<lparr>tm_at := v, tm_task := tm_task s\<rparr>" by (simp add: setAt_def)
    with True pop show ?thesis by metis
  next
    case False
    have "syncAtParam toISO v (s\<lparr>tm_at := v\<rparr>) = s\<lparr>tm_at := v\<rparr>" using assms(2) by (intro sync_stated) simp
    then have "setAt toISO v s = s\<lparr>tm_at := v, tm_task := Some v\<rparr>" by (simp only: setAt_def False if_False)
    with pop show ?thesis by auto
  qed
qed


lemma traverse_stated:
  assumes "iso_law toISO parse" "now < YEAR_10000"
    and "tm_traversing (go s)" "tm_at (go s) = tm_at s" "tm_task (go s) = None \<or> tm_task (go s) = Some (tm_at s)"
    and "states_at toISO (he_url (tm_entry (go s))) v" "instant_ok now v"
  shows "\<exists>task. traverse toISO parse now q1 q2 go s = (go s)\<lparr>tm_at := v, tm_task := task, tm_traversing := False\<rparr> \<and>
    (task = None \<or> task = Some v)"
proof -
  obtain t1 where t1: "fold (quiet toISO) q1 (go s) = (go s)\<lparr>tm_task := t1\<rparr>" "t1 = None \<or> t1 = Some (tm_at s)"
    using quiet_traversing [OF assms(3), of toISO q1] assms(4,5) by auto
  obtain t2 where t2: "onPopState toISO parse (jint now) ((go s)\<lparr>tm_task := t1\<rparr>) = (go s)\<lparr>tm_at := v, tm_task := t2\<rparr>"
      "t2 = None \<or> t2 = Some v"
    using pop_stated [OF assms(1) _ assms(7,2), of "(go s)\<lparr>tm_task := t1\<rparr>"] assms(4,6) t1(2) by auto
  have "tm_traversing ((go s)\<lparr>tm_at := v, tm_task := t2\<rparr>)" using assms(3) by simp
  from quiet_traversing [OF this, of toISO q2] obtain t3
    where t3: "fold (quiet toISO) q2 ((go s)\<lparr>tm_at := v, tm_task := t2\<rparr>) = (go s)\<lparr>tm_at := v, tm_task := t3\<rparr>"
      "t3 = None \<or> t3 = Some v"
    using t2(2) by auto
  have "traverse toISO parse now q1 q2 go s = (go s)\<lparr>tm_at := v, tm_task := t3, tm_traversing := False\<rparr>"
    by (simp add: traverse_def t1(1) t2(1) t3(1) traversing_timer_def)
  with t3(2) show ?thesis by blast
qed

lemma traverse_inv:
  assumes "iso_law toISO parse" "tm_inv toISO now s"
    and "tm_traversing (go s)" "tm_at (go s) = tm_at s" "tm_task (go s) = tm_task s"
    and "entry_ok toISO now (tm_entry (go s))" "\<forall>e \<in> set (tm_back (go s)) \<union> set (tm_forward (go s)). entry_ok toISO now e"
  shows "tm_inv toISO now (traverse toISO parse now q1 q2 go s)"
proof -
  obtain v where v: "instant_ok now v" "states_at toISO (he_url (tm_entry (go s))) v"
    using assms(6) by (auto simp: entry_ok_def)
  have b: "now < YEAR_10000" "tm_task (go s) = None \<or> tm_task (go s) = Some (tm_at s)"
    using assms(2,5) by (simp_all add: tm_inv_def)
  from traverse_stated [where go = go and s = s, OF assms(1) b(1) assms(3,4) b(2) v(2,1)] obtain task
    where "traverse toISO parse now q1 q2 go s = (go s)\<lparr>tm_at := v, tm_task := task, tm_traversing := False\<rparr>"
      "task = None \<or> task = Some v" by blast
  then show ?thesis using assms(2,7) v by (simp add: tm_inv_def)
qed

lemma back_inv:
  assumes "iso_law toISO parse" "tm_inv toISO now s" "tm_back s \<noteq> []"
  shows "tm_inv toISO now (traverse toISO parse now q1 q2 go_back s)"
proof -
  obtain e es where e: "tm_back s = e # es" using assms(3) by (cases "tm_back s") auto
  show ?thesis
    by (rule traverse_inv [OF assms(1,2)])
      (use e assms(2) inv_entry [OF assms(2)] in \<open>simp_all add: popstate_module_def tm_inv_def\<close>)
qed

lemma forward_inv:
  assumes "iso_law toISO parse" "tm_inv toISO now s" "tm_forward s \<noteq> []"
  shows "tm_inv toISO now (traverse toISO parse now q1 q2 go_forward s)"
proof -
  obtain e es where e: "tm_forward s = e # es" using assms(3) by (cases "tm_forward s") auto
  show ?thesis
    by (rule traverse_inv [OF assms(1,2)])
      (use e assms(2) inv_entry [OF assms(2)] in \<open>simp_all add: popstate_module_def tm_inv_def\<close>)
qed

lemma mount_inv:
  assumes "iso_law toISO parse" "YEAR_0 \<le> now" "now < YEAR_10000"
    and "\<And>raw. map_of (pu_params (he_url e)) AT_PARAM = Some raw \<Longrightarrow> in_years (new_date (parse raw))"
  shows "tm_inv toISO now (tm_mount toISO parse (jint now) e)"
proof -
  let ?v = "readAtFromLocation parse (jint now) (he_url e)"
  have ok: "instant_ok now ?v"
    using normalize_in_years [OF assms(2,3)] assms(4) by (auto simp: readAtFromLocation_def split: option.split)
  show ?thesis
    using sync_states [OF assms(1) ok assms(3)] ok assms(2,3) by (simp add: tm_mount_def Let_def tm_inv_def)
qed

lemma clock_inv:
  assumes "tm_inv toISO now s" "now \<le> now'" "now' < YEAR_10000"
  shows "tm_inv toISO now' s"
proof -
  have "entry_ok toISO now' e" if "entry_ok toISO now e" for e
    using that instant_ok_mono [OF _ assms(2)] unfolding entry_ok_def by blast
  with assms instant_ok_mono [OF _ assms(2)] show ?thesis by (auto simp: tm_inv_def)
qed

lemma session_inv:
  assumes "iso_law toISO parse"
  shows "session toISO parse now s \<Longrightarrow> tm_inv toISO now s"
proof (induction rule: session.induct)
  case (mount now e)
  then show ?case by (intro mount_inv [OF assms]) auto
next
  case (clock now s now')
  then show ?case by (blast intro: clock_inv)
next
  case (engage now s d)
  then show ?case by (blast intro: engage_inv [OF assms])
next
  case (return_live now s)
  then show ?case by (blast intro: return_inv [OF assms])
next
  case (navigate now s url st)
  then show ?case by (blast intro: navigate_inv [OF assms])
next
  case (quiet now s q)
  then show ?case by (blast intro: quiet_inv)
next
  case (walk_back now s q1 q2)
  then show ?case by (blast intro: back_inv [OF assms])
next
  case (walk_forward now s q1 q2)
  then show ?case by (blast intro: forward_inv [OF assms])
qed

lemma quiet_keeps:
  assumes "tm_inv toISO now s"
  shows "tm_inv toISO now (fold (quiet toISO) qs s) \<and> (\<exists>task. fold (quiet toISO) qs s = s\<lparr>tm_task := task\<rparr>)"
  using assms
proof (induction qs arbitrary: s)
  case Nil
  have "s = s\<lparr>tm_task := tm_task s\<rparr>" by simp
  with Nil show ?case by (metis fold_simps(1))
next
  case (Cons q qs)
  have sy: "syncAtParam toISO (tm_at s) (s\<lparr>tm_task := None\<rparr>) = s\<lparr>tm_task := None\<rparr>"
    using Cons.prems by (intro sync_stated) (simp add: tm_inv_def)
  have "\<exists>task. quiet toISO q s = s\<lparr>tm_task := task\<rparr>"
  proof (cases q)
    case Sync_task
    show ?thesis
    proof (cases "tm_task s")
      case None
      with Sync_task have "quiet toISO q s = s\<lparr>tm_task := tm_task s\<rparr>" by (simp add: AtParamSync_task_def)
      then show ?thesis by blast
    qed (use Sync_task Cons.prems sy in \<open>auto simp: AtParamSync_task_def tm_inv_def\<close>)
  qed (auto simp: AtParamSync_effect_def)
  with Cons.IH [OF quiet_inv [OF Cons.prems, of q]] show ?case by auto
qed

lemma setAt_frame [simp]: "tm_back (setAt toISO v s) = tm_back s" "tm_at (setAt toISO v s) = v"
  by (auto simp: setAt_def)

lemma normalize_some:
  assumes "in_years d" "d \<noteq> NaN"
  obtains v where "normalize_at now d = Some v"
  using assms(2) by (cases "now < d") (auto simp: normalize_at_def is_nan_def)

subsection \<open>Properties\<close>

text \<open>
  C4. Whatever a session does (engage an instant, return to Live,
  navigate, walk Back and Forward, with AtParamSync's effect and microtask anywhere in between),
  the address states exactly the instant on screen: \<open>?at=\<close> is its RFC 3339 spelling, absent while
  Live, and reading the address again at any later time gives that instant. It is a whole second
  and never in the future.
\<close>

theorem session_url_states_instant:
  assumes "iso_law toISO parse" "session toISO parse now s" "now \<le> now'" "now' < YEAR_10000"
  shows "readAtFromLocation parse (jint now') (he_url (tm_entry s)) = tm_at s \<and>
    map_of (pu_params (he_url (tm_entry s))) AT_PARAM = map_option (formatAtParam toISO) (tm_at s) \<and>
    (\<forall>x. tm_at s = Some x \<longrightarrow> (\<exists>k. x = jint (1000 * k) \<and> 1000 * k \<le> now))"
proof -
  note inv = session_inv [OF assms(1,2)]
  have st: "states_at toISO (he_url (tm_entry s)) (tm_at s)" and ok: "instant_ok now (tm_at s)"
    using inv by (simp_all add: tm_inv_def)
  have "readAtFromLocation parse (jint now') (he_url (tm_entry s)) = tm_at s"
    by (rule read_stated [OF assms(1) st instant_ok_mono [OF ok assms(3)] assms(4)])
  moreover have "\<forall>x. tm_at s = Some x \<longrightarrow> (\<exists>k. x = jint (1000 * k) \<and> 1000 * k \<le> now)"
    using ok unfolding instant_ok_def by blast
  ultimately show ?thesis using st unfolding states_at_def by blast
qed

text \<open>
  C5. Engaging an instant pushes one entry, and one Back from it restores
  the console to what it was, the instant (or Live), the address and the entries behind it,
  whatever AtParamSync runs before and while the traversal is delivered.
\<close>

theorem engage_undone_by_back:
  assumes "iso_law toISO parse" "session toISO parse now s" "in_years d" "d \<noteq> NaN"
    and "now \<le> now'" "now' < YEAR_10000"
    and "s1 = fold (quiet toISO) q (engage toISO (jint now) d s)"
    and "s2 = traverse toISO parse now' q1 q2 go_back s1"
  shows "tm_at s1 \<noteq> None \<and> tm_back s1 = tm_entry s # tm_back s \<and>
    tm_at s2 = tm_at s \<and> tm_entry s2 = tm_entry s \<and> tm_back s2 = tm_back s"
proof -
  note inv = session_inv [OF assms(1,2)]
  obtain v where v: "normalize_at (jint now) d = Some v" using normalize_some [OF assms(3,4)] .
  have e: "tm_at (engage toISO (jint now) d s) = Some v" "tm_back (engage toISO (jint now) d s) = tm_entry s # tm_back s"
    by (simp_all add: engage_def v)
  note kept = quiet_keeps [OF engage_inv [OF assms(1) inv assms(3)], of q]
  have s1: "tm_at s1 = Some v" "tm_back s1 = tm_entry s # tm_back s" using kept e unfolding assms(7) by auto
  have inv1: "tm_inv toISO now' s1" using kept clock_inv [OF _ assms(5,6)] unfolding assms(7) by blast
  have go: "tm_traversing (go_back s1)" "tm_at (go_back s1) = tm_at s1" "tm_task (go_back s1) = None \<or> tm_task (go_back s1) = Some (tm_at s1)"
    and prev: "tm_entry (go_back s1) = tm_entry s" "tm_back (go_back s1) = tm_back s"
    using s1(2) inv1 by (auto simp: popstate_module_def tm_inv_def)
  have "states_at toISO (he_url (tm_entry (go_back s1))) (tm_at s)" "instant_ok now' (tm_at s)"
    using inv prev(1) instant_ok_mono [OF _ assms(5)] by (auto simp: tm_inv_def)
  from traverse_stated [where go = go_back and s = s1, OF assms(1,6) go this, of q1 q2] obtain task
    where "s2 = (go_back s1)\<lparr>tm_at := tm_at s, tm_task := task, tm_traversing := False\<rparr>"
    unfolding assms(8) by blast
  then show ?thesis using s1 prev by simp
qed

subsection \<open>A concrete session\<close>

definition demo_iso :: "date \<Rightarrow> jstring" where
  "demo_iso d = (let n = \<lfloor>fin_val d\<rfloor> in js ''2000-01-01T00:00:00.'' @ dec (nat \<bar>n\<bar>) @ (if n < 0 then js ''+00:00'' else js ''z''))"

definition demo_date :: "jstring \<Rightarrow> date" where
  "demo_date s = (let n = int (digits_value (takeWhile is_digit (drop 20 s))) in jint (if last s = 122 then n else - n))"

lemma demo_iso_law: "iso_law demo_iso demo_date"
  unfolding iso_law_def
proof (intro allI impI)
  fix k :: int
  let ?n = "1000 * k"
  let ?z = "if ?n < 0 then js ''+00:00'' else js ''z''"
  let ?f = "dec (nat \<bar>?n\<bar>)"
  have s: "demo_iso (jint ?n) = js ''2000-01-01T00:00:00.'' @ ?f @ ?z"
    unfolding demo_iso_def Let_def fin_val.simps floor_of_int by (rule refl)
  have lz: "last (demo_iso (jint ?n)) \<noteq> 90" "last (demo_iso (jint ?n)) = 122 \<longleftrightarrow> \<not> ?n < 0"
    unfolding s by (simp_all add: js_Cons)
  have long: "20 \<le> length (demo_iso (jint ?n))" unfolding s by (simp add: js_Cons)
  let ?y = "drop (length (demo_iso (jint ?n)) - 5) (demo_iso (jint ?n))"
  have "length ?y = 5" using long by simp
  then have "?y ! 4 = last ?y" using last_conv_nth [of ?y] by force
  moreover have "last ?y = last (demo_iso (jint ?n))" using long by (intro last_drop) simp
  ultimately have strip: "strip_millis (demo_iso (jint ?n)) = demo_iso (jint ?n)"
    using lz(1) unfolding strip_millis_def Let_def by simp
  have digits: "\<forall>c \<in> set ?f. is_digit c" using dec_digits by blast
  have zone: "takeWhile is_digit (?f @ ?z) = ?f" "dropWhile is_digit (?f @ ?z) = ?z" "rfc_zone ?z"
    using digits by (simp_all add: takeWhile_append dropWhile_append js_Cons is_digit_def rfc_zone_def digits_at_def)
  have "RFC3339 (demo_iso (jint ?n))"
    unfolding s RFC3339_def rfc_fraction_def
    using zone dec_nonempty [of "nat \<bar>?n\<bar>"] by (simp add: js_Cons digits_at_def is_digit_def)
  moreover have "drop 20 (demo_iso (jint ?n)) = ?f @ ?z" unfolding s by (simp add: js_Cons)
  then have "demo_date (demo_iso (jint ?n)) = jint (if \<not> ?n < 0 then int (nat \<bar>?n\<bar>) else - int (nat \<bar>?n\<bar>))"
    unfolding demo_date_def Let_def lz(2) by (simp only: zone(1) digits_value_dec)
  then have "demo_date (demo_iso (jint ?n)) = jint ?n" by (cases "?n < 0") simp_all
  ultimately show "let s = strip_millis (demo_iso (jint ?n)) in RFC3339 s \<and> demo_date s = jint ?n"
    unfolding strip Let_def by blast
qed

definition demo_live :: time_machine where
  "demo_live = tm_mount demo_iso demo_date (jint 5000)
     \<lparr>he_url = \<lparr>pu_path = js ''/matrix'', pu_params = [(js ''proto'', js ''udp'')], pu_hash = []\<rparr>,
      he_state = JObj [(TSR_INDEX, JNum (jint 0))]\<rparr>"

lemma demo_live_session: "session demo_iso demo_date 5000 demo_live"
  unfolding demo_live_def
  by (rule session.mount) (simp_all add: YEAR_0_def YEAR_10000_def AT_PARAM_def js_Cons)

lemma demo_in_years: "in_years (jint 2500)"
  unfolding in_years_def YEAR_0_def by (intro disjI2 exI [of _ 2500]) simp

theorem session_url_states_instant_witness:
  "readAtFromLocation demo_date (jint 9000) (he_url (tm_entry (engage demo_iso (jint 5000) (jint 2500) demo_live))) =
     tm_at (engage demo_iso (jint 5000) (jint 2500) demo_live)"
  using session_url_states_instant [OF demo_iso_law session.engage [OF demo_live_session demo_in_years], of 9000]
  by (simp add: YEAR_10000_def)

theorem engage_undone_by_back_witness:
  "tm_at (traverse demo_iso demo_date 9000 [Href_effect, Sync_task] [Sync_task] go_back
     (fold (quiet demo_iso) [Sync_task] (engage demo_iso (jint 5000) (jint 2500) demo_live))) = tm_at demo_live"
  using engage_undone_by_back [OF demo_iso_law demo_live_session demo_in_years _ _ _ refl refl, of 9000 "[Sync_task]" "[Href_effect, Sync_task]" "[Sync_task]"]
  by (simp add: YEAR_10000_def del: fold_simps)

end
