(* ===== verification/Api_Client.thy ===== *)
theory Api_Client
  imports Time_Machine
begin

section \<open>The HTTP client (lib/api.ts)\<close>

text \<open>
  Every request of the console goes through \<open>apiFetch\<close>, which attaches the CSRF token and sends a
  signed-out browser to the login page, and every answer through \<open>handle\<close> or \<open>handleVoid\<close>, which
  turn it into a value or an \<open>ApiError\<close>. The endpoints are datatypes, one constructor each, with the
  request they send and the rule that reads the answer. A promise that rejects is the left of a sum.

  Arguments stand for what is outside: \<open>server\<close> answers a request (\<open>None\<close>: the network failed),
  \<open>encode\<close> and \<open>decode\<close> are \<open>encodeURIComponent\<close> and \<open>decodeURIComponent\<close> (\<open>None\<close>: it throws),
  \<open>qs_string\<close> prints a query, \<open>toISO\<close> is \<open>toISOString\<close>, \<open>num\<close> and \<open>num_str\<close> convert numbers. The
  body of an answer is its parsed JSON, \<open>None\<close> when it does not parse. The seams for tests
  (\<open>setNavigateForTest\<close> and \<open>resetNavigateForTest\<close>) are not modelled.

  Following a cursor is shown to collect a listing whole or to say it was cut, the incident scan to
  be the filtered prefix of that collection, the token to travel with exactly the mutating
  requests, and an answer to become an \<open>ApiError\<close> on every failure but one.
\<close>

subsection \<open>Errors\<close>

datatype api_error = Api_Error jsval | Type_Error | Range_Error | Uri_Error | Network_Error

text \<open>\<open>new ApiError(problem)\<close> reads \<open>problem.detail\<close>, which throws on null.\<close>

definition new_ApiError :: "jsval \<Rightarrow> api_error" where
  "new_ApiError problem = (if problem = JNull \<or> problem = JUndef then Type_Error else Api_Error problem)"

definition isSettledClientError :: "(jstring \<Rightarrow> jsnum) \<Rightarrow> (jsnum \<Rightarrow> jstring) \<Rightarrow> api_error \<Rightarrow> bool" where
  "isSettledClientError num num_str err =
     (case err of
        Api_Error problem \<Rightarrow>
          (let s = jfield problem (js ''status''); n = to_number num num_str s
           in s \<noteq> JUndef \<and> Fin 400 \<le> n \<and> n < Fin 500 \<and> s \<noteq> JNum (Fin 429))
      | _ \<Rightarrow> False)"

definition isAuthUnavailable :: "api_error \<Rightarrow> bool" where
  "isAuthUnavailable err =
     (case err of
        Api_Error problem \<Rightarrow> jfield problem (js ''status'') = JNum (Fin 503) \<and>
          jfield problem (js ''title'') = JStr (js ''authentication unavailable'')
      | _ \<Rightarrow> False)"

definition retryUnlessClientError :: "(jstring \<Rightarrow> jsnum) \<Rightarrow> (jsnum \<Rightarrow> jstring) \<Rightarrow> jsnum \<Rightarrow> api_error \<Rightarrow> bool" where
  "retryUnlessClientError num num_str failureCount err \<longleftrightarrow> \<not> isSettledClientError num num_str err \<and> failureCount < Fin 1"

definition PROBLEM_TYPE_UNREADABLE :: jstring where
  "PROBLEM_TYPE_UNREADABLE = js ''urn:kconmon-ng:client:unreadable-body''"

definition UNREADABLE_BODY :: jstring where
  "UNREADABLE_BODY = js ''the server'' @ [39] @ js ''s answer could not be read''"

definition unreadable :: "nat \<Rightarrow> jsval" where
  "unreadable status = JObj [(js ''type'', JStr PROBLEM_TYPE_UNREADABLE), (js ''title'', JStr UNREADABLE_BODY), (js ''status'', JNum (jnat status))]"

definition isServerSentence :: "api_error \<Rightarrow> bool" where
  "isServerSentence err = (case err of Api_Error problem \<Rightarrow> jfield problem (js ''type'') \<noteq> JStr PROBLEM_TYPE_UNREADABLE | _ \<Rightarrow> False)"

definition isWrongCurrentPassword :: "api_error \<Rightarrow> bool" where
  "isWrongCurrentPassword err =
     (case err of
        Api_Error problem \<Rightarrow> jfield problem (js ''status'') = JNum (Fin 401) \<and> jfield problem (js ''title'') = JStr (js ''invalid credentials'')
      | _ \<Rightarrow> False)"

text \<open>\<open>s?.trim() ?? ""\<close>: a value that is neither a string nor absent has no \<open>trim\<close>.\<close>

definition trimmed_word :: "jsval \<Rightarrow> api_error + jstring" where
  "trimmed_word v = (case v of JStr s \<Rightarrow> Inr (trim s) | JUndef \<Rightarrow> Inr [] | JNull \<Rightarrow> Inr [] | _ \<Rightarrow> Inl Type_Error)"

definition queryErrorMessage :: "api_error \<Rightarrow> jstring \<Rightarrow> api_error + jstring" where
  "queryErrorMessage err fallback =
     (case err of
        Api_Error problem \<Rightarrow>
          (case (trimmed_word (jfield problem (js ''detail'')), trimmed_word (jfield problem (js ''title''))) of
             (Inr d, Inr t) \<Rightarrow> Inr (if d \<noteq> [] then d else if t \<noteq> [] then t else fallback)
           | _ \<Rightarrow> Inl Type_Error)
      | _ \<Rightarrow> Inr fallback)"

subsection \<open>Requests and the browser\<close>

record request =
  rq_input :: jstring
  rq_method :: jstring
  rq_body :: "jsval option"

record sent_request = request +
  rq_headers :: "(jstring \<times> jstring) list"

record response =
  resp_status :: nat
  resp_statusText :: jstring
  resp_contentType :: "jstring option"
  resp_json :: "jsval option"

record browser =
  br_pathname :: jstring
  br_search :: jstring
  br_cookie :: jstring
  br_visits :: "jstring list"

definition resp_ok :: "response \<Rightarrow> bool" where
  "resp_ok r \<longleftrightarrow> 200 \<le> resp_status r \<and> resp_status r \<le> 299"

definition LOGIN_PATH :: jstring where
  "LOGIN_PATH = js ''/login''"

definition CSRF_COOKIE_NAME :: jstring where
  "CSRF_COOKIE_NAME = js ''csrf''"

definition CSRF_HEADER_NAME :: jstring where
  "CSRF_HEADER_NAME = js ''X-CSRF-Token''"

definition MUTATING_METHODS :: "jstring list" where
  "MUTATING_METHODS = [js ''POST'', js ''PUT'', js ''PATCH'', js ''DELETE'']"

definition NO_REDIRECT_ON_401 :: "jstring list" where
  "NO_REDIRECT_ON_401 = [js ''/api/v1/auth/login'', js ''/api/v1/auth/password'']"

text \<open>\<open>document.cookie.split("; ")\<close>.\<close>

fun cookie_parts :: "jstring \<Rightarrow> jstring list" where
  "cookie_parts [] = [[]]"
| "cookie_parts [c] = [[c]]"
| "cookie_parts (c # d # s) =
     (if c = 59 \<and> d = 32 then [] # cookie_parts s
      else case cookie_parts (d # s) of w # ws \<Rightarrow> (c # w) # ws | [] \<Rightarrow> [[c]])"

fun find_cookie :: "(jstring \<Rightarrow> jstring option) \<Rightarrow> jstring \<Rightarrow> jstring list \<Rightarrow> api_error + jstring option" where
  "find_cookie decode name [] = Inr None"
| "find_cookie decode name (part # rest) =
     (case index_of part [61] of
        None \<Rightarrow> find_cookie decode name rest
      | Some eq \<Rightarrow>
          (case decode (take eq part) of
             None \<Rightarrow> Inl Uri_Error
           | Some n \<Rightarrow>
               if n = name then (case decode (drop (eq + 1) part) of None \<Rightarrow> Inl Uri_Error | Some v \<Rightarrow> Inr (Some v))
               else find_cookie decode name rest))"

definition readCookie :: "(jstring \<Rightarrow> jstring option) \<Rightarrow> browser \<Rightarrow> jstring \<Rightarrow> api_error + jstring option" where
  "readCookie decode br name = find_cookie decode name (cookie_parts (br_cookie br))"

definition goTo :: "jstring \<Rightarrow> browser \<Rightarrow> browser" where
  "goTo path br = br\<lparr>br_visits := br_visits br @ [path]\<rparr>"

definition redirectToLogin :: "(jstring \<Rightarrow> jstring) \<Rightarrow> browser \<Rightarrow> browser" where
  "redirectToLogin encode br =
     (if br_pathname br = LOGIN_PATH then br
      else let target = br_pathname br @ br_search br
           in if target = js ''/'' then goTo LOGIN_PATH br
              else goTo (LOGIN_PATH @ js ''?returnTo='' @ encode target) br)"

definition upper_ascii :: "jchar \<Rightarrow> jchar" where
  "upper_ascii c = (if 97 \<le> c \<and> c \<le> 122 then c - 32 else c)"

text \<open>What \<open>apiFetch\<close> hands to \<open>fetch\<close>.\<close>

definition prepare :: "(jstring \<Rightarrow> jstring option) \<Rightarrow> browser \<Rightarrow> request \<Rightarrow> api_error + sent_request" where
  "prepare decode br req =
     (let content = (if rq_body req \<noteq> None then [(js ''Content-Type'', js ''application/json'')] else [])
      in case (if map upper_ascii (rq_method req) \<in> set MUTATING_METHODS then readCookie decode br CSRF_COOKIE_NAME else Inr None) of
           Inl e \<Rightarrow> Inl e
         | Inr csrf \<Rightarrow>
             Inr (request.extend req \<lparr>rq_headers =
               content @ (case csrf of Some c \<Rightarrow> if c \<noteq> [] then [(CSRF_HEADER_NAME, c)] else [] | None \<Rightarrow> [])\<rparr>))"

definition apiFetch :: "(jstring \<Rightarrow> jstring option) \<Rightarrow> (jstring \<Rightarrow> jstring) \<Rightarrow> (sent_request \<Rightarrow> response option) \<Rightarrow> request \<Rightarrow> browser \<Rightarrow>
    (api_error + response) \<times> browser" where
  "apiFetch decode encode server req br =
     (case prepare decode br req of
        Inl e \<Rightarrow> (Inl e, br)
      | Inr sent \<Rightarrow>
          (case server sent of
             None \<Rightarrow> (Inl Network_Error, br)
           | Some resp \<Rightarrow>
               (Inr resp, if resp_status resp = 401 \<and> rq_input req \<notin> set NO_REDIRECT_ON_401 then redirectToLogin encode br else br)))"

subsection \<open>Answers\<close>

text \<open>What is thrown when no sentence of the server could be read.\<close>

definition status_error :: "response \<Rightarrow> api_error" where
  "status_error resp =
     (if resp_statusText resp = [] then new_ApiError (unreadable (resp_status resp))
      else new_ApiError (JObj [(js ''type'', JStr (js ''about:blank'')), (js ''title'', JStr (resp_statusText resp)),
             (js ''status'', JNum (jnat (resp_status resp)))]))"

definition has_word :: "jstring \<Rightarrow> response \<Rightarrow> bool" where
  "has_word w resp \<longleftrightarrow> index_of (case resp_contentType resp of Some ct \<Rightarrow> ct | None \<Rightarrow> []) w \<noteq> None"

definition handle :: "response \<Rightarrow> api_error + jsval" where
  "handle resp =
     (if resp_ok resp
      then (case resp_json resp of None \<Rightarrow> Inl (new_ApiError (unreadable (resp_status resp))) | Some body \<Rightarrow> Inr body)
      else if has_word (js ''problem+json'') resp
      then (case resp_json resp of Some problem \<Rightarrow> Inl (new_ApiError problem) | None \<Rightarrow> Inl (status_error resp))
      else if has_word (js ''json'') resp
      then (case resp_json resp of
              Some body \<Rightarrow> if jfield body (js ''status'') = JStr (js ''error'') then Inr body else Inl (status_error resp)
            | None \<Rightarrow> Inl (status_error resp))
      else Inl (status_error resp))"

definition handleVoid :: "response \<Rightarrow> api_error + jsval" where
  "handleVoid resp =
     (if resp_ok resp then Inr JUndef
      else if has_word (js ''problem+json'') resp
      then (case resp_json resp of Some problem \<Rightarrow> Inl (new_ApiError problem) | None \<Rightarrow> Inl (status_error resp))
      else Inl (status_error resp))"

subsection \<open>Listings to the end\<close>

definition MAX_COLLECT_PAGES :: nat where
  "MAX_COLLECT_PAGES = 50"

text \<open>The loop of \<open>collectPages\<close> with \<open>n\<close> turns left; a page is its rows and its next cursor.\<close>

fun collect_pages :: "nat \<Rightarrow> (jstring option \<Rightarrow> 'e + 'p) \<Rightarrow> ('p \<Rightarrow> 'r list option) \<Rightarrow> ('p \<Rightarrow> jstring option) \<Rightarrow> 'r list \<Rightarrow> jstring option \<Rightarrow>
    'e + 'r list \<times> bool" where
  "collect_pages 0 fetchPage rowsOf cursorOf items cursor = Inr (items, True)"
| "collect_pages (Suc n) fetchPage rowsOf cursorOf items cursor =
     (case fetchPage cursor of
        Inl e \<Rightarrow> Inl e
      | Inr page \<Rightarrow>
          (let items' = items @ (case rowsOf page of Some rs \<Rightarrow> rs | None \<Rightarrow> [])
           in case cursorOf page of
                Some c \<Rightarrow> if c = [] then Inr (items', False) else collect_pages n fetchPage rowsOf cursorOf items' (Some c)
              | None \<Rightarrow> Inr (items', False)))"

definition collectPages :: "(jstring option \<Rightarrow> 'e + 'p) \<Rightarrow> ('p \<Rightarrow> 'r list option) \<Rightarrow> ('p \<Rightarrow> jstring option) \<Rightarrow> 'e + 'r list \<times> bool" where
  "collectPages fetchPage rowsOf cursorOf = collect_pages MAX_COLLECT_PAGES fetchPage rowsOf cursorOf [] None"

text \<open>The inner loop of \<open>scanIncidents\<close>: the rows kept, and whether \<open>want\<close> was reached.\<close>

fun scan_rows :: "('r \<Rightarrow> bool) \<Rightarrow> nat \<Rightarrow> 'r list \<Rightarrow> 'r list \<Rightarrow> 'r list \<times> bool" where
  "scan_rows keep want found [] = (found, False)"
| "scan_rows keep want found (r # rs) =
     (if \<not> keep r then scan_rows keep want found rs
      else if want \<le> length (found @ [r]) then (found @ [r], True)
      else scan_rows keep want (found @ [r]) rs)"

fun scan_pages :: "nat \<Rightarrow> (jstring option \<Rightarrow> 'e + 'r list \<times> jstring) \<Rightarrow> ('r \<Rightarrow> bool) \<Rightarrow> nat \<Rightarrow> 'r list \<Rightarrow> jstring option \<Rightarrow> 'e + 'r list \<times> bool" where
  "scan_pages 0 fetchPage keep want found cursor = Inr (found, True)"
| "scan_pages (Suc n) fetchPage keep want found cursor =
     (case fetchPage cursor of
        Inl e \<Rightarrow> Inl e
      | Inr (rows, nextCursor) \<Rightarrow>
          (case scan_rows keep want found rows of
             (found', True) \<Rightarrow> Inr (found', False)
           | (found', False) \<Rightarrow>
               if nextCursor = [] then Inr (found', False) else scan_pages n fetchPage keep want found' (Some nextCursor)))"

definition scanIncidents :: "(jstring option \<Rightarrow> 'e + 'r list \<times> jstring) \<Rightarrow> ('r \<Rightarrow> bool) \<Rightarrow> nat \<Rightarrow> 'e + 'r list \<times> bool" where
  "scanIncidents fetchPage keep want = scan_pages MAX_COLLECT_PAGES fetchPage keep want [] None"


subsection \<open>The pages a walk visits\<close>

text \<open>The first \<open>n\<close> pages of a listing that does not fail, each asked for with the last one's cursor.\<close>

fun page_walk :: "nat \<Rightarrow> (jstring option \<Rightarrow> 'e + 'p) \<Rightarrow> ('p \<Rightarrow> jstring option) \<Rightarrow> jstring option \<Rightarrow> 'e + 'p list \<times> bool" where
  "page_walk 0 fetchPage cursorOf cursor = Inr ([], True)"
| "page_walk (Suc n) fetchPage cursorOf cursor =
     (case fetchPage cursor of
        Inl e \<Rightarrow> Inl e
      | Inr page \<Rightarrow>
          (case cursorOf page of
             Some c \<Rightarrow>
               if c = [] then Inr ([page], False)
               else (case page_walk n fetchPage cursorOf (Some c) of Inl e \<Rightarrow> Inl e | Inr (ps, trunc) \<Rightarrow> Inr (page # ps, trunc))
           | None \<Rightarrow> Inr ([page], False)))"

definition page_rows :: "('p \<Rightarrow> 'r list option) \<Rightarrow> 'p \<Rightarrow> 'r list" where
  "page_rows rowsOf page = (case rowsOf page of Some rs \<Rightarrow> rs | None \<Rightarrow> [])"

lemma collect_pages_walk:
  "collect_pages n fetchPage rowsOf cursorOf items cursor =
    map_sum id (\<lambda>(ps, trunc). (items @ concat (map (page_rows rowsOf) ps), trunc)) (page_walk n fetchPage cursorOf cursor)"
proof (induction n arbitrary: items cursor)
  case (Suc n)
  show ?case
  proof (cases "fetchPage cursor")
    case (Inr page)
    then show ?thesis
      by (cases "cursorOf page") (auto simp: Suc.IH page_rows_def split: sum.split)
  qed simp
qed simp

text \<open>A complete listing: pages linked by non-empty cursors, the last one without.\<close>

fun linked :: "(jstring option \<Rightarrow> 'e + 'p) \<Rightarrow> ('p \<Rightarrow> jstring option) \<Rightarrow> jstring option \<Rightarrow> 'p list \<Rightarrow> bool" where
  "linked fetchPage cursorOf cursor [] = False"
| "linked fetchPage cursorOf cursor (p # ps) \<longleftrightarrow> fetchPage cursor = Inr p \<and>
     (if ps = [] then cursorOf p = None \<or> cursorOf p = Some []
      else \<exists>c. c \<noteq> [] \<and> cursorOf p = Some c \<and> linked fetchPage cursorOf (Some c) ps)"

lemma page_walk_linked:
  "linked fetchPage cursorOf cursor ps \<Longrightarrow> length ps \<le> n \<Longrightarrow> page_walk n fetchPage cursorOf cursor = Inr (ps, False)"
proof (induction ps arbitrary: cursor n)
  case (Cons p ps)
  then obtain m where n: "n = Suc m" by (cases n) auto
  show ?case
  proof (cases "ps = []")
    case True
    with Cons.prems n show ?thesis by (auto split: option.split)
  next
    case False
    with Cons.prems(1) obtain c where c: "fetchPage cursor = Inr p" "c \<noteq> []" "cursorOf p = Some c" "linked fetchPage cursorOf (Some c) ps" by auto
    from Cons.IH [OF c(4), of m] Cons.prems(2) n have "page_walk m fetchPage cursorOf (Some c) = Inr (ps, False)" by simp
    with c n show ?thesis by simp
  qed
qed simp

lemma page_walk_complete:
  "page_walk n fetchPage cursorOf cursor = Inr (ps, False) \<Longrightarrow> linked fetchPage cursorOf cursor ps \<and> length ps \<le> n"
proof (induction n arbitrary: cursor ps)
  case (Suc n)
  from Suc.prems obtain p where p: "fetchPage cursor = Inr p" by (cases "fetchPage cursor") auto
  show ?case
  proof (cases "cursorOf p = None \<or> cursorOf p = Some []")
    case True
    with Suc.prems p have "ps = [p]" by auto
    with True p show ?thesis by auto
  next
    case False
    then obtain c where c: "cursorOf p = Some c" "c \<noteq> []" by auto
    with Suc.prems p obtain ps' where ps': "page_walk n fetchPage cursorOf (Some c) = Inr (ps', False)" "ps = p # ps'"
      by (auto split: sum.splits)
    from Suc.IH [OF ps'(1)] have "linked fetchPage cursorOf (Some c) ps'" "length ps' \<le> n" by auto
    moreover from this(1) have "ps' \<noteq> []" by (cases ps') auto
    ultimately show ?thesis using ps'(2) p c by auto
  qed
qed simp

lemma page_walk_cut: "page_walk n fetchPage cursorOf cursor = Inr (ps, True) \<Longrightarrow> length ps = n"
proof (induction n arbitrary: cursor ps)
  case (Suc n)
  then show ?case by (auto split: sum.splits option.splits if_splits)
qed simp

subsection \<open>The scan\<close>

lemma scan_rows_filter:
  assumes "length found < want"
  shows "scan_rows keep want found rows =
    (take want (found @ filter keep rows), want \<le> length (found @ filter keep rows))"
  using assms
proof (induction rows arbitrary: found)
  case (Cons r rs)
  show ?case
  proof (cases "keep r")
    case True
    show ?thesis
    proof (cases "want \<le> length (found @ [r])")
      case full: True
      then have "want = length (found @ [r])" using Cons.prems by simp
      with True show ?thesis by simp
    next
      case False
      with True Cons.IH [of "found @ [r]"] show ?thesis by simp
    qed
  next
    case False
    with Cons show ?thesis by simp
  qed
qed simp

lemma scan_pages_walk:
  assumes "page_walk n fetchPage (\<lambda>p. Some (snd p)) cursor = Inr (ps, trunc)" "length found < want"
  shows "scan_pages n fetchPage keep want found cursor =
    (let all = found @ filter keep (concat (map fst ps)) in Inr (take want all, trunc \<and> length all < want))"
  using assms
proof (induction n arbitrary: cursor ps found)
  case (Suc n)
  from Suc.prems(1) obtain rows c where page: "fetchPage cursor = Inr (rows, c)"
    by (cases "fetchPage cursor") auto
  note scan = scan_rows_filter [OF Suc.prems(2), of keep rows]
  let ?found = "found @ filter keep rows"
  show ?case
  proof (cases "c = []")
    case True
    with Suc.prems(1) page have "ps = [(rows, c)]" "trunc = False" by auto
    then show ?thesis using page scan True by (simp add: Let_def split: bool.split)
  next
    case False
    with Suc.prems(1) page obtain ps' where ps': "page_walk n fetchPage (\<lambda>p. Some (snd p)) (Some c) = Inr (ps', trunc)" "ps = (rows, c) # ps'"
      by (auto split: sum.splits)
    show ?thesis
    proof (cases "want \<le> length ?found")
      case True
      with page scan ps'(2) show ?thesis by (simp add: Let_def)
    next
      case short: False
      then have "take want ?found = ?found" by simp
      with Suc.IH [OF ps'(1), of ?found] short page scan False ps'(2) show ?thesis by (simp add: Let_def)
    qed
  qed
qed (simp add: Let_def)

subsection \<open>Properties\<close>

text \<open>
  C26: A collection is marked whole exactly when it is the rows of a complete
  listing, pages linked by cursors to one without, of at most fifty pages; a listing that goes on
  past them is marked cut, with the rows of the first fifty.
\<close>

theorem collectPages_whole:
  "(collectPages fetchPage rowsOf cursorOf = Inr (items, False) \<longleftrightarrow>
      (\<exists>ps. linked fetchPage cursorOf None ps \<and> length ps \<le> 50 \<and> items = concat (map (page_rows rowsOf) ps))) \<and>
   (collectPages fetchPage rowsOf cursorOf = Inr (items, True) \<longleftrightarrow>
      (\<exists>ps. page_walk 50 fetchPage cursorOf None = Inr (ps, True) \<and> length ps = 50 \<and> items = concat (map (page_rows rowsOf) ps)))"
proof -
  let ?walk = "page_walk 50 fetchPage cursorOf None"
  have c: "collectPages fetchPage rowsOf cursorOf = map_sum id (\<lambda>(ps, trunc). (concat (map (page_rows rowsOf) ps), trunc)) ?walk"
    by (simp add: collectPages_def MAX_COLLECT_PAGES_def collect_pages_walk)
  have iff: "collectPages fetchPage rowsOf cursorOf = Inr (items, trunc) \<longleftrightarrow>
      (\<exists>ps. ?walk = Inr (ps, trunc) \<and> items = concat (map (page_rows rowsOf) ps))" for trunc
    unfolding c by (cases ?walk) auto
  have whole: "?walk = Inr (ps, False) \<longleftrightarrow> linked fetchPage cursorOf None ps \<and> length ps \<le> 50" for ps
    using page_walk_complete page_walk_linked by blast
  have trunc: "?walk = Inr (ps, True) \<longleftrightarrow> ?walk = Inr (ps, True) \<and> length ps = 50" for ps using page_walk_cut by blast
  show ?thesis unfolding iff using whole trunc by blast
qed

text \<open>
  Where collecting the whole listing succeeds, the scan finds the first
  \<open>want\<close> of its rows that pass the test, in the server's order, and reports itself cut only if the
  collection was cut before \<open>want\<close> rows were found.
\<close>

lemma scanIncidents_is_filter:
  assumes "collectPages fetchPage (\<lambda>p. Some (fst p)) (\<lambda>p. Some (snd p)) = Inr (items, trunc)" "0 < want"
  shows "scanIncidents fetchPage keep want =
    Inr (take want (filter keep items), trunc \<and> length (filter keep items) < want)"
proof -
  have rows: "page_rows (\<lambda>p. Some (fst p)) = fst" by (rule ext) (simp add: page_rows_def)
  from assms(1) obtain ps where ps: "page_walk MAX_COLLECT_PAGES fetchPage (\<lambda>p. Some (snd p)) None = Inr (ps, trunc)" "items = concat (map fst ps)"
    unfolding collectPages_def collect_pages_walk rows
    by (cases "page_walk MAX_COLLECT_PAGES fetchPage (\<lambda>p. Some (snd p)) None") auto
  from scan_pages_walk [OF ps(1), of "[]" want keep] assms(2) ps(2) show ?thesis
    by (simp add: scanIncidents_def Let_def)
qed

definition demo_page :: "jstring option \<Rightarrow> unit + nat list \<times> jstring" where
  "demo_page cursor = (if cursor = None then Inr ([1, 2, 3], js ''x'') else Inr ([4, 5], []))"

text \<open>
  C6: A request that reaches the server carries the CSRF token of the cookie
  exactly when its method changes state. Its answer sends the browser to the login page, once,
  exactly when it is a 401 to a path other than the two that ask for a password, away from the
  login page itself; the visited address is \<open>/login\<close> with the place the reader was at, path and
  query, encoded as \<open>returnTo\<close>, or plain \<open>/login\<close> from the root.
\<close>

theorem apiFetch_token_and_login:
  assumes "readCookie decode br CSRF_COOKIE_NAME = Inr (Some token)" "token \<noteq> []"
    and "apiFetch decode encode server req br = (Inr resp, br')"
  shows "\<exists>sent. server sent = Some resp \<and> request.truncate sent = req \<and>
      (map_of (rq_headers sent) CSRF_HEADER_NAME =
        (if map upper_ascii (rq_method req) \<in> {js ''POST'', js ''PUT'', js ''PATCH'', js ''DELETE''} then Some token else None)) \<and>
      br_visits br' = br_visits br @
        (if resp_status resp = 401 \<and> rq_input req \<notin> {js ''/api/v1/auth/login'', js ''/api/v1/auth/password''} \<and>
            br_pathname br \<noteq> js ''/login''
         then [if br_pathname br @ br_search br = js ''/'' then js ''/login''
               else js ''/login?returnTo='' @ encode (br_pathname br @ br_search br)] else [])"
proof -
  obtain sent where sent: "prepare decode br req = Inr sent" "server sent = Some resp"
    using assms(3) by (auto simp: apiFetch_def split: sum.splits option.splits)
  have br': "br' = (if resp_status resp = 401 \<and> rq_input req \<notin> set NO_REDIRECT_ON_401 then redirectToLogin encode br else br)"
    using assms(3) sent by (simp add: apiFetch_def)
  have names: "CSRF_HEADER_NAME \<noteq> js ''Content-Type''" by (simp add: CSRF_HEADER_NAME_def js_Cons)
  have "map_of (rq_headers sent) CSRF_HEADER_NAME =
      (if map upper_ascii (rq_method req) \<in> set MUTATING_METHODS then Some token else None) \<and> request.truncate sent = req"
    using sent(1) assms(1,2) names
    by (cases "map upper_ascii (rq_method req) \<in> set MUTATING_METHODS"; cases "rq_body req")
      (auto simp: prepare_def Let_def request.defs)
  moreover have "br_visits (redirectToLogin encode br) = br_visits br @
      (if br_pathname br \<noteq> js ''/login''
       then [if br_pathname br @ br_search br = js ''/'' then js ''/login''
             else js ''/login?returnTo='' @ encode (br_pathname br @ br_search br)] else [])"
    by (simp add: redirectToLogin_def LOGIN_PATH_def goTo_def Let_def js_Cons)
  ultimately show ?thesis using sent(2) unfolding br' by (auto simp: MUTATING_METHODS_def NO_REDIRECT_ON_401_def)
qed

definition demo_browser :: browser where
  "demo_browser = \<lparr>br_pathname = js ''/runs'', br_search = [], br_cookie = js ''csrf=k'', br_visits = []\<rparr>"

definition demo_signed_out :: response where
  "demo_signed_out = \<lparr>resp_status = 401, resp_statusText = js ''Unauthorized'', resp_contentType = None, resp_json = None\<rparr>"

theorem apiFetch_token_and_login_witness:
  "br_visits (snd (apiFetch Some id (\<lambda>s. Some demo_signed_out) \<lparr>rq_input = js ''/api/v1/runs'', rq_method = js ''POST'', rq_body = None\<rparr> demo_browser)) =
     [js ''/login?returnTo=/runs'']"
proof -
  let ?req = "\<lparr>rq_input = js ''/api/v1/runs'', rq_method = js ''POST'', rq_body = None\<rparr>"
  have cookie: "readCookie Some demo_browser CSRF_COOKIE_NAME = Inr (Some (js ''k''))"
    by (simp add: readCookie_def demo_browser_def CSRF_COOKIE_NAME_def js_Cons starts_with_def)
  obtain br' where br': "apiFetch Some id (\<lambda>s. Some demo_signed_out) ?req demo_browser = (Inr demo_signed_out, br')"
    using cookie by (simp add: apiFetch_def prepare_def Let_def)
  have "js ''k'' \<noteq> []" by (simp add: js_Cons)
  from apiFetch_token_and_login [OF cookie this br'] show ?thesis
    unfolding br' by (auto simp: demo_browser_def demo_signed_out_def js_Cons)
qed

text \<open>
  C7: An answer that does not give a value is an \<open>ApiError\<close> that keeps its
  status, or the sentence the server sent; the one exception is a problem document that is the JSON
  null, for which building the error throws. A value comes only of a readable 2xx body or of
  Prometheus's own error envelope.
\<close>

theorem handle_fails_as_ApiError:
  "case handle resp of
     Inr body \<Rightarrow> resp_json resp = Some body \<and> (resp_ok resp \<or> jfield body (js ''status'') = JStr (js ''error''))
   | Inl (Api_Error problem) \<Rightarrow>
       (\<not> resp_ok resp \<or> resp_json resp = None) \<and>
       (resp_json resp = Some problem \<or> jfield problem (js ''status'') = JNum (jnat (resp_status resp)))
   | Inl Type_Error \<Rightarrow> \<not> resp_ok resp \<and> has_word (js ''problem+json'') resp \<and> resp_json resp \<in> {Some JNull, Some JUndef}
   | Inl _ \<Rightarrow> False"
proof -
  have u: "new_ApiError (unreadable n) = Api_Error (unreadable n)" "jfield (unreadable n) (js ''status'') = JNum (jnat n)" for n
    by (simp_all add: new_ApiError_def unreadable_def js_Cons)
  obtain problem where s: "status_error resp = Api_Error problem" "jfield problem (js ''status'') = JNum (jnat (resp_status resp))"
    using u by (cases "resp_statusText resp = []") (simp_all add: status_error_def new_ApiError_def js_Cons)
  show ?thesis
  proof (cases "resp_json resp")
    case None
    then show ?thesis using u s by (simp add: handle_def)
  next
    case (Some body)
    show ?thesis
    proof (cases "resp_ok resp")
      case True
      with Some show ?thesis by (simp add: handle_def)
    next
      case False
      with Some s show ?thesis by (auto simp: handle_def new_ApiError_def)
    qed
  qed
qed

theorem handle_fails_as_ApiError_witness:
  "\<exists>problem. handle demo_signed_out = Inl (Api_Error problem) \<and> jfield problem (js ''status'') = JNum (jnat 401)"
proof -
  obtain problem where h: "handle demo_signed_out = Inl (Api_Error problem)"
    by (simp add: handle_def resp_ok_def has_word_def status_error_def new_ApiError_def demo_signed_out_def js_Cons)
  from handle_fails_as_ApiError [of demo_signed_out] h show ?thesis by (simp add: demo_signed_out_def)
qed

end
