(* ===== verification/Run_Frames.thy ===== *)
theory Run_Frames
  imports Ws_Multiplex Run_Samples Api_Client
begin

section \<open>A run's live rows (hooks/use-run.ts)\<close>

text \<open>
  The run page merges the results the server has stored with the progress frames its socket
  delivered. The hook's React state is the record \<open>run_hook\<close>; every effect, callback and timer
  of the hook is a function on it, and \<open>run_event\<close> lists what can happen to it. A
  \<open>refetchQueries\<close> call is counted in \<open>rh_refetches\<close>. Frames are the JSON objects the envelope
  carries. \<open>num_str\<close> is \<open>String(x)\<close> of a non-integer.

  The table shown is proved equal to a direct specification over the frames in arrival
  order, and a settled probe to be followed by a refetch unless the subscription ends first.
\<close>

definition RUN_POLL_MS :: nat where
  "RUN_POLL_MS = 5000"

definition RUN_FRAME_REFETCH_MS :: nat where
  "RUN_FRAME_REFETCH_MS = 1000"

definition runTopic :: "jstring \<Rightarrow> jstring" where
  "runTopic runId = js ''run:'' @ runId"

definition RUN_TERMINAL_STATUSES :: "jstring list" where
  "RUN_TERMINAL_STATUSES = [js ''succeeded'', js ''failed'', js ''partial'', js ''cancelled'']"

definition isTerminalRunStatus :: "jstring option \<Rightarrow> bool" where
  "isTerminalRunStatus status = (case status of None \<Rightarrow> False | Some s \<Rightarrow> s \<in> set RUN_TERMINAL_STATUSES)"

datatype pmtu_verdict = v_ok | v_reduced | v_blackhole | v_unreachable

record PMTUReading =
  pm_verdict :: pmtu_verdict
  pm_probeMtu :: jsnum
  pm_pathMtu :: jsnum
  pm_steps :: jsnum
  pm_truncated :: bool

definition PMTU_VERDICTS :: "(jstring, pmtu_verdict) jmap" where
  "PMTU_VERDICTS = [(js ''ok'', v_ok), (js ''reduced'', v_reduced), (js ''blackhole'', v_blackhole),
     (js ''unreachable'', v_unreachable)]"

fun finite_or_zero :: "jsval \<Rightarrow> jsnum" where
  "finite_or_zero (JNum n) = (if is_finite n then n else Fin 0)"
| "finite_or_zero v = Fin 0"

definition pmtuReadingOf :: "jsval \<Rightarrow> PMTUReading option" where
  "pmtuReadingOf result =
     (if \<not> is_object result then None
      else if jfield result (js ''type'') \<noteq> JStr (js ''pmtu'') \<or> \<not> is_object (jfield result (js ''details'')) then None
      else let d = jfield result (js ''details'')
           in case jfield d (js ''verdict'') of
                JStr v \<Rightarrow>
                  (case map_of PMTU_VERDICTS v of
                     None \<Rightarrow> None
                   | Some verdict \<Rightarrow> Some \<lparr>pm_verdict = verdict,
                       pm_probeMtu = finite_or_zero (jfield d (js ''probeMtu'')),
                       pm_pathMtu = finite_or_zero (jfield d (js ''pathMtu'')),
                       pm_steps = finite_or_zero (jfield d (js ''steps'')),
                       pm_truncated = (jfield d (js ''truncated'') = JBool True)\<rparr>)
              | _ \<Rightarrow> None)"

record RunPairRow =
  rp_source :: jsval
  rp_destination :: jsval
  rp_state :: jsval
  rp_success :: jsval
  rp_durationNs :: jsval
  rp_error :: jsval
  rp_recordedAt :: jsval
  rp_pmtu :: "PMTUReading option"

definition pairKey :: "(jsnum \<Rightarrow> jstring) \<Rightarrow> jsval \<Rightarrow> jsval \<Rightarrow> jstring" where
  "pairKey num_str source destination = template num_str source @ 0 # template num_str destination"

fun opt_str :: "jstring option \<Rightarrow> jsval" where
  "opt_str None = JUndef"
| "opt_str (Some s) = JStr s"

definition fromResult :: "RunResult \<Rightarrow> RunPairRow" where
  "fromResult r =
     \<lparr>rp_source = opt_str (rr_sourceNode r), rp_destination = opt_str (rr_destinationNode r),
      rp_state = JStr (if rr_success r then js ''succeeded'' else js ''failed''),
      rp_success = JBool (rr_success r), rp_durationNs = rr_durationNs r, rp_error = opt_str (rr_error r),
      rp_recordedAt = opt_str (rr_recordedAt r), rp_pmtu = pmtuReadingOf (rr_result r)\<rparr>"

definition fromFrame :: "jsval \<Rightarrow> RunPairRow" where
  "fromFrame f =
     \<lparr>rp_source = jfield f (js ''source''), rp_destination = jfield f (js ''destination''),
      rp_state = jfield f (js ''state''), rp_success = jfield f (js ''success''),
      rp_durationNs = jfield f (js ''durationNs''), rp_error = jfield f (js ''error''),
      rp_recordedAt = JUndef, rp_pmtu = None\<rparr>"

definition frame_key :: "(jsnum \<Rightarrow> jstring) \<Rightarrow> jsval \<Rightarrow> jstring" where
  "frame_key num_str f = pairKey num_str (jfield f (js ''source'')) (jfield f (js ''destination''))"

definition result_key :: "(jsnum \<Rightarrow> jstring) \<Rightarrow> RunResult \<Rightarrow> jstring" where
  "result_key num_str r = pairKey num_str (opt_str (rr_sourceNode r)) (opt_str (rr_destinationNode r))"

text \<open>\<open>results\<close> is \<open>None\<close> when the response's field is no array.\<close>

definition mergeRunPairs :: "(jsnum \<Rightarrow> jstring) \<Rightarrow> RunResult list option \<Rightarrow> (jstring, jsval) jmap \<Rightarrow> RunPairRow list" where
  "mergeRunPairs num_str results frames =
     (let rows = fold (\<lambda>f. AList.update (frame_key num_str f) (fromFrame f)) (map snd frames) [];
          rows = fold (\<lambda>r. AList.update (result_key num_str r) (fromResult r))
            (case results of None \<Rightarrow> [] | Some rs \<Rightarrow> rs) rows
      in map snd rows)"

fun isProgressFrame :: "jsval \<Rightarrow> bool" where
  "isProgressFrame (JObj kvs) \<longleftrightarrow> js ''source'' \<in> set (keys kvs) \<and> js ''destination'' \<in> set (keys kvs)"
| "isProgressFrame v \<longleftrightarrow> False"

subsection \<open>The hook\<close>

text \<open>The query's result as the hook reads it: the run's status once it is loaded.\<close>

record run_query =
  rq_status :: "jstring option"
  rq_results :: "RunResult list option"
  rq_error :: "api_error option"

definition refetchInterval :: "(jstring \<Rightarrow> jsnum) \<Rightarrow> (jsnum \<Rightarrow> jstring) \<Rightarrow> run_query \<Rightarrow> nat option" where
  "refetchInterval num num_str q =
     (if isTerminalRunStatus (rq_status q) \<or> (case rq_error q of Some e \<Rightarrow> isSettledClientError num num_str e | None \<Rightarrow> False)
      then None else Some RUN_POLL_MS)"

record run_hook =
  rh_runId :: jstring
  rh_frames :: "(jstring, jsval) jmap"
  rh_socketDone :: bool
  rh_connected :: bool
  rh_settled :: bool
  rh_topic :: "jstring option"
  rh_refetchTimer :: bool
  rh_refetches :: nat

definition mount :: "jstring \<Rightarrow> run_hook" where
  "mount runId = \<lparr>rh_runId = runId, rh_frames = [], rh_socketDone = False, rh_connected = False, rh_settled = False,
     rh_topic = None, rh_refetchTimer = False, rh_refetches = 0\<rparr>"

definition switch_run :: "jstring \<Rightarrow> run_hook \<Rightarrow> run_hook" where
  "switch_run runId h = h\<lparr>rh_runId := runId, rh_frames := [], rh_socketDone := False\<rparr>"

definition socketEnabled :: "bool \<Rightarrow> run_query \<Rightarrow> run_hook \<Rightarrow> bool" where
  "socketEnabled realtime q h \<longleftrightarrow>
     rh_runId h \<noteq> [] \<and> realtime \<and> rq_status q \<noteq> None \<and> \<not> isTerminalRunStatus (rq_status q) \<and> \<not> rh_socketDone h"

definition cleanup :: "run_hook \<Rightarrow> run_hook" where
  "cleanup h = h\<lparr>rh_topic := None, rh_refetchTimer := False\<rparr>"

text \<open>
  The subscribing effect re-runs when \<open>socketEnabled\<close> or the run changed: the old one is
  cleaned up first. The socket's state is read once before and once after \<open>subscribe\<close>.
\<close>

definition socket_effect :: "bool \<Rightarrow> run_query \<Rightarrow> ws_state \<Rightarrow> ws_state \<Rightarrow> run_hook \<Rightarrow> run_hook" where
  "socket_effect realtime q st_before st_after h =
     (if socketEnabled realtime q h
      then if rh_topic h = Some (runTopic (rh_runId h)) then h
           else (cleanup h)\<lparr>rh_connected := (st_before = Open), rh_topic := Some (runTopic (rh_runId h)),
                  rh_settled := (st_after \<noteq> Connecting)\<rparr>
      else (cleanup h)\<lparr>rh_connected := False, rh_settled := False\<rparr>)"

definition on_state :: "ws_state \<Rightarrow> run_hook \<Rightarrow> run_hook" where
  "on_state st h = h\<lparr>rh_connected := (st = Open), rh_settled := (rh_settled h \<or> st \<noteq> Connecting)\<rparr>"

definition is_dispatched :: "jsval \<Rightarrow> bool" where
  "is_dispatched f \<longleftrightarrow> jfield f (js ''state'') = JStr (js ''dispatched'')"

definition take_frame :: "(jsnum \<Rightarrow> jstring) \<Rightarrow> jsval \<Rightarrow> (jstring, jsval) jmap \<Rightarrow> (jstring, jsval) jmap" where
  "take_frame num_str frame prev =
     (let key = frame_key num_str frame
      in case map_of prev key of
           Some held \<Rightarrow> if is_dispatched frame \<and> \<not> is_dispatched held then prev else AList.update key frame prev
         | None \<Rightarrow> AList.update key frame prev)"

definition on_envelope :: "(jsnum \<Rightarrow> jstring) \<Rightarrow> envelope \<Rightarrow> run_hook \<Rightarrow> run_hook" where
  "on_envelope num_str env h =
     (if env_kind env = KError then h\<lparr>rh_socketDone := True\<rparr>
      else if env_kind env = KClosed then h\<lparr>rh_socketDone := True\<rparr>
      else if isProgressFrame (env_data env)
      then let h1 = h\<lparr>rh_frames := take_frame num_str (env_data env) (rh_frames h)\<rparr>
           in if \<not> is_dispatched (env_data env) \<and> \<not> rh_refetchTimer h1 then h1\<lparr>rh_refetchTimer := True\<rparr> else h1
      else h\<lparr>rh_refetches := Suc (rh_refetches h)\<rparr>)"

definition refetch_fires :: "run_hook \<Rightarrow> run_hook" where
  "refetch_fires h =
     (if rh_refetchTimer h then h\<lparr>rh_refetchTimer := False, rh_refetches := Suc (rh_refetches h)\<rparr> else h)"

definition live :: "bool \<Rightarrow> run_query \<Rightarrow> run_hook \<Rightarrow> bool" where
  "live realtime q h \<longleftrightarrow> socketEnabled realtime q h \<and> rh_connected h"

definition connecting :: "bool \<Rightarrow> run_query \<Rightarrow> run_hook \<Rightarrow> bool" where
  "connecting realtime q h \<longleftrightarrow> socketEnabled realtime q h \<and> \<not> rh_settled h"

definition notFound :: "run_query \<Rightarrow> bool" where
  "notFound q = (case rq_error q of Some (Api_Error problem) \<Rightarrow> jfield problem (js ''status'') = JNum (Fin 404) | _ \<Rightarrow> False)"

definition shown_pairs :: "(jsnum \<Rightarrow> jstring) \<Rightarrow> run_query \<Rightarrow> run_hook \<Rightarrow> RunPairRow list" where
  "shown_pairs num_str q h = mergeRunPairs num_str (rq_results q) (rh_frames h)"

text \<open>
  Socket callbacks reach the hook only while it is subscribed. A commit that changes the run
  cleans up the old subscription before any effect of the new one runs.
\<close>

datatype run_event =
    Switch jstring
  | Rendered bool run_query ws_state ws_state
  | StateChange ws_state
  | Message envelope
  | RefetchTimer

fun run_step :: "(jsnum \<Rightarrow> jstring) \<Rightarrow> run_hook \<Rightarrow> run_event \<Rightarrow> run_hook" where
  "run_step num_str h (Switch runId) = switch_run runId (cleanup h)"
| "run_step num_str h (Rendered realtime q st_before st_after) = socket_effect realtime q st_before st_after h"
| "run_step num_str h (StateChange st) = (if rh_topic h = None then h else on_state st h)"
| "run_step num_str h (Message env) =
     (if rh_topic h = Some (env_topic env) then on_envelope num_str env h else h)"
| "run_step num_str h RefetchTimer = refetch_fires h"

subsection \<open>The frames held\<close>

text \<open>What the table owes a pair: its last settled frame, else its last frame.\<close>

definition held_frame :: "(jsnum \<Rightarrow> jstring) \<Rightarrow> jsval list \<Rightarrow> jstring \<Rightarrow> jsval option" where
  "held_frame num_str fs k =
     (case last_with (frame_key num_str) (filter (\<lambda>f. \<not> is_dispatched f) fs) k of
        Some f \<Rightarrow> Some f
      | None \<Rightarrow> last_with (frame_key num_str) fs k)"

abbreviation frames_after :: "(jsnum \<Rightarrow> jstring) \<Rightarrow> jsval list \<Rightarrow> (jstring, jsval) jmap" where
  "frames_after num_str fs \<equiv> fold (take_frame num_str) fs []"

lemma held_frame_snoc:
  "held_frame num_str (fs @ [f]) k =
     (if frame_key num_str f \<noteq> k then held_frame num_str fs k
      else if is_dispatched f \<and> last_with (frame_key num_str) (filter (\<lambda>f. \<not> is_dispatched f) fs) k \<noteq> None
      then held_frame num_str fs k else Some f)"
  by (auto simp: held_frame_def last_with_snoc split: option.split)

lemma held_settled:
  assumes "held_frame num_str fs k = Some g"
  shows "\<not> is_dispatched g \<longleftrightarrow> last_with (frame_key num_str) (filter (\<lambda>f. \<not> is_dispatched f) fs) k \<noteq> None"
proof (cases "last_with (frame_key num_str) (filter (\<lambda>f. \<not> is_dispatched f) fs) k")
  case (Some x)
  then show ?thesis using assms last_with_Some [OF Some] by (simp add: held_frame_def)
next
  case None
  then have "last_with (frame_key num_str) fs k = Some g" using assms by (simp add: held_frame_def)
  then have g: "g \<in> set fs" "frame_key num_str g = k" using last_with_Some by fast+
  have "\<forall>f \<in> set fs. frame_key num_str f = k \<longrightarrow> is_dispatched f"
    using None by (auto simp: last_with_def Let_def filter_empty_conv split: if_splits)
  then show ?thesis using None g by auto
qed

lemma frames_after_get: "map_of (frames_after num_str fs) k = held_frame num_str fs k"
proof (induction fs rule: rev_induct)
  case Nil
  then show ?case by (simp add: held_frame_def last_with_def)
next
  case (snoc f fs)
  show ?case
  proof (cases "frame_key num_str f = k")
    case False
    then show ?thesis using snoc
      by (auto simp: take_frame_def Let_def update_conv' held_frame_snoc split: option.split)
  next
    case True
    show ?thesis
    proof (cases "held_frame num_str fs k")
      case None
      then have "last_with (frame_key num_str) (filter (\<lambda>f. \<not> is_dispatched f) fs) k = None"
        by (simp add: held_frame_def split: option.splits)
      then show ?thesis using True None snoc by (simp add: take_frame_def update_conv' held_frame_snoc)
    next
      case (Some g)
      then show ?thesis using True snoc held_settled [OF Some]
        by (auto simp: take_frame_def update_conv' held_frame_snoc)
    qed
  qed
qed

lemma frames_after_keys: "keys (frames_after num_str fs) = js_set (map (frame_key num_str) fs)"
proof (induction fs rule: rev_induct)
  case (snoc f fs)
  have "keys (take_frame num_str f m) = jadd (frame_key num_str f) (keys m)" for m
    by (auto simp: take_frame_def Let_def keys_update jadd_def split: option.split dest: map_of_SomeD)
      (metis (no_types, lifting) fst_conv image_eqI map_of_SomeD)+
  with snoc show ?case by (simp add: js_set_snoc)
qed (simp add: js_set_def)

lemma frames_after_keyed: "(k, f) \<in> set (frames_after num_str fs) \<Longrightarrow> frame_key num_str f = k"
proof -
  assume kf: "(k, f) \<in> set (frames_after num_str fs)"
  have "distinct (keys (frames_after num_str fs))" by (simp add: frames_after_keys)
  with kf have "held_frame num_str fs k = Some f" using frames_after_get [of num_str fs k] by simp
  then show ?thesis by (auto simp: held_frame_def dest!: last_with_Some split: option.splits)
qed

subsection \<open>What the hook guarantees\<close>

text \<open>The row the page owes a pair: the stored result when there is one, else the frame held.\<close>

definition run_row :: "(jsnum \<Rightarrow> jstring) \<Rightarrow> RunResult list \<Rightarrow> jsval list \<Rightarrow> jstring \<Rightarrow> RunPairRow" where
  "run_row num_str results fs k =
     (case last_with (result_key num_str) results k of
        Some r \<Rightarrow> fromResult r
      | None \<Rightarrow> fromFrame (the (held_frame num_str fs k)))"

text \<open>
  C9: after any sequence of progress frames the pair table has exactly one
  row per pair, in first-seen order. The row is the pair's last stored result when one exists;
  otherwise its last settled frame, and its last dispatched frame only while none has settled.
\<close>

theorem mergeRunPairs_refines:
  "mergeRunPairs num_str results (fold (take_frame num_str) fs []) =
     (let rs = (case results of None \<Rightarrow> [] | Some rs \<Rightarrow> rs)
      in map (run_row num_str rs fs) (js_set (map (frame_key num_str) fs @ map (result_key num_str) rs)))"
proof -
  define rs where "rs = (case results of None \<Rightarrow> [] | Some rs \<Rightarrow> rs)"
  let ?m = "frames_after num_str fs"
  have same: "map (frame_key num_str) (map snd ?m) = keys ?m"
    using frames_after_keyed by fastforce
  then have d: "distinct (map (frame_key num_str) (map snd ?m))" by (simp only: frames_after_keys) simp
  define rows where "rows = fold (\<lambda>f. AList.update (frame_key num_str f) (fromFrame f)) (map snd ?m) []"
  define out where "out = fold (\<lambda>r. AList.update (result_key num_str r) (fromResult r)) rs rows"
  have rows: "rows = map (\<lambda>f. (frame_key num_str f, fromFrame f)) (map snd ?m)"
    unfolding rows_def using d by (rule fold_update_distinct)
  have get: "map_of rows k = map_option fromFrame (held_frame num_str fs k)" for k
  proof -
    have "rows = map (\<lambda>(k, f). (k, fromFrame f)) ?m"
      unfolding rows using frames_after_keyed by (auto simp: comp_def)
    then show ?thesis by (simp add: map_of_map frames_after_get [symmetric])
  qed
  have "keys rows = keys ?m" unfolding rows using same by (simp add: comp_def)
  then have keys: "keys out = js_set (map (frame_key num_str) fs @ map (result_key num_str) rs)"
    by (simp add: out_def keys_fold_update frames_after_keys) (simp add: js_set_def)
  then have "distinct (keys out)" by simp
  then have "map snd out = map (\<lambda>k. the (map_of out k)) (keys out)" by (rule values_by_key)
  also have "\<dots> = map (run_row num_str rs fs) (keys out)"
  proof (rule map_cong [OF refl])
    fix k assume "k \<in> set (keys out)"
    then have "map_of out k \<noteq> None" by (simp add: map_of_iff_keys)
    then show "the (map_of out k) = run_row num_str rs fs k"
      by (auto simp: out_def map_of_fold_update get run_row_def split: option.splits)
  qed
  finally show ?thesis
    unfolding keys by (simp add: mergeRunPairs_def Let_def rs_def [symmetric] rows_def [symmetric] out_def [symmetric])
qed

text \<open>The subscription is always to the run shown, and the badge and timer belong to it.\<close>

definition hook_inv :: "run_hook \<Rightarrow> bool" where
  "hook_inv h \<longleftrightarrow>
     (rh_topic h = None \<or> rh_topic h = Some (runTopic (rh_runId h))) \<and>
     (rh_refetchTimer h \<longrightarrow> rh_topic h \<noteq> None)"

lemmas hook_defs = switch_run_def cleanup_def socket_effect_def on_state_def on_envelope_def refetch_fires_def

lemma hook_inv_step: "hook_inv h \<Longrightarrow> hook_inv (run_step num_str h e)"
  by (cases e; simp add: hook_inv_def hook_defs Let_def) (cases "rh_topic h"; simp)+

lemma hook_inv_run: "hook_inv (foldl (run_step num_str) (mount runId) es)"
proof (induction es rule: rev_induct)
  case Nil
  then show ?case by (simp add: hook_inv_def mount_def)
qed (simp add: hook_inv_step)

lemma refetches_mono: "rh_refetches h \<le> rh_refetches (run_step num_str h e)"
  by (cases e) (simp_all add: hook_defs Let_def)

lemma refetch_pending:
  assumes "n < rh_refetches h \<or> rh_refetchTimer h \<and> n \<le> rh_refetches h" "rh_topic (run_step num_str h e) = rh_topic h"
    "rh_topic h = Some t"
  shows "n < rh_refetches (run_step num_str h e) \<or>
    rh_refetchTimer (run_step num_str h e) \<and> n \<le> rh_refetches (run_step num_str h e)"
  using assms by (cases e; simp add: hook_defs Let_def split: if_splits) linarith+

text \<open>
  C10: once a settled probe arrives on the subscribed topic, and whatever
  happens next, either the subscription to the run has ended or the run is refetched by the
  next firing of the refetch timer at the latest.
\<close>

theorem settled_frame_refetches:
  assumes "rh_topic h = Some (env_topic env)" "env_kind env \<notin> {KError, KClosed}"
    and "isProgressFrame (env_data env)" "\<not> is_dispatched (env_data env)"
    and "h1 = run_step num_str h (Message env)"
  shows "rh_refetches h < rh_refetches (run_step num_str (foldl (run_step num_str) h1 es) RefetchTimer) \<or>
    (\<exists>n \<le> length es. rh_topic (foldl (run_step num_str) h1 (take n es)) \<noteq> Some (env_topic env))"
proof -
  let ?s = "\<lambda>es. foldl (run_step num_str) h1 es"
  let ?Q = "\<lambda>s. rh_refetches h < rh_refetches s \<or> rh_refetchTimer s \<and> rh_refetches h \<le> rh_refetches s"
  have pending: "?Q (?s es)" if "\<forall>n \<le> length es. rh_topic (?s (take n es)) = Some (env_topic env)"
    using that
  proof (induction es rule: rev_induct)
    case Nil
    then show ?case using assms by (auto simp: on_envelope_def Let_def)
  next
    case (snoc e es)
    have topics: "rh_topic (?s (take n es)) = Some (env_topic env)" if "n \<le> length es" for n
      using snoc.prems [rule_format, of n] that by simp
    then have "rh_topic (?s es) = Some (env_topic env)" using topics [of "length es"] by simp
    moreover have "rh_topic (?s (es @ [e])) = Some (env_topic env)"
      using snoc.prems [rule_format, of "length (es @ [e])"] by simp
    ultimately show ?case
      using refetch_pending [of "rh_refetches h" "?s es" num_str e "env_topic env"] snoc.IH topics by simp
  qed
  show ?thesis
  proof (cases "\<forall>n \<le> length es. rh_topic (?s (take n es)) = Some (env_topic env)")
    case True
    then have "rh_refetches h < rh_refetches (run_step num_str (?s es) RefetchTimer)"
      using pending by (auto simp: refetch_fires_def)
    then show ?thesis ..
  next
    case False
    then show ?thesis by blast
  qed
qed

definition demo_progress :: "string \<Rightarrow> jsval" where
  "demo_progress st = JObj [(js ''source'', JStr (js ''a'')), (js ''destination'', JStr (js ''b'')), (js ''state'', JStr (js st))]"

definition demo_run_env :: "string \<Rightarrow> envelope" where
  "demo_run_env st = \<lparr>env_topic = js ''run:7'', env_kind = KEvent, env_seq = None, env_epoch = [], env_data = demo_progress st\<rparr>"

definition demo_hook :: run_hook where
  "demo_hook = (mount (js ''7''))\<lparr>rh_topic := Some (js ''run:7'')\<rparr>"

theorem settled_frame_refetches_witness:
  "0 < rh_refetches (run_step (\<lambda>n. []) (foldl (run_step (\<lambda>n. [])) (run_step (\<lambda>n. []) demo_hook (Message (demo_run_env ''failed'')))
     [StateChange Closed]) RefetchTimer)"
proof -
  have "rh_topic demo_hook = Some (env_topic (demo_run_env ''failed''))" "env_kind (demo_run_env ''failed'') \<notin> {KError, KClosed}"
    "isProgressFrame (env_data (demo_run_env ''failed''))" "\<not> is_dispatched (env_data (demo_run_env ''failed''))"
    by (simp_all add: demo_hook_def demo_run_env_def demo_progress_def is_dispatched_def)
  note fired = settled_frame_refetches [OF this refl, of "\<lambda>n. []" "[StateChange Closed]"]
  have "rh_topic (foldl (run_step (\<lambda>n. [])) (run_step (\<lambda>n. []) demo_hook (Message (demo_run_env ''failed'')))
      (take n [StateChange Closed])) = Some (env_topic (demo_run_env ''failed''))" for n
    by (cases n) (simp_all add: on_state_def on_envelope_def demo_hook_def demo_run_env_def Let_def)
  then have "\<not> (\<exists>n \<le> length [StateChange Closed]. rh_topic (foldl (run_step (\<lambda>n. [])) (run_step (\<lambda>n. []) demo_hook (Message (demo_run_env ''failed'')))
      (take n [StateChange Closed])) \<noteq> Some (env_topic (demo_run_env ''failed'')))" by blast
  with fired have "rh_refetches demo_hook < rh_refetches (run_step (\<lambda>n. []) (foldl (run_step (\<lambda>n. [])) (run_step (\<lambda>n. []) demo_hook (Message (demo_run_env ''failed'')))
     [StateChange Closed]) RefetchTimer)" by blast
  then show ?thesis by (rule le_less_trans [OF le0])
qed

end
