(* ===== verification/Chart_Overlays.thy ===== *)
theory Chart_Overlays
  imports Js_Prelude
begin

section \<open>Annotations and maintenance windows on a chart (lib/annotations.ts)\<close>

text \<open>
  What the overlays draw: an instant or a range per annotation, one band per maximal run of
  overlapping maintenance windows, and the merged listings the pages show. \<open>parse\<close> is
  \<open>Date.parse\<close>, which answers a finite time value or NaN (\<open>time_parse\<close>); \<open>collate\<close> is
  \<open>String.prototype.localeCompare\<close>; \<open>t\<close> and \<open>stampShort\<close> render text. The colours and label
  styles of a series are not modelled: an overlay is its name and its marks.

  The bands are shown to cover exactly the instants the windows cover, without overlapping
  or touching, and a merged listing to hold the newest row of every id in (start, id) order.
\<close>

record Annotation =
  an_id :: jstring
  an_startAt :: jstring
  an_endAt :: "jstring option"
  an_scope :: jsval
  an_text :: jsval
  an_createdBy :: jsval

record MaintenanceWindow =
  mw_id :: jstring
  mw_scope :: jsval
  mw_startAt :: jstring
  mw_endAt :: jstring
  mw_reason :: jstring
  mw_createdBy :: jsval

definition ANNOTATION_SERIES_NAME :: jstring where
  "ANNOTATION_SERIES_NAME = js ''Annotations''"

definition MAINTENANCE_SERIES_NAME :: jstring where
  "MAINTENANCE_SERIES_NAME = js ''Maintenance''"

definition isInstant :: "(jstring \<Rightarrow> jsnum) \<Rightarrow> Annotation \<Rightarrow> bool" where
  "isInstant parse a = (case an_endAt a of None \<Rightarrow> True | Some e \<Rightarrow> e = [] \<or> is_nan (parse e))"

text \<open>An overlay: the marks at an instant, and the bands from a named edge to another.\<close>

record overlay =
  ov_name :: jstring
  ov_instants :: "(jsval \<times> jsnum) list"
  ov_ranges :: "((jsval \<times> jsnum) \<times> jsnum) list"

text \<open>The loop body of \<open>annotationOverlaySeries\<close>.\<close>

definition add_mark :: "(jstring \<Rightarrow> jsnum) \<Rightarrow> overlay \<Rightarrow> Annotation \<Rightarrow> overlay" where
  "add_mark parse ov a =
     (let start = parse (an_startAt a)
      in if is_nan start then ov
         else if isInstant parse a then ov\<lparr>ov_instants := ov_instants ov @ [(an_text a, start)]\<rparr>
         else ov\<lparr>ov_ranges := ov_ranges ov @ [((an_text a, start), parse (the (an_endAt a)))]\<rparr>)"

definition annotationOverlaySeries :: "(jstring \<Rightarrow> jsnum) \<Rightarrow> Annotation list \<Rightarrow> overlay option" where
  "annotationOverlaySeries parse annotations =
     (let ov = foldl (add_mark parse) \<lparr>ov_name = ANNOTATION_SERIES_NAME, ov_instants = [], ov_ranges = []\<rparr> annotations
      in if ov_instants ov = [] \<and> ov_ranges ov = [] then None else Some ov)"

text \<open>A chart option's \<open>series\<close>: absent, one, or a list.\<close>

datatype 's series_field = NoSeries | OneSeries 's | ManySeries "'s list"

fun existing_series :: "'s series_field \<Rightarrow> 's list" where
  "existing_series (ManySeries xs) = xs"
| "existing_series (OneSeries x) = [x]"
| "existing_series NoSeries = []"

datatype chart_series = Drawn jsval | Overlay overlay

definition withAnnotations :: "(jstring \<Rightarrow> jsnum) \<Rightarrow> chart_series series_field \<Rightarrow> Annotation list \<Rightarrow> chart_series series_field" where
  "withAnnotations parse option annotations =
     (case annotationOverlaySeries parse annotations of
        None \<Rightarrow> option
      | Some ov \<Rightarrow> ManySeries (existing_series option @ [Overlay ov]))"

record parsed_window =
  pw_start :: jsnum
  pw_end :: jsnum
  pw_reason :: jstring

record span =
  sp_start :: jsnum
  sp_end :: jsnum
  sp_reasons :: "jstring list"

definition parse_window :: "(jstring \<Rightarrow> jsnum) \<Rightarrow> MaintenanceWindow \<Rightarrow> parsed_window" where
  "parse_window parse w = \<lparr>pw_start = parse (mw_startAt w), pw_end = parse (mw_endAt w), pw_reason = mw_reason w\<rparr>"

definition readable :: "parsed_window \<Rightarrow> bool" where
  "readable w \<longleftrightarrow> \<not> is_nan (pw_start w) \<and> \<not> is_nan (pw_end w)"

definition by_start :: "parsed_window \<Rightarrow> parsed_window \<Rightarrow> jsnum" where
  "by_start a b = pw_start a - pw_start b"

text \<open>The loop body of \<open>mergeWindowSpans\<close>: widen the last band, or push a new one.\<close>

definition add_span :: "span list \<Rightarrow> parsed_window \<Rightarrow> span list" where
  "add_span out w =
     (if out \<noteq> [] \<and> pw_start w \<le> sp_end (last out)
      then butlast out @ [(last out)\<lparr>sp_end := jmax (sp_end (last out)) (pw_end w),
             sp_reasons := (if pw_reason w \<noteq> [] \<and> pw_reason w \<notin> set (sp_reasons (last out))
               then sp_reasons (last out) @ [pw_reason w] else sp_reasons (last out))\<rparr>]
      else out @ [\<lparr>sp_start = pw_start w, sp_end = pw_end w, sp_reasons = (if pw_reason w \<noteq> [] then [pw_reason w] else [])\<rparr>])"

definition mergeWindowSpans :: "(jstring \<Rightarrow> jsnum) \<Rightarrow> MaintenanceWindow list \<Rightarrow> span list" where
  "mergeWindowSpans parse windows =
     foldl add_span [] (js_sort by_start (filter readable (map (parse_window parse) windows)))"

text \<open>Reasons are joined by a middle dot, U+00B7, with spaces around it.\<close>

definition maintenanceOverlaySeries :: "(jstring \<Rightarrow> jsnum) \<Rightarrow> MaintenanceWindow list \<Rightarrow> overlay option" where
  "maintenanceOverlaySeries parse windows =
     (let data = map (\<lambda>s. ((JStr (join [32, 183, 32] (sp_reasons s)), sp_start s), sp_end s)) (mergeWindowSpans parse windows)
      in if data = [] then None
         else Some \<lparr>ov_name = MAINTENANCE_SERIES_NAME, ov_instants = [], ov_ranges = data\<rparr>)"

definition withMaintenance :: "(jstring \<Rightarrow> jsnum) \<Rightarrow> chart_series series_field \<Rightarrow> MaintenanceWindow list \<Rightarrow> chart_series series_field" where
  "withMaintenance parse option windows =
     (case maintenanceOverlaySeries parse windows of
        None \<Rightarrow> option
      | Some ov \<Rightarrow> ManySeries (existing_series option @ [Overlay ov]))"

text \<open>The comparator both merged listings sort by.\<close>

definition start_id_cmp :: "(jstring \<Rightarrow> jsnum) \<Rightarrow> (jstring \<Rightarrow> jstring \<Rightarrow> jsnum) \<Rightarrow> ('a \<Rightarrow> jstring) \<Rightarrow> ('a \<Rightarrow> jstring) \<Rightarrow>
    'a \<Rightarrow> 'a \<Rightarrow> jsnum" where
  "start_id_cmp parse collate start ident a b =
     (let delta = parse (start a) - parse (start b)
      in if \<not> jeq delta (Fin 0) \<and> \<not> is_nan delta then delta else collate (ident a) (ident b))"

definition mergeAnnotations :: "(jstring \<Rightarrow> jsnum) \<Rightarrow> (jstring \<Rightarrow> jstring \<Rightarrow> jsnum) \<Rightarrow> Annotation list list \<Rightarrow> Annotation list" where
  "mergeAnnotations parse collate listings =
     js_sort (start_id_cmp parse collate an_startAt an_id)
       (map snd (fold (\<lambda>a. AList.update (an_id a) a) (concat listings) []))"

definition mergeMaintenanceWindows :: "(jstring \<Rightarrow> jsnum) \<Rightarrow> (jstring \<Rightarrow> jstring \<Rightarrow> jsnum) \<Rightarrow> MaintenanceWindow list list \<Rightarrow> MaintenanceWindow list" where
  "mergeMaintenanceWindows parse collate listings =
     js_sort (start_id_cmp parse collate mw_startAt mw_id)
       (map snd (fold (\<lambda>w. AList.update (mw_id w) w) (concat listings) []))"

record FrozenWindow =
  fw_from :: date
  fw_to :: date

definition outsideWindowNote :: "translator \<Rightarrow> (date \<Rightarrow> jstring) \<Rightarrow> date \<Rightarrow> date option \<Rightarrow> FrozenWindow option \<Rightarrow> jstring option" where
  "outsideWindowNote t stampShort start end_at frozen =
     (case frozen of
        None \<Rightarrow> None
      | Some fw \<Rightarrow>
          if \<not> is_finite (fw_from fw) \<or> \<not> is_finite (fw_to fw) then None
          else let endMs = (case end_at of None \<Rightarrow> start | Some e \<Rightarrow> e)
               in if is_nan start \<or> is_nan endMs then None
                  else if start \<le> fw_to fw \<and> fw_from fw \<le> endMs then None
                  else Some (t (js ''created.outsideWindow'') [(js ''ends'', TS (stampShort (fw_to fw)))]))"

definition defaultStartIn :: "date \<Rightarrow> FrozenWindow option \<Rightarrow> jsnum \<Rightarrow> date" where
  "defaultStartIn now frozen spanSeconds =
     (case frozen of
        None \<Rightarrow> now
      | Some fw \<Rightarrow>
          if \<not> is_finite (fw_from fw) \<or> \<not> is_finite (fw_to fw) \<or> fw_to fw < fw_from fw then now
          else if fw_from fw \<le> now \<and> now \<le> fw_to fw then now
          else new_date (jmax (fw_from fw) (fw_to fw - spanSeconds * Fin 1000)))"

subsection \<open>Bands\<close>

text \<open>\<open>Date.parse\<close> answers a time value or NaN.\<close>

definition time_parse :: "(jstring \<Rightarrow> jsnum) \<Rightarrow> bool" where
  "time_parse parse \<longleftrightarrow> (\<forall>s. is_finite (parse s) \<or> parse s = NaN)"

definition timed_window :: "parsed_window set" where
  "timed_window = {w. is_finite (pw_start w) \<and> is_finite (pw_end w)}"

lemma timed_window_iff: "w \<in> timed_window \<longleftrightarrow> is_finite (pw_start w) \<and> is_finite (pw_end w)"
  by (simp add: timed_window_def)

lemma gt_by_start: "a \<in> timed_window \<Longrightarrow> b \<in> timed_window \<Longrightarrow> gt_by by_start a b \<longleftrightarrow> pw_start b < pw_start a"
  by (auto simp: gt_by_def by_start_def timed_window_def is_finite_iff)

interpretation spans_order: comparator_on by_start timed_window
proof (rule comparator_by_key [of _ _ "\<lambda>w. fin_val (pw_start w)"])
  show "gt_by by_start x y \<longleftrightarrow> fin_val (pw_start y) < fin_val (pw_start x)" if "x \<in> timed_window" "y \<in> timed_window" for x y
    using that by (auto simp: gt_by_start) (auto simp: timed_window_def is_finite_iff)
qed

text \<open>The instants a window, a band, a set of them cover.\<close>

definition covers_at :: "jsnum \<Rightarrow> jsnum \<Rightarrow> jsnum \<Rightarrow> bool" where
  "covers_at s e x \<longleftrightarrow> s \<le> x \<and> x \<le> e"

text \<open>The loop's invariant after the windows \<open>ws\<close>: cover, separation and the reasons kept.\<close>

definition spans_inv :: "parsed_window list \<Rightarrow> span list \<Rightarrow> bool" where
  "spans_inv ws out \<longleftrightarrow>
     (\<forall>s \<in> set out. is_finite (sp_start s) \<and> is_finite (sp_end s) \<and> sp_start s \<in> pw_start ` set ws) \<and>
     (\<forall>x. (\<exists>s \<in> set out. covers_at (sp_start s) (sp_end s) x) \<longleftrightarrow> (\<exists>w \<in> set ws. covers_at (pw_start w) (pw_end w) x)) \<and>
     sorted_wrt (\<lambda>a b. sp_end a < sp_start b) out \<and>
     (\<forall>w \<in> set ws. \<exists>s \<in> set out. sp_start s \<le> pw_start w \<and> pw_end w \<le> sp_end s \<and>
        (pw_reason w = [] \<or> pw_reason w \<in> set (sp_reasons s)))"

lemma covers_union:
  "is_finite s \<Longrightarrow> is_finite e \<Longrightarrow> is_finite u \<Longrightarrow> is_finite f \<Longrightarrow> s \<le> u \<Longrightarrow> u \<le> e \<Longrightarrow>
   covers_at s (jmax e f) x \<longleftrightarrow> covers_at s e x \<or> covers_at u f x"
  by (cases x) (auto simp: is_finite_iff covers_at_def max_def split: if_splits)

lemma spans_inv_push:
  assumes inv: "spans_inv ws out" and w: "w \<in> timed_window" and le: "\<forall>v \<in> set ws. pw_start v \<le> pw_start w"
    and apart: "out \<noteq> [] \<Longrightarrow> sp_end (last out) < pw_start w"
    and reason: "pw_reason w = [] \<or> pw_reason w \<in> set rs"
  shows "spans_inv (ws @ [w]) (out @ [\<lparr>sp_start = pw_start w, sp_end = pw_end w, sp_reasons = rs\<rparr>])"
proof -
  have "sp_end s < pw_start w" if s: "s \<in> set out" for s
  proof (cases "s = last out")
    case True
    moreover have "out \<noteq> []" using s by auto
    ultimately show ?thesis using apart by simp
  next
    case False
    then obtain os where out: "out = os @ [last out]" "s \<in> set os"
      using s by (metis append_butlast_last_id in_set_conv_decomp empty_iff list.set(1) set_ConsD set_append Un_iff)
    then have "sp_end s < sp_start (last out)" using inv unfolding spans_inv_def by (metis sorted_wrt_append list.set_intros(1))
    moreover have "sp_start (last out) \<in> pw_start ` set ws" using inv s unfolding spans_inv_def by (metis last_in_set empty_iff list.set(1))
    then have "sp_start (last out) \<le> pw_start w" using le by auto
    ultimately show ?thesis by (metis jless_iff jle_trans)
  qed
  moreover have "is_finite (pw_start w)" "is_finite (pw_end w)" using w by (simp_all add: timed_window_iff)
  moreover from this have "pw_start w \<le> pw_start w" "pw_end w \<le> pw_end w" by (auto simp: is_finite_iff)
  ultimately show ?thesis using inv reason
    unfolding spans_inv_def by (simp add: sorted_wrt_append bex_Un)
qed

lemma spans_inv_widen:
  assumes inv: "spans_inv ws (os @ [l])" and w: "w \<in> timed_window" and le: "\<forall>v \<in> set ws. pw_start v \<le> pw_start w"
    and meets: "pw_start w \<le> sp_end l" and rs: "set (sp_reasons l) \<subseteq> set rs" "pw_reason w = [] \<or> pw_reason w \<in> set rs"
  shows "spans_inv (ws @ [w]) (os @ [l\<lparr>sp_end := jmax (sp_end l) (pw_end w), sp_reasons := rs\<rparr>])"
proof -
  have l: "is_finite (sp_start l)" "is_finite (sp_end l)" "sp_start l \<in> pw_start ` set ws"
    using inv by (simp_all add: spans_inv_def)
  have wf: "is_finite (pw_start w)" "is_finite (pw_end w)" using w by (simp_all add: timed_window_iff)
  have start: "sp_start l \<le> pw_start w" using l(3) le by auto
  have union: "covers_at (sp_start l) (jmax (sp_end l) (pw_end w)) x \<longleftrightarrow>
      covers_at (sp_start l) (sp_end l) x \<or> covers_at (pw_start w) (pw_end w) x" for x
    by (rule covers_union [OF l(1,2) wf start meets])
  have fin: "is_finite (jmax (sp_end l) (pw_end w))" using l(2) wf(2) by (auto simp: is_finite_iff)
  have grow: "e \<le> jmax (sp_end l) (pw_end w)" if "e \<le> sp_end l \<or> e = pw_end w" for e
    using that l(2) wf(2) jmax_ge [of "sp_end l" "pw_end w"] jle_trans by (auto simp: is_finite_iff)
  have "\<exists>s \<in> set (os @ [l\<lparr>sp_end := jmax (sp_end l) (pw_end w), sp_reasons := rs\<rparr>]). sp_start s \<le> pw_start v \<and> pw_end v \<le> sp_end s \<and>
        (pw_reason v = [] \<or> pw_reason v \<in> set (sp_reasons s))" if v: "v \<in> set (ws @ [w])" for v
  proof (cases "v = w")
    case True
    then show ?thesis using start grow [of "pw_end w"] rs(2) by auto
  next
    case False
    then have "v \<in> set ws" using v by simp
    then obtain s where s: "s \<in> set (os @ [l])" "sp_start s \<le> pw_start v" "pw_end v \<le> sp_end s"
      "pw_reason v = [] \<or> pw_reason v \<in> set (sp_reasons s)" using inv unfolding spans_inv_def by blast
    then show ?thesis using grow [of "pw_end v"] rs(1) by (cases "s = l") auto
  qed
  with inv fin union show ?thesis
    unfolding spans_inv_def by (simp add: sorted_wrt_append bex_Un) blast
qed

lemma spans_inv_step:
  assumes "spans_inv ws out" "w \<in> timed_window" "\<forall>v \<in> set ws. pw_start v \<le> pw_start w"
  shows "spans_inv (ws @ [w]) (add_span out w)"
proof (cases "out \<noteq> [] \<and> pw_start w \<le> sp_end (last out)")
  case True
  then have out: "out = butlast out @ [last out]" by simp
  define rs where "rs = (if pw_reason w \<noteq> [] \<and> pw_reason w \<notin> set (sp_reasons (last out))
    then sp_reasons (last out) @ [pw_reason w] else sp_reasons (last out))"
  have "spans_inv (ws @ [w]) (butlast out @ [(last out)\<lparr>sp_end := jmax (sp_end (last out)) (pw_end w), sp_reasons := rs\<rparr>])"
  proof (rule spans_inv_widen)
    show "spans_inv ws (butlast out @ [last out])" using assms(1) out by simp
    show "set (sp_reasons (last out)) \<subseteq> set rs" "pw_reason w = [] \<or> pw_reason w \<in> set rs" by (auto simp: rs_def)
  qed (use assms True in blast)+
  then show ?thesis using True by (simp add: add_span_def rs_def)
next
  case False
  have "sp_end (last out) < pw_start w" if "out \<noteq> []"
  proof -
    have "is_finite (sp_end (last out))" using assms(1) that by (simp add: spans_inv_def)
    then show ?thesis using False that assms(2) by (auto simp: timed_window_iff is_finite_iff)
  qed
  then show ?thesis using spans_inv_push [OF assms] False by (auto simp: add_span_def)
qed

lemma spans_inv_loop:
  assumes "set ws \<subseteq> timed_window" "sorted_wrt (\<lambda>a b. pw_start a \<le> pw_start b) ws"
  shows "spans_inv ws (foldl add_span [] ws)"
  using assms
proof (induction ws rule: rev_induct)
  case Nil
  then show ?case by (simp add: spans_inv_def)
next
  case (snoc w ws)
  then show ?case by (simp add: spans_inv_step sorted_wrt_append)
qed

subsection \<open>Listings\<close>

text \<open>The order of a merged listing: by start, then by id.\<close>

definition listed_before :: "(jstring \<Rightarrow> jsnum) \<Rightarrow> (jstring \<Rightarrow> jstring \<Rightarrow> jsnum) \<Rightarrow> ('a \<Rightarrow> jstring) \<Rightarrow> ('a \<Rightarrow> jstring) \<Rightarrow> 'a \<Rightarrow> 'a \<Rightarrow> bool" where
  "listed_before parse collate start ident a b \<longleftrightarrow>
     parse (start a) < parse (start b) \<or> parse (start a) = parse (start b) \<and> \<not> Fin 0 < collate (ident a) (ident b)"

lemma gt_start_id:
  assumes "is_finite (parse (start a))" "is_finite (parse (start b))"
  shows "gt_by (start_id_cmp parse collate start ident) a b \<longleftrightarrow>
    parse (start b) < parse (start a) \<or> parse (start a) = parse (start b) \<and> gt_by collate (ident a) (ident b)"
  using assms by (auto simp: gt_by_def start_id_cmp_def Let_def is_finite_iff)

lemma start_id_comparator:
  assumes "comparator_on collate UNIV" "\<forall>a \<in> A. is_finite (parse (start a))"
  shows "comparator_on (start_id_cmp parse collate start ident) A"
proof
  fix x y z assume xy: "x \<in> A" "y \<in> A"
  have fx: "is_finite (parse (start x))" and fy: "is_finite (parse (start y))" using assms(2) xy by simp_all
  show "\<not> gt_by (start_id_cmp parse collate start ident) y x" if "gt_by (start_id_cmp parse collate start ident) x y"
    using that comparator_on.asym [OF assms(1), of "ident x" "ident y"] fx fy
    by (auto simp: gt_start_id is_finite_iff)
  assume "z \<in> A"
  then have fz: "is_finite (parse (start z))" using assms(2) by simp
  show "\<not> gt_by (start_id_cmp parse collate start ident) x z"
    if "\<not> gt_by (start_id_cmp parse collate start ident) x y" "\<not> gt_by (start_id_cmp parse collate start ident) y z"
    using that comparator_on.trans [OF assms(1), of "ident x" "ident y" "ident z"] fx fy fz
    by (auto simp: gt_start_id is_finite_iff)
qed

lemma merged_listing:
  assumes "comparator_on collate UNIV" "\<forall>a \<in> set rows. is_finite (parse (start a))"
    and "out = js_sort (start_id_cmp parse collate start ident) (map snd (fold (\<lambda>a. AList.update (ident a) a) rows []))"
  shows "distinct (map ident out) \<and> (\<forall>a. a \<in> set out \<longleftrightarrow> last_with ident rows (ident a) = Some a) \<and>
    sorted_wrt (listed_before parse collate start ident) out"
proof -
  define m where "m = fold (\<lambda>a. AList.update (ident a) a) rows []"
  have keys: "keys m = js_set (map ident rows)" by (simp add: m_def keys_fold_update js_set_def)
  have get: "map_of m k = last_with ident rows k" for k
    by (simp add: m_def map_of_fold_update split: option.split)
  have dm: "distinct (keys m)" by (simp add: keys)
  have own: "ident a = k" if "(k, a) \<in> set m" for k a
    using that dm get [of k] last_with_Some [of ident rows k a] by simp
  have vals: "a \<in> snd ` set m \<longleftrightarrow> last_with ident rows (ident a) = Some a" for a
  proof
    assume "a \<in> snd ` set m"
    then obtain k where k: "(k, a) \<in> set m" by auto
    then show "last_with ident rows (ident a) = Some a" using own [OF k] dm get [of k] by simp
  next
    assume "last_with ident rows (ident a) = Some a"
    then show "a \<in> snd ` set m" using get map_of_SomeD by (metis image_eqI snd_conv)
  qed
  have ids: "map ident (map snd m) = keys m" using own by fastforce
  have dv: "distinct (map ident (map snd m))" unfolding ids by (rule dm)
  have "mset (map ident out) = mset (map ident (map snd m))"
    unfolding assms(3) m_def [symmetric] by (simp only: mset_map mset_js_sort)
  then have d: "distinct (map ident out)" using dv mset_eq_imp_distinct_iff by blast
  have sub: "set (map snd m) \<subseteq> set rows"
  proof
    fix a assume "a \<in> set (map snd m)"
    then have "last_with ident rows (ident a) = Some a" using vals by simp
    then show "a \<in> set rows" using last_with_Some by fast
  qed
  then have "\<forall>a \<in> set (map snd m). is_finite (parse (start a))" using assms(2) by blast
  then have c: "comparator_on (start_id_cmp parse collate start ident) (set (map snd m))"
    by (rule start_id_comparator [OF assms(1)])
  have "sorted_wrt (\<lambda>x y. \<not> gt_by (start_id_cmp parse collate start ident) x y) out"
    unfolding assms(3) m_def [symmetric] using comparator_on.sort_sorted [OF c subset_refl] .
  then have "sorted_wrt (listed_before parse collate start ident) out"
  proof (rule sorted_wrt_mono_rel [rotated])
    fix a b assume "a \<in> set out" "b \<in> set out" and ab: "\<not> gt_by (start_id_cmp parse collate start ident) a b"
    then have "a \<in> set rows" "b \<in> set rows" using sub assms(3) by (auto simp: m_def)
    then have f: "is_finite (parse (start a))" "is_finite (parse (start b))" using assms(2) by simp_all
    have "\<not> (parse (start b) < parse (start a) \<or> parse (start a) = parse (start b) \<and> gt_by collate (ident a) (ident b))"
      using ab gt_start_id [of parse start a b collate ident] f by blast
    then show "listed_before parse collate start ident a b"
      using f by (auto simp: listed_before_def gt_by_def is_finite_iff)
  qed
  moreover have "set out = snd ` set m" by (simp add: assms(3) m_def)
  ultimately show ?thesis using d vals by simp
qed

lemma mergeMaintenanceWindows_correct:
  assumes "comparator_on collate UNIV" "\<forall>w \<in> set (concat listings). is_finite (parse (mw_startAt w))"
    and "out = mergeMaintenanceWindows parse collate listings"
  shows "distinct (map mw_id out) \<and> (\<forall>w. w \<in> set out \<longleftrightarrow> last_with mw_id (concat listings) (mw_id w) = Some w) \<and>
    sorted_wrt (listed_before parse collate mw_startAt mw_id) out"
  using merged_listing [OF assms(1,2)] assms(3) by (simp add: mergeMaintenanceWindows_def)

lemma defaultStartIn_inside:
  assumes "fw_from fw = jint a" "fw_to fw = jint b" "a \<le> b" "spanSeconds = jint n" "0 \<le> n"
    and "\<bar>of_int a\<bar> \<le> MAX_TIME" "\<bar>of_int b\<bar> \<le> MAX_TIME"
  shows "fw_from fw \<le> defaultStartIn now (Some fw) spanSeconds \<and> defaultStartIn now (Some fw) spanSeconds \<le> fw_to fw"
proof (cases "fw_from fw \<le> now \<and> now \<le> fw_to fw")
  case True
  then show ?thesis using assms(1-3) by (simp add: defaultStartIn_def not_less)
next
  case False
  let ?m = "max a (b - n * 1000)"
  have "a \<le> ?m" "?m \<le> b" using assms(3,5) by auto
  then have "of_int a \<le> (of_int ?m :: rat)" "of_int ?m \<le> (of_int b :: rat)" by (simp_all only: of_int_le_iff)
  then have "\<bar>of_int ?m\<bar> \<le> MAX_TIME" using assms(6,7) unfolding abs_le_iff by linarith
  then have "new_date (jint ?m) = jint ?m" by (rule new_date_jint)
  moreover have "jmax (fw_from fw) (fw_to fw - spanSeconds * Fin 1000) = jint ?m"
    using assms(1,2,4) by (simp add: of_int_max)
  moreover have "\<not> (\<not> is_finite (fw_from fw) \<or> \<not> is_finite (fw_to fw) \<or> fw_to fw < fw_from fw)"
    using assms(1-3) by simp
  ultimately have "defaultStartIn now (Some fw) spanSeconds = jint ?m"
    using False unfolding defaultStartIn_def option.case by (simp only: if_False)
  then show ?thesis using assms(1,2) \<open>a \<le> ?m\<close> \<open>?m \<le> b\<close> by simp
qed

subsection \<open>What the overlays guarantee\<close>

text \<open>
  C29: the bands drawn cover exactly the instants the readable windows
  cover. They are in order, no two overlap or touch, and every window lies whole inside one
  band whose label carries its reason.
\<close>

theorem mergeWindowSpans_union:
  assumes "time_parse parse"
  shows "let spans = mergeWindowSpans parse windows;
             ws = filter readable (map (parse_window parse) windows)
         in (\<forall>x. (\<exists>s \<in> set spans. sp_start s \<le> x \<and> x \<le> sp_end s) \<longleftrightarrow> (\<exists>w \<in> set ws. pw_start w \<le> x \<and> x \<le> pw_end w)) \<and>
            sorted_wrt (\<lambda>a b. sp_end a < sp_start b) spans \<and>
            (\<forall>w \<in> set ws. \<exists>s \<in> set spans. sp_start s \<le> pw_start w \<and> pw_end w \<le> sp_end s \<and>
               (pw_reason w = [] \<or> pw_reason w \<in> set (sp_reasons s)))"
proof -
  let ?ws = "filter readable (map (parse_window parse) windows)"
  have t: "set ?ws \<subseteq> timed_window"
    using assms by (auto simp: timed_window_iff readable_def parse_window_def time_parse_def is_nan_def)
  have "sorted_wrt (\<lambda>a b. \<not> gt_by by_start a b) (js_sort by_start ?ws)" by (rule spans_order.sort_sorted [OF t])
  then have "sorted_wrt (\<lambda>a b. pw_start a \<le> pw_start b) (js_sort by_start ?ws)"
  proof (rule sorted_wrt_mono_rel [rotated])
    fix a b assume "a \<in> set (js_sort by_start ?ws)" "b \<in> set (js_sort by_start ?ws)" and ab: "\<not> gt_by by_start a b"
    then have ts: "a \<in> timed_window" "b \<in> timed_window" using t by (auto simp del: set_filter)
    then show "pw_start a \<le> pw_start b" using ab unfolding gt_by_start [OF ts] by (auto simp: timed_window_iff is_finite_iff)
  qed
  then have "spans_inv (js_sort by_start ?ws) (mergeWindowSpans parse windows)"
    unfolding mergeWindowSpans_def by (intro spans_inv_loop) (simp_all only: set_js_sort t)
  then show ?thesis unfolding Let_def spans_inv_def covers_at_def set_js_sort by blast
qed

definition demo_window :: "string \<Rightarrow> string \<Rightarrow> string \<Rightarrow> MaintenanceWindow" where
  "demo_window s e r = \<lparr>mw_id = js s, mw_scope = JUndef, mw_startAt = js s, mw_endAt = js e, mw_reason = js r, mw_createdBy = JUndef\<rparr>"

definition digit_parse :: "jstring \<Rightarrow> jsnum" where
  "digit_parse s = jnat (digits_value s)"

lemma digit_parse_time: "time_parse digit_parse"
  by (simp add: time_parse_def digit_parse_def)

theorem mergeWindowSpans_union_witness:
  "\<exists>s \<in> set (mergeWindowSpans digit_parse [demo_window ''5'' ''9'' ''disk'', demo_window ''1'' ''5'' ''up'']). sp_start s \<le> Fin 7 \<and> Fin 7 \<le> sp_end s"
proof -
  have "\<exists>w \<in> set (filter readable (map (parse_window digit_parse) [demo_window ''5'' ''9'' ''disk'', demo_window ''1'' ''5'' ''up''])).
      pw_start w \<le> Fin 7 \<and> Fin 7 \<le> pw_end w"
    by (simp add: parse_window_def readable_def demo_window_def digit_parse_def digits_value_def)
  then show ?thesis
    using mergeWindowSpans_union [OF digit_parse_time, of "[demo_window ''5'' ''9'' ''disk'', demo_window ''1'' ''5'' ''up'']"]
    unfolding Let_def by blast
qed

text \<open>
  Where every start parses, the merged listing has one row per id,
  the row the last listing gave it, and is in order of start and then of id.
\<close>

lemma mergeAnnotations_correct:
  assumes "comparator_on collate UNIV" "\<forall>a \<in> set (concat listings). is_finite (parse (an_startAt a))"
    and "out = mergeAnnotations parse collate listings"
  shows "distinct (map an_id out) \<and> (\<forall>a. a \<in> set out \<longleftrightarrow> last_with an_id (concat listings) (an_id a) = Some a) \<and>
    sorted_wrt (listed_before parse collate an_startAt an_id) out"
  using merged_listing [OF assms(1,2)] assms(3) by (simp add: mergeAnnotations_def)

definition demo_note :: "string \<Rightarrow> string \<Rightarrow> Annotation" where
  "demo_note i s = \<lparr>an_id = js i, an_startAt = js s, an_endAt = None, an_scope = JUndef, an_text = JUndef, an_createdBy = JUndef\<rparr>"

definition unit_collate :: "jstring \<Rightarrow> jstring \<Rightarrow> jsnum" where
  "unit_collate a b = (if a < b then Fin (- 1) else if b < a then Fin 1 else Fin 0)"

lemma unit_collate_order: "comparator_on unit_collate UNIV"
  by (rule comparator_by_key [of _ _ "\<lambda>s. s"]) (auto simp: gt_by_def unit_collate_def)

end
