(* ===== verification/Investigation_Scope.thy ===== *)
theory Investigation_Scope
  imports Investigation Text_Rules Matrix_Promql
begin

section \<open>The scope and window of an investigation (lib/investigation-sources.ts)\<close>

text \<open>
  The scope vocabulary, its permalink, the gate between the form's range and the window
  investigated, and the queries a scope asks. \<open>parse\<close> is \<open>new Date(s)\<close> on a string and \<open>toISO\<close>
  is \<open>Date.prototype.toISOString\<close>; \<open>qs_parse\<close> and \<open>qs_string\<close> are \<open>new URLSearchParams(s)\<close>
  and its \<open>toString\<close>, \<open>encode\<close> is \<open>encodeURIComponent\<close>, and \<open>t\<close> the translator. The incident
  endpoints are the arguments \<open>scan\<close> and \<open>list\<close>.

  A permalink is shown to read back as the investigation it was written from, a parsed link to
  hold two real instants whatever it says, and a committed window to be non-empty and never
  to reach past the instant being viewed.
\<close>

datatype ScopeKind = sk_pair | sk_node | sk_target | sk_zone_pair | sk_cluster

fun scope_kind_name :: "ScopeKind \<Rightarrow> jstring" where
  "scope_kind_name sk_pair = js ''pair''"
| "scope_kind_name sk_node = js ''node''"
| "scope_kind_name sk_target = js ''target''"
| "scope_kind_name sk_zone_pair = js ''zone-pair''"
| "scope_kind_name sk_cluster = js ''cluster''"

definition SCOPE_KINDS :: "ScopeKind list" where
  "SCOPE_KINDS = [sk_pair, sk_node, sk_target, sk_zone_pair, sk_cluster]"

definition PAIR_SEPARATOR :: jstring where
  "PAIR_SEPARATOR = [PAIR_ARROW]"

record InvestigationScope =
  sc_kind :: ScopeKind
  sc_a :: jstring
  sc_b :: jstring

record InvestigationParams = InvestigationScope +
  ip_from :: date
  ip_to :: date

definition DEFAULT_RANGE_SECONDS :: jsnum where
  "DEFAULT_RANGE_SECONDS = Fin 3600"

definition parseInstant :: "(jstring \<Rightarrow> date) \<Rightarrow> jstring option \<Rightarrow> date option" where
  "parseInstant parse raw =
     (case raw of
        None \<Rightarrow> None
      | Some s \<Rightarrow> if s = [] then None else let d = parse s in if is_nan d then None else Some d)"

definition MAX_TIME_MS :: jsnum where
  "MAX_TIME_MS = Fin 8640000000000000"

definition shiftInstant :: "date \<Rightarrow> jsnum \<Rightarrow> date" where
  "shiftInstant base deltaMs =
     (let ms = base + deltaMs
      in if \<not> is_finite ms then new_date (if deltaMs < Fin 0 then - MAX_TIME_MS else MAX_TIME_MS)
         else new_date (jmin (jmax ms (- MAX_TIME_MS)) MAX_TIME_MS))"

definition kind_of_name :: "jstring \<Rightarrow> ScopeKind option" where
  "kind_of_name s = find (\<lambda>k. scope_kind_name k = s) SCOPE_KINDS"

text \<open>The two names a \<open>?scope=\<close> value holds under a kind.\<close>

definition split_scope :: "ScopeKind \<Rightarrow> jstring \<Rightarrow> jstring \<times> jstring" where
  "split_scope kind rawScope =
     (if kind = sk_pair \<or> kind = sk_zone_pair
      then (case index_of rawScope PAIR_SEPARATOR of
              None \<Rightarrow> (rawScope, [])
            | Some i \<Rightarrow> (take i rawScope, drop (i + length PAIR_SEPARATOR) rawScope))
      else if kind \<noteq> sk_cluster then (rawScope, [])
      else ([], []))"

definition or_blank :: "jstring option \<Rightarrow> jstring" where
  "or_blank s = (case s of None \<Rightarrow> [] | Some x \<Rightarrow> x)"

definition parseInvestigationParams :: "(jstring \<Rightarrow> search_params) \<Rightarrow> (jstring \<Rightarrow> date) \<Rightarrow> jstring \<Rightarrow> date \<Rightarrow> InvestigationParams" where
  "parseInvestigationParams qs_parse parse search now =
     (let qs = qs_parse search;
          kind = (case kind_of_name (or_blank (map_of qs (js ''kind''))) of Some k \<Rightarrow> k | None \<Rightarrow> sk_cluster);
          rawScope = normalizePairInput (or_blank (map_of qs (js ''scope'')));
          (a, b) = split_scope kind rawScope;
          parsedFrom = parseInstant parse (map_of qs (js ''from''));
          parsedTo = parseInstant parse (map_of qs (js ''to''));
          span = DEFAULT_RANGE_SECONDS * Fin 1000;
          to_at = (case parsedTo of Some d \<Rightarrow> d | None \<Rightarrow>
                 (case parsedFrom of Some d \<Rightarrow> shiftInstant d span | None \<Rightarrow> now));
          from_at = (case parsedFrom of Some d \<Rightarrow> d | None \<Rightarrow> shiftInstant to_at (- span))
      in \<lparr>sc_kind = kind, sc_a = a, sc_b = b, ip_from = from_at, ip_to = to_at\<rparr>)"

definition ignoredInvestigationParams :: "(jstring \<Rightarrow> search_params) \<Rightarrow> (jstring \<Rightarrow> date) \<Rightarrow> jstring \<Rightarrow> jstring list" where
  "ignoredInvestigationParams qs_parse parse search =
     (let qs = qs_parse search;
          rawKind = map_of qs (js ''kind'');
          kindOk = (case rawKind of None \<Rightarrow> True | Some k \<Rightarrow> kind_of_name k \<noteq> None);
          rawScope = map_of qs (js ''scope'')
      in (if \<not> kindOk then [js ''kind''] else []) @
         (if rawScope \<noteq> None \<and> rawScope \<noteq> Some [] \<and>
             (if kindOk then rawKind = None \<or> rawKind = Some (js ''cluster'') else True)
          then [js ''scope''] else []) @
         filter (\<lambda>key. map_of qs key \<noteq> None \<and> parseInstant parse (map_of qs key) = None) [js ''from'', js ''to''])"

definition exportFileName :: "(date \<Rightarrow> jstring) \<Rightarrow> date \<Rightarrow> jstring" where
  "exportFileName toISO from_at =
     (let stamp = (if is_nan from_at then js ''unknown''
                   else map (\<lambda>c. if c = 58 \<or> c = 46 then 45 else c) (toISO from_at))
      in js ''investigation-'' @ stamp @ js ''.json'')"

definition scopeParamValue :: "'a InvestigationScope_scheme \<Rightarrow> jstring" where
  "scopeParamValue scope =
     (if sc_kind scope = sk_cluster then []
      else if sc_kind scope = sk_pair \<or> sc_kind scope = sk_zone_pair
      then (if sc_b scope = [] then sc_a scope else sc_a scope @ PAIR_SEPARATOR @ sc_b scope)
      else sc_a scope)"

definition investigation_query :: "(date \<Rightarrow> jstring) \<Rightarrow> InvestigationParams \<Rightarrow> search_params" where
  "investigation_query toISO p =
     (let qs = params_set (js ''kind'') (scope_kind_name (sc_kind p)) [];
          scope = scopeParamValue p;
          qs = (if scope \<noteq> [] then params_set (js ''scope'') scope qs else qs);
          qs = params_set (js ''from'') (toISO (ip_from p)) qs
      in params_set (js ''to'') (toISO (ip_to p)) qs)"

definition investigationParamsToSearch :: "(search_params \<Rightarrow> jstring) \<Rightarrow> (date \<Rightarrow> jstring) \<Rightarrow> InvestigationParams \<Rightarrow> jstring" where
  "investigationParamsToSearch qs_string toISO p = js ''?'' @ qs_string (investigation_query toISO p)"

definition scopeIncompleteReason :: "translator \<Rightarrow> 'a InvestigationScope_scheme \<Rightarrow> jstring option" where
  "scopeIncompleteReason t scope =
     (case sc_kind scope of
        sk_pair \<Rightarrow>
          (if sc_a scope = [] then Some (t (js ''scope.incomplete.sourceNode'') [])
           else if sc_b scope = [] then Some (t (js ''scope.incomplete.destinationNode'') [])
           else if sc_a scope = sc_b scope then Some (t (js ''scope.incomplete.samePair'') [])
           else None)
      | sk_zone_pair \<Rightarrow>
          (if sc_a scope = [] then Some (t (js ''scope.incomplete.sourceZone'') [])
           else if sc_b scope = [] then Some (t (js ''scope.incomplete.destinationZone'') [])
           else None)
      | sk_node \<Rightarrow> (if sc_a scope = [] then Some (t (js ''scope.incomplete.node'') []) else None)
      | sk_target \<Rightarrow> (if sc_a scope = [] then Some (t (js ''scope.incomplete.target'') []) else None)
      | sk_cluster \<Rightarrow> None)"

datatype WindowCommit =
    Committed (wc_from: date) (wc_to: date) (wc_clamped: bool)
  | Refused jstring

definition PROMQL_MAX_RANGE_MS :: jsnum where
  "PROMQL_MAX_RANGE_MS = Fin (24 * 60 * 60 * 1000)"

definition rangeExceedsPromBound :: "date \<Rightarrow> date \<Rightarrow> bool" where
  "rangeExceedsPromBound from_at to_at \<longleftrightarrow> PROMQL_MAX_RANGE_MS < to_at - from_at"

definition commitWindow :: "translator \<Rightarrow> date \<Rightarrow> date \<Rightarrow> date option \<Rightarrow> WindowCommit" where
  "commitWindow t from_at to_at viewed =
     (if \<not> is_finite from_at \<or> \<not> is_finite to_at then Refused (t (js ''window.inverted'') [])
      else if to_at \<le> from_at then Refused (t (js ''window.inverted'') [])
      else case (case viewed of Some d \<Rightarrow> if is_finite d then Some d else None | None \<Rightarrow> None) of
             None \<Rightarrow> Committed from_at to_at False
           | Some instant \<Rightarrow>
               if instant \<le> from_at then Refused (t (js ''window.afterInstant'') [])
               else if instant < to_at then Committed from_at instant True
               else Committed from_at to_at False)"

definition scopeFilterValue :: "'a InvestigationScope_scheme \<Rightarrow> jstring" where
  "scopeFilterValue scope =
     (case sc_kind scope of
        sk_pair \<Rightarrow> sc_a scope @ PAIR_SEPARATOR @ sc_b scope
      | sk_node \<Rightarrow> sc_a scope
      | sk_target \<Rightarrow> sc_a scope
      | _ \<Rightarrow> [])"

text \<open>\<open>None\<close> is the \<open>undefined\<close> that asks for every scope.\<close>

definition scopesToQuery :: "'a InvestigationScope_scheme \<Rightarrow> jstring option list" where
  "scopesToQuery scope = (let value = scopeFilterValue scope in if value = [] then [None] else [Some value, Some []])"

definition scopeCaptionValue :: "translator \<Rightarrow> 'a InvestigationScope_scheme \<Rightarrow> jstring" where
  "scopeCaptionValue t scope =
     (if hd (scopesToQuery scope) = None then t (js ''scope.allScopes'') [] else scopeFilterValue scope)"

record ScopeOptionSource =
  so_nodes :: "(jstring option \<times> jstring option) list"
  so_agents :: "(jstring option \<times> jstring option) list"

definition dedupeSorted :: "jstring option list \<Rightarrow> jstring list" where
  "dedupeSorted values = sort (js_set (map the (filter (\<lambda>v. v \<noteq> None \<and> v \<noteq> Some []) values)))"

text \<open>Absent lists are empty; a node is its name and zone.\<close>

definition scopeNodeOptions :: "ScopeOptionSource \<Rightarrow> jstring list" where
  "scopeNodeOptions topo = dedupeSorted (map fst (so_nodes topo) @ map fst (so_agents topo))"

definition scopeZoneOptions :: "ScopeOptionSource \<Rightarrow> jstring list" where
  "scopeZoneOptions topo = dedupeSorted (map snd (so_nodes topo) @ map snd (so_agents topo))"

definition INVESTIGATE_PATH :: jstring where
  "INVESTIGATE_PATH = js ''/investigate''"

definition buildInvestigateURL :: "(search_params \<Rightarrow> jstring) \<Rightarrow> (date \<Rightarrow> jstring) \<Rightarrow> InvestigationScope \<Rightarrow> date \<Rightarrow> jsnum \<Rightarrow> jstring" where
  "buildInvestigateURL qs_string toISO scope now rangeSeconds =
     (let from_at = new_date (now - rangeSeconds * Fin 1000)
      in INVESTIGATE_PATH @ investigationParamsToSearch qs_string toISO
           \<lparr>sc_kind = sc_kind scope, sc_a = sc_a scope, sc_b = sc_b scope, ip_from = from_at, ip_to = now\<rparr>)"

definition incidentPermalink :: "(jstring \<Rightarrow> jstring) \<Rightarrow> jstring \<Rightarrow> jstring" where
  "incidentPermalink encode i = INVESTIGATE_PATH @ js ''?incident='' @ encode i"

record Incident =
  in_id :: jstring
  in_scope :: jstring
  in_fromAt :: jstring
  in_toAt :: "jstring option"
  in_createdAt :: jstring
  in_resolvedAt :: "jstring option"

definition incidentOpenAt :: "(jstring \<Rightarrow> jsnum) \<Rightarrow> Incident \<Rightarrow> date \<Rightarrow> bool" where
  "incidentOpenAt parse i viewed =
     (if \<not> parse (in_createdAt i) \<le> viewed then False
      else in_resolvedAt i = None \<or> in_resolvedAt i = Some [] \<or> viewed < parse (the (in_resolvedAt i)))"

definition openIncidents :: "(jsnum \<Rightarrow> (Incident \<Rightarrow> bool) \<Rightarrow> jsnum \<Rightarrow> Incident list \<times> bool) \<Rightarrow> (jstring \<Rightarrow> jsnum \<Rightarrow> Incident list) \<Rightarrow>
    (jstring \<Rightarrow> jsnum) \<Rightarrow> date option \<Rightarrow> jsnum \<Rightarrow> jsnum \<Rightarrow> Incident list \<times> bool" where
  "openIncidents scan list_open parse viewed want pageSize =
     (case viewed of
        Some d \<Rightarrow> scan pageSize (\<lambda>i. incidentOpenAt parse i d) want
      | None \<Rightarrow> (list_open (js ''open'') want, False))"

datatype PinKind = pin_event | pin_audit | pin_annotation | pin_snapshot | pin_run | pin_k8s

fun PIN_KIND_BY_TIMELINE_KIND :: "TimelineKind \<Rightarrow> PinKind option" where
  "PIN_KIND_BY_TIMELINE_KIND k_event = Some pin_event"
| "PIN_KIND_BY_TIMELINE_KIND k_audit = Some pin_audit"
| "PIN_KIND_BY_TIMELINE_KIND k_annotation = Some pin_annotation"
| "PIN_KIND_BY_TIMELINE_KIND k_path_change = Some pin_snapshot"
| "PIN_KIND_BY_TIMELINE_KIND k_run = Some pin_run"
| "PIN_KIND_BY_TIMELINE_KIND k_k8s = Some pin_k8s"
| "PIN_KIND_BY_TIMELINE_KIND k_maintenance = None"
| "PIN_KIND_BY_TIMELINE_KIND k_threshold = None"
| "PIN_KIND_BY_TIMELINE_KIND k_alert = None"

fun pin_kind_name :: "PinKind \<Rightarrow> jstring" where
  "pin_kind_name pin_event = js ''event''"
| "pin_kind_name pin_audit = js ''audit''"
| "pin_kind_name pin_annotation = js ''annotation''"
| "pin_kind_name pin_snapshot = js ''snapshot''"
| "pin_kind_name pin_run = js ''run''"
| "pin_kind_name pin_k8s = js ''k8s''"

definition pinKey :: "PinKind \<times> jstring \<Rightarrow> jstring" where
  "pinKey ref = pin_kind_name (fst ref) @ 0 # snd ref"

definition pinnedRefFor :: "TimelineEntry \<Rightarrow> (PinKind \<times> jstring) option" where
  "pinnedRefFor entry =
     (case (PIN_KIND_BY_TIMELINE_KIND (te_kind entry), te_ref entry) of
        (Some kind, Some (rk, i)) \<Rightarrow> if i = [] then None else Some (kind, i)
      | _ \<Rightarrow> None)"

definition scopeFromIncidentScope :: "jstring \<Rightarrow> jstring list \<Rightarrow> InvestigationScope" where
  "scopeFromIncidentScope scope targetNames =
     (if scope = [] then \<lparr>sc_kind = sk_cluster, sc_a = [], sc_b = []\<rparr>
      else case index_of scope PAIR_SEPARATOR of
             Some i \<Rightarrow> \<lparr>sc_kind = sk_pair, sc_a = take i scope, sc_b = drop (i + length PAIR_SEPARATOR) scope\<rparr>
           | None \<Rightarrow>
               if scope \<in> set targetNames then \<lparr>sc_kind = sk_target, sc_a = scope, sc_b = []\<rparr>
               else \<lparr>sc_kind = sk_node, sc_a = scope, sc_b = []\<rparr>)"

definition incidentParams :: "(jstring \<Rightarrow> date) \<Rightarrow> Incident \<Rightarrow> jstring list \<Rightarrow> date \<Rightarrow> InvestigationParams" where
  "incidentParams parse incident targetNames now =
     (let scope = scopeFromIncidentScope (in_scope incident) targetNames;
          parsedTo = parseInstant parse (in_toAt incident);
          to_at = (case parsedTo of Some d \<Rightarrow> d | None \<Rightarrow> now);
          from_at = (case parseInstant parse (Some (in_fromAt incident)) of
              Some d \<Rightarrow> d | None \<Rightarrow> shiftInstant to_at (- DEFAULT_RANGE_SECONDS * Fin 1000))
      in \<lparr>sc_kind = sc_kind scope, sc_a = sc_a scope, sc_b = sc_b scope, ip_from = from_at, ip_to = to_at\<rparr>)"

subsection \<open>The scope's own queries\<close>

definition INV_RATE_WINDOW :: jstring where
  "INV_RATE_WINDOW = js ''5m''"

text \<open>\<open>name="value"\<close> with the value escaped.\<close>

definition label_is :: "string \<Rightarrow> jstring \<Rightarrow> jstring" where
  "label_is name v = js name @ js ''='' @ [34] @ escapeLabelValue v @ [34]"

definition peerSelector :: "'a InvestigationScope_scheme \<Rightarrow> jstring" where
  "peerSelector scope =
     (case sc_kind scope of
        sk_pair \<Rightarrow> label_is ''source_node'' (sc_a scope) @ js '','' @ label_is ''destination_node'' (sc_b scope)
      | sk_node \<Rightarrow> label_is ''source_node'' (sc_a scope)
      | sk_zone_pair \<Rightarrow> label_is ''source_zone'' (sc_a scope) @ js '','' @ label_is ''destination_zone'' (sc_b scope)
      | _ \<Rightarrow> [])"

definition externalSelector :: "'a InvestigationScope_scheme \<Rightarrow> jstring" where
  "externalSelector scope = label_is ''target'' (sc_a scope)"

definition braces :: "jstring \<Rightarrow> jstring" where
  "braces sel = (if sel = [] then [] else js ''{'' @ sel @ js ''}'')"

definition withResult :: "jstring \<Rightarrow> jstring \<Rightarrow> jstring" where
  "withResult sel result =
     (if sel = [] then js ''{result='' @ [34] @ result @ [34] @ js ''}''
      else js ''{'' @ sel @ js '',result='' @ [34] @ result @ [34] @ js ''}'')"

definition tag :: "jstring \<Rightarrow> jstring \<Rightarrow> jstring" where
  "tag expr v = js ''label_replace('' @ expr @ js '', '' @ [34] @ js ''signal'' @ [34] @ js '', '' @ [34] @ v @ [34] @
     js '', '' @ [34, 34] @ js '', '' @ [34, 34] @ js '')''"

definition investigationLossQuery :: "'a InvestigationScope_scheme \<Rightarrow> jstring" where
  "investigationLossQuery scope =
     (if sc_kind scope = sk_target
      then js ''max('' @ METRICS_PREFIX @ js ''_external_packet_loss_ratio'' @ braces (externalSelector scope) @ js '')''
      else let sel = braces (peerSelector scope)
           in js ''max('' @
              tag (METRICS_PREFIX @ js ''_icmp_packet_loss_ratio'' @ sel) (js ''icmp'') @ js '' or '' @
              tag (METRICS_PREFIX @ js ''_udp_packet_loss_ratio'' @ sel) (js ''udp'') @ js '')'')"

definition scope_p95 :: "jstring \<Rightarrow> jstring \<Rightarrow> jstring" where
  "scope_p95 metric sel =
     js ''histogram_quantile(0.95, sum by (le) (rate('' @ metric @ sel @ js ''['' @ INV_RATE_WINDOW @ js ''])))''"

definition investigationRttQuery :: "'a InvestigationScope_scheme \<Rightarrow> jstring" where
  "investigationRttQuery scope =
     (if sc_kind scope = sk_target
      then js ''max('' @ scope_p95 (METRICS_PREFIX @ js ''_external_rtt_seconds_bucket'') (braces (externalSelector scope)) @ js '')''
      else let sel = braces (peerSelector scope)
           in js ''max('' @
              tag (scope_p95 (METRICS_PREFIX @ js ''_tcp_total_duration_seconds_bucket'') sel) (js ''tcp'') @ js '' or '' @
              tag (scope_p95 (METRICS_PREFIX @ js ''_udp_rtt_seconds_bucket'') sel) (js ''udp'') @ js '' or '' @
              tag (scope_p95 (METRICS_PREFIX @ js ''_icmp_rtt_seconds_bucket'') sel) (js ''icmp'') @ js '')'')"

definition orZero :: "jstring \<Rightarrow> jstring" where
  "orZero expr = js ''('' @ expr @ js '' or vector(0))''"

definition rate_sum :: "jstring \<Rightarrow> jstring" where
  "rate_sum selected = js ''sum(rate('' @ selected @ js ''['' @ INV_RATE_WINDOW @ js '']))''"

definition investigationFailRatioQuery :: "'a InvestigationScope_scheme \<Rightarrow> jstring" where
  "investigationFailRatioQuery scope =
     (if sc_kind scope = sk_target
      then let sel = externalSelector scope; m = METRICS_PREFIX @ js ''_external_results_total''
           in orZero (rate_sum (m @ withResult sel (js ''fail''))) @ js '' / '' @ orZero (rate_sum (m @ braces sel))
      else let sel = peerSelector scope;
               metric = (\<lambda>p. METRICS_PREFIX @ js ''_'' @ protocol_name p @ js ''_results_total'');
               fails = join (js '' + '') (map (\<lambda>p. orZero (rate_sum (metric p @ withResult sel (js ''fail'')))) PROTOCOLS);
               totals = join (js '' + '') (map (\<lambda>p. orZero (rate_sum (metric p @ braces sel))) PROTOCOLS)
           in js ''('' @ fails @ js '') / ('' @ totals @ js '')'')"

text \<open>A label value written into a selector reads back as the name, whatever it contains.\<close>

lemma label_is_reads_back: "read_quoted (drop (length name + 2) (label_is name v @ rest)) = Some (v, rest)"
  by (simp add: label_is_def read_escaped)

subsection \<open>Instants\<close>

lemma new_date_valid:
  assumes "\<bar>r\<bar> \<le> MAX_TIME"
  shows "valid_date (new_date (Fin r))"
proof -
  let ?n = "if r < 0 then \<lceil>r\<rceil> else \<lfloor>r\<rfloor>"
  have "\<bar>of_int ?n\<bar> \<le> \<bar>r\<bar>"
  proof (cases "r < 0")
    case True
    then have "of_int \<lceil>r\<rceil> \<le> (0 :: rat)" "r \<le> of_int \<lceil>r\<rceil>" by simp_all
    then have "\<bar>of_int \<lceil>r\<rceil>\<bar> \<le> \<bar>r\<bar>" by linarith
    then show ?thesis using True by simp
  next
    case False
    then have "0 \<le> \<lfloor>r\<rfloor>" by simp
    then show ?thesis using False by simp
  qed
  then have "\<bar>of_int ?n :: rat\<bar> \<le> MAX_TIME" using assms by linarith
  moreover have "new_date (Fin r) = jint ?n" using assms by simp
  ultimately show ?thesis unfolding valid_date_def by blast
qed

lemma shiftInstant_valid: "valid_date (shiftInstant base deltaMs)"
proof (cases "base + deltaMs")
  case (Fin r)
  have "\<bar>min (max r (- MAX_TIME)) MAX_TIME\<bar> \<le> MAX_TIME" by (simp add: abs_le_iff min_def max_def MAX_TIME_def)
  moreover have "shiftInstant base deltaMs = new_date (Fin (min (max r (- MAX_TIME)) MAX_TIME))"
    unfolding shiftInstant_def Let_def Fin MAX_TIME_MS_def by (simp add: MAX_TIME_def)
  ultimately show ?thesis using new_date_valid by metis
qed (simp_all add: shiftInstant_def MAX_TIME_MS_def new_date_valid MAX_TIME_def del: new_date.simps)

lemma parseInstant_valid: "(\<And>s. valid_date (parse s) \<or> parse s = NaN) \<Longrightarrow> parseInstant parse raw = Some d \<Longrightarrow> valid_date d"
  by (auto simp: parseInstant_def Let_def is_nan_def split: option.splits if_splits)

lemma kind_of_scope_name [simp]: "kind_of_name (scope_kind_name k) = Some k"
  by (cases k) (simp_all add: kind_of_name_def SCOPE_KINDS_def)

lemma split_scopeParamValue:
  assumes "case sc_kind p of sk_cluster \<Rightarrow> sc_a p = [] \<and> sc_b p = [] | sk_pair \<Rightarrow> PAIR_ARROW \<notin> set (sc_a p)
    | sk_zone_pair \<Rightarrow> PAIR_ARROW \<notin> set (sc_a p) | _ \<Rightarrow> sc_b p = []"
  shows "split_scope (sc_kind p) (scopeParamValue p) = (sc_a p, sc_b p)"
proof -
  have "index_of (sc_a p @ PAIR_SEPARATOR @ sc_b p) PAIR_SEPARATOR = Some (length (sc_a p))" if "PAIR_ARROW \<notin> set (sc_a p)"
    using index_of_single_append [OF that] by (simp add: PAIR_SEPARATOR_def)
  moreover have "index_of (sc_a p) PAIR_SEPARATOR = None" if "PAIR_ARROW \<notin> set (sc_a p)"
    using that by (simp add: PAIR_SEPARATOR_def index_of_single_None)
  ultimately show ?thesis using assms
    by (cases "sc_kind p") (simp_all add: split_scope_def scopeParamValue_def PAIR_SEPARATOR_def)
qed

lemma investigation_query_get:
  "map_of (investigation_query toISO p) (js ''kind'') = Some (scope_kind_name (sc_kind p))"
  "map_of (investigation_query toISO p) (js ''scope'') = (if scopeParamValue p = [] then None else Some (scopeParamValue p))"
  "map_of (investigation_query toISO p) (js ''from'') = Some (toISO (ip_from p))"
  "map_of (investigation_query toISO p) (js ''to'') = Some (toISO (ip_to p))"
  by (simp_all add: investigation_query_def Let_def map_of_params_set)

text \<open>A parsed link depends on four parameters, whatever else the address carries.\<close>

lemma parse_written:
  assumes "map_of (qs_parse search) (js ''kind'') = Some (scope_kind_name (sc_kind p))"
    "map_of (qs_parse search) (js ''scope'') = (if scopeParamValue p = [] then None else Some (scopeParamValue p))"
    "map_of (qs_parse search) (js ''from'') = Some (toISO (ip_from p))"
    "map_of (qs_parse search) (js ''to'') = Some (toISO (ip_to p))"
    and iso: "\<forall>d. valid_date d \<longrightarrow> toISO d \<noteq> [] \<and> parse (toISO d) = d"
    and real: "valid_date (ip_from p)" "valid_date (ip_to p)"
    and norm: "normalizePairInput (scopeParamValue p) = scopeParamValue p"
    and names: "case sc_kind p of sk_cluster \<Rightarrow> sc_a p = [] \<and> sc_b p = [] | sk_pair \<Rightarrow> PAIR_ARROW \<notin> set (sc_a p)
      | sk_zone_pair \<Rightarrow> PAIR_ARROW \<notin> set (sc_a p) | _ \<Rightarrow> sc_b p = []"
  shows "parseInvestigationParams qs_parse parse search now = p"
proof -
  have scope: "normalizePairInput (or_blank (if scopeParamValue p = [] then None else Some (scopeParamValue p))) = scopeParamValue p"
    using norm by (cases "scopeParamValue p = []") (simp_all add: or_blank_def)
  have inst: "parseInstant parse (Some (toISO d)) = Some d" if "valid_date d" for d
    using iso that by (auto simp: parseInstant_def valid_date_def)
  show ?thesis
    unfolding parseInvestigationParams_def Let_def assms(1-4) scope
    using split_scopeParamValue [OF names] inst [OF real(1)] inst [OF real(2)]
    by (simp add: or_blank_def)
qed

subsection \<open>What a link, a scope and a window guarantee\<close>

text \<open>
  C14: a permalink written from an investigation reads back as that very
  investigation, at any time, when its window is real, its names are in the form the input
  fields leave them in and a pair's source holds no arrow. The laws assumed of the library are
  that a query string parses to the parameters it was printed from and an ISO instant to
  itself.
\<close>

theorem permalink_roundtrip:
  assumes "\<forall>ps. qs_parse (js ''?'' @ qs_string ps) = ps"
    and "\<forall>d. valid_date d \<longrightarrow> toISO d \<noteq> [] \<and> parse (toISO d) = d"
    and "valid_date (ip_from p)" "valid_date (ip_to p)"
    and "normalizePairInput (scopeParamValue p) = scopeParamValue p"
    and "case sc_kind p of sk_cluster \<Rightarrow> sc_a p = [] \<and> sc_b p = [] | sk_pair \<Rightarrow> PAIR_ARROW \<notin> set (sc_a p)
      | sk_zone_pair \<Rightarrow> PAIR_ARROW \<notin> set (sc_a p) | _ \<Rightarrow> sc_b p = []"
  shows "parseInvestigationParams qs_parse parse (investigationParamsToSearch qs_string toISO p) now = p"
proof -
  have qs: "qs_parse (investigationParamsToSearch qs_string toISO p) = investigation_query toISO p"
    using assms(1) by (simp add: investigationParamsToSearch_def)
  show ?thesis by (rule parse_written [OF _ _ _ _ assms(2-6)]) (simp_all only: qs investigation_query_get)
qed

text \<open>A toy codec of query strings, and of instants, for the witnesses below.\<close>

fun put_params :: "search_params \<Rightarrow> jstring" where
  "put_params [] = []"
| "put_params ((k, v) # ps) = length k # length v # k @ v @ put_params ps"

fun get_params :: "jstring \<Rightarrow> search_params" where
  "get_params (m # n # s) = (take m s, take n (drop m s)) # get_params (drop (m + n) s)"
| "get_params s = []"

lemma get_put_params: "get_params (put_params ps) = ps"
  by (induction ps rule: put_params.induct) simp_all

definition put_date :: "date \<Rightarrow> jstring" where
  "put_date d = (let n = \<lfloor>fin_val d\<rfloor> in [if n < 0 then 1 else 0, nat \<bar>n\<bar>])"

definition get_date :: "jstring \<Rightarrow> date" where
  "get_date s = (if length s = 2 \<and> s ! 1 \<le> 8640000000000000 then jint (if s ! 0 = 1 then - int (s ! 1) else int (s ! 1)) else NaN)"

lemma get_put_date: "valid_date d \<Longrightarrow> put_date d \<noteq> [] \<and> get_date (put_date d) = d"
proof -
  assume "valid_date d"
  then obtain n where n: "d = jint n" "\<bar>of_int n :: rat\<bar> \<le> MAX_TIME" by (auto simp: valid_date_def)
  then have "\<bar>n\<bar> \<le> 8640000000000000" unfolding MAX_TIME_def by linarith
  then have "nat \<bar>n\<bar> \<le> 8640000000000000" by simp
  then show ?thesis using n(1) by (simp add: put_date_def get_date_def)
qed

lemma get_date_valid: "valid_date (get_date s) \<or> get_date s = NaN"
proof (cases "length s = 2 \<and> s ! 1 \<le> 8640000000000000")
  case True
  let ?n = "if s ! 0 = 1 then - int (s ! 1) else int (s ! 1)"
  have "\<bar>?n\<bar> \<le> 8640000000000000" using True by auto
  then have "\<bar>of_int ?n :: rat\<bar> \<le> MAX_TIME" unfolding MAX_TIME_def by linarith
  moreover have "get_date s = jint ?n" using True by (simp add: get_date_def)
  ultimately show ?thesis unfolding valid_date_def by blast
qed (auto simp: get_date_def)

definition demo_params :: InvestigationParams where
  "demo_params = \<lparr>sc_kind = sk_pair, sc_a = js ''n1'', sc_b = js ''n2'', ip_from = jint 1000, ip_to = jint 5000\<rparr>"

theorem permalink_roundtrip_witness:
  "parseInvestigationParams (get_params \<circ> tl) get_date (investigationParamsToSearch put_params put_date demo_params) (jint 0) = demo_params"
proof (rule permalink_roundtrip)
  show "\<forall>ps. (get_params \<circ> tl) (js ''?'' @ put_params ps) = ps" by (simp add: get_put_params)
  show "\<forall>d. valid_date d \<longrightarrow> put_date d \<noteq> [] \<and> get_date (put_date d) = d" by (simp add: get_put_date)
  show "valid_date (ip_from demo_params)" "valid_date (ip_to demo_params)"
    by (auto simp: valid_date_def demo_params_def MAX_TIME_def intro!: exI [of _ 1000] exI [of _ 5000])
  have "scopeParamValue demo_params = [110, 49, PAIR_ARROW, 110, 50]"
    by (simp add: scopeParamValue_def demo_params_def PAIR_SEPARATOR_def)
  moreover have c: "clean [110, 49, PAIR_ARROW, 110, 50]" "trimmed [110, 49, PAIR_ARROW, 110, 50]"
    by (simp_all add: trimmed_def is_space_def PAIR_ARROW_def)
  have "normalizePairInput [110, 49, PAIR_ARROW, 110, 50] = [110, 49, PAIR_ARROW, 110, 50]"
    unfolding normalizePairInput_def trim_id [OF c(2)] by (rule replace_clean_id [OF c(1)])
  ultimately show "normalizePairInput (scopeParamValue demo_params) = scopeParamValue demo_params"
    by (simp only:)
qed (simp add: demo_params_def PAIR_ARROW_def)

text \<open>
  Whatever a link says, the window read from it has two real
  instants, so no later \<open>toISOString\<close> throws; a link that names an edge keeps that edge.
\<close>

lemma parseInvestigationParams_valid:
  assumes "\<forall>s. valid_date (parse s) \<or> parse s = NaN" "valid_date now"
    and "p = parseInvestigationParams qs_parse parse search now"
  shows "valid_date (ip_from p) \<and> valid_date (ip_to p) \<and>
    (\<forall>d. parseInstant parse (map_of (qs_parse search) (js ''from'')) = Some d \<longrightarrow> ip_from p = d) \<and>
    (\<forall>d. parseInstant parse (map_of (qs_parse search) (js ''to'')) = Some d \<longrightarrow> ip_to p = d)"
proof -
  have v: "valid_date d" if "parseInstant parse raw = Some d" for raw d
    using parseInstant_valid [OF _ that] assms(1) by blast
  show ?thesis unfolding assms(3)
    using assms(2) v shiftInstant_valid
    by (auto simp: parseInvestigationParams_def Let_def split: prod.split option.split)
qed

text \<open>
  A committed window is real and non-empty, starts where it was asked to,
  ends no later than it was asked to and no later than the instant being viewed, and says it
  was clamped exactly when its end moved. A window is refused only when it is unreadable or
  empty, or begins at or after that instant.
\<close>

lemma commitWindow_safe:
  "case commitWindow t from_at to_at viewed of
     Committed a b clamped \<Rightarrow>
       a = from_at \<and> is_finite a \<and> is_finite b \<and> a < b \<and> b \<le> to_at \<and>
       (\<forall>i. viewed = Some i \<longrightarrow> is_finite i \<longrightarrow> b \<le> i) \<and> (clamped \<longleftrightarrow> b \<noteq> to_at)
   | Refused reason \<Rightarrow>
       \<not> (is_finite from_at \<and> is_finite to_at \<and> from_at < to_at) \<or>
       (\<exists>i. viewed = Some i \<and> is_finite i \<and> i \<le> from_at)"
  by (cases from_at; cases to_at; cases viewed) (auto simp: commitWindow_def is_finite_iff split: option.split if_splits)

text \<open>An incident's stored scope reopens as the scope it was saved from.\<close>

lemma incident_scope_roundtrip:
  assumes "case sc_kind s of sk_cluster \<Rightarrow> sc_a s = [] \<and> sc_b s = [] | sk_pair \<Rightarrow> PAIR_ARROW \<notin> set (sc_a s)
    | sk_target \<Rightarrow> sc_a s \<in> set targets \<and> sc_a s \<noteq> [] \<and> PAIR_ARROW \<notin> set (sc_a s) \<and> sc_b s = []
    | sk_node \<Rightarrow> sc_a s \<notin> set targets \<and> sc_a s \<noteq> [] \<and> PAIR_ARROW \<notin> set (sc_a s) \<and> sc_b s = []
    | sk_zone_pair \<Rightarrow> False"
  shows "scopeFromIncidentScope (scopeFilterValue s) targets = s"
proof -
  have "index_of (sc_a s @ PAIR_SEPARATOR @ sc_b s) PAIR_SEPARATOR = Some (length (sc_a s))" if "PAIR_ARROW \<notin> set (sc_a s)"
    using index_of_single_append [OF that] by (simp add: PAIR_SEPARATOR_def)
  moreover have "index_of (sc_a s) PAIR_SEPARATOR = None" if "PAIR_ARROW \<notin> set (sc_a s)"
    using that by (simp add: PAIR_SEPARATOR_def index_of_single_None)
  ultimately show ?thesis using assms
    by (cases "sc_kind s") (simp_all add: scopeFromIncidentScope_def scopeFilterValue_def PAIR_SEPARATOR_def)
qed

end
