(* ===== verification/Investigation_Entries.thy ===== *)
theory Investigation_Entries
  imports Investigation_Scope Chart_Overlays
begin

section \<open>The sources of a timeline (lib/investigation-sources.ts)\<close>

text \<open>
  Signal samples from range responses, one row builder per source, the alerts a scope keeps,
  and the export. A field the source reads through \<open>str\<close> or \<open>num\<close> may be anything on the
  wire and is a \<open>jsval\<close>. \<open>num\<close> is \<open>Number\<close> on a string, \<open>num_str\<close> is \<open>String\<close> of a non-integer,
  \<open>stringify\<close> is \<open>JSON.stringify\<close>, \<open>upper\<close> is \<open>toUpperCase\<close>, \<open>stampFull\<close> renders an instant, and
  the other arguments are those of \<open>Investigation_Scope\<close>.

  The folded samples are shown to be ascending, one per instant, with the last finite reading
  of each signal there, and the number of alerts a scope hides to be exactly that.
\<close>

subsection \<open>Signals\<close>

record MatrixSeriesEntry =
  mse_values :: "jsval list option"

definition firstSeriesValues :: "MatrixSeriesEntry PromResult option \<Rightarrow> jsval list" where
  "firstSeriesValues res =
     (case res of
        None \<Rightarrow> []
      | Some r \<Rightarrow>
          (case pr_data r of
             Some (resultType, series) \<Rightarrow>
               if \<not> pr_success r \<or> resultType \<noteq> js ''matrix'' then []
               else (case series of
                       s # _ \<Rightarrow> (case mse_values s of Some vs \<Rightarrow> vs | None \<Rightarrow> [])
                     | [] \<Rightarrow> [])
           | None \<Rightarrow> []))"

fun msOf :: "jsval \<Rightarrow> jsnum option" where
  "msOf (JNum seconds) =
     (if \<not> is_finite seconds then None
      else let ms = jround (seconds * Fin 1000) in if is_finite ms \<and> jabs ms \<le> MAX_TIME_MS then Some ms else None)"
| "msOf v = None"

text \<open>The loop body of \<open>fold\<close>: the instant and value a row applies, if any.\<close>

definition row_reading :: "(jstring \<Rightarrow> jsnum) \<Rightarrow> (jsnum \<Rightarrow> jstring) \<Rightarrow> jsval \<Rightarrow> (jsnum \<times> jsnum) option" where
  "row_reading num num_str row =
     (case row of
        JArr _ \<Rightarrow>
          (case msOf (jelem row 0) of
             None \<Rightarrow> None
           | Some ms \<Rightarrow> let v = to_number num num_str (jelem row 1) in if is_finite v then Some (ms, v) else None)
      | _ \<Rightarrow> None)"

definition sample_at :: "(jsnum, SignalSample) jmap \<Rightarrow> jsnum \<Rightarrow> SignalSample" where
  "sample_at byMs ms =
     (case map_of byMs ms of Some s \<Rightarrow> s | None \<Rightarrow> \<lparr>ss_at = new_date ms, ss_loss = None, ss_rttNs = None\<rparr>)"

definition fold_signal :: "(jsnum \<Rightarrow> SignalSample \<Rightarrow> SignalSample) \<Rightarrow> (jsnum \<times> jsnum) list \<Rightarrow>
    (jsnum, SignalSample) jmap \<Rightarrow> (jsnum, SignalSample) jmap" where
  "fold_signal set_v rows byMs = fold (\<lambda>(ms, v) m. AList.update ms (set_v v (sample_at m ms)) m) rows byMs"

definition set_loss :: "jsnum \<Rightarrow> SignalSample \<Rightarrow> SignalSample" where
  "set_loss v s = s\<lparr>ss_loss := Some v\<rparr>"

definition set_rtt :: "jsnum \<Rightarrow> SignalSample \<Rightarrow> SignalSample" where
  "set_rtt v s = s\<lparr>ss_rttNs := Some (v * Fin 1000000000)\<rparr>"

definition readings :: "(jstring \<Rightarrow> jsnum) \<Rightarrow> (jsnum \<Rightarrow> jstring) \<Rightarrow> MatrixSeriesEntry PromResult option \<Rightarrow> (jsnum \<times> jsnum) list" where
  "readings num num_str res = List.map_filter (row_reading num num_str) (firstSeriesValues res)"

definition samplesFromMatrix :: "(jstring \<Rightarrow> jsnum) \<Rightarrow> (jsnum \<Rightarrow> jstring) \<Rightarrow> MatrixSeriesEntry PromResult option \<Rightarrow>
    MatrixSeriesEntry PromResult option \<Rightarrow> SignalSample list" where
  "samplesFromMatrix num num_str loss rtt =
     js_sort by_at (map snd (fold_signal set_rtt (readings num num_str rtt)
       (fold_signal set_loss (readings num num_str loss) [])))"

subsection \<open>Rows\<close>

definition inRange :: "date \<Rightarrow> date \<Rightarrow> date \<Rightarrow> bool" where
  "inRange d from_at to_at \<longleftrightarrow> from_at \<le> d \<and> d \<le> to_at"

text \<open>The em dash U+2014, and the middle dot the details are joined with.\<close>

definition DASH :: jstring where
  "DASH = [8212]"

definition DOT :: jstring where
  "DOT = [32, 183, 32]"

fun str :: "jsval \<Rightarrow> jstring" where
  "str (JStr s) = s"
| "str v = []"

fun num_or_dash :: "jsval \<Rightarrow> tval" where
  "num_or_dash (JNum n) = (if is_finite n then TN n else TS DASH)"
| "num_or_dash v = TS DASH"

definition or_dash :: "jstring \<Rightarrow> jstring" where
  "or_dash s = (if s = [] then DASH else s)"

definition validAt :: "(jstring \<Rightarrow> date) \<Rightarrow> jstring \<Rightarrow> date option" where
  "validAt parse raw = (let d = parse raw in if is_nan d then None else Some d)"

abbreviation plain_entry :: "date \<Rightarrow> TimelineKind \<Rightarrow> severity \<Rightarrow> jstring \<Rightarrow> jstring \<Rightarrow> jstring \<Rightarrow> TimelineEntry" where
  "plain_entry instant k sev title detail i \<equiv>
     \<lparr>te_at = instant, te_kind = k, te_severity = sev, te_title = title, te_detail = Some detail, te_detailTitle = None,
      te_ref = Some (k, i), te_readOnly = False, te_notACause = False\<rparr>"

record event_row =
  er_id :: jsval
  er_type :: jsval
  er_severity :: severity
  er_scope :: jsval
  er_timestamp :: jstring
  er_summary :: jsval

definition event_entry :: "(jsnum \<Rightarrow> jstring) \<Rightarrow> (jstring \<Rightarrow> date) \<Rightarrow> event_row \<Rightarrow> TimelineEntry option" where
  "event_entry num_str parse e =
     map_option (\<lambda>instant.
       let scope = str (er_scope e)
       in plain_entry instant k_event (er_severity e) (str (er_summary e))
            (if scope = [] then str (er_type e) else str (er_type e) @ DOT @ scope) (template num_str (er_id e)))
       (validAt parse (er_timestamp e))"

definition eventEntries :: "(jsnum \<Rightarrow> jstring) \<Rightarrow> (jstring \<Rightarrow> date) \<Rightarrow> event_row list \<Rightarrow> TimelineEntry list" where
  "eventEntries num_str parse events = List.map_filter (event_entry num_str parse) events"

record AuditEntry =
  au_id :: jsval
  au_at :: jstring
  au_subjectKind :: jsval
  au_subjectId :: jsval
  au_action :: jsval
  au_resource :: jsval
  au_outcome :: jsval
  au_detail :: jsval
  au_subjectDisplay :: jsval

fun object_entries :: "jsval \<Rightarrow> (jstring \<times> jsval) list" where
  "object_entries (JObj kvs) = kvs"
| "object_entries v = []"

definition rawAuditSubject :: "AuditEntry \<Rightarrow> jstring" where
  "rawAuditSubject row =
     (if str (au_subjectKind row) = [] \<and> str (au_subjectId row) = [] then []
      else str (au_subjectKind row) @ js '':'' @ str (au_subjectId row))"

definition auditDetailLine :: "(jsval \<Rightarrow> jstring) \<Rightarrow> AuditEntry \<Rightarrow> jstring" where
  "auditDetailLine stringify row =
     (let kv = join (js '' '') (map (\<lambda>(k, v). k @ js ''='' @ (case v of JStr s \<Rightarrow> s | _ \<Rightarrow> stringify v))
            (object_entries (au_detail row)));
          subject = (if str (au_subjectDisplay row) \<noteq> [] then str (au_subjectDisplay row) else rawAuditSubject row)
      in join DOT (filter (\<lambda>s. s \<noteq> []) [subject, str (au_resource row), str (au_outcome row), kv]))"

definition READ_ONLY_AUDIT_POSTS :: "jstring list" where
  "READ_ONLY_AUDIT_POSTS = [js ''/api/v1/promql/query'', js ''/api/v1/promql/query_range'',
     js ''/api/v1/checks/projection'', js ''/api/v1/alert-rules/preview'']"

definition auditAction :: "(jstring \<Rightarrow> jstring) \<Rightarrow> jsval \<Rightarrow> jstring \<times> jstring" where
  "auditAction upper action =
     (let text = str action
      in case index_of text (js '' '') of
           None \<Rightarrow> (upper text, [])
         | Some i \<Rightarrow> (upper (take i text), trim (drop (i + 1) text)))"

definition isReadOnlyAudit :: "(jstring \<Rightarrow> jstring) \<Rightarrow> jsval \<Rightarrow> bool" where
  "isReadOnlyAudit upper action =
     (let (method, route) = auditAction upper action
      in method = js ''GET'' \<or> method = js ''POST'' \<and> route \<in> set READ_ONLY_AUDIT_POSTS)"

definition AUTH_AUDIT_POSTS :: "jstring list" where
  "AUTH_AUDIT_POSTS = [js ''/api/v1/auth/login'', js ''/api/v1/auth/logout'', js ''/api/v1/auth/password'']"

definition auditLeftConfigAlone :: "(jstring \<Rightarrow> jstring) \<Rightarrow> AuditEntry \<Rightarrow> bool" where
  "auditLeftConfigAlone upper row =
     (if au_outcome row \<noteq> JStr (js ''allowed'') then True
      else let (method, route) = auditAction upper (au_action row)
           in method = js ''POST'' \<and> route \<in> set AUTH_AUDIT_POSTS)"

definition audit_entry :: "(jsnum \<Rightarrow> jstring) \<Rightarrow> (jsval \<Rightarrow> jstring) \<Rightarrow> (jstring \<Rightarrow> jstring) \<Rightarrow> (jstring \<Rightarrow> date) \<Rightarrow> date \<Rightarrow> date \<Rightarrow>
    AuditEntry \<Rightarrow> TimelineEntry option" where
  "audit_entry num_str stringify upper parse from_at to_at row =
     (case validAt parse (au_at row) of
        None \<Rightarrow> None
      | Some instant \<Rightarrow>
          if \<not> inRange instant from_at to_at then None
          else Some \<lparr>te_at = instant, te_kind = k_audit,
            te_severity = (if au_outcome row = JStr (js ''denied'') then sev_warn
              else if au_outcome row = JStr (js ''error'') then sev_error else sev_info),
            te_title = or_dash (str (au_action row)), te_detail = Some (auditDetailLine stringify row),
            te_detailTitle = (if str (au_subjectDisplay row) \<noteq> [] \<and> rawAuditSubject row \<noteq> []
              then Some (rawAuditSubject row) else None),
            te_ref = Some (k_audit, template num_str (au_id row)),
            te_readOnly = isReadOnlyAudit upper (au_action row), te_notACause = auditLeftConfigAlone upper row\<rparr>)"

definition auditEntries :: "(jsnum \<Rightarrow> jstring) \<Rightarrow> (jsval \<Rightarrow> jstring) \<Rightarrow> (jstring \<Rightarrow> jstring) \<Rightarrow> (jstring \<Rightarrow> date) \<Rightarrow> AuditEntry list \<Rightarrow>
    date \<Rightarrow> date \<Rightarrow> TimelineEntry list" where
  "auditEntries num_str stringify upper parse rows from_at to_at =
     List.map_filter (audit_entry num_str stringify upper parse from_at to_at) rows"

definition scope_word :: "translator \<Rightarrow> jsval \<Rightarrow> jstring" where
  "scope_word t v = (if str v = [] then t (js ''scope.global'') [] else str v)"

definition annotation_entry :: "translator \<Rightarrow> (jstring \<Rightarrow> date) \<Rightarrow> Annotation \<Rightarrow> TimelineEntry option" where
  "annotation_entry t parse a =
     map_option (\<lambda>instant. plain_entry instant k_annotation sev_info (str (an_text a))
         (join DOT [scope_word t (an_scope a), or_dash (str (an_createdBy a))]) (an_id a))
       (validAt parse (an_startAt a))"

definition annotationEntries :: "translator \<Rightarrow> (jstring \<Rightarrow> date) \<Rightarrow> Annotation list \<Rightarrow> TimelineEntry list" where
  "annotationEntries t parse annotations = List.map_filter (annotation_entry t parse) annotations"

record path_snapshot =
  ps_id :: jstring
  ps_sourceNode :: jsval
  ps_destination :: jsval
  ps_pathHash :: jsval
  ps_hopCount :: jsval
  ps_traceCount :: jsval
  ps_firstSeen :: jstring

definition path_entry :: "translator \<Rightarrow> (jstring \<Rightarrow> date) \<Rightarrow> date \<Rightarrow> date \<Rightarrow> path_snapshot \<Rightarrow> TimelineEntry option" where
  "path_entry t parse from_at to_at s =
     (case validAt parse (ps_firstSeen s) of
        None \<Rightarrow> None
      | Some instant \<Rightarrow>
          if \<not> inRange instant from_at to_at then None
          else Some (plain_entry instant k_path_change sev_warn
            (t (js ''entry.pathChange.title'') [(js ''src'', TS (str (ps_sourceNode s))), (js ''sep'', TS PAIR_SEPARATOR),
               (js ''dst'', TS (str (ps_destination s)))])
            (t (js ''entry.pathChange.detail'') [(js ''hash'', TS (or_dash (take 12 (str (ps_pathHash s))))),
               (js ''hops'', num_or_dash (ps_hopCount s)), (js ''traces'', num_or_dash (ps_traceCount s))])
            (ps_id s)))"

definition pathChangeEntries :: "translator \<Rightarrow> (jstring \<Rightarrow> date) \<Rightarrow> path_snapshot list \<Rightarrow> date \<Rightarrow> date \<Rightarrow> TimelineEntry list" where
  "pathChangeEntries t parse snapshots from_at to_at = List.map_filter (path_entry t parse from_at to_at) snapshots"

definition RUN_SEVERITY :: "(jstring, severity) jmap" where
  "RUN_SEVERITY = [(js ''failed'', sev_error), (js ''partial'', sev_warn), (js ''cancelled'', sev_warn)]"

record RunSummary =
  ru_id :: jstring
  ru_createdAt :: jstring
  ru_status :: jsval
  ru_type :: jsval
  ru_initiatorKind :: jsval
  ru_initiatorId :: jsval
  ru_pairTotal :: jsval
  ru_pairOk :: jsval

definition run_entry :: "translator \<Rightarrow> (jstring \<Rightarrow> date) \<Rightarrow> RunSummary \<Rightarrow> TimelineEntry option" where
  "run_entry t parse r =
     map_option (\<lambda>instant. plain_entry instant k_run
         (case map_of RUN_SEVERITY (str (ru_status r)) of Some s \<Rightarrow> s | None \<Rightarrow> sev_info)
         (t (js ''entry.run.title'') [(js ''type'', TS (or_dash (str (ru_type r)))), (js ''status'', TS (or_dash (str (ru_status r))))])
         (t (js ''entry.run.detail'') [(js ''ok'', num_or_dash (ru_pairOk r)), (js ''total'', num_or_dash (ru_pairTotal r)),
            (js ''by'', TS (if str (ru_initiatorKind r) = [] \<and> str (ru_initiatorId r) = [] then DASH
               else str (ru_initiatorKind r) @ js '':'' @ str (ru_initiatorId r)))])
         (ru_id r))
       (validAt parse (ru_createdAt r))"

definition runEntries :: "translator \<Rightarrow> (jstring \<Rightarrow> date) \<Rightarrow> RunSummary list \<Rightarrow> TimelineEntry list" where
  "runEntries t parse runs = List.map_filter (run_entry t parse) runs"

record K8sEvent =
  ke_id :: jsval
  ke_eventTime :: jstring
  ke_kind :: jsval
  ke_name :: jsval
  ke_reason :: jsval
  ke_type :: jsval
  ke_message :: jsval
  ke_count :: jsval

definition k8s_entry :: "(jsnum \<Rightarrow> jstring) \<Rightarrow> (jstring \<Rightarrow> date) \<Rightarrow> K8sEvent \<Rightarrow> TimelineEntry option" where
  "k8s_entry num_str parse e =
     map_option (\<lambda>instant.
       let object = join (js '' '') (filter (\<lambda>s. s \<noteq> []) [str (ke_kind e), str (ke_name e)]);
           message = str (ke_message e)
       in plain_entry instant k_k8s (if ke_type e = JStr (js ''Warning'') then sev_warn else sev_info)
            (or_dash (join (js '': '') (filter (\<lambda>s. s \<noteq> []) [object, str (ke_reason e)])))
            (case ke_count e of
               JNum n \<Rightarrow> if Fin 1 < n then message @ js '' ('' @ 215 # show_num num_str n @ js '')'' else message
             | _ \<Rightarrow> message)
            (template num_str (ke_id e)))
       (validAt parse (ke_eventTime e))"

definition k8sEntries :: "(jsnum \<Rightarrow> jstring) \<Rightarrow> (jstring \<Rightarrow> date) \<Rightarrow> K8sEvent list \<Rightarrow> TimelineEntry list" where
  "k8sEntries num_str parse events = List.map_filter (k8s_entry num_str parse) events"

definition maintenance_entry :: "translator \<Rightarrow> (date \<Rightarrow> jstring) \<Rightarrow> (jstring \<Rightarrow> date) \<Rightarrow> MaintenanceWindow \<Rightarrow> TimelineEntry option" where
  "maintenance_entry t stampFull parse w =
     map_option (\<lambda>instant.
       let ends = validAt parse (mw_endAt w)
       in plain_entry instant k_maintenance sev_info
            (t (js ''entry.maintenance.title'') [(js ''reason'', TS (or_dash (mw_reason w)))])
            (t (if ends = None then js ''entry.maintenance.detail.noEnd'' else js ''entry.maintenance.detail'')
               [(js ''scope'', TS (scope_word t (mw_scope w))),
                (js ''until'', TS (case ends of None \<Rightarrow> DASH | Some d \<Rightarrow> stampFull d)),
                (js ''by'', TS (or_dash (str (mw_createdBy w))))])
            (mw_id w))
       (validAt parse (mw_startAt w))"

definition maintenanceEntries :: "translator \<Rightarrow> (date \<Rightarrow> jstring) \<Rightarrow> (jstring \<Rightarrow> date) \<Rightarrow> MaintenanceWindow list \<Rightarrow> TimelineEntry list" where
  "maintenanceEntries t stampFull parse windows = List.map_filter (maintenance_entry t stampFull parse) windows"

subsection \<open>Alerts\<close>

definition ALERT_SEVERITY :: "(jstring, severity) jmap" where
  "ALERT_SEVERITY = [(js ''critical'', sev_error), (js ''warning'', sev_warn), (js ''info'', sev_info)]"

text \<open>\<open>al_labels\<close> is \<open>None\<close> for a label set that arrives as \<open>null\<close> or not at all.\<close>

record Alert =
  al_name :: jsval
  al_state :: jstring
  al_severity :: jsval
  al_labels :: "(jstring, jsval) jmap option"
  al_activeAt :: "jstring option"
  al_ruleId :: "jstring option"

definition label_set :: "(jstring, jsval) jmap option \<Rightarrow> (jstring, jsval) jmap" where
  "label_set labels = (case labels of None \<Rightarrow> [] | Some ls \<Rightarrow> ls)"

definition label_at :: "(jstring, jsval) jmap option \<Rightarrow> string \<Rightarrow> jstring" where
  "label_at labels key = (case map_of (label_set labels) (js key) of None \<Rightarrow> [] | Some v \<Rightarrow> str v)"

definition alertLabelLine :: "(jstring, jsval) jmap option \<Rightarrow> jstring" where
  "alertLabelLine labels =
     join (js '' '') (map (\<lambda>k. k @ js ''='' @ str (the (map_of (label_set labels) k))) (sort (keys (label_set labels))))"

definition alertStartedBy :: "(jstring \<Rightarrow> date) \<Rightarrow> Alert \<Rightarrow> date \<Rightarrow> date option" where
  "alertStartedBy parse a to_at =
     (if al_state a \<noteq> js ''firing'' then None
      else case (case al_activeAt a of None \<Rightarrow> None | Some s \<Rightarrow> validAt parse s) of
             None \<Rightarrow> None
           | Some started \<Rightarrow> if to_at < started then None else Some started)"

definition alert_entry :: "(date \<Rightarrow> jstring) \<Rightarrow> translator \<Rightarrow> (jstring \<Rightarrow> date) \<Rightarrow> date \<Rightarrow> date \<Rightarrow> Alert \<Rightarrow> TimelineEntry option" where
  "alert_entry toISO t parse from_at to_at a =
     (case alertStartedBy parse a to_at of
        None \<Rightarrow> None
      | Some started \<Rightarrow>
          let labels = alertLabelLine (al_labels a);
              severity = (case map_of ALERT_SEVERITY (str (al_severity a)) of Some s \<Rightarrow> s | None \<Rightarrow> sev_info);
              name = or_dash (str (al_name a));
              before = (started < from_at);
              severityText = (if str (al_severity a) = [] then t (js ''entry.alert.noSeverity'') [] else str (al_severity a))
          in Some (plain_entry (if before then from_at else started) k_alert severity
               (if before then t (js ''entry.alert.title.before'') [(js ''name'', TS name)]
                else t (js ''entry.alert.title'') [(js ''name'', TS name)])
               (if before then t (js ''entry.alert.detail.before'')
                  [(js ''severity'', TS severityText), (js ''since'', TS (toISO started)), (js ''labels'', TS labels)]
                else t (js ''entry.alert.detail'') [(js ''severity'', TS severityText), (js ''labels'', TS labels)])
               (str (al_name a) @ js ''{'' @ labels @ js ''}'')))"

definition alertEntries :: "(date \<Rightarrow> jstring) \<Rightarrow> translator \<Rightarrow> (jstring \<Rightarrow> date) \<Rightarrow> Alert list \<Rightarrow> date \<Rightarrow> date \<Rightarrow> TimelineEntry list" where
  "alertEntries toISO t parse alerts from_at to_at = List.map_filter (alert_entry toISO t parse from_at to_at) alerts"

definition alertIsOurs :: "Alert \<Rightarrow> bool" where
  "alertIsOurs a \<longleftrightarrow> al_ruleId a \<noteq> None \<and> al_ruleId a \<noteq> Some []"

definition alertTouchesScope :: "(jstring, jsval) jmap option \<Rightarrow> 'a InvestigationScope_scheme \<Rightarrow> bool" where
  "alertTouchesScope labels scope =
     (if sc_kind scope = sk_cluster \<or> sc_kind scope = sk_zone_pair then True
      else let source = label_at labels ''source_node'';
               destination = label_at labels ''destination_node'';
               target = label_at labels ''target''
           in if source = [] \<and> destination = [] \<and> target = [] then True
              else if sc_kind scope = sk_target then target = sc_a scope
              else if sc_kind scope = sk_node then source = sc_a scope \<or> destination = sc_a scope
              else if source \<noteq> [] \<and> destination \<noteq> [] then source = sc_a scope \<and> destination = sc_b scope
              else (source \<noteq> [] \<and> source \<in> {sc_a scope, sc_b scope}) \<or>
                   (destination \<noteq> [] \<and> destination \<in> {sc_a scope, sc_b scope}))"

record ScopedAlerts =
  sa_entries :: "TimelineEntry list"
  sa_hiddenByScope :: int

definition scopedAlertEntries :: "(date \<Rightarrow> jstring) \<Rightarrow> translator \<Rightarrow> (jstring \<Rightarrow> date) \<Rightarrow> Alert list \<Rightarrow> date \<Rightarrow> date \<Rightarrow>
    'a InvestigationScope_scheme \<Rightarrow> ScopedAlerts" where
  "scopedAlertEntries toISO t parse alerts from_at to_at scope =
     (let ours = filter alertIsOurs alerts;
          wouldDraw = mergeTimeline [alertEntries toISO t parse ours from_at to_at];
          entries = mergeTimeline [alertEntries toISO t parse (filter (\<lambda>a. alertTouchesScope (al_labels a) scope) ours) from_at to_at]
      in \<lparr>sa_entries = entries, sa_hiddenByScope = int (length wouldDraw) - int (length entries)\<rparr>)"

definition scopeFromAlertLabels :: "(jstring, jsval) jmap option \<Rightarrow> InvestigationScope option" where
  "scopeFromAlertLabels labels =
     (let source = label_at labels ''source_node'';
          destination = label_at labels ''destination_node'';
          target = label_at labels ''target''
      in if source \<noteq> [] \<and> destination \<noteq> [] then Some \<lparr>sc_kind = sk_pair, sc_a = source, sc_b = destination\<rparr>
         else if source \<noteq> [] then Some \<lparr>sc_kind = sk_node, sc_a = source, sc_b = []\<rparr>
         else if target \<noteq> [] then Some \<lparr>sc_kind = sk_target, sc_a = target, sc_b = []\<rparr>
         else None)"

fun string_names :: "jsval \<Rightarrow> jstring list" where
  "string_names (JArr vs) = List.map_filter (\<lambda>v. case v of JStr s \<Rightarrow> Some s | _ \<Rightarrow> None) vs"
| "string_names v = []"

definition covers_name :: "jstring list \<Rightarrow> jstring \<Rightarrow> bool" where
  "covers_name names name \<longleftrightarrow> names = [] \<or> name \<in> set names"

definition runTouchesScope :: "jsval \<Rightarrow> 'a InvestigationScope_scheme \<Rightarrow> bool" where
  "runTouchesScope spec scope =
     (if sc_kind scope = sk_cluster \<or> sc_kind scope = sk_zone_pair then True
      else if \<not> is_object spec then False
      else let sources = string_names (jfield spec (js ''Sources''));
               destinations = string_names (jfield spec (js ''Destinations''))
           in if sc_kind scope = sk_target
              then (case jfield spec (js ''TypedDestinations'') of
                      JArr ds \<Rightarrow> (\<exists>d \<in> set ds. is_object d \<and> jfield d (js ''kind'') = JStr (js ''target'') \<and>
                        jfield d (js ''name'') = JStr (sc_a scope))
                    | _ \<Rightarrow> False)
              else if sc_kind scope = sk_node then covers_name sources (sc_a scope) \<or> covers_name destinations (sc_a scope)
              else covers_name sources (sc_a scope) \<and> covers_name destinations (sc_b scope))"

subsection \<open>Export\<close>

record export_entry =
  ex_at :: jstring
  ex_kind :: TimelineKind
  ex_severity :: severity
  ex_title :: jstring
  ex_detail :: "jstring option"
  ex_ref :: "(TimelineKind \<times> jstring) option"

record ExportPayload =
  xp_kind :: ScopeKind
  xp_scope :: jstring
  xp_from :: jstring
  xp_to :: jstring
  xp_entries :: "export_entry list"
  xp_causes :: "(jstring \<times> TimelineKind \<times> jstring \<times> jsnum) list"

definition buildExportPayload :: "(date \<Rightarrow> jstring) \<Rightarrow> InvestigationParams \<Rightarrow> TimelineEntry list \<Rightarrow> RankedCause list \<Rightarrow> ExportPayload" where
  "buildExportPayload toISO params entries causes =
     \<lparr>xp_kind = sc_kind params, xp_scope = scopeParamValue params, xp_from = toISO (ip_from params), xp_to = toISO (ip_to params),
      xp_entries = map (\<lambda>e. \<lparr>ex_at = toISO (te_at e), ex_kind = te_kind e, ex_severity = te_severity e, ex_title = te_title e,
        ex_detail = te_detail e, ex_ref = te_ref e\<rparr>) entries,
      xp_causes = map (\<lambda>c. (toISO (te_at (rc_entry c)), te_kind (rc_entry c), te_title (rc_entry c), rc_score c)) causes\<rparr>"

subsection \<open>Samples\<close>

lemma sample_at_get: "map_of m k = Some s \<Longrightarrow> sample_at m k = s"
  by (simp add: sample_at_def)

lemma fold_signal_get:
  assumes idem: "\<And>v w s. set_v v (set_v w s) = set_v v s"
  shows "map_of (fold_signal set_v rows m) k =
    (case map_of (rev rows) k of None \<Rightarrow> map_of m k | Some v \<Rightarrow> Some (set_v v (sample_at m k)))"
proof (induction rows rule: rev_induct)
  case Nil
  then show ?case by (simp add: fold_signal_def)
next
  case (snoc row rows)
  obtain ms v where row: "row = (ms, v)" by (cases row)
  let ?m = "fold_signal set_v rows m"
  have step: "fold_signal set_v (rows @ [(ms, v)]) m = AList.update ms (set_v v (sample_at ?m ms)) ?m"
    by (simp add: fold_signal_def)
  show ?case
  proof (cases "k = ms")
    case False
    then show ?thesis using snoc by (simp add: row step update_conv')
  next
    case True
    have "set_v v (sample_at ?m ms) = set_v v (sample_at m ms)"
      using snoc True by (auto simp: sample_at_def idem split: option.splits)
    then show ?thesis using True by (simp add: row step update_conv')
  qed
qed

lemma fold_signal_keys:
  "distinct (keys m) \<Longrightarrow> distinct (keys (fold_signal set_v rows m)) \<and>
   set (keys (fold_signal set_v rows m)) = set (keys m) \<union> fst ` set rows"
proof (induction rows rule: rev_induct)
  case Nil
  then show ?case by (simp add: fold_signal_def)
next
  case (snoc row rows)
  then show ?case by (cases row) (simp add: fold_signal_def distinct_update)
qed

lemma readings_in_range:
  assumes "(ms, v) \<in> set (readings num num_str res)"
  shows "new_date ms = ms \<and> valid_date ms \<and> is_finite v"
proof -
  obtain row where row: "row_reading num num_str row = Some (ms, v)"
    using assms by (auto simp: readings_def map_filter_def)
  then have v: "is_finite v" and "msOf (jelem row 0) = Some ms"
    by (auto simp: row_reading_def Let_def split: jsval.splits option.splits if_splits)
  then obtain sec where "is_finite sec" "ms = jround (sec * Fin 1000)" "jabs ms \<le> MAX_TIME_MS"
    by (cases "jelem row 0") (auto simp: Let_def split: if_splits)
  then obtain r where "sec = Fin r" "ms = jint \<lfloor>r * 1000 + 1 / 2\<rfloor>" "\<bar>of_int \<lfloor>r * 1000 + 1 / 2\<rfloor> :: rat\<bar> \<le> MAX_TIME"
    by (auto simp: is_finite_iff MAX_TIME_MS_def MAX_TIME_def)
  then have "new_date ms = ms" "valid_date ms" unfolding valid_date_def by (metis new_date_jint, blast)
  with v show ?thesis by blast
qed

definition placed :: "SignalSample set" where
  "placed = {s. is_finite (ss_at s)}"

interpretation samples_order: comparator_on by_at placed
proof (rule comparator_by_key [of _ _ "\<lambda>s. fin_val (ss_at s)"])
  show "gt_by by_at x y \<longleftrightarrow> fin_val (ss_at y) < fin_val (ss_at x)" if "x \<in> placed" "y \<in> placed" for x y
    using that by (auto simp: placed_def gt_by_def by_at_def is_finite_iff)
qed

lemma sorted_strict:
  assumes "sorted_wrt (\<lambda>a b. \<not> gt_by by_at a b) xs" "set xs \<subseteq> placed" "distinct (map ss_at xs)"
  shows "sorted_wrt (\<lambda>a b. ss_at a < ss_at b) xs"
  using assms
proof (induction xs)
  case (Cons x xs)
  have "ss_at x < ss_at y" if "y \<in> set xs" for y
  proof -
    have "\<not> gt_by by_at x y" "ss_at x \<noteq> ss_at y" "x \<in> placed" "y \<in> placed" using Cons.prems that by auto
    then show ?thesis by (auto simp: placed_def gt_by_def by_at_def is_finite_iff)
  qed
  with Cons show ?case by simp
qed simp

lemma samples_map:
  assumes "m = fold_signal set_rtt R (fold_signal set_loss L [])"
  shows "distinct (keys m)" "set (keys m) = fst ` set L \<union> fst ` set R"
    and "map_of m k = Some s \<Longrightarrow> s = \<lparr>ss_at = new_date k, ss_loss = map_of (rev L) k,
      ss_rttNs = map_option (\<lambda>v. v * Fin 1000000000) (map_of (rev R) k)\<rparr>"
proof -
  let ?l = "fold_signal set_loss L []"
  have l: "distinct (keys ?l)" "set (keys ?l) = fst ` set L" using fold_signal_keys [of "[]" set_loss L] by simp_all
  then show "distinct (keys m)" "set (keys m) = fst ` set L \<union> fst ` set R"
    using fold_signal_keys [of ?l set_rtt R] assms by simp_all
  have gl: "map_of ?l k = map_option (\<lambda>v. \<lparr>ss_at = new_date k, ss_loss = Some v, ss_rttNs = None\<rparr>) (map_of (rev L) k)"
    using fold_signal_get [of set_loss L "[]" k] by (simp add: set_loss_def sample_at_def split: option.split)
  have "map_of m k = (case map_of (rev R) k of None \<Rightarrow> map_of ?l k | Some v \<Rightarrow> Some (set_rtt v (sample_at ?l k)))"
    unfolding assms by (rule fold_signal_get) (simp add: set_rtt_def)
  then show "s = \<lparr>ss_at = new_date k, ss_loss = map_of (rev L) k,
      ss_rttNs = map_option (\<lambda>v. v * Fin 1000000000) (map_of (rev R) k)\<rparr>" if "map_of m k = Some s"
    using that gl by (cases "map_of (rev R) k"; cases "map_of (rev L) k") (auto simp: set_rtt_def sample_at_def)
qed

text \<open>
  The loss and latency responses fold to samples at strictly
  ascending real instants, one for every instant either response has a readable finite value
  at; a sample carries, of each signal, the last such value at its instant and nothing else.
\<close>

lemma samplesFromMatrix_correct:
  "let out = samplesFromMatrix num num_str loss rtt;
       L = readings num num_str loss; R = readings num num_str rtt
   in sorted_wrt (\<lambda>a b. ss_at a < ss_at b) out \<and> ss_at ` set out = fst ` set L \<union> fst ` set R \<and>
      (\<forall>s \<in> set out. valid_date (ss_at s) \<and> ss_loss s = map_of (rev L) (ss_at s) \<and>
         ss_rttNs s = map_option (\<lambda>v. v * Fin 1000000000) (map_of (rev R) (ss_at s)))"
proof -
  define L where "L = readings num num_str loss"
  define R where "R = readings num num_str rtt"
  define m where "m = fold_signal set_rtt R (fold_signal set_loss L [])"
  note m = samples_map [OF m_def]
  have ms: "new_date k = k \<and> valid_date k" if "k \<in> set (keys m)" for k
    using that readings_in_range unfolding m(2) L_def R_def by fastforce
  have entry: "ss_at s = k \<and> valid_date k \<and> ss_loss s = map_of (rev L) k \<and>
      ss_rttNs s = map_option (\<lambda>v. v * Fin 1000000000) (map_of (rev R) k)" if ks: "(k, s) \<in> set m" for k s
  proof -
    have k: "k \<in> set (keys m)" using ks by force
    have "map_of m k = Some s" using ks m(1) by simp
    from m(3) [OF this] ms [OF k] show ?thesis by simp
  qed
  have out: "samplesFromMatrix num num_str loss rtt = js_sort by_at (map snd m)"
    by (simp add: samplesFromMatrix_def m_def L_def R_def)
  have ats: "map ss_at (map snd m) = keys m" using entry by fastforce
  have "\<forall>s \<in> set (map snd m). valid_date (ss_at s)" using entry by fastforce
  then have placed: "set (js_sort by_at (map snd m)) \<subseteq> placed" using valid_date_finite by (auto simp: placed_def)
  have "distinct (map ss_at (map snd m))" unfolding ats by (rule m(1))
  moreover have "mset (map ss_at (js_sort by_at (map snd m))) = mset (map ss_at (map snd m))"
    by (simp only: mset_map mset_js_sort)
  ultimately have d: "distinct (map ss_at (js_sort by_at (map snd m)))" using mset_eq_imp_distinct_iff by blast
  have "sorted_wrt (\<lambda>a b. \<not> gt_by by_at a b) (js_sort by_at (map snd m))"
    using placed by (intro samples_order.sort_sorted) simp
  then have "sorted_wrt (\<lambda>a b. ss_at a < ss_at b) (js_sort by_at (map snd m))" using sorted_strict placed d by blast
  moreover have "ss_at ` set (js_sort by_at (map snd m)) = fst ` set L \<union> fst ` set R"
    using arg_cong [OF ats, of set] m(2) by (simp add: image_image)
  moreover have "\<forall>s \<in> set (js_sort by_at (map snd m)). valid_date (ss_at s) \<and> ss_loss s = map_of (rev L) (ss_at s) \<and>
      ss_rttNs s = map_option (\<lambda>v. v * Fin 1000000000) (map_of (rev R) (ss_at s))"
    using entry by fastforce
  ultimately show ?thesis by (simp only: Let_def out L_def [symmetric] R_def [symmetric] simp_thms)
qed

definition demo_matrix :: "MatrixSeriesEntry PromResult option" where
  "demo_matrix = Some \<lparr>pr_success = True, pr_data = Some (js ''matrix'',
     [\<lparr>mse_values = Some [JArr [JNum (Fin 2), JStr (js ''x'')], JNull, JArr [JNum (Fin 1), JStr (js ''x'')]]\<rparr>]), pr_error = None\<rparr>"

subsection \<open>What the scope hides\<close>

lemma refs_first_refs: "set (refs (first_refs S es)) = set (refs es) - S"
  by (induction S es rule: first_refs.induct) (auto split: option.split)

lemma map_te_ref: "\<forall>e \<in> set es. te_ref e \<noteq> None \<Longrightarrow> map te_ref es = map Some (refs es)"
  by (induction es) (auto split: option.split)

lemma merge_referenced:
  assumes "\<forall>e \<in> set es. te_ref e \<noteq> None"
  shows "distinct (map te_ref (mergeTimeline [es])) \<and> te_ref ` set (mergeTimeline [es]) = te_ref ` set es \<and>
    set (mergeTimeline [es]) \<subseteq> set es \<and> length (mergeTimeline [es]) = card (te_ref ` set es)"
proof -
  let ?s = "js_sort compareEntries es"
  have m: "mergeTimeline [es] = first_refs {} ?s"
    by (simp add: mergeTimeline_def dedupe_refs_first seen_refs_def)
  have sub: "set (first_refs {} ?s) \<subseteq> set es" using set_first_refs [of "{}" ?s] by simp
  then have some: "map te_ref (first_refs {} ?s) = map Some (refs (first_refs {} ?s))" "map te_ref ?s = map Some (refs ?s)"
    using assms by (auto intro!: map_te_ref)
  have d: "distinct (map te_ref (first_refs {} ?s))"
    unfolding some using distinct_first_refs by (simp add: distinct_map)
  have "set (map te_ref (first_refs {} ?s)) = set (map te_ref ?s)"
    unfolding some set_map refs_first_refs by simp
  then have img: "te_ref ` set (first_refs {} ?s) = te_ref ` set es" by simp
  have "card (te_ref ` set es) = length (map te_ref (first_refs {} ?s))"
    using distinct_card [OF d] img by simp
  with d img sub show ?thesis unfolding m by simp
qed

lemma alertEntries_referenced: "\<forall>e \<in> set (alertEntries toISO t parse as f to_at). te_ref e \<noteq> None"
  by (auto simp: alertEntries_def map_filter_def alert_entry_def Let_def split: option.splits)

text \<open>
  The alert rows of a scope come from this console's own alerts that touch
  it, one per alert series, none repeated; and the number said to be hidden is exactly the
  number of alert series that would be drawn in the window without the scope and are not.
\<close>

lemma scopedAlerts_exact:
  "let r = scopedAlertEntries toISO t parse alerts from_at to_at scope;
       series = (\<lambda>P. te_ref ` set (alertEntries toISO t parse (filter P alerts) from_at to_at));
       shown = (\<lambda>a. alertIsOurs a \<and> alertTouchesScope (al_labels a) scope)
   in sa_hiddenByScope r = int (card (series alertIsOurs - series shown)) \<and>
      te_ref ` set (sa_entries r) = series shown \<and> distinct (map te_ref (sa_entries r)) \<and>
      set (sa_entries r) \<subseteq> set (alertEntries toISO t parse (filter shown alerts) from_at to_at)"
proof -
  let ?touches = "\<lambda>a :: Alert. alertTouchesScope (al_labels a) scope"
  let ?d = "alertEntries toISO t parse (filter alertIsOurs alerts) from_at to_at"
  let ?s = "alertEntries toISO t parse (filter (\<lambda>a. alertIsOurs a \<and> ?touches a) alerts) from_at to_at"
  have sub: "te_ref ` set ?s \<subseteq> te_ref ` set ?d" by (rule image_mono) (auto simp: alertEntries_def map_filter_def)
  have "int (length (mergeTimeline [?d])) - int (length (mergeTimeline [?s])) = int (card (te_ref ` set ?d - te_ref ` set ?s))"
    using merge_referenced [OF alertEntries_referenced, of toISO t parse "filter alertIsOurs alerts" from_at to_at]
      merge_referenced [OF alertEntries_referenced, of toISO t parse "filter (\<lambda>a. alertIsOurs a \<and> ?touches a) alerts" from_at to_at]
      sub by (simp add: card_Diff_subset card_mono)
  moreover have "distinct (map te_ref (mergeTimeline [?s])) \<and> te_ref ` set (mergeTimeline [?s]) = te_ref ` set ?s \<and>
      set (mergeTimeline [?s]) \<subseteq> set ?s"
    using merge_referenced [OF alertEntries_referenced] by blast
  ultimately show ?thesis
    by (simp only: scopedAlertEntries_def Let_def ScopedAlerts.select_convs filter_filter simp_thms)
qed

end
