(* ===== verification/Prom_Tables.thy ===== *)
theory Prom_Tables
  imports Investigation_Scope Pagination "HOL-Library.Monad_Syntax"
begin

section \<open>A Prometheus answer as a table and as named series (lib/prom-table.ts, lib/prom-series.ts)\<close>

text \<open>
  The PromQL console reads an answer of any of Prometheus's four result types into columns and
  rows, and names every series by the labels that tell it from the others. The answer is JSON of
  unknown shape: an entry is a \<open>jsval\<close>, and the two reads of the source that can throw, \<open>at(-1)\<close> on
  something that has no such method and \<open>String(value)\<close> of an object that has no string form, are
  the error of a sum type. A property read sees the own properties first and then the members the
  value inherits from its prototype.
  \<open>collate\<close> is \<open>localeCompare\<close>, \<open>num\<close> is \<open>Number\<close> of a string, \<open>num_str\<close> and \<open>precision\<close> are
  \<open>String(x)\<close> and \<open>x.toPrecision(6)\<close>.

  The stamp column's renaming loop is shown to end on the first free name, every table to be
  rectangular with distinct columns, the builder to throw on exactly the malformed series, and
  the short series names to lose nothing and to collide only where the full ones do.
\<close>

subsection \<open>Reading JSON\<close>

definition array_prop :: "(nat \<Rightarrow> jsval) \<Rightarrow> nat \<Rightarrow> jstring \<Rightarrow> jsval option" where
  "array_prop elem n k =
     (if k = js ''length'' then Some (JNum (jnat n)) else map_option elem (find (\<lambda>i. dec i = k) [0..<n]))"

text \<open>
  The members of the language's prototypes. Each is a function, or the prototype itself for
  \<open>__proto__\<close>: an object with no enumerable property of its own and with no method \<open>at\<close>, which is
  all the table reads of it, so a read of one gives the empty object.
\<close>

definition object_members :: "jstring list" where
  "object_members = map js [''constructor'', ''__proto__'', ''__defineGetter__'', ''__defineSetter__'',
     ''__lookupGetter__'', ''__lookupSetter__'', ''hasOwnProperty'', ''isPrototypeOf'',
     ''propertyIsEnumerable'', ''toLocaleString'', ''toString'', ''valueOf'']"

definition array_members :: "jstring list" where
  "array_members = map js [''at'', ''concat'', ''copyWithin'', ''entries'', ''every'', ''fill'', ''filter'',
     ''find'', ''findIndex'', ''findLast'', ''findLastIndex'', ''flat'', ''flatMap'', ''forEach'', ''includes'',
     ''indexOf'', ''join'', ''keys'', ''lastIndexOf'', ''map'', ''pop'', ''push'', ''reduce'', ''reduceRight'',
     ''reverse'', ''shift'', ''slice'', ''some'', ''sort'', ''splice'', ''toReversed'', ''toSorted'',
     ''toSpliced'', ''unshift'', ''values'', ''with'']"

definition string_members :: "jstring list" where
  "string_members = map js [''anchor'', ''at'', ''big'', ''blink'', ''bold'', ''charAt'', ''charCodeAt'',
     ''codePointAt'', ''concat'', ''endsWith'', ''fixed'', ''fontcolor'', ''fontsize'', ''includes'', ''indexOf'',
     ''isWellFormed'', ''italics'', ''lastIndexOf'', ''link'', ''localeCompare'', ''match'', ''matchAll'',
     ''normalize'', ''padEnd'', ''padStart'', ''repeat'', ''replace'', ''replaceAll'', ''search'', ''slice'',
     ''small'', ''split'', ''startsWith'', ''strike'', ''sub'', ''substr'', ''substring'', ''sup'',
     ''toLocaleLowerCase'', ''toLocaleUpperCase'', ''toLowerCase'', ''toUpperCase'', ''toWellFormed'',
     ''trim'', ''trimEnd'', ''trimLeft'', ''trimRight'', ''trimStart'']"

definition number_members :: "jstring list" where
  "number_members = map js [''toExponential'', ''toFixed'', ''toPrecision'']"

fun inherited_members :: "jsval \<Rightarrow> jstring list" where
  "inherited_members (JObj kvs) = object_members"
| "inherited_members (JArr vs) = array_members @ object_members"
| "inherited_members (JStr s) = string_members @ object_members"
| "inherited_members (JNum n) = number_members @ object_members"
| "inherited_members (JBool b) = object_members"
| "inherited_members v = []"

fun own_prop :: "jsval \<Rightarrow> jstring \<Rightarrow> jsval option" where
  "own_prop (JObj kvs) k = map_of kvs k"
| "own_prop (JArr vs) k = array_prop (\<lambda>i. vs ! i) (length vs) k"
| "own_prop (JStr s) k = array_prop (\<lambda>i. JStr [s ! i]) (length s) k"
| "own_prop v k = None"

text \<open>\<open>v?.[k]\<close>.\<close>

definition jprop :: "jsval \<Rightarrow> jstring \<Rightarrow> jsval" where
  "jprop v k =
     (case own_prop v k of
        Some w \<Rightarrow> w
      | None \<Rightarrow> if k \<in> set (inherited_members v) then JObj [] else JUndef)"

fun object_keys :: "jsval \<Rightarrow> jstring list" where
  "object_keys (JObj kvs) = remdups (map fst kvs)"
| "object_keys (JArr vs) = map dec [0..<length vs]"
| "object_keys (JStr s) = map dec [0..<length s]"
| "object_keys v = []"

definition nullish :: "jsval \<Rightarrow> bool" where
  "nullish v \<longleftrightarrow> v = JUndef \<or> v = JNull"

definition cell_or_empty :: "jsval \<Rightarrow> jsval" where
  "cell_or_empty v = (if nullish v then JStr [] else v)"

subsection \<open>Cells and columns\<close>

definition VALUE_COL :: jstring where
  "VALUE_COL = js ''table.col.value''"

definition POINTS_COL :: jstring where
  "POINTS_COL = js ''table.col.points''"

definition LAST_COL :: jstring where
  "LAST_COL = js ''table.col.last''"

definition TIME_COL :: jstring where
  "TIME_COL = js ''table.col.time''"

definition isNumericColumn :: "jstring \<Rightarrow> bool" where
  "isNumericColumn column \<longleftrightarrow> column = VALUE_COL \<or> column = POINTS_COL \<or> column = LAST_COL \<or> starts_with column TIME_COL"

definition isFigureColumn :: "jstring \<Rightarrow> bool" where
  "isFigureColumn column \<longleftrightarrow> column = VALUE_COL \<or> column = LAST_COL"

text \<open>\<open>mantissa.replace(/\.?0+$/, "")\<close>: the zeros at the end, and a point before them.\<close>

definition trim_zeros :: "jstring \<Rightarrow> jstring" where
  "trim_zeros m =
     (let r = dropWhile (\<lambda>c. c = 48) (rev m)
      in if r = rev m then m else rev (if r \<noteq> [] \<and> hd r = 46 then tl r else r))"

definition is_integer :: "jsnum \<Rightarrow> bool" where
  "is_integer n \<longleftrightarrow> is_finite n \<and> jfloor n = n"

definition formatValue :: "(jstring \<Rightarrow> jsnum) \<Rightarrow> (jsnum \<Rightarrow> jstring) \<Rightarrow> (jsnum \<Rightarrow> jstring) \<Rightarrow> jstring \<Rightarrow> jstring" where
  "formatValue num num_str precision raw =
     (if trim raw = [] then raw
      else let n = num raw
           in if \<not> is_finite n then raw
              else if is_integer n \<and> jabs n < Fin 1000000000000000 then show_num num_str n
              else let parts = split_on 101 (precision n);
                       mantissa = parts ! 0;
                       trimmed = (if 46 \<in> set mantissa then trim_zeros mantissa else mantissa)
                   in if length parts < 2 then trimmed else trimmed @ js ''e'' @ parts ! 1)"

subsection \<open>The table\<close>

datatype table_kind = tk_instant | tk_series

record PromTable =
  pt_columns :: "jstring list"
  pt_rows :: "jsval list list"
  pt_at :: "jsnum option"
  pt_kind :: table_kind

record prom_answer =
  pa_success :: bool
  pa_data :: "(jstring \<times> jsval) option"

datatype table_error = TypeError

definition EMPTY :: PromTable where
  "EMPTY = \<lparr>pt_columns = [], pt_rows = [], pt_at = None, pt_kind = tk_instant\<rparr>"

fun stampMs :: "jsval \<Rightarrow> jsnum" where
  "stampMs (JNum ts) = (if \<not> is_finite ts then NaN
     else let ms = ts * Fin 1000 in if jabs ms \<le> MAX_TIME_MS then ms else NaN)"
| "stampMs v = NaN"

text \<open>
  \<open>String(v)\<close> has an answer unless it meets an object with a \<open>toString\<close> of its own: JSON holds no
  function, and the inherited \<open>valueOf\<close> gives no primitive.
\<close>

fun stringable :: "jsval \<Rightarrow> bool" where
  "stringable (JObj kvs) \<longleftrightarrow> map_of kvs (js ''toString'') = None"
| "stringable (JArr vs) \<longleftrightarrow> list_all stringable vs"
| "stringable v \<longleftrightarrow> True"

definition singleValue :: "(jsnum \<Rightarrow> jstring) \<Rightarrow> jsval \<Rightarrow> table_error + PromTable" where
  "singleValue num_str res =
     (let value = jelem res 1; stamp = stampMs (jelem res 0)
      in if \<not> stringable value then Inl TypeError
         else Inr \<lparr>pt_columns = [VALUE_COL], pt_rows = [[JStr (if nullish value then [] else template num_str value)]],
          pt_at = (if is_nan stamp then None else Some stamp), pt_kind = tk_instant\<rparr>)"

definition shared_stamp :: "jsnum list \<Rightarrow> jsnum option" where
  "shared_stamp stamps =
     (if stamps = [] then None
      else let first = stamps ! 0
           in if is_nan first then None else if list_all (\<lambda>s. jeq s first) stamps then Some first else None)"

text \<open>\<open>(v ?? []).at(-1)\<close>: only an array and a string have the method.\<close>

fun last_of :: "jsval \<Rightarrow> table_error + jsval" where
  "last_of JUndef = Inr JUndef"
| "last_of JNull = Inr JUndef"
| "last_of (JArr vs) = Inr (if vs = [] then JUndef else last vs)"
| "last_of (JStr s) = Inr (if s = [] then JUndef else JStr [last s])"
| "last_of v = Inl TypeError"

text \<open>\<open>(v ?? []).length\<close> where \<open>at\<close> did not throw.\<close>

fun points_of :: "jsval \<Rightarrow> nat" where
  "points_of (JArr vs) = length vs"
| "points_of (JStr s) = length s"
| "points_of v = 0"

fun collect :: "(table_error + 'a) list \<Rightarrow> table_error + 'a list" where
  "collect [] = Inr []"
| "collect (Inl e # rs) = Inl e"
| "collect (Inr x # rs) = (case collect rs of Inl e \<Rightarrow> Inl e | Inr xs \<Rightarrow> Inr (x # xs))"

definition values_of :: "jsval \<Rightarrow> jsval" where
  "values_of e = jprop e (js ''values'')"

definition table_labels :: "jsval list \<Rightarrow> jstring list" where
  "table_labels entries = sort (js_set (concat (map (\<lambda>e. object_keys (jprop e (js ''metric''))) entries)))"

function time_name :: "jstring list \<Rightarrow> jstring \<Rightarrow> jstring" where
  "time_name labels name = (if name \<in> set labels then time_name labels (name @ js ''_'') else name)"
  by pat_completeness auto

text \<open>Each turn leaves one label fewer that is at least as long as the name.\<close>

termination
proof (relation "measure (\<lambda>(labels, name). card {l \<in> set labels. length name \<le> length l})")
  fix labels :: "jstring list" and name :: jstring
  assume "name \<in> set labels"
  then have "name \<in> {l \<in> set labels. length name \<le> length l}" "name \<notin> {l \<in> set labels. length (name @ js ''_'') \<le> length l}"
    by (simp_all add: js_Cons)
  moreover have "{l \<in> set labels. length (name @ js ''_'') \<le> length l} \<subseteq> {l \<in> set labels. length name \<le> length l}"
    by auto
  ultimately have "{l \<in> set labels. length (name @ js ''_'') \<le> length l} \<subset> {l \<in> set labels. length name \<le> length l}"
    by blast
  then show "((labels, name @ js ''_''), labels, name) \<in> measure (\<lambda>(labels, name). card {l \<in> set labels. length name \<le> length l})"
    by (simp add: psubset_card_mono)
qed simp

declare time_name.simps [simp del]

definition label_cells :: "jstring list \<Rightarrow> jsval \<Rightarrow> jsval list" where
  "label_cells labels e = map (\<lambda>l. cell_or_empty (jprop (jprop e (js ''metric'')) l)) labels"

text \<open>The reading of an entry: what \<open>stampMs\<close> sees of it and the figure the row prints.\<close>

definition entry_point :: "table_kind \<Rightarrow> jsval \<Rightarrow> table_error + jsval" where
  "entry_point kind e =
     (case kind of tk_instant \<Rightarrow> Inr (jprop e (js ''value'')) | tk_series \<Rightarrow> last_of (values_of e))"

definition build_table :: "table_kind \<Rightarrow> jsval list \<Rightarrow> jsval list \<Rightarrow> (jsnum \<Rightarrow> jstring) option \<Rightarrow> PromTable" where
  "build_table kind entries points formatTime =
     (let labels = table_labels entries;
          stamps = map (\<lambda>p. stampMs (jprop p (dec 0))) points;
          stamp = shared_stamp stamps;
          withTime = (stamp = None \<and> formatTime \<noteq> None \<and> list_ex (\<lambda>s. \<not> is_nan s) stamps);
          timeCell = (\<lambda>i. if withTime then [JStr (if is_nan (stamps ! i) then [] else the formatTime (stamps ! i))] else []);
          timeColumn = (if withTime then [time_name labels TIME_COL] else []);
          figure = (\<lambda>i. cell_or_empty (jprop (points ! i) (dec 1)))
      in case kind of
           tk_instant \<Rightarrow>
             \<lparr>pt_columns = VALUE_COL # timeColumn @ labels,
              pt_rows = map (\<lambda>i. figure i # timeCell i @ label_cells labels (entries ! i)) [0..<length entries],
              pt_at = stamp, pt_kind = kind\<rparr>
         | tk_series \<Rightarrow>
             \<lparr>pt_columns = LAST_COL # timeColumn @ POINTS_COL # labels,
              pt_rows = map (\<lambda>i. figure i # timeCell i @ JStr (dec (points_of (values_of (entries ! i)))) # label_cells labels (entries ! i))
                          [0..<length entries],
              pt_at = stamp, pt_kind = kind\<rparr>)"

fun array_or_none :: "jsval \<Rightarrow> jsval list" where
  "array_or_none (JArr vs) = vs"
| "array_or_none v = []"

definition toTable :: "(jsnum \<Rightarrow> jstring) \<Rightarrow> prom_answer \<Rightarrow> (jsnum \<Rightarrow> jstring) option \<Rightarrow> table_error + PromTable" where
  "toTable num_str res formatTime =
     (case pa_data res of
        None \<Rightarrow> Inr EMPTY
      | Some (resultType, result) \<Rightarrow>
          if \<not> pa_success res then Inr EMPTY
          else if resultType = js ''scalar'' \<or> resultType = js ''string'' then singleValue num_str result
          else if resultType \<noteq> js ''vector'' \<and> resultType \<noteq> js ''matrix'' then Inr EMPTY
          else let entries = array_or_none result;
                   kind = (if resultType = js ''vector'' then tk_instant else tk_series)
               in case collect (map (entry_point kind) entries) of
                    Inl e \<Rightarrow> Inl e
                  | Inr points \<Rightarrow> Inr (build_table kind entries points formatTime))"

subsection \<open>Series identities\<close>

type_synonym metric = "(jstring \<times> jstring) list"

record SeriesIdentity =
  si_name :: jstring
  si_distinguishing :: metric
  si_text :: jstring
  si_full :: metric
  si_fullText :: jstring

record SeriesIdentitySet =
  ss_series :: "SeriesIdentity list"
  ss_shared :: metric
  ss_sharedName :: jstring
  ss_sharedText :: jstring

definition NAME_LABEL :: jstring where
  "NAME_LABEL = js ''__name__''"

definition render_series :: "jstring \<Rightarrow> metric \<Rightarrow> jstring" where
  "render_series name labels =
     (if labels = [] then (if name = [] then js ''{}'' else name)
      else name @ js ''{'' @ join (js '', '') (map (\<lambda>(k, v). k @ [61, 34] @ v @ [34]) labels) @ js ''}'')"

definition by_label :: "(jstring \<Rightarrow> jstring \<Rightarrow> jsnum) \<Rightarrow> jstring \<times> jstring \<Rightarrow> jstring \<times> jstring \<Rightarrow> jsnum" where
  "by_label collate a b = collate (fst a) (fst b)"

definition sortedEntries :: "(jstring \<Rightarrow> jstring \<Rightarrow> jsnum) \<Rightarrow> metric \<Rightarrow> metric" where
  "sortedEntries collate m = js_sort (by_label collate) (filter (\<lambda>p. fst p \<noteq> NAME_LABEL) m)"

definition metric_name :: "metric \<Rightarrow> jstring" where
  "metric_name m = (case map_of m NAME_LABEL of Some n \<Rightarrow> n | None \<Rightarrow> [])"

definition series_keys :: "metric list \<Rightarrow> jstring list" where
  "series_keys metrics = sort (filter (\<lambda>k. k \<noteq> NAME_LABEL) (js_set (concat (map (map fst) metrics))))"

definition shared_keys :: "metric list \<Rightarrow> jstring list" where
  "shared_keys metrics =
     filter (\<lambda>k. let first = map_of (metrics ! 0) k
                 in first \<noteq> None \<and> list_all (\<lambda>m. map_of m k = first) metrics) (series_keys metrics)"

definition build_series :: "(jstring \<Rightarrow> jstring \<Rightarrow> jsnum) \<Rightarrow> metric list \<Rightarrow> bool \<Rightarrow> SeriesIdentity list" where
  "build_series collate metrics minimal =
     map (\<lambda>m. let full = sortedEntries collate m;
                  name = metric_name m;
                  distinguishing = (if minimal then filter (\<lambda>p. fst p \<notin> set (shared_keys metrics)) full else full)
              in \<lparr>si_name = name, si_distinguishing = distinguishing, si_text = render_series name distinguishing,
                  si_full = full, si_fullText = render_series name full\<rparr>) metrics"

definition seriesIdentities :: "(jstring \<Rightarrow> jstring \<Rightarrow> jsnum) \<Rightarrow> metric list \<Rightarrow> SeriesIdentitySet" where
  "seriesIdentities collate metrics =
     (if metrics = [] then \<lparr>ss_series = [], ss_shared = [], ss_sharedName = [], ss_sharedText = []\<rparr>
      else let names = js_set (map metric_name metrics);
               uniformName = (if length names = 1 then names ! 0 else []);
               short = build_series collate metrics True;
               series = (if 1 < length metrics \<and> length (js_set (map si_text short)) < length short
                         then build_series collate metrics False else short);
               shared = map (\<lambda>k. (k, the (map_of (metrics ! 0) k))) (shared_keys metrics)
           in \<lparr>ss_series = series, ss_shared = shared, ss_sharedName = uniformName,
               ss_sharedText = (if shared = [] \<and> uniformName = [] then [] else render_series uniformName shared)\<rparr>)"

definition LEGEND_MAX_SERIES :: jsnum where
  "LEGEND_MAX_SERIES = DEFAULT_PAGE_SIZE"

definition showLegend :: "jsnum \<Rightarrow> bool" where
  "showLegend seriesCount \<longleftrightarrow> Fin 0 < seriesCount \<and> seriesCount \<le> LEGEND_MAX_SERIES"

subsection \<open>The palette\<close>

definition LAPS :: "jsnum list" where
  "LAPS = map Fin [0, 9 / 20, - (9 / 20), 3 / 4]"

definition LIGHT_CEIL :: jsnum where
  "LIGHT_CEIL = Fin 84"

definition DARK_FLOOR :: jsnum where
  "DARK_FLOOR = Fin 24"

text \<open>
  \<open>HSL_TRIPLET.exec\<close>: the three groups of a colour in that form. The classes of the expression
  that follow one another are disjoint, so reading each greedily is what the matcher does.
\<close>

definition is_figure_char :: "jchar \<Rightarrow> bool" where
  "is_figure_char c \<longleftrightarrow> is_digit c \<or> c = 46"

definition skip_char :: "jchar \<Rightarrow> jstring \<Rightarrow> jstring option" where
  "skip_char c s = (case s of [] \<Rightarrow> None | x # xs \<Rightarrow> if x = c then Some xs else None)"

definition read_figure :: "jstring \<Rightarrow> (jstring \<times> jstring) option" where
  "read_figure s =
     (let r = dropWhile is_space s; f = takeWhile is_figure_char r
      in if f = [] then None else Some (f, dropWhile is_figure_char r))"

definition lower_ascii :: "jchar \<Rightarrow> jchar" where
  "lower_ascii c = (if 65 \<le> c \<and> c \<le> 90 then c + 32 else c)"

definition HSL_TRIPLET :: "jstring \<Rightarrow> (jstring \<times> jstring \<times> jstring) option" where
  "HSL_TRIPLET s =
     (if map lower_ascii (take 4 s) \<noteq> js ''hsl('' then None
      else do {
        (hue, s1) \<leftarrow> read_figure (drop 4 s);
        s2 \<leftarrow> skip_char 44 (dropWhile is_space s1);
        (saturation, s3) \<leftarrow> read_figure s2;
        s4 \<leftarrow> skip_char 37 s3;
        s5 \<leftarrow> skip_char 44 (dropWhile is_space s4);
        (lightness, s6) \<leftarrow> read_figure s5;
        s7 \<leftarrow> skip_char 37 s6;
        s8 \<leftarrow> skip_char 41 (dropWhile is_space s7);
        if s8 = [] then Some (hue, saturation, lightness) else None
      })"

definition paletteColor :: "(jstring \<Rightarrow> jsnum) \<Rightarrow> (jsnum \<Rightarrow> jstring) \<Rightarrow>
    jstring list \<Rightarrow> jsnum \<Rightarrow> jstring" where
  "paletteColor num num_str base index =
     (if base = [] then []
      else let i = (if is_finite index then nat \<lfloor>fin_val index\<rfloor> else 0);
               color = base ! (i mod length base);
               lap = LAPS ! ((i div length base) mod length LAPS)
           in if lap = Fin 0 then color
              else case HSL_TRIPLET color of
                     None \<Rightarrow> color
                   | Some (hue, saturation, lightness) \<Rightarrow>
                       (let l = num lightness;
                            shifted = (if Fin 0 < lap then l + (LIGHT_CEIL - l) * lap else l + (l - DARK_FLOOR) * lap)
                        in js ''hsl('' @ hue @ js '', '' @ saturation @ js ''%, '' @ show_num num_str (jround shifted) @ js ''%)''))"


subsection \<open>The stamp column\<close>

lemma time_name_first:
  "\<exists>k. time_name labels name = name @ replicate k 95 \<and> (\<forall>j < k. name @ replicate j 95 \<in> set labels) \<and>
    name @ replicate k 95 \<notin> set labels"
proof (induction labels name rule: time_name.induct)
  case (1 labels name)
  show ?case
  proof (cases "name \<in> set labels")
    case True
    from 1 [OF True] obtain k where k: "time_name labels (name @ [95]) = name @ [95] @ replicate k 95"
        "\<forall>j < k. name @ [95] @ replicate j 95 \<in> set labels" "name @ [95] @ replicate k 95 \<notin> set labels"
      by (auto simp: js_Cons)
    have "name @ replicate j 95 \<in> set labels" if "j < Suc k" for j
      using that True k(2) by (cases j) auto
    then show ?thesis using k True by (intro exI [of _ "Suc k"]) (simp add: time_name.simps [of labels name] js_Cons)
  qed (intro exI [of _ 0], simp add: time_name.simps [of labels name])
qed

lemma time_name_turns:
  assumes "\<forall>j < k. (name :: jstring) @ replicate j 95 \<in> set labels"
  shows "k \<le> length labels"
proof -
  have "inj_on (\<lambda>j. name @ replicate j (95 :: nat)) {..<k}"
    by (intro inj_onI) (metis length_replicate same_append_eq)
  then have "k = card ((\<lambda>j. name @ replicate j 95) ` {..<k})" by (simp add: card_image)
  also have "\<dots> \<le> card (set labels)" using assms by (intro card_mono) auto
  also have "\<dots> \<le> length labels" by (rule card_length)
  finally show ?thesis .
qed

subsection \<open>The table's shape\<close>

lemma collect_Inl: "collect rs = Inl e \<longleftrightarrow> Inl TypeError \<in> set rs"
proof (induction rs rule: collect.induct)
  case (2 e' rs)
  then show ?case by (cases e; cases e') simp
next
  case (3 x rs)
  then show ?case by (auto split: sum.split)
qed simp

lemma collect_Inr: "collect rs = Inr xs \<Longrightarrow> rs = map Inr xs"
  by (induction rs arbitrary: xs rule: collect.induct) (auto split: sum.splits)

lemma last_of_Inl: "last_of v = Inl e \<longleftrightarrow> (case v of JBool b \<Rightarrow> True | JNum n \<Rightarrow> True | JObj kvs \<Rightarrow> True | _ \<Rightarrow> False)"
  by (cases e; cases v) simp_all

lemma table_labels_distinct: "distinct (table_labels entries)"
  by (simp add: table_labels_def)

definition own_columns :: "jstring set" where
  "own_columns = {VALUE_COL, LAST_COL, POINTS_COL}"

lemma time_name_own: "time_name labels TIME_COL \<notin> own_columns"
proof -
  obtain k where "time_name labels TIME_COL = TIME_COL @ replicate k 95" using time_name_first by blast
  then show ?thesis
    by (auto simp: own_columns_def VALUE_COL_def LAST_COL_def POINTS_COL_def TIME_COL_def js_Cons)
qed

lemma time_name_fresh: "time_name labels TIME_COL \<notin> set labels"
  using time_name_first [of labels TIME_COL] by auto

definition rectangular :: "PromTable \<Rightarrow> bool" where
  "rectangular tb \<longleftrightarrow> (\<forall>row \<in> set (pt_rows tb). length row = length (pt_columns tb))"

lemma build_rectangular: "rectangular (build_table kind entries points formatTime)"
  by (cases kind) (auto simp: rectangular_def build_table_def Let_def label_cells_def)

lemma build_columns_distinct:
  assumes "own_columns \<inter> set (table_labels entries) = {}"
  shows "distinct (pt_columns (build_table kind entries points formatTime))"
proof -
  let ?n = "time_name (table_labels entries) TIME_COL"
  have "VALUE_COL \<notin> set (table_labels entries)" "LAST_COL \<notin> set (table_labels entries)" "POINTS_COL \<notin> set (table_labels entries)"
    using assms by (auto simp: own_columns_def)
  moreover have "?n \<noteq> VALUE_COL" "?n \<noteq> LAST_COL" "?n \<noteq> POINTS_COL" using time_name_own by (auto simp: own_columns_def)
  moreover have "LAST_COL \<noteq> POINTS_COL" by (simp add: LAST_COL_def POINTS_COL_def js_Cons)
  ultimately show ?thesis
    using time_name_fresh table_labels_distinct by (cases kind) (auto simp: build_table_def Let_def)
qed

lemma build_rows: "length (pt_rows (build_table kind entries points formatTime)) = length entries"
  by (cases kind) (simp_all add: build_table_def Let_def)

lemma toTable_cases:
  assumes "toTable num_str res formatTime = Inr tb"
  obtains (empty) "tb = EMPTY" | (single) result where "singleValue num_str result = Inr tb"
  | (built) resultType result kind points where "pa_data res = Some (resultType, result)"
      "tb = build_table kind (array_or_none result) points formatTime"
proof (cases "pa_data res")
  case None
  then show thesis using assms empty by (simp add: toTable_def)
next
  case (Some d)
  obtain rt result where d: "d = (rt, result)" by (cases d)
  let ?kind = "if rt = js ''vector'' then tk_instant else tk_series"
  consider "\<not> pa_success res" | "pa_success res" "rt = js ''scalar'' \<or> rt = js ''string''"
    | "pa_success res" "\<not> (rt = js ''scalar'' \<or> rt = js ''string'')" by blast
  then show thesis
  proof cases
    case 1
    with assms Some d empty show thesis by (simp add: toTable_def)
  next
    case 2
    with assms Some d single show thesis by (simp add: toTable_def)
  next
    case 3
    show thesis
    proof (cases "collect (map (entry_point ?kind) (array_or_none result))")
      case (Inl e)
      with assms Some d 3 empty show thesis
        by (simp add: toTable_def Let_def del: js_Cons split: if_splits)
    next
      case (Inr points)
      with assms Some d 3 have "tb = EMPTY \<or> tb = build_table ?kind (array_or_none result) points formatTime"
        by (auto simp add: toTable_def Let_def simp del: js_Cons split: if_splits)
      then show thesis using empty built [OF Some [unfolded d], of ?kind points] by blast
    qed
  qed
qed


subsection \<open>What the series share\<close>

lemma set_sortedEntries: "set (sortedEntries collate m) = {p \<in> set m. fst p \<noteq> NAME_LABEL}"
  by (auto simp: sortedEntries_def)

lemma shared_key_iff:
  assumes "ms \<noteq> []"
  shows "k \<in> set (shared_keys ms) \<longleftrightarrow> k \<noteq> NAME_LABEL \<and> (\<exists>v. \<forall>m \<in> set ms. map_of m k = Some v)"
    (is "?l \<longleftrightarrow> ?r")
proof
  assume ?l
  then have "k \<noteq> NAME_LABEL" "map_of (ms ! 0) k \<noteq> None" "\<forall>m \<in> set ms. map_of m k = map_of (ms ! 0) k"
    by (simp_all add: shared_keys_def series_keys_def Let_def list_all_iff)
  then show ?r by (metis not_None_eq)
next
  assume ?r
  then obtain v where v: "k \<noteq> NAME_LABEL" "\<forall>m \<in> set ms. map_of m k = Some v" by blast
  have first: "ms ! 0 \<in> set ms" using assms by simp
  then have "map_of (ms ! 0) k = Some v" using v(2) by blast
  moreover from this have "k \<in> fst ` set (ms ! 0)" by (metis map_of_SomeD fst_conv image_eqI)
  then have "k \<in> set (series_keys ms)" using v(1) first by (simp add: series_keys_def) blast
  ultimately show ?l using v(2) by (simp add: shared_keys_def Let_def list_all_iff)
qed

lemma shared_pairs:
  assumes "ms \<noteq> []"
  shows "(k, v) \<in> set (ss_shared (seriesIdentities collate ms)) \<longleftrightarrow> k \<noteq> NAME_LABEL \<and> (\<forall>m \<in> set ms. map_of m k = Some v)"
    (is "?l \<longleftrightarrow> ?r")
proof -
  have first: "ms ! 0 \<in> set ms" using assms by simp
  have "ss_shared (seriesIdentities collate ms) = map (\<lambda>k. (k, the (map_of (ms ! 0) k))) (shared_keys ms)"
    using assms by (simp add: seriesIdentities_def Let_def)
  then have l: "?l \<longleftrightarrow> k \<in> set (shared_keys ms) \<and> v = the (map_of (ms ! 0) k)" by (simp add: image_iff)
  show ?thesis
  proof
    assume ?l
    with l shared_key_iff [OF assms, of k] obtain v'
      where v': "k \<noteq> NAME_LABEL" "\<forall>m \<in> set ms. map_of m k = Some v'" "v = the (map_of (ms ! 0) k)" by blast
    from v'(2,3) first have "v = v'" by simp
    with v' show ?r by simp
  next
    assume r: ?r
    then have "k \<in> set (shared_keys ms)" using shared_key_iff [OF assms, of k] by blast
    moreover have "v = the (map_of (ms ! 0) k)" using r first by simp
    ultimately show ?l using l by blast
  qed
qed

lemma series_cases:
  assumes "ms \<noteq> []"
  obtains (short) "ss_series (seriesIdentities collate ms) = build_series collate ms True"
      "distinct (map si_text (build_series collate ms True))"
  | (long) "ss_series (seriesIdentities collate ms) = build_series collate ms False"
proof (cases "1 < length ms \<and> length (js_set (map si_text (build_series collate ms True))) < length (build_series collate ms True)")
  case True
  then have "ss_series (seriesIdentities collate ms) = build_series collate ms False"
    using assms by (simp add: seriesIdentities_def Let_def)
  then show thesis by (rule long)
next
  case False
  with assms have s: "ss_series (seriesIdentities collate ms) = build_series collate ms True"
    by (simp only: seriesIdentities_def Let_def if_False SeriesIdentitySet.simps)
  let ?ts = "map si_text (build_series collate ms True)"
  have len: "length ?ts = length ms" by (simp add: build_series_def)
  have "distinct ?ts"
  proof (cases "1 < length ms")
    case True
    have "card (set ?ts) = length (js_set ?ts)" using distinct_card [OF distinct_js_set, of ?ts] by simp
    moreover have "card (set ?ts) \<le> length ?ts" by (rule card_length)
    moreover have "length ?ts \<le> length (js_set ?ts)" using False True by simp
    ultimately show ?thesis by (intro card_distinct) linarith
  next
    case False
    with len assms show ?thesis by (cases ?ts; cases "tl ?ts") auto
  qed
  with s show thesis by (rule short)
qed

lemma build_series_nth:
  assumes "i < length ms"
  shows "set (si_distinguishing (build_series collate ms minimal ! i)) =
    (if minimal then set (filter (\<lambda>p. fst p \<notin> set (shared_keys ms)) (sortedEntries collate (ms ! i)))
     else set (sortedEntries collate (ms ! i)))"
  using assms by (simp add: build_series_def Let_def)

lemma build_series_full: "map si_text (build_series collate ms False) = map si_fullText (build_series collate ms False)"
  by (simp add: build_series_def Let_def)

lemma length_build_series: "length (build_series collate ms minimal) = length ms"
  by (simp add: build_series_def)

lemma full_split:
  assumes "m \<in> set ms" "distinct (map fst m)" "ms \<noteq> []"
  shows "set (sortedEntries collate m) =
    set (filter (\<lambda>p. fst p \<notin> set (shared_keys ms)) (sortedEntries collate m)) \<union> set (ss_shared (seriesIdentities collate ms))"
proof -
  have key: "p \<in> set (ss_shared (seriesIdentities collate ms)) \<longleftrightarrow> fst p \<in> set (shared_keys ms)"
    if "p \<in> set (sortedEntries collate m)" for p
  proof -
    obtain k v where p: "p = (k, v)" by (cases p)
    from that have "(k, v) \<in> set m" "k \<noteq> NAME_LABEL" by (auto simp: set_sortedEntries p)
    then have "map_of m k = Some v" using assms(2) by simp
    then show ?thesis
      unfolding p using shared_pairs [OF assms(3), of k v collate] shared_key_iff [OF assms(3), of k] assms(1) by fastforce
  qed
  have "p \<in> set (sortedEntries collate m)" if "p \<in> set (ss_shared (seriesIdentities collate ms))" for p
  proof -
    obtain k v where p: "p = (k, v)" by (cases p)
    from that have "k \<noteq> NAME_LABEL" "map_of m k = Some v"
      using shared_pairs [OF assms(3), of k v collate] assms(1) unfolding p by blast+
    then show ?thesis by (auto simp: set_sortedEntries p dest: map_of_SomeD)
  qed
  with key show ?thesis by auto
qed

subsection \<open>Properties\<close>

text \<open>
  The loop that renames the stamp column ends after at most one turn per label,
  on \<open>TIME_COL\<close> with the fewest underscores that make it no label of the result.
\<close>

lemma timeName_ends:
  "\<exists>k \<le> length labels. time_name labels TIME_COL = TIME_COL @ replicate k 95 \<and>
    TIME_COL @ replicate k 95 \<notin> set labels \<and> {TIME_COL @ replicate j 95 | j. j < k} \<subseteq> set labels"
proof -
  obtain k where k: "time_name labels TIME_COL = TIME_COL @ replicate k 95"
      "\<forall>j < k. TIME_COL @ replicate j 95 \<in> set labels" "TIME_COL @ replicate k 95 \<notin> set labels"
    using time_name_first by blast
  with time_name_turns [OF k(2)] show ?thesis by blast
qed

text \<open>
  C33. Whatever Prometheus answered, a table has one row per entry of a list
  result, every row has a cell for every column, and no two columns have the same name unless a
  label takes one of the table's own three figure names.
\<close>

theorem toTable_well_formed:
  assumes "toTable num_str res formatTime = Inr tb"
    and "pa_data res = Some (resultType, JArr entries)" "own_columns \<inter> set (table_labels entries) = {}"
  shows "(\<forall>row \<in> set (pt_rows tb). length row = length (pt_columns tb)) \<and> distinct (pt_columns tb) \<and>
    (pa_success res \<and> resultType \<in> {js ''vector'', js ''matrix''} \<longrightarrow> length (pt_rows tb) = length entries)"
proof -
  have "rectangular tb \<and> distinct (pt_columns tb)"
    using assms(1)
  proof (cases rule: toTable_cases)
    case (built rt result kind points)
    then show ?thesis using assms(2,3) build_rectangular build_columns_distinct by auto
  qed (auto simp: rectangular_def EMPTY_def singleValue_def Let_def split: if_splits)
  moreover have "length (pt_rows tb) = length entries" if "pa_success res" "resultType \<in> {js ''vector'', js ''matrix''}"
  proof -
    from assms(1,2) that obtain kind points where "tb = build_table kind entries points formatTime"
      by (auto simp: toTable_def Let_def js_Cons split: sum.splits)
    then show ?thesis by (simp add: build_rows)
  qed
  ultimately show ?thesis by (auto simp: rectangular_def)
qed

text \<open>\<open>e?.values\<close>: an object's own, or the method every array inherits.\<close>

lemma values_of_eq:
  "values_of e = (case e of JObj kvs \<Rightarrow> (case map_of kvs (js ''values'') of Some v \<Rightarrow> v | None \<Rightarrow> JUndef)
     | JArr vs \<Rightarrow> JObj [] | _ \<Rightarrow> JUndef)"
proof -
  have "find (\<lambda>i. dec i = js ''values'') [0..<n] = None" for n
  proof -
    have "dec i \<noteq> js ''values''" for i
      using dec_digits [of 118 i] by (auto simp: js_Cons is_digit_def)
    then show ?thesis by (simp add: find_None_iff del: js_Cons)
  qed
  moreover have "js ''values'' \<noteq> js ''length''" "js ''values'' \<notin> set object_members" "js ''values'' \<in> set array_members"
      "js ''values'' \<notin> set string_members" "js ''values'' \<notin> set number_members"
    by (simp_all add: object_members_def array_members_def string_members_def number_members_def js_Cons)
  ultimately show ?thesis
    by (cases e) (auto simp: values_of_def jprop_def array_prop_def split: option.split)
qed

lemma series_throws:
  "last_of (values_of e) = Inl TypeError \<longleftrightarrow>
     (case e of
        JArr vs \<Rightarrow> True
      | JObj kvs \<Rightarrow> (case map_of kvs (js ''values'') of
          Some (JBool b) \<Rightarrow> True | Some (JNum n) \<Rightarrow> True | Some (JObj fs) \<Rightarrow> True | _ \<Rightarrow> False)
      | _ \<Rightarrow> False)"
proof (cases e)
  case (JObj kvs)
  show ?thesis
  proof (cases "map_of kvs (js ''values'')")
    case (Some v)
    with JObj show ?thesis unfolding values_of_eq by (cases v) (simp_all del: js_Cons)
  qed (simp add: JObj values_of_eq del: js_Cons)
qed (simp_all add: values_of_eq)

text \<open>
  C32. Reading an answer throws exactly when it is successful and either a
  matrix one of whose series is itself a list, or has a \<open>values\<close> that is a number, a boolean or an
  object; or a scalar or string whose second element is, or holds in a nested list, an object with
  a property \<open>toString\<close>. Every other answer, malformed ones included, becomes a table.
\<close>

theorem toTable_raises_exactly:
  "(\<exists>e. toTable num_str res formatTime = Inl e) \<longleftrightarrow>
    pa_success res \<and>
    ((\<exists>entries e. pa_data res = Some (js ''matrix'', JArr entries) \<and> e \<in> set entries \<and>
        (case e of
           JArr vs \<Rightarrow> True
         | JObj kvs \<Rightarrow> (case map_of kvs (js ''values'') of
             Some (JBool b) \<Rightarrow> True | Some (JNum n) \<Rightarrow> True | Some (JObj fs) \<Rightarrow> True | _ \<Rightarrow> False)
         | _ \<Rightarrow> False)) \<or>
     (\<exists>ty v0 v1 vs. pa_data res = Some (ty, JArr (v0 # v1 # vs)) \<and> ty \<in> {js ''scalar'', js ''string''} \<and>
        \<not> stringable v1))"
proof (cases "pa_data res")
  case None
  then show ?thesis by (simp add: toTable_def)
next
  case (Some d)
  obtain rt result where d: "d = (rt, result)" by (cases d)
  have second: "\<not> stringable (jelem result 1) \<longleftrightarrow> (\<exists>v0 v1 vs. result = JArr (v0 # v1 # vs) \<and> \<not> stringable v1)"
  proof (cases result)
    case (JArr ws)
    then show ?thesis by (cases ws rule: remdups_adj.cases) auto
  qed auto
  consider (matrix) "pa_success res" "rt = js ''matrix''" | (single) "pa_success res" "rt \<in> {js ''scalar'', js ''string''}"
    | (other) "\<not> pa_success res \<or> rt \<notin> {js ''matrix'', js ''scalar'', js ''string''}" by blast
  then show ?thesis
  proof cases
    case matrix
    have "(\<exists>e. toTable num_str res formatTime = Inl e) \<longleftrightarrow> (\<exists>e. collect (map (entry_point tk_series) (array_or_none result)) = Inl e)"
      using matrix Some d by (auto simp: toTable_def Let_def js_Cons split: sum.split)
    also have "\<dots> \<longleftrightarrow> (\<exists>e \<in> set (array_or_none result). last_of (values_of e) = Inl TypeError)"
      unfolding collect_Inl by (auto simp: entry_point_def image_iff intro: sym)
    finally have throws: "(\<exists>e. toTable num_str res formatTime = Inl e) \<longleftrightarrow>
        (\<exists>entries e. result = JArr entries \<and> e \<in> set entries \<and> last_of (values_of e) = Inl TypeError)"
      by (cases result) auto
    have "js ''matrix'' \<noteq> js ''scalar''" "js ''matrix'' \<noteq> js ''string''" by (simp_all add: js_Cons)
    then show ?thesis unfolding throws series_throws using matrix Some d by (simp del: js_Cons)
  next
    case single
    then have "toTable num_str res formatTime = singleValue num_str result"
      using Some d by (auto simp: toTable_def)
    then have "(\<exists>e. toTable num_str res formatTime = Inl e) \<longleftrightarrow> \<not> stringable (jelem result 1)"
      by (simp add: singleValue_def Let_def)
    with second single Some d show ?thesis by (auto simp: js_Cons)
  next
    case other
    have "collect (map (entry_point tk_instant) es) \<noteq> Inl e" for es e
      unfolding collect_Inl by (auto simp: entry_point_def)
    with other Some d show ?thesis by (auto simp: toTable_def Let_def split: sum.splits if_splits)
  qed
qed

text \<open>
  The labels said once above the listing are exactly those every
  series carries with one value; a series' own labels and the shared ones together are all of its
  labels; and the short names are pairwise different, or else every row prints its full name.
\<close>

lemma seriesIdentities_faithful:
  assumes "ms \<noteq> []" "\<forall>m \<in> set ms. distinct (map fst m)"
    and "S = seriesIdentities collate ms"
  shows "length (ss_series S) = length ms \<and>
    (\<forall>k v. (k, v) \<in> set (ss_shared S) \<longleftrightarrow> k \<noteq> NAME_LABEL \<and> (\<forall>m \<in> set ms. map_of m k = Some v)) \<and>
    (\<forall>i < length ms. {p \<in> set (ms ! i). fst p \<noteq> NAME_LABEL} =
       set (si_distinguishing (ss_series S ! i)) \<union> set (ss_shared S)) \<and>
    (distinct (map si_text (ss_series S)) \<or> map si_text (ss_series S) = map si_fullText (ss_series S))"
proof -
  let ?own = "\<lambda>i. set (filter (\<lambda>p. fst p \<notin> set (shared_keys ms)) (sortedEntries collate (ms ! i)))"
  have whole: "{p \<in> set (ms ! i). fst p \<noteq> NAME_LABEL} = ?own i \<union> set (ss_shared S)" if "i < length ms" for i
  proof -
    have "ms ! i \<in> set ms" "distinct (map fst (ms ! i))" using that assms(2) by auto
    from full_split [OF this assms(1)] show ?thesis unfolding assms(3) by (simp only: set_sortedEntries)
  qed
  have pairs: "(k, v) \<in> set (ss_shared S) \<longleftrightarrow> k \<noteq> NAME_LABEL \<and> (\<forall>m \<in> set ms. map_of m k = Some v)" for k v
    unfolding assms(3) by (rule shared_pairs [OF assms(1)])
  from assms(1) show ?thesis
  proof (cases rule: series_cases [where collate = collate])
    case short
    have "{p \<in> set (ms ! i). fst p \<noteq> NAME_LABEL} = set (si_distinguishing (ss_series S ! i)) \<union> set (ss_shared S)"
      if "i < length ms" for i
      using whole [OF that] build_series_nth [OF that, of collate True] unfolding assms(3) short(1) by (simp only: if_True)
    moreover have "length (ss_series S) = length ms" unfolding assms(3) short(1) by (rule length_build_series)
    moreover have "distinct (map si_text (ss_series S))" unfolding assms(3) short(1) by (rule short(2))
    ultimately show ?thesis using pairs by blast
  next
    case long
    have "{p \<in> set (ms ! i). fst p \<noteq> NAME_LABEL} = set (si_distinguishing (ss_series S ! i)) \<union> set (ss_shared S)"
      if "i < length ms" for i
    proof -
      have "set (si_distinguishing (ss_series S ! i)) = {p \<in> set (ms ! i). fst p \<noteq> NAME_LABEL}"
        using build_series_nth [OF that, of collate False] unfolding assms(3) long by (simp only: if_False set_sortedEntries)
      with whole [OF that] show ?thesis by blast
    qed
    moreover have "length (ss_series S) = length ms" unfolding assms(3) long by (rule length_build_series)
    moreover have "map si_text (ss_series S) = map si_fullText (ss_series S)" unfolding assms(3) long by (rule build_series_full)
    ultimately show ?thesis using pairs by blast
  qed
qed

definition demo_entries :: "jsval list" where
  "demo_entries = [JObj [(js ''metric'', JObj [(js ''pod'', JStr (js ''a''))]), (js ''value'', JArr [JNum (Fin 5), JStr (js ''1'')])]]"

theorem toTable_well_formed_witness:
  "\<exists>tb. toTable (\<lambda>n. []) \<lparr>pa_success = True, pa_data = Some (js ''vector'', JArr demo_entries)\<rparr> None = Inr tb \<and>
     distinct (pt_columns tb) \<and> length (pt_rows tb) = 1"
proof -
  let ?res = "\<lparr>pa_success = True, pa_data = Some (js ''vector'', JArr demo_entries)\<rparr>"
  have "\<not> (\<exists>e. toTable (\<lambda>n. []) ?res None = Inl e)"
    by (simp add: toTable_def Let_def collect_Inl entry_point_def demo_entries_def)
  then obtain tb where tb: "toTable (\<lambda>n. []) ?res None = Inr tb" by (metis sum.exhaust)
  have "table_labels demo_entries = [js ''pod'']"
    by (simp add: table_labels_def demo_entries_def js_Cons js_set_def jadd_def jprop_def)
  then have "own_columns \<inter> set (table_labels demo_entries) = {}"
    by (simp add: own_columns_def VALUE_COL_def LAST_COL_def POINTS_COL_def js_Cons)
  from toTable_well_formed [OF tb _ this, of "js ''vector''"] tb show ?thesis by (simp add: demo_entries_def)
qed

end
