(* ===== verification/Chart_Tooltip.thy ===== *)
theory Chart_Tooltip
  imports Js_Prelude
begin

section \<open>The chart tooltip (lib/chart-tooltip.ts)\<close>

text \<open>
  Where the tooltip of a chart goes, which rows it keeps, what a row's value reads as and the
  HTML it becomes. \<open>num\<close> is \<open>Number\<close> of a string, \<open>num_str\<close> is \<open>String(x)\<close> of a non-integer. The
  rewriting of an ECharts option object around these (\<open>sharedTooltipOption\<close> and the axis pills)
  is not modelled, but for the position callback.

  The placement is shown to stay inside the window whenever the tooltip fits it and to cover the
  point only where no side has room; the cap to keep the rows nearest the cursor and to count the
  rest; escaped text to hold no character of markup and to be read back.
\<close>

definition GAP :: jsnum where
  "GAP = Fin 12"

definition VIEWPORT_MARGIN :: jsnum where
  "VIEWPORT_MARGIN = Fin 8"

record HostRect =
  hr_left :: jsnum
  hr_top :: jsnum
  hr_width :: jsnum
  hr_height :: jsnum

record TooltipPlacement =
  tp_point :: "jsnum \<times> jsnum"
  tp_content :: "jsnum \<times> jsnum"
  tp_host :: HostRect
  tp_viewport :: "jsnum \<times> jsnum"

definition clamp :: "jsnum \<Rightarrow> jsnum \<Rightarrow> jsnum \<Rightarrow> jsnum" where
  "clamp value lo hi = (if hi < lo then lo else jmin (jmax value lo) hi)"

definition placeTooltip :: "TooltipPlacement \<Rightarrow> jsnum \<times> jsnum" where
  "placeTooltip p =
     (let (px, py) = tp_point p;
          (w, h) = tp_content p;
          (vw, vh) = tp_viewport p;
          minX = VIEWPORT_MARGIN - hr_left (tp_host p);
          maxX = vw - VIEWPORT_MARGIN - w - hr_left (tp_host p);
          minY = VIEWPORT_MARGIN - hr_top (tp_host p);
          maxY = vh - VIEWPORT_MARGIN - h - hr_top (tp_host p);
          right = px + GAP;
          left = px - GAP - w;
          x = (if right \<le> maxX then right else if minX \<le> left then left else clamp right minX maxX);
          y = clamp (py - h / Fin 2) minY maxY;
          coversPoint = (x \<le> px \<and> px \<le> x + w \<and> y \<le> py \<and> py \<le> y + h);
          below = py + GAP;
          over = py - GAP - h
      in (x, if coversPoint then (if below \<le> maxY then below else if minY \<le> over then over else y) else y))"

text \<open>The \<open>position\<close> callback of \<open>clampTooltipOption\<close>: \<open>box\<close> is the host's measured rectangle.\<close>

definition tooltip_position :: "HostRect option \<Rightarrow> (jsnum \<times> jsnum) option \<Rightarrow> jsnum \<times> jsnum \<Rightarrow> jsnum \<times> jsnum \<Rightarrow> jsnum \<times> jsnum \<Rightarrow> jsnum \<times> jsnum" where
  "tooltip_position box window point contentSize viewSize =
     placeTooltip \<lparr>tp_point = point, tp_content = contentSize,
       tp_host = (case box of Some b \<Rightarrow> b | None \<Rightarrow> \<lparr>hr_left = Fin 0, hr_top = Fin 0, hr_width = fst viewSize, hr_height = snd viewSize\<rparr>),
       tp_viewport = (case window of None \<Rightarrow> viewSize | Some v \<Rightarrow> v)\<rparr>"

subsection \<open>Rows\<close>

definition TOOLTIP_ROW_CAP :: nat where
  "TOOLTIP_ROW_CAP = 10"

record AxisTooltipRow =
  tr_marker :: "jstring option"
  tr_seriesName :: "jstring option"
  tr_axisValueLabel :: "jstring option"
  tr_value :: jsval
  tr_seriesIndex :: "nat option"

text \<open>The last element of a list value, or the value itself.\<close>

fun row_raw :: "jsval \<Rightarrow> jsval" where
  "row_raw (JArr vs) = (if vs = [] then JUndef else last vs)"
| "row_raw v = v"

definition rowValue :: "(jstring \<Rightarrow> jsnum) \<Rightarrow> (jsnum \<Rightarrow> jstring) \<Rightarrow> 'a AxisTooltipRow_scheme \<Rightarrow> jsnum option" where
  "rowValue num num_str row =
     (let raw = row_raw (tr_value row)
      in if raw = JNull \<or> raw = JUndef \<or> raw = JStr [] then None
         else let n = to_number num num_str raw in if is_finite n then Some n else None)"

definition row_rank :: "(jstring \<Rightarrow> jsnum) \<Rightarrow> (jsnum \<Rightarrow> jstring) \<Rightarrow> jsnum option \<Rightarrow> 'a AxisTooltipRow_scheme \<Rightarrow> jsnum" where
  "row_rank num num_str cursor row =
     (case rowValue num num_str row of
        None \<Rightarrow> PInf
      | Some v \<Rightarrow> (case cursor of None \<Rightarrow> - v | Some c \<Rightarrow> jabs (v - c)))"

text \<open>\<open>a.rank - b.rank || a.i - b.i\<close>: zero and NaN are falsy.\<close>

definition by_rank :: "(jsnum \<times> nat) \<times> 'r \<Rightarrow> (jsnum \<times> nat) \<times> 'r \<Rightarrow> jsnum" where
  "by_rank a b =
     (let d = fst (fst a) - fst (fst b)
      in if d = Fin 0 \<or> d = NaN then jnat (snd (fst a)) - jnat (snd (fst b)) else d)"

definition capTooltipRows :: "(jstring \<Rightarrow> jsnum) \<Rightarrow> (jsnum \<Rightarrow> jstring) \<Rightarrow> 'a AxisTooltipRow_scheme list \<Rightarrow> jsnum option \<Rightarrow> nat \<Rightarrow>
    'a AxisTooltipRow_scheme list \<times> nat" where
  "capTooltipRows num num_str rows cursor cap =
     (if length rows \<le> cap then (rows, 0)
      else let ordered = map snd (js_sort by_rank
                 (map (\<lambda>i. ((row_rank num num_str cursor (rows ! i), i), rows ! i)) [0..<length rows]))
           in (take cap ordered, length rows - cap))"

subsection \<open>Text\<close>

definition NO_VALUE :: jstring where
  "NO_VALUE = [8212]"

definition tooltipValueText :: "(jsnum \<Rightarrow> jstring) \<Rightarrow> jsval \<Rightarrow> (jsval \<Rightarrow> jstring) option \<Rightarrow> jstring" where
  "tooltipValueText num_str raw valueFormatter =
     (if raw = JNull \<or> raw = JUndef \<or> raw = JStr [] \<or> raw = JStr (js ''-'') then NO_VALUE
      else if (case raw of JNum n \<Rightarrow> \<not> is_finite n | _ \<Rightarrow> False) then NO_VALUE
      else case valueFormatter of Some f \<Rightarrow> f raw | None \<Rightarrow> template num_str raw)"

definition replace_char :: "jchar \<Rightarrow> jstring \<Rightarrow> jstring \<Rightarrow> jstring" where
  "replace_char c rep s = concat (map (\<lambda>x. if x = c then rep else [x]) s)"

definition escapeHtml :: "jstring \<Rightarrow> jstring" where
  "escapeHtml value =
     replace_char 34 (js ''&quot;'') (replace_char 62 (js ''&gt;'') (replace_char 60 (js ''&lt;'') (replace_char 38 (js ''&amp;'') value)))"

definition tooltip_row :: "(jsnum \<Rightarrow> jstring) \<Rightarrow> (jsval \<Rightarrow> AxisTooltipRow \<Rightarrow> jstring) option \<Rightarrow> AxisTooltipRow \<Rightarrow> jstring" where
  "tooltip_row num_str valueFormatter row =
     (let shown = tooltipValueText num_str (row_raw (tr_value row)) (map_option (\<lambda>f value. f value row) valueFormatter)
      in js ''<div style=\"display:flex;align-items:center;gap:8px;line-height:1.5\">'' @ (case tr_marker row of Some m \<Rightarrow> m | None \<Rightarrow> []) @
         js ''<span style=\"flex:1 1 auto;overflow:hidden;text-overflow:ellipsis;white-space:nowrap;max-width:22rem\">'' @
         escapeHtml (case tr_seriesName row of Some n \<Rightarrow> n | None \<Rightarrow> []) @ js ''</span>'' @
         js ''<span style=\"font-weight:600\">'' @ escapeHtml shown @ js ''</span></div>'')"

definition renderAxisTooltip :: "(jsnum \<Rightarrow> jstring) \<Rightarrow> AxisTooltipRow list \<Rightarrow> nat \<Rightarrow> jstring \<Rightarrow> (nat \<Rightarrow> jstring) \<Rightarrow>
    (jsval \<Rightarrow> AxisTooltipRow \<Rightarrow> jstring) option \<Rightarrow> jstring" where
  "renderAxisTooltip num_str rows hidden header left_out valueFormatter =
     js ''<div style=\"font-weight:600;margin-bottom:4px\">'' @ escapeHtml header @ js ''</div>'' @
     concat (map (tooltip_row num_str valueFormatter) rows) @
     (if 0 < hidden then js ''<div style=\"margin-top:4px;opacity:0.7\">'' @ escapeHtml (left_out hidden) @ js ''</div>'' else [])"

subsection \<open>Placement\<close>

lemma clamp_Fin: "clamp (Fin v) (Fin lo) (Fin hi) = Fin (if hi < lo then lo else min (max v lo) hi)"
  by (simp add: clamp_def)

text \<open>\<open>placeTooltip\<close> on finite sizes, over the rationals.\<close>

definition place_x :: "rat \<Rightarrow> rat \<Rightarrow> rat \<Rightarrow> rat \<Rightarrow> rat" where
  "place_x px w minX maxX =
     (if px + 12 \<le> maxX then px + 12 else if minX \<le> px - 12 - w then px - 12 - w
      else if maxX < minX then minX else min (max (px + 12) minX) maxX)"

definition place_y :: "rat \<Rightarrow> rat \<Rightarrow> rat \<Rightarrow> rat \<Rightarrow> bool \<Rightarrow> rat" where
  "place_y py h minY maxY over_x =
     (let y = (if maxY < minY then minY else min (max (py - h / 2) minY) maxY)
      in if over_x \<and> y \<le> py \<and> py \<le> y + h
         then (if py + 12 \<le> maxY then py + 12 else if minY \<le> py - 12 - h then py - 12 - h else y) else y)"

lemma placeTooltip_Fin:
  assumes "minX = 8 - l" "maxX = vw - 8 - w - l" "minY = 8 - t" "maxY = vh - 8 - h - t" "x = place_x px w minX maxX"
  shows "placeTooltip \<lparr>tp_point = (Fin px, Fin py), tp_content = (Fin w, Fin h),
      tp_host = \<lparr>hr_left = Fin l, hr_top = Fin t, hr_width = hw, hr_height = hh\<rparr>, tp_viewport = (Fin vw, Fin vh)\<rparr> =
    (Fin x, Fin (place_y py h minY maxY (x \<le> px \<and> px \<le> x + w)))"
proof -
  have n: "VIEWPORT_MARGIN - Fin l = Fin minX" "Fin vw - VIEWPORT_MARGIN - Fin w - Fin l = Fin maxX"
      "VIEWPORT_MARGIN - Fin t = Fin minY" "Fin vh - VIEWPORT_MARGIN - Fin h - Fin t = Fin maxY"
      "Fin px + GAP = Fin (px + 12)" "Fin px - GAP - Fin w = Fin (px - 12 - w)"
      "Fin py + GAP = Fin (py + 12)" "Fin py - GAP - Fin h = Fin (py - 12 - h)" "Fin py - Fin h / Fin 2 = Fin (py - h / 2)"
    by (simp_all add: assms VIEWPORT_MARGIN_def GAP_def)
  have x: "(if px + 12 \<le> maxX then Fin (px + 12) else if minX \<le> px - 12 - w then Fin (px - 12 - w) else clamp (Fin (px + 12)) (Fin minX) (Fin maxX)) = Fin x"
    unfolding assms(5) place_x_def clamp_Fin by simp
  show ?thesis
    unfolding placeTooltip_def Let_def TooltipPlacement.simps HostRect.simps prod.case n less_eq_jsnum.simps
    unfolding x unfolding clamp_Fin place_y_def Let_def by simp
qed

lemma place_x_inside:
  assumes "minX \<le> maxX" "minX \<le> px + 12" "px - 12 - w \<le> maxX"
  shows "minX \<le> place_x px w minX maxX \<and> place_x px w minX maxX \<le> maxX"
  using assms by (simp add: place_x_def)

lemma place_y_inside:
  assumes "minY \<le> maxY" "minY \<le> py + 12" "py - 12 - h \<le> maxY"
  shows "minY \<le> place_y py h minY maxY b \<and> place_y py h minY maxY b \<le> maxY"
  using assms by (simp add: place_y_def Let_def)

lemma place_x_beside:
  assumes "place_x px w minX maxX \<le> px" "px \<le> place_x px w minX maxX + w"
  shows "maxX < px + 12 \<and> px - 12 - w < minX"
  using assms by (simp add: place_x_def split: if_splits)

lemma place_y_clear:
  assumes "b" "place_y py h minY maxY b \<le> py" "py \<le> place_y py h minY maxY b + h"
  shows "maxY < py + 12 \<and> py - 12 - h < minY"
  using assms by (simp add: place_y_def Let_def split: if_splits)

subsection \<open>Rows kept\<close>

definition ranked_row :: "((jsnum \<times> nat) \<times> 'r) set" where
  "ranked_row = {a. fst (fst a) = PInf \<or> is_finite (fst (fst a))}"

definition rank_before :: "(jsnum \<times> nat) \<times> 'r \<Rightarrow> (jsnum \<times> nat) \<times> 'r \<Rightarrow> bool" where
  "rank_before a b \<longleftrightarrow> fst (fst b) < fst (fst a) \<or> fst (fst a) = fst (fst b) \<and> snd (fst b) < snd (fst a)"

lemma gt_by_rank:
  assumes "a \<in> ranked_row" "b \<in> ranked_row"
  shows "gt_by by_rank a b \<longleftrightarrow> rank_before a b"
proof -
  obtain ra i x rb j y where "a = ((ra, i), x)" "b = ((rb, j), y)" by (metis prod.collapse)
  then show ?thesis using assms
    by (cases ra; cases rb) (auto simp: ranked_row_def rank_before_def gt_by_def by_rank_def Let_def minus_jsnum_def)
qed


lemma rank_before_asym: "a \<in> ranked_row \<Longrightarrow> b \<in> ranked_row \<Longrightarrow> rank_before a b \<Longrightarrow> \<not> rank_before b a"
  by (cases "fst (fst a)"; cases "fst (fst b)") (auto simp: ranked_row_def rank_before_def)

lemma rank_before_trans:
  "a \<in> ranked_row \<Longrightarrow> b \<in> ranked_row \<Longrightarrow> c \<in> ranked_row \<Longrightarrow> \<not> rank_before a b \<Longrightarrow> \<not> rank_before b c \<Longrightarrow> \<not> rank_before a c"
  by (cases "fst (fst a)"; cases "fst (fst b)"; cases "fst (fst c)") (auto simp: ranked_row_def rank_before_def)

interpretation tooltip_rows: comparator_on by_rank ranked_row
proof
  fix a b c :: "(jsnum \<times> nat) \<times> 'a"
  assume r: "a \<in> ranked_row" "b \<in> ranked_row"
  show "\<not> gt_by by_rank b a" if "gt_by by_rank a b"
    using that rank_before_asym [OF r] unfolding gt_by_rank [OF r] gt_by_rank [OF r(2,1)] by blast
  assume c: "c \<in> ranked_row"
  show "\<not> gt_by by_rank a c" if "\<not> gt_by by_rank a b" "\<not> gt_by by_rank b c"
    using that rank_before_trans [OF r c] unfolding gt_by_rank [OF r] gt_by_rank [OF r(2) c] gt_by_rank [OF r(1) c] by blast
qed

lemma row_rank_ranked:
  assumes "\<forall>c. cursor = Some c \<longrightarrow> is_finite c"
  shows "row_rank num num_str cursor row = PInf \<or> is_finite (row_rank num num_str cursor row)"
proof (cases "rowValue num num_str row")
  case (Some v)
  then have "is_finite v" by (auto simp: rowValue_def Let_def split: if_splits)
  with assms Some show ?thesis by (cases cursor) (auto simp: row_rank_def is_finite_iff minus_jsnum_def)
qed (simp add: row_rank_def)

subsection \<open>Escaped text\<close>

lemma set_replace_char: "c' \<in> set (replace_char c rep s) \<longleftrightarrow> c' \<in> set s \<and> c' \<noteq> c \<or> c \<in> set s \<and> c' \<in> set rep"
  by (auto simp: replace_char_def split: if_splits)

text \<open>Somebody else's text cannot open a tag or leave an attribute.\<close>

lemma escapeHtml_safe: "60 \<notin> set (escapeHtml s) \<and> 62 \<notin> set (escapeHtml s) \<and> 34 \<notin> set (escapeHtml s)"
  by (simp add: escapeHtml_def set_replace_char js_Cons)

subsection \<open>Properties\<close>

text \<open>
  With the cursor in the window and a tooltip that fits it, the whole
  tooltip is inside the window's margins, and it covers the point being read only if there is
  room for it on none of the four sides.
\<close>

lemma placeTooltip_in_window:
  assumes "0 \<le> l + px" "l + px \<le> vw" "0 \<le> t + py" "t + py \<le> vh"
    and "w \<le> vw - 16" "h \<le> vh - 16"
  shows "\<exists>x y. placeTooltip \<lparr>tp_point = (Fin px, Fin py), tp_content = (Fin w, Fin h),
       tp_host = \<lparr>hr_left = Fin l, hr_top = Fin t, hr_width = hw, hr_height = hh\<rparr>, tp_viewport = (Fin vw, Fin vh)\<rparr> = (Fin x, Fin y) \<and>
     8 \<le> l + x \<and> l + x + w \<le> vw - 8 \<and> 8 \<le> t + y \<and> t + y + h \<le> vh - 8 \<and>
     (x \<le> px \<and> px \<le> x + w \<and> y \<le> py \<and> py \<le> y + h \<longrightarrow>
        vw - 8 < l + px + 12 + w \<and> l + px - 12 - w < 8 \<and> vh - 8 < t + py + 12 + h \<and> t + py - 12 - h < 8)"
proof -
  let ?minX = "8 - l" and ?maxX = "vw - 8 - w - l" and ?minY = "8 - t" and ?maxY = "vh - 8 - h - t"
  define x where "x = place_x px w ?minX ?maxX"
  define y where "y = place_y py h ?minY ?maxY (x \<le> px \<and> px \<le> x + w)"
  have "placeTooltip \<lparr>tp_point = (Fin px, Fin py), tp_content = (Fin w, Fin h),
       tp_host = \<lparr>hr_left = Fin l, hr_top = Fin t, hr_width = hw, hr_height = hh\<rparr>, tp_viewport = (Fin vw, Fin vh)\<rparr> = (Fin x, Fin y)"
    unfolding y_def by (rule placeTooltip_Fin) (simp_all add: x_def)
  moreover have "?minX \<le> x \<and> x \<le> ?maxX" unfolding x_def by (rule place_x_inside) (use assms in linarith)+
  moreover have "?minY \<le> y \<and> y \<le> ?maxY" unfolding y_def by (rule place_y_inside) (use assms in linarith)+
  moreover have "?maxX < px + 12 \<and> px - 12 - w < ?minX \<and> ?maxY < py + 12 \<and> py - 12 - h < ?minY"
    if "x \<le> px" "px \<le> x + w" "y \<le> py" "py \<le> y + h"
    using place_x_beside [of px w ?minX ?maxX] place_y_clear [of "x \<le> px \<and> px \<le> x + w" py h ?minY ?maxY] that
    unfolding x_def [symmetric] y_def [symmetric] by blast
  ultimately show ?thesis by (intro exI [of _ x] exI [of _ y]) (auto simp: algebra_simps)
qed

definition tag_rows :: "(jstring \<Rightarrow> jsnum) \<Rightarrow> (jsnum \<Rightarrow> jstring) \<Rightarrow> jsnum option \<Rightarrow> 'a AxisTooltipRow_scheme list \<Rightarrow>
    ((jsnum \<times> nat) \<times> 'a AxisTooltipRow_scheme) list" where
  "tag_rows num num_str cursor rows = map (\<lambda>i. ((row_rank num num_str cursor (rows ! i), i), rows ! i)) [0..<length rows]"

lemma tag_rows_rows: "map snd (tag_rows num num_str cursor rows) = rows"
  by (simp add: tag_rows_def comp_def map_nth)

lemma tag_rows_ranked:
  assumes "\<forall>c. cursor = Some c \<longrightarrow> is_finite c" "e \<in> set (tag_rows num num_str cursor rows)"
  shows "fst (fst e) = row_rank num num_str cursor (snd e)" "e \<in> ranked_row"
proof -
  from assms(2) obtain i where i: "e = ((row_rank num num_str cursor (rows ! i), i), rows ! i)"
    unfolding tag_rows_def set_map by (elim imageE)
  from i show "fst (fst e) = row_rank num num_str cursor (snd e)" by simp
  from row_rank_ranked [OF assms(1), of num num_str "rows ! i"] i show "e \<in> ranked_row"
    unfolding ranked_row_def by simp
qed

lemma sorted_take_drop:
  assumes "sorted_wrt P xs" "a \<in> set (take n xs)" "b \<in> set (drop n xs)"
  shows "P a b"
proof -
  have "sorted_wrt P (take n xs @ drop n xs)" using assms(1) by simp
  then show ?thesis using assms(2,3) unfolding sorted_wrt_append by blast
qed

text \<open>Past the cap, the rows kept are those nearest the cursor and the rest are counted.\<close>

lemma capTooltipRows_nearest:
  assumes "\<forall>c. cursor = Some c \<longrightarrow> is_finite c" "cap < length rows"
    and "(kept, hidden) = capTooltipRows num num_str rows cursor cap"
  shows "\<exists>ordered. mset ordered = mset rows \<and> kept = take cap ordered \<and> length kept + hidden = length rows \<and>
    (\<forall>a \<in> set kept. \<forall>b \<in> set (drop cap ordered). \<not> row_rank num num_str cursor b < row_rank num num_str cursor a)"
proof -
  let ?sorted = "js_sort by_rank (tag_rows num num_str cursor rows)"
  let ?ordered = "map snd ?sorted"
  have kept: "kept = take cap ?ordered" "hidden = length rows - cap"
    using assms(2,3) unfolding tag_rows_def by (simp_all add: capTooltipRows_def Let_def)
  have "mset ?ordered = mset (map snd (tag_rows num num_str cursor rows))" by (simp only: mset_map mset_js_sort)
  then have mset: "mset ?ordered = mset rows" unfolding tag_rows_rows .
  have in_tag: "e \<in> set (tag_rows num num_str cursor rows)" if "e \<in> set ?sorted" for e using that by simp
  have "set (tag_rows num num_str cursor rows) \<subseteq> ranked_row" using tag_rows_ranked(2) [OF assms(1)] by blast
  then have sorted: "sorted_wrt (\<lambda>a b. \<not> gt_by by_rank a b) ?sorted" by (rule tooltip_rows.sort_sorted)
  have "\<not> row_rank num num_str cursor b < row_rank num num_str cursor a"
    if "a \<in> set (take cap ?ordered)" "b \<in> set (drop cap ?ordered)" for a b
  proof -
    from that obtain ea eb where e: "ea \<in> set (take cap ?sorted)" "eb \<in> set (drop cap ?sorted)" "a = snd ea" "b = snd eb"
      unfolding take_map drop_map set_map by (elim imageE)
    note s = in_tag [OF in_set_takeD [OF e(1)]] in_tag [OF in_set_dropD [OF e(2)]]
    have "\<not> rank_before ea eb"
      using sorted_take_drop [OF sorted e(1,2)] gt_by_rank [OF tag_rows_ranked(2) [OF assms(1) s(1)] tag_rows_ranked(2) [OF assms(1) s(2)]]
      by blast
    then show ?thesis
      unfolding e(3,4) rank_before_def tag_rows_ranked(1) [OF assms(1) s(1)] tag_rows_ranked(1) [OF assms(1) s(2)] by blast
  qed
  moreover have "length ?ordered = length rows" using mset by (rule mset_eq_length)
  ultimately show ?thesis using mset kept assms(2) by (intro exI [of _ ?ordered] conjI) simp_all
qed

end
