(* ===== verification/Path_Diff.thy ===== *)
theory Path_Diff
  imports Run_Cadence
begin

section \<open>Comparing two network paths (components/mtr-path-diff.tsx, components/mtr-hop-table.tsx)\<close>

text \<open>
  Two recorded paths are aligned on the hops whose addresses agree, by the usual dynamic programme
  for a longest common subsequence, and what lies between two anchors is paired off, removed or
  added. The table of the programme is built row by row from the last hop, as in the source, and
  the walk over it is a loop on two indices. A hop is JSON: its address and its readings are
  \<open>jsval\<close>. \<open>num_str\<close> is \<open>String(x)\<close> of a non-integer; \<open>parse\<close> is \<open>Date.parse\<close>.

  Every alignment of the two paths is shown to be at most as long as the one drawn, and both
  paths to be read back from the two columns of the table.
\<close>

subsection \<open>Hops\<close>

record MTRHop =
  hop_number :: jsval
  hop_ip :: jsval
  hop_rttNs :: jsval

definition isPlaceholderHop :: "jsval \<Rightarrow> bool" where
  "isPlaceholderHop ip = (case ip of JStr s \<Rightarrow> trim s = [] \<or> trim s = js ''*'' | _ \<Rightarrow> True)"

definition fmtRttNs :: "(jsnum \<Rightarrow> jstring) \<Rightarrow> jsval \<Rightarrow> jstring" where
  "fmtRttNs num_str v =
     (case v of
        JNum ns \<Rightarrow>
          if \<not> is_finite ns then [8212]
          else (case fmtMicrosNs num_str ns (js ''en'') of
                  Some s \<Rightarrow> s
                | None \<Rightarrow> to_fixed num_str 1 (divide ns (Fin 1000000)) @ js ''ms'')
      | _ \<Rightarrow> [8212])"

definition fmtLossPct :: "(jsnum \<Rightarrow> jstring) \<Rightarrow> jsval \<Rightarrow> jstring" where
  "fmtLossPct num_str v =
     (case v of
        JNum ratio \<Rightarrow>
          if \<not> is_finite ratio then [8212]
          else to_fixed num_str 0 (jmin (jmax ratio (Fin 0)) (Fin 1) * Fin 100) @ js ''%''
      | _ \<Rightarrow> [8212])"

datatype LossTier = loss_ok | loss_warn | loss_bad

definition lossTier :: "jsval \<Rightarrow> LossTier" where
  "lossTier v =
     (case v of
        JNum ratio \<Rightarrow>
          if \<not> is_finite ratio then loss_ok
          else if ratio < Fin (1 / 100) then loss_ok
          else if ratio < Fin (1 / 10) then loss_warn
          else loss_bad
      | _ \<Rightarrow> loss_ok)"

definition shortHash :: "jsval \<Rightarrow> jstring" where
  "shortHash v = (case v of JStr s \<Rightarrow> take 12 s | _ \<Rightarrow> [])"

definition pathChainText :: "(jsnum \<Rightarrow> jstring) \<Rightarrow> MTRHop list \<Rightarrow> jstring" where
  "pathChainText num_str hops =
     join [32, 8594, 32] (map (\<lambda>h. if isPlaceholderHop (hop_ip h) then js ''*'' else template num_str (hop_ip h)) hops)"

text \<open>A stored path, as far as the trend chart reads it; \<open>None\<close> is a \<open>hops\<close> field that is no list.\<close>

record trend_path =
  tr_firstSeen :: jstring
  tr_hops :: "MTRHop list option"
  tr_traceCount :: jsnum

definition hopList :: "'a list option \<Rightarrow> 'a list" where
  "hopList hops = (case hops of Some hs \<Rightarrow> hs | None \<Rightarrow> [])"

text \<open>\<open>rttNs === undefined || Number.isNaN(rttNs) ? null : rttNs / 1e6\<close>.\<close>

definition trend_value :: "(jstring \<Rightarrow> jsnum) \<Rightarrow> (jsnum \<Rightarrow> jstring) \<Rightarrow> jsval \<Rightarrow> jsnum option" where
  "trend_value num num_str v =
     (if v = JUndef \<or> v = JNum NaN then None else Some (divide (to_number num num_str v) (Fin 1000000)))"

definition hopTrendSeries :: "(jstring \<Rightarrow> date) \<Rightarrow> (jstring \<Rightarrow> jsnum) \<Rightarrow> (jsnum \<Rightarrow> jstring) \<Rightarrow> trend_path list \<Rightarrow> jstring \<Rightarrow> (jsnum \<times> jsnum option) list" where
  "hopTrendSeries parse num num_str snapshots ip =
     List.map_filter (\<lambda>s.
       let t = parse (tr_firstSeen s)
       in if is_nan t then None
          else Some (t, case find (\<lambda>h. hop_ip h = JStr ip) (hopList (tr_hops s)) of
                          None \<Rightarrow> None
                        | Some h \<Rightarrow> trend_value num num_str (hop_rttNs h))) (rev snapshots)"

definition loadedTraces :: "trend_path list \<Rightarrow> jsnum" where
  "loadedTraces snapshots = foldl (\<lambda>sum s. sum + tr_traceCount s) (Fin 0) snapshots"

definition historyIsPartial :: "trend_path list \<Rightarrow> bool \<Rightarrow> jsnum option \<Rightarrow> bool" where
  "historyIsPartial snapshots hasOlder traceTotal =
     (if hasOlder then True
      else case traceTotal of None \<Rightarrow> False | Some n \<Rightarrow> loadedTraces snapshots < n)"

definition SINGLE_POINT_PAD_MS :: jsnum where
  "SINGLE_POINT_PAD_MS = Fin 3600000"

definition EXTENT_PAD_RATIO :: jsnum where
  "EXTENT_PAD_RATIO = Fin (1 / 20)"

definition trendExtent :: "(jsnum \<times> jsnum option) list \<Rightarrow> (jsnum \<times> jsnum) option" where
  "trendExtent points =
     (let xs = map fst (filter (\<lambda>p. snd p \<noteq> None) points)
      in if xs = [] then None
         else let lo = jmin_list xs; hi = jmax_list xs
              in if jeq lo hi then Some (lo - SINGLE_POINT_PAD_MS, hi + SINGLE_POINT_PAD_MS)
                 else let pad = (hi - lo) * EXTENT_PAD_RATIO in Some (lo - pad, hi + pad))"

subsection \<open>The alignment\<close>

definition anchorable :: "MTRHop \<Rightarrow> MTRHop \<Rightarrow> bool" where
  "anchorable x y \<longleftrightarrow> \<not> isPlaceholderHop (hop_ip x) \<and> hop_ip x = hop_ip y"

text \<open>\<open>dp[i]\<close> from \<open>dp[i + 1]\<close>, from the last column to the first.\<close>

fun dp_row :: "MTRHop \<Rightarrow> MTRHop list \<Rightarrow> nat list \<Rightarrow> nat list" where
  "dp_row x [] below = [0]"
| "dp_row x (y # ys) below =
     (let right = dp_row x ys (tl below)
      in (if anchorable x y then hd (tl below) + 1 else max (hd below) (hd right)) # right)"

definition dp_table :: "MTRHop list \<Rightarrow> MTRHop list \<Rightarrow> nat list list" where
  "dp_table a b = foldr (\<lambda>x rows. dp_row x b (hd rows) # rows) a [replicate (length b + 1) 0]"

function walk_anchors :: "MTRHop list \<Rightarrow> MTRHop list \<Rightarrow> nat list list \<Rightarrow> nat \<Rightarrow> nat \<Rightarrow> (nat \<times> nat) list" where
  "walk_anchors a b dp i j =
     (if i < length a \<and> j < length b
      then if anchorable (a ! i) (b ! j) then (i, j) # walk_anchors a b dp (i + 1) (j + 1)
           else if dp ! i ! (j + 1) \<le> dp ! (i + 1) ! j then walk_anchors a b dp (i + 1) j
           else walk_anchors a b dp i (j + 1)
      else [])"
  by pat_completeness auto
termination
  by (relation "measure (\<lambda>(a, b, dp, i, j). (length a - i) + (length b - j))") auto

declare walk_anchors.simps [simp del]

definition lcsAnchors :: "MTRHop list \<Rightarrow> MTRHop list \<Rightarrow> (nat \<times> nat) list" where
  "lcsAnchors a b = walk_anchors a b (dp_table a b) 0 0"

subsection \<open>The rows\<close>

datatype DiffKind = dk_same | dk_changed | dk_added | dk_removed

record DiffRow =
  dr_kind :: DiffKind
  dr_aHop :: "MTRHop option"
  dr_bHop :: "MTRHop option"
  dr_rttDeltaNs :: "jsnum option"

definition gap_rows :: "MTRHop list \<Rightarrow> MTRHop list \<Rightarrow> DiffRow list" where
  "gap_rows aRun bRun =
     (let zipped = min (length aRun) (length bRun)
      in map (\<lambda>k. \<lparr>dr_kind = dk_changed, dr_aHop = Some (aRun ! k), dr_bHop = Some (bRun ! k), dr_rttDeltaNs = None\<rparr>) [0..<zipped] @
         map (\<lambda>k. \<lparr>dr_kind = dk_removed, dr_aHop = Some (aRun ! k), dr_bHop = None, dr_rttDeltaNs = None\<rparr>) [zipped..<length aRun] @
         map (\<lambda>k. \<lparr>dr_kind = dk_added, dr_aHop = None, dr_bHop = Some (bRun ! k), dr_rttDeltaNs = None\<rparr>) [zipped..<length bRun])"

definition rtt_delta :: "jsval \<Rightarrow> jsval \<Rightarrow> jsnum option" where
  "rtt_delta older newer =
     (case (older, newer) of
        (JNum x, JNum y) \<Rightarrow> if is_finite y \<and> is_finite x then Some (y - x) else None
      | _ \<Rightarrow> None)"

definition same_row :: "MTRHop \<Rightarrow> MTRHop \<Rightarrow> DiffRow" where
  "same_row x y = \<lparr>dr_kind = dk_same, dr_aHop = Some x, dr_bHop = Some y, dr_rttDeltaNs = rtt_delta (hop_rttNs x) (hop_rttNs y)\<rparr>"

fun diff_from :: "MTRHop list \<Rightarrow> MTRHop list \<Rightarrow> nat \<Rightarrow> nat \<Rightarrow> (nat \<times> nat) list \<Rightarrow> DiffRow list" where
  "diff_from a b ai bi [] = gap_rows (drop ai a) (drop bi b)"
| "diff_from a b ai bi ((x, y) # rest) =
     gap_rows (take (x - ai) (drop ai a)) (take (y - bi) (drop bi b)) @ same_row (a ! x) (b ! y) # diff_from a b (x + 1) (y + 1) rest"

definition diffPaths :: "MTRHop list option \<Rightarrow> MTRHop list option \<Rightarrow> DiffRow list" where
  "diffPaths aHops bHops = (let a = hopList aHops; b = hopList bHops in diff_from a b 0 0 (lcsAnchors a b))"

subsection \<open>The change in words\<close>

datatype PathChangeKind = pc_same | pc_changed | pc_added | pc_removed | pc_several

record PathChangeSummary =
  pcs_kind :: PathChangeKind
  pcs_hop :: "jsval option"
  pcs_from :: "jsval option"
  pcs_to :: "jsval option"
  pcs_total :: nat

definition row_moved :: "DiffRow \<Rightarrow> bool" where
  "row_moved r \<longleftrightarrow> dr_kind r \<noteq> dk_same \<and>
     \<not> (case (dr_aHop r, dr_bHop r) of
          (Some x, Some y) \<Rightarrow> isPlaceholderHop (hop_ip x) \<and> isPlaceholderHop (hop_ip y)
        | _ \<Rightarrow> False)"

text \<open>\<open>row.bHop?.number ?? row.aHop?.number\<close>.\<close>

definition row_number :: "DiffRow \<Rightarrow> jsval option" where
  "row_number r =
     (case map_option hop_number (dr_bHop r) of
        Some v \<Rightarrow> if v = JUndef \<or> v = JNull then map_option hop_number (dr_aHop r) else Some v
      | None \<Rightarrow> map_option hop_number (dr_aHop r))"

definition summarisePathChange :: "MTRHop list option \<Rightarrow> MTRHop list option \<Rightarrow> PathChangeSummary" where
  "summarisePathChange a b =
     (let moved = filter row_moved (diffPaths a b)
      in if moved = [] then \<lparr>pcs_kind = pc_same, pcs_hop = None, pcs_from = None, pcs_to = None, pcs_total = 0\<rparr>
         else if 1 < length moved
         then \<lparr>pcs_kind = pc_several, pcs_hop = None, pcs_from = None, pcs_to = None, pcs_total = length moved\<rparr>
         else let row = hd moved; ip_a = map_option hop_ip (dr_aHop row); ip_b = map_option hop_ip (dr_bHop row)
              in case dr_kind row of
                   dk_changed \<Rightarrow> \<lparr>pcs_kind = pc_changed, pcs_hop = row_number row, pcs_from = ip_a, pcs_to = ip_b, pcs_total = 1\<rparr>
                 | dk_added \<Rightarrow> \<lparr>pcs_kind = pc_added, pcs_hop = row_number row, pcs_from = None, pcs_to = ip_b, pcs_total = 1\<rparr>
                 | _ \<Rightarrow> \<lparr>pcs_kind = pc_removed, pcs_hop = row_number row, pcs_from = ip_a, pcs_to = None, pcs_total = 1\<rparr>)"

text \<open>\<open>Number(shown) === 0\<close>: the printed figure has only zeros.\<close>

definition prints_zero :: "jstring \<Rightarrow> bool" where
  "prints_zero s \<longleftrightarrow> list_all (\<lambda>c. c = 45 \<or> c = 46 \<or> c = 48) s"

definition fmtRttDeltaNs :: "(jsnum \<Rightarrow> jstring) \<Rightarrow> jsnum option \<Rightarrow> jstring" where
  "fmtRttDeltaNs num_str d =
     (case d of
        None \<Rightarrow> [8212]
      | Some ns \<Rightarrow>
          if \<not> is_finite ns then [8212]
          else let shown = to_fixed num_str 1 (divide ns (Fin 1000000))
               in if prints_zero shown then js ''0.0ms''
                  else (if Fin 0 < ns then js ''+'' else []) @ shown @ js ''ms'')"

subsection \<open>The programme's table holds the longest alignments\<close>

fun lcs_len :: "MTRHop list \<Rightarrow> MTRHop list \<Rightarrow> nat" where
  "lcs_len [] b = 0"
| "lcs_len a [] = 0"
| "lcs_len (x # xs) (y # ys) =
     (if anchorable x y then lcs_len xs ys + 1 else max (lcs_len xs (y # ys)) (lcs_len (x # xs) ys))"

lemma lcs_len_Nil [simp]: "lcs_len a [] = 0"
  by (cases a) simp_all

lemma dp_row_lcs:
  assumes "below = map (\<lambda>j. lcs_len xs (drop j b)) [0..<length b + 1]"
  shows "dp_row x b below = map (\<lambda>j. lcs_len (x # xs) (drop j b)) [0..<length b + 1]"
  using assms
proof (induction b arbitrary: below)
  case (Cons y ys)
  have split: "[0..<length (y # ys) + 1] = 0 # map Suc [0..<length ys + 1]"
    by (simp add: upt_conv_Cons map_Suc_upt del: upt_Suc)
  have below: "below = lcs_len xs (y # ys) # map (\<lambda>j. lcs_len xs (drop j ys)) [0..<length ys + 1]"
    unfolding Cons.prems split by (simp add: comp_def del: upt_Suc)
  then have tl: "tl below = map (\<lambda>j. lcs_len xs (drop j ys)) [0..<length ys + 1]" by simp
  have hd: "hd (map f [0..<length ys + 1]) = f 0" for f :: "nat \<Rightarrow> nat"
    by (simp add: upt_conv_Cons del: upt_Suc)
  show ?case
    unfolding split dp_row.simps Let_def Cons.IH [OF tl] unfolding tl hd
    by (simp add: below comp_def del: upt_Suc)
qed simp

lemma dp_table_lcs: "dp_table a b = map (\<lambda>i. map (\<lambda>j. lcs_len (drop i a) (drop j b)) [0..<length b + 1]) [0..<length a + 1]"
proof (induction a)
  case Nil
  then show ?case by (simp add: dp_table_def map_replicate_const del: upt_Suc)
next
  case (Cons x xs)
  let ?row = "\<lambda>a. map (\<lambda>j. lcs_len a (drop j b)) [0..<length b + 1]"
  have split: "[0..<length (x # xs) + 1] = 0 # map Suc [0..<length xs + 1]"
    by (simp add: upt_conv_Cons map_Suc_upt del: upt_Suc)
  have "dp_table (x # xs) b = dp_row x b (hd (dp_table xs b)) # dp_table xs b" by (simp add: dp_table_def)
  also have "hd (dp_table xs b) = ?row xs" unfolding Cons.IH by (simp add: upt_conv_Cons del: upt_Suc)
  also have "dp_row x b (?row xs) = ?row (x # xs)" by (rule dp_row_lcs) simp
  finally show ?case unfolding Cons.IH split by (simp add: comp_def del: upt_Suc)
qed

lemma dp_table_nth: "i \<le> length a \<Longrightarrow> j \<le> length b \<Longrightarrow> dp_table a b ! i ! j = lcs_len (drop i a) (drop j b)"
  unfolding dp_table_lcs by (simp del: upt_Suc)

lemma lcs_len_step:
  assumes "i < length a" "j < length b"
  shows "lcs_len (drop i a) (drop j b) =
    (if anchorable (a ! i) (b ! j) then lcs_len (drop (i + 1) a) (drop (j + 1) b) + 1
     else max (lcs_len (drop (i + 1) a) (drop j b)) (lcs_len (drop i a) (drop (j + 1) b)))"
proof -
  have d: "drop i a = a ! i # drop (i + 1) a" "drop j b = b ! j # drop (j + 1) b"
    using assms Cons_nth_drop_Suc by fastforce+
  show ?thesis unfolding d by simp
qed

subsection \<open>Alignments\<close>

text \<open>An alignment pairs anchorable hops, strictly onwards in both paths, from \<open>(i, j)\<close> on.\<close>

fun aligned_from :: "MTRHop list \<Rightarrow> MTRHop list \<Rightarrow> nat \<Rightarrow> nat \<Rightarrow> (nat \<times> nat) list \<Rightarrow> bool" where
  "aligned_from a b i j [] = True"
| "aligned_from a b i j ((x, y) # rest) \<longleftrightarrow>
     i \<le> x \<and> j \<le> y \<and> x < length a \<and> y < length b \<and> anchorable (a ! x) (b ! y) \<and> aligned_from a b (x + 1) (y + 1) rest"

lemma aligned_from_mono: "aligned_from a b i j ps \<Longrightarrow> i' \<le> i \<Longrightarrow> j' \<le> j \<Longrightarrow> aligned_from a b i' j' ps"
  by (cases ps rule: list.exhaust; cases "hd ps") auto

lemma walk_aligned: "aligned_from a b i j (walk_anchors a b dp i j)"
proof (induction a b dp i j rule: walk_anchors.induct)
  case (1 a b dp i j)
  show ?case
  proof (cases "i < length a \<and> j < length b")
    case True
    note [simp] = walk_anchors.simps [of a b dp i j]
    show ?thesis
    proof (cases "anchorable (a ! i) (b ! j)")
      case anchor: True
      with True 1(1) show ?thesis by simp
    next
      case False
      with True 1(2,3) show ?thesis by (auto intro: aligned_from_mono)
    qed
  next
    case False
    then have "walk_anchors a b dp i j = []" by (subst walk_anchors.simps) (rule if_not_P)
    then show ?thesis by simp
  qed
qed

lemma walk_length: "i \<le> length a \<Longrightarrow> j \<le> length b \<Longrightarrow>
  length (walk_anchors a b (dp_table a b) i j) = lcs_len (drop i a) (drop j b)"
proof (induction a b "dp_table a b" i j rule: walk_anchors.induct)
  case (1 a b i j)
  show ?case
  proof (cases "i < length a \<and> j < length b")
    case True
    then have dp: "dp_table a b ! i ! (j + 1) = lcs_len (drop i a) (drop (j + 1) b)"
        "dp_table a b ! (i + 1) ! j = lcs_len (drop (i + 1) a) (drop j b)"
      by (auto intro: dp_table_nth)
    note step = lcs_len_step [of i a j b] and walk = walk_anchors.simps [of a b "dp_table a b" i j]
    show ?thesis
    proof (cases "anchorable (a ! i) (b ! j)")
      case anchor: True
      with True 1(1) step show ?thesis unfolding walk by simp
    next
      case False
      with True 1(2,3) step show ?thesis unfolding walk dp by (auto simp: max_def)
    qed
  next
    case False
    with 1(4,5) have "i = length a \<or> j = length b" by auto
    with False show ?thesis by (auto simp: walk_anchors.simps [of a b _ i j])
  qed
qed

lemma aligned_length: "aligned_from a b i j ps \<Longrightarrow> length ps \<le> lcs_len (drop i a) (drop j b)"
proof (induction "(length a - i) + (length b - j)" arbitrary: i j ps rule: less_induct)
  case less
  show ?case
  proof (cases ps)
    case (Cons p rest)
    obtain x y where p: "p = (x, y)" by (cases p)
    with less.prems Cons have xy: "i \<le> x" "j \<le> y" "x < length a" "y < length b" "anchorable (a ! x) (b ! y)"
        "aligned_from a b (x + 1) (y + 1) rest" by auto
    then have lt: "i < length a" "j < length b" by auto
    note step = lcs_len_step [OF lt]
    show ?thesis
    proof (cases "anchorable (a ! i) (b ! j)")
      case True
      have "aligned_from a b (i + 1) (j + 1) rest" using xy by (auto intro: aligned_from_mono)
      then have "length rest \<le> lcs_len (drop (i + 1) a) (drop (j + 1) b)" using lt by (intro less.hyps) auto
      with True Cons step show ?thesis by simp
    next
      case False
      then have "i < x \<or> j < y" using xy by (metis le_neq_implies_less)
      then show ?thesis
      proof
        assume "i < x"
        then have "aligned_from a b (i + 1) j ps" using xy Cons p by simp
        then have "length ps \<le> lcs_len (drop (i + 1) a) (drop j b)" using lt by (intro less.hyps) auto
        with False step show ?thesis by simp
      next
        assume "j < y"
        then have "aligned_from a b i (j + 1) ps" using xy Cons p by simp
        then have "length ps \<le> lcs_len (drop i a) (drop (j + 1) b)" using lt by (intro less.hyps) auto
        with False step show ?thesis by simp
      qed
    qed
  qed simp
qed

subsection \<open>Reading the paths back\<close>

definition column :: "('r \<Rightarrow> 'h option) \<Rightarrow> 'r list \<Rightarrow> 'h list" where
  "column f rows = List.map_filter f rows"

lemma column_simps [simp]:
  "column f [] = []" "column f (r # rows) = (case f r of None \<Rightarrow> [] | Some h \<Rightarrow> [h]) @ column f rows"
  "column f (rows @ rows') = column f rows @ column f rows'"
  by (induction rows) (auto simp: column_def map_filter_simps split: option.split)

lemma column_map_Some: "(\<And>x. x \<in> set xs \<Longrightarrow> f (g x) = Some (h x)) \<Longrightarrow> column f (map g xs) = map h xs"
  by (induction xs) auto

lemma column_map_None: "(\<And>x. x \<in> set xs \<Longrightarrow> f (g x) = None) \<Longrightarrow> column f (map g xs) = []"
  by (induction xs) auto

lemma map_nth_split:
  assumes "n \<le> length xs"
  shows "map (\<lambda>k. xs ! k) [0..<n] @ map (\<lambda>k. xs ! k) [n..<length xs] = xs"
proof -
  have "[0..<n] @ [n..<length xs] = [0..<length xs]" using upt_add_eq_append [of 0 n "length xs - n"] assms by simp
  then show ?thesis by (metis map_append map_nth)
qed

lemma gap_columns: "column dr_aHop (gap_rows xs ys) = xs" "column dr_bHop (gap_rows xs ys) = ys"
proof -
  let ?n = "min (length xs) (length ys)"
  have "column dr_aHop (gap_rows xs ys) = map (\<lambda>k. xs ! k) [0..<?n] @ map (\<lambda>k. xs ! k) [?n..<length xs]"
    unfolding gap_rows_def Let_def
    by (simp add: column_map_Some [where h = "\<lambda>k. xs ! k"] column_map_None)
  then show "column dr_aHop (gap_rows xs ys) = xs" by (simp add: map_nth_split)
  have "column dr_bHop (gap_rows xs ys) = map (\<lambda>k. ys ! k) [0..<?n] @ map (\<lambda>k. ys ! k) [?n..<length ys]"
    unfolding gap_rows_def Let_def
    by (simp add: column_map_Some [where h = "\<lambda>k. ys ! k"] column_map_None)
  then show "column dr_bHop (gap_rows xs ys) = ys" by (simp add: map_nth_split)
qed

lemma drop_at:
  assumes "i \<le> x" "x < length a"
  shows "take (x - i) (drop i a) @ a ! x # drop (x + 1) a = drop i a"
proof -
  have "a ! x # drop (x + 1) a = drop x a" using assms(2) by (simp add: Cons_nth_drop_Suc)
  also have "\<dots> = drop (x - i) (drop i a)" using assms(1) by simp
  finally show ?thesis by (simp only: append_take_drop_id)
qed

lemma diff_columns:
  "aligned_from a b ai bi ps \<Longrightarrow> column dr_aHop (diff_from a b ai bi ps) = drop ai a \<and> column dr_bHop (diff_from a b ai bi ps) = drop bi b"
proof (induction a b ai bi ps rule: diff_from.induct)
  case (1 a b ai bi)
  then show ?case by (simp add: gap_columns)
next
  case (2 a b ai bi x y rest)
  then have xy: "ai \<le> x" "bi \<le> y" "x < length a" "y < length b" "aligned_from a b (x + 1) (y + 1) rest" by auto
  with 2(1) drop_at [of ai x a] drop_at [of bi y b] show ?case by (simp add: gap_columns same_row_def)
qed

definition is_same :: "DiffRow \<Rightarrow> bool" where
  "is_same r \<longleftrightarrow> dr_kind r = dk_same"

lemma gap_not_same: "filter is_same (gap_rows xs ys) = []"
  by (simp add: gap_rows_def Let_def is_same_def filter_empty_conv)

lemma diff_same: "filter is_same (diff_from a b ai bi ps) = map (\<lambda>(x, y). same_row (a ! x) (b ! y)) ps"
  by (induction a b ai bi ps rule: diff_from.induct) (simp_all add: gap_not_same, simp_all add: is_same_def same_row_def)

subsection \<open>Properties\<close>

text \<open>
  C28: The left column of the diff is the older path and the right column the
  newer one, hop by hop and in order: nothing is lost, invented or moved. A row called the same
  has one address on both sides, and the change in round-trip time it prints is the difference
  of two finite readings.
\<close>

theorem diffPaths_reads_back:
  "List.map_filter dr_aHop (diffPaths a b) = hopList a \<and> List.map_filter dr_bHop (diffPaths a b) = hopList b \<and>
    set (filter is_same (diffPaths a b)) \<subseteq> {same_row x y | x y. anchorable x y}"
proof -
  have al: "aligned_from (hopList a) (hopList b) 0 0 (lcsAnchors (hopList a) (hopList b))"
    unfolding lcsAnchors_def by (rule walk_aligned)
  have "anchorable (a' ! x) (b' ! y)" if "aligned_from a' b' i j ps" "(x, y) \<in> set ps" for a' b' i j ps x y
    using that by (induction a' b' i j ps rule: aligned_from.induct) auto
  then have "set (filter is_same (diffPaths a b)) \<subseteq> {same_row x y | x y. anchorable x y}"
    using al unfolding diffPaths_def Let_def diff_same by fastforce
  moreover from diff_columns [OF al] have "column dr_aHop (diffPaths a b) = hopList a \<and> column dr_bHop (diffPaths a b) = hopList b"
    unfolding diffPaths_def Let_def by simp
  ultimately show ?thesis unfolding column_def by blast
qed

text \<open>
  C27: The diff keeps as many hops as any alignment can: every way of pairing
  hops with one address, onwards in both paths, pairs at most as many as the rows called the
  same, and they themselves are one such way.
\<close>

theorem diffPaths_longest:
  "\<exists>ps. aligned_from a b 0 0 ps \<and> filter is_same (diffPaths (Some a) (Some b)) = map (\<lambda>(x, y). same_row (a ! x) (b ! y)) ps \<and>
    length ps = Max {length qs | qs. aligned_from a b 0 0 qs}"
proof -
  let ?ps = "lcsAnchors a b"
  have al: "aligned_from a b 0 0 ?ps" unfolding lcsAnchors_def by (rule walk_aligned)
  have len: "length ?ps = lcs_len a b" unfolding lcsAnchors_def using walk_length [of 0 a 0 b] by simp
  have le: "length qs \<le> lcs_len a b" if "aligned_from a b 0 0 qs" for qs using aligned_length [OF that] by simp
  have "Max {length qs | qs. aligned_from a b 0 0 qs} = lcs_len a b"
  proof (rule Max_eqI)
    show "finite {length qs | qs. aligned_from a b 0 0 qs}"
    proof (rule finite_subset)
      show "{length qs | qs. aligned_from a b 0 0 qs} \<subseteq> {..lcs_len a b}" using le by blast
    qed simp
    show "y \<le> lcs_len a b" if "y \<in> {length qs | qs. aligned_from a b 0 0 qs}" for y using that le by blast
    show "lcs_len a b \<in> {length qs | qs. aligned_from a b 0 0 qs}" using al len by (intro CollectI exI [of _ ?ps]) simp
  qed
  moreover have "filter is_same (diffPaths (Some a) (Some b)) = map (\<lambda>(x, y). same_row (a ! x) (b ! y)) ?ps"
    by (simp add: diffPaths_def Let_def hopList_def diff_same)
  ultimately show ?thesis using al len by (intro exI [of _ ?ps]) simp
qed

end
