(* ===== verification/Api_Endpoints.thy ===== *)
theory Api_Endpoints
  imports Api_Client Prom_Tables
begin

section \<open>The endpoints of the HTTP client (lib/api.ts)\<close>

text \<open>
  The exported calls of \<open>lib/api.ts\<close> in the groups the file has them. A group is a datatype, one
  constructor per function with the function's arguments, the request each sends, and the rule that
  reads the answer. A query object is the list of its fields that are set. The library functions the
  calls use are gathered in a record: \<open>encodeURIComponent\<close>, the printing of \<open>URLSearchParams\<close>,
  \<open>toISOString\<close> and \<open>String\<close> of a number. A body is the value \<open>JSON.stringify\<close> is given.

  The lemmas show that a listing is never handed on with a null where the pages expect an array,
  which requests change state, and that the walks to the end are the pages of their own listing.
\<close>

subsection \<open>Building a request\<close>

record url_lib =
  ul_encode :: "jstring \<Rightarrow> jstring"
  ul_query :: "(jstring \<times> jstring) list \<Rightarrow> jstring"
  ul_iso :: "date \<Rightarrow> jstring"
  ul_num :: "jsnum \<Rightarrow> jstring"

datatype query_value = Text jstring | Count jsnum | Flag bool | Instant date

type_synonym query = "(jstring \<times> query_value) list"

text \<open>A line of a query: \<open>if (q.k) qs.set(k, ...)\<close> or \<open>if (q.k !== undefined) qs.set(k, ...)\<close>.\<close>

datatype query_line = If_truthy jstring | If_defined jstring

definition query_truthy :: "query_value \<Rightarrow> bool" where
  "query_truthy v =
     (case v of Text s \<Rightarrow> s \<noteq> [] | Count n \<Rightarrow> n \<noteq> Fin 0 \<and> n \<noteq> NaN | Flag b \<Rightarrow> b | Instant d \<Rightarrow> True)"

definition iso_text :: "url_lib \<Rightarrow> date \<Rightarrow> api_error + jstring" where
  "iso_text lib d = (if valid_date d then Inr (ul_iso lib d) else Inl Range_Error)"

definition query_text :: "url_lib \<Rightarrow> query_value \<Rightarrow> api_error + jstring" where
  "query_text lib v =
     (case v of
        Text s \<Rightarrow> Inr s
      | Count n \<Rightarrow> Inr (ul_num lib n)
      | Flag b \<Rightarrow> Inr (if b then js ''true'' else js ''false'')
      | Instant d \<Rightarrow> iso_text lib d)"

definition line_value :: "query \<Rightarrow> query_line \<Rightarrow> (jstring \<times> query_value) option" where
  "line_value q line =
     (case line of
        If_truthy k \<Rightarrow> (case map_of q k of Some v \<Rightarrow> if query_truthy v then Some (k, v) else None | None \<Rightarrow> None)
      | If_defined k \<Rightarrow> map_option (Pair k) (map_of q k))"

fun query_pairs :: "url_lib \<Rightarrow> query \<Rightarrow> query_line list \<Rightarrow> api_error + (jstring \<times> jstring) list" where
  "query_pairs lib q [] = Inr []"
| "query_pairs lib q (line # lines) =
     (case line_value q line of
        None \<Rightarrow> query_pairs lib q lines
      | Some (k, v) \<Rightarrow>
          (case query_text lib v of
             Inl e \<Rightarrow> Inl e
           | Inr s \<Rightarrow> map_sum id (\<lambda>ps. (k, s) # ps) (query_pairs lib q lines)))"

definition get_req :: "jstring \<Rightarrow> request" where
  "get_req path = \<lparr>rq_input = path, rq_method = js ''GET'', rq_body = None\<rparr>"

definition send_req :: "jstring \<Rightarrow> jstring \<Rightarrow> jsval \<Rightarrow> request" where
  "send_req method path body = \<lparr>rq_input = path, rq_method = method, rq_body = Some body\<rparr>"

definition bare_req :: "jstring \<Rightarrow> jstring \<Rightarrow> request" where
  "bare_req method path = \<lparr>rq_input = path, rq_method = method, rq_body = None\<rparr>"

text \<open>A listing: its path, the repeated pairs in front, and the lines of its query.\<close>

definition list_req :: "url_lib \<Rightarrow> jstring \<Rightarrow> (jstring \<times> jstring) list \<Rightarrow> query_line list \<Rightarrow> query \<Rightarrow> api_error + request" where
  "list_req lib path fixed lines q =
     map_sum id (\<lambda>ps. let suffix = ul_query lib (fixed @ ps) in get_req (path @ (if suffix = [] then [] else js ''?'' @ suffix)))
       (query_pairs lib q lines)"

definition id_path :: "url_lib \<Rightarrow> jstring \<Rightarrow> jstring \<Rightarrow> jstring" where
  "id_path lib base i = base @ js ''/'' @ ul_encode lib i"

subsection \<open>Reading an answer\<close>

datatype reply_rule =
    Json
  | Void
  | Defaults "(jstring \<times> jsval) list"
  | Field_or_empty jstring
  | Import_report

text \<open>\<open>{ ...v }\<close>: the own enumerable properties.\<close>

definition spread :: "jsval \<Rightarrow> (jstring \<times> jsval) list" where
  "spread v =
     (case v of
        JObj kvs \<Rightarrow> kvs
      | JArr xs \<Rightarrow> map (\<lambda>i. (dec i, xs ! i)) [0..<length xs]
      | JStr s \<Rightarrow> map (\<lambda>i. (dec i, JStr [s ! i])) [0..<length s]
      | _ \<Rightarrow> [])"

text \<open>\<open>{ ...v, k: v.k ?? d, ... }\<close>.\<close>

definition with_defaults :: "(jstring \<times> jsval) list \<Rightarrow> jsval \<Rightarrow> jsval" where
  "with_defaults ds v =
     JObj (fold (\<lambda>(k, d) kvs. AList.update k (if nullish (jfield v k) then d else jfield v k) kvs) ds (spread v))"

definition import_entry :: "jsval \<Rightarrow> jsval" where
  "import_entry v =
     (case v of
        JObj kvs \<Rightarrow>
          if js ''created'' \<in> fst ` set kvs then with_defaults [(js ''errors'', JArr []), (js ''warnings'', JArr [])] v else v
      | _ \<Rightarrow> v)"

definition reply :: "reply_rule \<Rightarrow> response \<Rightarrow> api_error + jsval" where
  "reply rule resp =
     (case rule of
        Json \<Rightarrow> handle resp
      | Void \<Rightarrow> handleVoid resp
      | Defaults ds \<Rightarrow>
          (case handle resp of
             Inl e \<Rightarrow> Inl e
           | Inr v \<Rightarrow> if nullish v then Inl Type_Error else Inr (with_defaults ds v))
      | Field_or_empty k \<Rightarrow>
          (case handle resp of
             Inl e \<Rightarrow> Inl e
           | Inr v \<Rightarrow> if nullish v then Inl Type_Error
                     else Inr (if nullish (jfield v k) then JArr [] else jfield v k))
      | Import_report \<Rightarrow> map_sum id (\<lambda>v. JObj (map (map_prod id import_entry) (spread v))) (handle resp))"

subsection \<open>Session, topology, queries and runs\<close>

datatype core_call =
    getTopology "date option"
  | getVersion
  | getConfig
  | getMe
  | login jstring jstring
  | logout
  | getEvents "jstring list" query
  | getMatrix jstring jstring
  | promqlQuery jstring "date option"
  | promqlQueryRange jstring date date jsnum
  | createRun jsval
  | createZonePairRuns jsval
  | getRun jstring
  | cancelRun jstring
  | getRuns query

fun core_request :: "url_lib \<Rightarrow> core_call \<Rightarrow> api_error + request" where
  "core_request lib (getTopology atd) =
     (case atd of
        None \<Rightarrow> Inr (get_req (js ''/api/v1/topology''))
      | Some d \<Rightarrow>
          if valid_date d then Inr (get_req (js ''/api/v1/topology'' @ js ''?at='' @ ul_encode lib (formatAtParam (ul_iso lib) d)))
          else Inl Range_Error)"
| "core_request lib getVersion = Inr (get_req (js ''/api/v1/version''))"
| "core_request lib getConfig = Inr (get_req (js ''/api/v1/config''))"
| "core_request lib getMe = Inr (get_req (js ''/api/v1/auth/me''))"
| "core_request lib (login username password) =
     Inr (send_req (js ''POST'') (js ''/api/v1/auth/login'')
       (JObj [(js ''username'', JStr username), (js ''password'', JStr password)]))"
| "core_request lib logout = Inr (bare_req (js ''POST'') (js ''/api/v1/auth/logout''))"
| "core_request lib (getEvents types q) =
     list_req lib (js ''/api/v1/events'') (map (Pair (js ''type'')) types)
       [If_truthy (js ''scope''), If_truthy (js ''scopeNode''), If_truthy (js ''from''), If_truthy (js ''to''),
        If_defined (js ''limit''), If_truthy (js ''cursor'')] q"
| "core_request lib (getMatrix protocol plane) =
     Inr (get_req (js ''/api/v1/matrix?'' @ ul_query lib [(js ''protocol'', protocol), (js ''plane'', plane)]))"
| "core_request lib (promqlQuery query time) =
     (case time of
        None \<Rightarrow> Inr (send_req (js ''POST'') (js ''/api/v1/promql/query'') (JObj [(js ''query'', JStr query)]))
      | Some d \<Rightarrow>
          map_sum id (\<lambda>s. send_req (js ''POST'') (js ''/api/v1/promql/query'') (JObj [(js ''query'', JStr query), (js ''time'', JStr s)]))
            (iso_text lib d))"
| "core_request lib (promqlQueryRange query start until stepNs) =
     (case (iso_text lib start, iso_text lib until) of
        (Inr s, Inr e) \<Rightarrow>
          Inr (send_req (js ''POST'') (js ''/api/v1/promql/query_range'')
            (JObj [(js ''query'', JStr query), (js ''start'', JStr s), (js ''end'', JStr e), (js ''step'', JNum stepNs)]))
      | _ \<Rightarrow> Inl Range_Error)"
| "core_request lib (createRun req) = Inr (send_req (js ''POST'') (js ''/api/v1/runs'') req)"
| "core_request lib (createZonePairRuns req) = Inr (send_req (js ''POST'') (js ''/api/v1/runs/zone-pair'') req)"
| "core_request lib (getRun i) = Inr (get_req (id_path lib (js ''/api/v1/runs'') i))"
| "core_request lib (cancelRun i) = Inr (bare_req (js ''POST'') (id_path lib (js ''/api/v1/runs'') i @ js ''/cancel''))"
| "core_request lib (getRuns q) =
     list_req lib (js ''/api/v1/runs'') []
       [If_truthy (js ''type''), If_truthy (js ''status''), If_truthy (js ''cursor''), If_defined (js ''limit'')] q"

definition core_reply :: "core_call \<Rightarrow> reply_rule" where
  "core_reply call =
     (case call of
        getTopology _ \<Rightarrow> Defaults [(js ''nodes'', JArr []), (js ''agents'', JArr [])]
      | login _ _ \<Rightarrow> Void
      | logout \<Rightarrow> Void
      | getEvents _ _ \<Rightarrow> Defaults [(js ''events'', JArr []), (js ''nextCursor'', JStr [])]
      | getMatrix _ _ \<Rightarrow> Defaults [(js ''nodes'', JArr []), (js ''cells'', JArr [])]
      | cancelRun _ \<Rightarrow> Void
      | _ \<Rightarrow> Json)"

subsection \<open>Targets, checks and schedules\<close>

datatype inventory_call =
    listTargets query
  | getTarget jstring
  | createTarget jsval
  | updateTarget jstring jsval
  | deleteTarget jstring
  | listChecks query
  | createCheck jsval
  | updateCheck jstring jsval
  | deleteCheck jstring
  | checksProjection jsval
  | listSchedules query
  | createSchedule jsval
  | updateSchedule jstring jsval
  | deleteSchedule jstring

fun inventory_request :: "url_lib \<Rightarrow> inventory_call \<Rightarrow> api_error + request" where
  "inventory_request lib (listTargets q) =
     list_req lib (js ''/api/v1/targets'') [] [If_truthy (js ''kind''), If_defined (js ''limit''), If_truthy (js ''cursor'')] q"
| "inventory_request lib (getTarget i) = Inr (get_req (id_path lib (js ''/api/v1/targets'') i))"
| "inventory_request lib (createTarget req) = Inr (send_req (js ''POST'') (js ''/api/v1/targets'') req)"
| "inventory_request lib (updateTarget i req) = Inr (send_req (js ''PUT'') (id_path lib (js ''/api/v1/targets'') i) req)"
| "inventory_request lib (deleteTarget i) = Inr (bare_req (js ''DELETE'') (id_path lib (js ''/api/v1/targets'') i))"
| "inventory_request lib (listChecks q) =
     list_req lib (js ''/api/v1/checks'') []
       [If_truthy (js ''targetId''), If_defined (js ''enabled''), If_defined (js ''limit''), If_truthy (js ''cursor'')] q"
| "inventory_request lib (createCheck req) = Inr (send_req (js ''POST'') (js ''/api/v1/checks'') req)"
| "inventory_request lib (updateCheck i req) = Inr (send_req (js ''PUT'') (id_path lib (js ''/api/v1/checks'') i) req)"
| "inventory_request lib (deleteCheck i) = Inr (bare_req (js ''DELETE'') (id_path lib (js ''/api/v1/checks'') i))"
| "inventory_request lib (checksProjection req) = Inr (send_req (js ''POST'') (js ''/api/v1/checks/projection'') req)"
| "inventory_request lib (listSchedules q) =
     list_req lib (js ''/api/v1/schedules'') [] [If_truthy (js ''definitionId''), If_defined (js ''limit''), If_truthy (js ''cursor'')] q"
| "inventory_request lib (createSchedule req) = Inr (send_req (js ''POST'') (js ''/api/v1/schedules'') req)"
| "inventory_request lib (updateSchedule i req) = Inr (send_req (js ''PUT'') (id_path lib (js ''/api/v1/schedules'') i) req)"
| "inventory_request lib (deleteSchedule i) = Inr (bare_req (js ''DELETE'') (id_path lib (js ''/api/v1/schedules'') i))"

definition inventory_reply :: "inventory_call \<Rightarrow> reply_rule" where
  "inventory_reply call =
     (case call of deleteTarget _ \<Rightarrow> Void | deleteCheck _ \<Rightarrow> Void | deleteSchedule _ \<Rightarrow> Void | _ \<Rightarrow> Json)"

subsection \<open>Path history\<close>

definition MTR_DESTINATIONS_LIMIT :: jsnum where
  "MTR_DESTINATIONS_LIMIT = Fin 500"

definition MTR_SNAPSHOTS_LIMIT :: jsnum where
  "MTR_SNAPSHOTS_LIMIT = Fin 500"

text \<open>\<open>mtrDestinationsPage\<close> is one page of the walk of \<open>getMTRDestinations\<close>.\<close>

datatype mtr_call =
    mtrDestinationsPage "jstring option"
  | getMTRSnapshots jstring jstring query
  | getMTRSnapshot jstring bool
  | listPathTraces jstring query

fun mtr_request :: "url_lib \<Rightarrow> mtr_call \<Rightarrow> api_error + request" where
  "mtr_request lib (mtrDestinationsPage cursor) =
     Inr (get_req (js ''/api/v1/mtr/destinations?'' @
       ul_query lib ((js ''limit'', ul_num lib MTR_DESTINATIONS_LIMIT) #
         (case cursor of Some c \<Rightarrow> if c = [] then [] else [(js ''cursor'', c)] | None \<Rightarrow> []))))"
| "mtr_request lib (getMTRSnapshots source destination q) =
     map_sum id (\<lambda>ps. get_req (js ''/api/v1/mtr/snapshots?'' @
         ul_query lib ((js ''source'', source) # (js ''destination'', destination) # ps)))
       (query_pairs lib q [If_defined (js ''limit''), If_truthy (js ''cursor'')])"
| "mtr_request lib (getMTRSnapshot i enrich) =
     Inr (get_req (id_path lib (js ''/api/v1/mtr/snapshots'') i @ (if enrich then js ''?enrich=true'' else [])))"
| "mtr_request lib (listPathTraces i q) =
     list_req lib (id_path lib (js ''/api/v1/mtr/snapshots'') i @ js ''/traces'') []
       [If_defined (js ''limit''), If_truthy (js ''cursor'')] q"

subsection \<open>Annotations, incidents, maintenance and audit\<close>

datatype notes_call =
    listAnnotations query
  | createAnnotation jsval
  | deleteAnnotation jstring
  | getK8sEvents query
  | getIncidents query
  | getIncident jstring
  | createIncident jsval
  | patchIncident jstring jsval
  | deleteIncident jstring
  | getMaintenance query
  | createMaintenance jsval
  | deleteMaintenance jstring
  | getAuditEntries query

fun notes_request :: "url_lib \<Rightarrow> notes_call \<Rightarrow> api_error + request" where
  "notes_request lib (listAnnotations q) =
     list_req lib (js ''/api/v1/annotations'') []
       [If_truthy (js ''from''), If_truthy (js ''to''), If_defined (js ''scope''), If_defined (js ''limit''), If_truthy (js ''cursor'')] q"
| "notes_request lib (createAnnotation req) = Inr (send_req (js ''POST'') (js ''/api/v1/annotations'') req)"
| "notes_request lib (deleteAnnotation i) = Inr (bare_req (js ''DELETE'') (id_path lib (js ''/api/v1/annotations'') i))"
| "notes_request lib (getK8sEvents q) =
     list_req lib (js ''/api/v1/k8s-events'') []
       [If_truthy (js ''name''), If_truthy (js ''kind''), If_truthy (js ''type''), If_truthy (js ''from''), If_truthy (js ''to''),
        If_defined (js ''limit''), If_truthy (js ''cursor'')] q"
| "notes_request lib (getIncidents q) =
     list_req lib (js ''/api/v1/incidents'') []
       [If_truthy (js ''status''), If_defined (js ''scope''), If_truthy (js ''from''), If_truthy (js ''to''),
        If_defined (js ''limit''), If_truthy (js ''cursor'')] q"
| "notes_request lib (getIncident i) = Inr (get_req (id_path lib (js ''/api/v1/incidents'') i))"
| "notes_request lib (createIncident req) = Inr (send_req (js ''POST'') (js ''/api/v1/incidents'') req)"
| "notes_request lib (patchIncident i req) = Inr (send_req (js ''PATCH'') (id_path lib (js ''/api/v1/incidents'') i) req)"
| "notes_request lib (deleteIncident i) = Inr (bare_req (js ''DELETE'') (id_path lib (js ''/api/v1/incidents'') i))"
| "notes_request lib (getMaintenance q) =
     list_req lib (js ''/api/v1/maintenance'') []
       [If_defined (js ''scope''), If_truthy (js ''from''), If_truthy (js ''to''), If_defined (js ''limit''), If_truthy (js ''cursor'')] q"
| "notes_request lib (createMaintenance req) = Inr (send_req (js ''POST'') (js ''/api/v1/maintenance'') req)"
| "notes_request lib (deleteMaintenance i) = Inr (bare_req (js ''DELETE'') (id_path lib (js ''/api/v1/maintenance'') i))"
| "notes_request lib (getAuditEntries q) =
     list_req lib (js ''/api/v1/audit'') []
       [If_truthy (js ''subjectKind''), If_truthy (js ''subjectId''), If_defined (js ''limit''), If_truthy (js ''cursor'')] q"

definition notes_reply :: "notes_call \<Rightarrow> reply_rule" where
  "notes_reply call =
     (case call of
        deleteAnnotation _ \<Rightarrow> Void
      | getIncidents _ \<Rightarrow> Defaults [(js ''incidents'', JArr []), (js ''nextCursor'', JStr [])]
      | deleteIncident _ \<Rightarrow> Void
      | deleteMaintenance _ \<Rightarrow> Void
      | _ \<Rightarrow> Json)"

subsection \<open>Webhooks, tokens, users, roles and the configuration bundle\<close>

datatype admin_call =
    listWebhooks
  | createWebhook jsval
  | updateWebhook jstring jsval
  | deleteWebhook jstring
  | testWebhook jstring
  | listTokens
  | createToken jsval
  | deleteToken jstring
  | listUsers
  | createUser jsval
  | updateUser jstring jsval
  | deleteUser jstring
  | resetUserPassword jstring jstring
  | changeOwnPassword jstring jstring
  | listRoles
  | exportConfig
  | importConfig jsval bool

fun admin_request :: "url_lib \<Rightarrow> admin_call \<Rightarrow> api_error + request" where
  "admin_request lib listWebhooks = Inr (get_req (js ''/api/v1/webhooks''))"
| "admin_request lib (createWebhook req) = Inr (send_req (js ''POST'') (js ''/api/v1/webhooks'') req)"
| "admin_request lib (updateWebhook i req) = Inr (send_req (js ''PUT'') (id_path lib (js ''/api/v1/webhooks'') i) req)"
| "admin_request lib (deleteWebhook i) = Inr (bare_req (js ''DELETE'') (id_path lib (js ''/api/v1/webhooks'') i))"
| "admin_request lib (testWebhook i) = Inr (bare_req (js ''POST'') (id_path lib (js ''/api/v1/webhooks'') i @ js ''/test''))"
| "admin_request lib listTokens = Inr (get_req (js ''/api/v1/tokens''))"
| "admin_request lib (createToken req) = Inr (send_req (js ''POST'') (js ''/api/v1/tokens'') req)"
| "admin_request lib (deleteToken i) = Inr (bare_req (js ''DELETE'') (id_path lib (js ''/api/v1/tokens'') i))"
| "admin_request lib listUsers = Inr (get_req (js ''/api/v1/users''))"
| "admin_request lib (createUser req) = Inr (send_req (js ''POST'') (js ''/api/v1/users'') req)"
| "admin_request lib (updateUser i patch) = Inr (send_req (js ''PATCH'') (id_path lib (js ''/api/v1/users'') i) patch)"
| "admin_request lib (deleteUser i) = Inr (bare_req (js ''DELETE'') (id_path lib (js ''/api/v1/users'') i))"
| "admin_request lib (resetUserPassword i password) =
     Inr (send_req (js ''POST'') (id_path lib (js ''/api/v1/users'') i @ js ''/password'') (JObj [(js ''password'', JStr password)]))"
| "admin_request lib (changeOwnPassword currentPassword newPassword) =
     Inr (send_req (js ''POST'') (js ''/api/v1/auth/password'')
       (JObj [(js ''currentPassword'', JStr currentPassword), (js ''newPassword'', JStr newPassword)]))"
| "admin_request lib listRoles = Inr (get_req (js ''/api/v1/rbac/roles''))"
| "admin_request lib exportConfig = Inr (get_req (js ''/api/v1/export''))"
| "admin_request lib (importConfig bundle dryRun) =
     Inr (send_req (js ''POST'') (js ''/api/v1/import'') (JObj [(js ''dryRun'', JBool dryRun), (js ''bundle'', bundle)]))"

definition admin_reply :: "admin_call \<Rightarrow> reply_rule" where
  "admin_reply call =
     (case call of
        deleteWebhook _ \<Rightarrow> Void
      | testWebhook _ \<Rightarrow> Void
      | listTokens \<Rightarrow> Defaults [(js ''tokens'', JArr [])]
      | deleteToken _ \<Rightarrow> Void
      | listUsers \<Rightarrow> Field_or_empty (js ''users'')
      | deleteUser _ \<Rightarrow> Void
      | resetUserPassword _ _ \<Rightarrow> Void
      | changeOwnPassword _ _ \<Rightarrow> Void
      | listRoles \<Rightarrow> Field_or_empty (js ''roles'')
      | importConfig _ _ \<Rightarrow> Import_report
      | _ \<Rightarrow> Json)"

subsection \<open>Alert rules and alerts\<close>

datatype alerting_call =
    listAlertRules
  | createAlertRule jsval
  | updateAlertRule jstring jsval
  | deleteAlertRule jstring
  | syncAlertRules jstring
  | previewAlertRule jsval
  | listForeignAlertRules
  | importForeignAlertRules jstring
  | listAlerts

fun alerting_request :: "url_lib \<Rightarrow> alerting_call \<Rightarrow> api_error + request" where
  "alerting_request lib listAlertRules = Inr (get_req (js ''/api/v1/alert-rules''))"
| "alerting_request lib (createAlertRule req) = Inr (send_req (js ''POST'') (js ''/api/v1/alert-rules'') req)"
| "alerting_request lib (updateAlertRule i req) = Inr (send_req (js ''PUT'') (id_path lib (js ''/api/v1/alert-rules'') i) req)"
| "alerting_request lib (deleteAlertRule i) = Inr (bare_req (js ''DELETE'') (id_path lib (js ''/api/v1/alert-rules'') i))"
| "alerting_request lib (syncAlertRules i) = Inr (bare_req (js ''POST'') (id_path lib (js ''/api/v1/alert-rules'') i @ js ''/sync''))"
| "alerting_request lib (previewAlertRule req) = Inr (send_req (js ''POST'') (js ''/api/v1/alert-rules/preview'') req)"
| "alerting_request lib listForeignAlertRules = Inr (get_req (js ''/api/v1/alert-rules/foreign''))"
| "alerting_request lib (importForeignAlertRules name) =
     Inr (send_req (js ''POST'') (js ''/api/v1/alert-rules/import'') (JObj [(js ''name'', JStr name)]))"
| "alerting_request lib listAlerts = Inr (get_req (js ''/api/v1/alerts?managedOnly=true''))"

subsection \<open>Calling\<close>

datatype api_call = Core core_call | Inventory inventory_call | Mtr mtr_call | Notes notes_call | Admin admin_call | Alerting alerting_call

definition call_request :: "url_lib \<Rightarrow> api_call \<Rightarrow> api_error + request" where
  "call_request lib call =
     (case call of
        Core c \<Rightarrow> core_request lib c
      | Inventory c \<Rightarrow> inventory_request lib c
      | Mtr c \<Rightarrow> mtr_request lib c
      | Notes c \<Rightarrow> notes_request lib c
      | Admin c \<Rightarrow> admin_request lib c
      | Alerting c \<Rightarrow> alerting_request lib c)"

definition call_reply :: "api_call \<Rightarrow> reply_rule" where
  "call_reply call =
     (case call of
        Core c \<Rightarrow> core_reply c
      | Inventory c \<Rightarrow> inventory_reply c
      | Notes c \<Rightarrow> notes_reply c
      | Admin c \<Rightarrow> admin_reply c
      | Alerting c \<Rightarrow> (case c of deleteAlertRule _ \<Rightarrow> Void | _ \<Rightarrow> Json)
      | _ \<Rightarrow> Json)"

text \<open>The \<open>catch\<close> of \<open>changeOwnPassword\<close>: a 401 that is not the wrong password is a lost session.\<close>

definition lost_session :: "api_call \<Rightarrow> api_error \<Rightarrow> bool" where
  "lost_session call err \<longleftrightarrow>
     (case (call, err) of
        (Admin (changeOwnPassword _ _), Api_Error problem) \<Rightarrow>
          jfield problem (js ''status'') = JNum (Fin 401) \<and> \<not> isWrongCurrentPassword err
      | _ \<Rightarrow> False)"

definition call_api :: "url_lib \<Rightarrow> (jstring \<Rightarrow> jstring option) \<Rightarrow> (sent_request \<Rightarrow> response option) \<Rightarrow> api_call \<Rightarrow> browser \<Rightarrow>
    (api_error + jsval) \<times> browser" where
  "call_api lib decode server call br =
     (case call_request lib call of
        Inl e \<Rightarrow> (Inl e, br)
      | Inr req \<Rightarrow>
          (case apiFetch decode (ul_encode lib) server req br of
             (Inl e, br') \<Rightarrow> (Inl e, br')
           | (Inr resp, br') \<Rightarrow>
               (case reply (call_reply call) resp of
                  Inl e \<Rightarrow> (Inl e, if lost_session call e then redirectToLogin (ul_encode lib) br' else br')
                | Inr v \<Rightarrow> (Inr v, br'))))"

subsection \<open>The walks to the end\<close>

text \<open>\<open>{ ...q, cursor }\<close>.\<close>

definition with_cursor :: "jstring option \<Rightarrow> query \<Rightarrow> query" where
  "with_cursor cursor q =
     (case cursor of None \<Rightarrow> AList.delete (js ''cursor'') q | Some c \<Rightarrow> AList.update (js ''cursor'') (Text c) q)"

definition page_array :: "jstring \<Rightarrow> jsval \<Rightarrow> jsval list option" where
  "page_array field page = (case jfield page field of JArr xs \<Rightarrow> Some xs | _ \<Rightarrow> None)"

definition page_cursor :: "jsval \<Rightarrow> jstring option" where
  "page_cursor page = (case jfield page (js ''nextCursor'') of JStr c \<Rightarrow> Some c | _ \<Rightarrow> None)"

definition page_of :: "api_error + jsval \<Rightarrow> api_error + jsval" where
  "page_of r = (case r of Inl e \<Rightarrow> Inl e | Inr page \<Rightarrow> if nullish page then Inl Type_Error else Inr page)"

definition listAllTargets :: "(api_call \<Rightarrow> api_error + jsval) \<Rightarrow> query \<Rightarrow> api_error + jsval list \<times> bool" where
  "listAllTargets ask q =
     collectPages (\<lambda>cursor. page_of (ask (Inventory (listTargets (with_cursor cursor q))))) (page_array (js ''targets'')) page_cursor"

definition listAllChecks :: "(api_call \<Rightarrow> api_error + jsval) \<Rightarrow> query \<Rightarrow> api_error + jsval list \<times> bool" where
  "listAllChecks ask q =
     collectPages (\<lambda>cursor. page_of (ask (Inventory (listChecks (with_cursor cursor q))))) (page_array (js ''definitions'')) page_cursor"

definition listAllSchedules :: "(api_call \<Rightarrow> api_error + jsval) \<Rightarrow> query \<Rightarrow> api_error + jsval list \<times> bool" where
  "listAllSchedules ask q =
     collectPages (\<lambda>cursor. page_of (ask (Inventory (listSchedules (with_cursor cursor q))))) (page_array (js ''schedules'')) page_cursor"

definition getMTRDestinations :: "(api_call \<Rightarrow> api_error + jsval) \<Rightarrow> api_error + jsval list \<times> bool" where
  "getMTRDestinations ask =
     collectPages (\<lambda>cursor. page_of (ask (Mtr (mtrDestinationsPage cursor)))) (page_array (js ''destinations'')) page_cursor"

definition listAllMTRSnapshots :: "(api_call \<Rightarrow> api_error + jsval) \<Rightarrow> jstring \<Rightarrow> jstring \<Rightarrow> api_error + jsval list \<times> bool" where
  "listAllMTRSnapshots ask source destination =
     collectPages
       (\<lambda>cursor. page_of (ask (Mtr (getMTRSnapshots source destination (with_cursor cursor [(js ''limit'', Count MTR_SNAPSHOTS_LIMIT)])))))
       (page_array (js ''snapshots'')) page_cursor"

text \<open>The page \<open>scanIncidents\<close> reads: the incidents of \<open>getIncidents\<close> and its cursor.\<close>

definition incidents_page :: "(api_call \<Rightarrow> api_error + jsval) \<Rightarrow> query \<Rightarrow> jstring option \<Rightarrow> api_error + jsval list \<times> jstring" where
  "incidents_page ask q cursor =
     (case page_of (ask (Notes (getIncidents (with_cursor cursor q)))) of
        Inl e \<Rightarrow> Inl e
      | Inr page \<Rightarrow>
          Inr (case page_array (js ''incidents'') page of Some xs \<Rightarrow> xs | None \<Rightarrow> [],
               case page_cursor page of Some c \<Rightarrow> c | None \<Rightarrow> []))"

subsection \<open>No null where an array is promised\<close>

lemma map_of_defaults:
  assumes "distinct (map fst ds)"
  shows "map_of (fold (\<lambda>(k, d) kvs. AList.update k (f k d) kvs) ds kvs) k =
    (case map_of ds k of Some d \<Rightarrow> Some (f k d) | None \<Rightarrow> map_of kvs k)"
  using assms
proof (induction ds arbitrary: kvs)
  case (Cons e ds)
  obtain k' d where e: "e = (k', d)" by (cases e)
  from Cons.prems e have fresh: "map_of ds k' = None" and ds: "distinct (map fst ds)" by (auto simp: map_of_eq_None_iff)
  show ?case unfolding e using Cons.IH [OF ds] fresh by (simp add: update_conv' split: option.split)
qed simp

lemma with_defaults_field:
  assumes "distinct (map fst ds)" "(k, d) \<in> set ds"
  shows "jfield (with_defaults ds v) k = (if nullish (jfield v k) then d else jfield v k)"
proof -
  from assms have "map_of ds k = Some d" by simp
  with map_of_defaults [OF assms(1), of "\<lambda>k d. if nullish (jfield v k) then d else jfield v k" "spread v" k] show ?thesis
    unfolding with_defaults_def by simp
qed

lemma call_reply_defaults:
  assumes "call_reply call = Defaults ds"
  shows "distinct (map fst ds) \<and> (\<forall>(k, d)\<in>set ds. \<not> nullish d)"
proof (cases call)
  case (Core c)
  with assms show ?thesis by (cases c) (auto simp: call_reply_def core_reply_def nullish_def js_Cons)
next
  case (Notes c)
  with assms show ?thesis by (cases c) (auto simp: call_reply_def notes_reply_def nullish_def js_Cons)
next
  case (Admin c)
  with assms show ?thesis by (cases c) (auto simp: call_reply_def admin_reply_def nullish_def js_Cons)
qed (use assms in \<open>auto simp: call_reply_def inventory_reply_def split: inventory_call.splits alerting_call.splits\<close>)

lemma call_api_value:
  assumes "call_api lib decode server call br = (Inr v, br')"
  shows "\<exists>resp. reply (call_reply call) resp = Inr v"
  using assms by (auto simp: call_api_def split: sum.splits prod.splits)

lemma listing_fields_present:
  assumes "call_api lib decode server call br = (Inr v, br')" "call_reply call = Defaults ds" "(k, d) \<in> set ds"
  shows "\<not> nullish (jfield v k)"
proof -
  from call_api_value [OF assms(1)] obtain resp where resp: "reply (Defaults ds) resp = Inr v" unfolding assms(2) by blast
  then obtain w where "v = with_defaults ds w" by (cases "handle resp") (auto simp: reply_def split: if_splits)
  with call_reply_defaults [OF assms(2)] assms(3) show ?thesis by (auto simp: with_defaults_field)
qed

subsection \<open>One way to the login page\<close>

lemma apiFetch_browser:
  assumes "apiFetch decode encode server req br = (r, br')"
  shows "br' = br \<or> rq_input req \<notin> set NO_REDIRECT_ON_401 \<and> br' = redirectToLogin encode br \<and>
    (\<exists>sent resp. server sent = Some resp \<and> r = Inr resp \<and> resp_status resp = 401)"
  using assms by (auto simp: apiFetch_def split: sum.splits option.splits if_splits)

lemma lost_session_exempt:
  assumes "lost_session call e" "call_request lib call = Inr req"
  shows "rq_input req \<in> set NO_REDIRECT_ON_401"
proof -
  from assms(1) obtain a b where "call = Admin (changeOwnPassword a b)"
    by (auto simp: lost_session_def split: api_call.splits admin_call.splits api_error.splits)
  with assms(2) show ?thesis by (auto simp: call_request_def send_req_def NO_REDIRECT_ON_401_def)
qed

text \<open>
  C8: Whatever is called and whatever the server answers, the browser is left
  where it is or sent to the login page once; it is sent there only by an answer whose status is 401
  or, for a change of one's own password, by a refusal with status 401 other than \<open>invalid credentials\<close>.
\<close>

theorem call_api_login_once:
  assumes "call_api lib decode server call br = (r, br')"
  shows "br' = br \<or> br' = redirectToLogin (ul_encode lib) br \<and>
    ((\<exists>sent resp. server sent = Some resp \<and> resp_status resp = 401) \<or>
     (\<exists>problem. r = Inl (Api_Error problem) \<and> (\<exists>a b. call = Admin (changeOwnPassword a b)) \<and>
        jfield problem (js ''status'') = JNum (Fin 401) \<and> jfield problem (js ''title'') \<noteq> JStr (js ''invalid credentials'')))"
proof (cases "call_request lib call")
  case (Inl e)
  with assms show ?thesis by (simp add: call_api_def)
next
  case (Inr req)
  obtain f br1 where f: "apiFetch decode (ul_encode lib) server req br = (f, br1)" by fastforce
  show ?thesis
  proof (cases "\<exists>e. r = Inl e \<and> lost_session call e \<and> br' = redirectToLogin (ul_encode lib) br1")
    case True
    then obtain e where e: "r = Inl e" "lost_session call e" "br' = redirectToLogin (ul_encode lib) br1" by blast
    from apiFetch_browser [OF f] lost_session_exempt [OF e(2) Inr] have "br1 = br" by blast
    with e show ?thesis
      by (auto simp: lost_session_def isWrongCurrentPassword_def split: api_call.splits admin_call.splits api_error.splits)
  next
    case False
    have "br' = br1" using assms Inr f False
      by (cases f; cases "\<exists>resp. f = Inr resp") (auto simp: call_api_def split: sum.splits if_splits)
    with apiFetch_browser [OF f] show ?thesis by blast
  qed
qed

definition demo_lib :: url_lib where
  "demo_lib = \<lparr>ul_encode = id, ul_query = (\<lambda>ps. []), ul_iso = (\<lambda>d. []), ul_num = (\<lambda>n. [])\<rparr>"

theorem call_api_login_once_witness:
  "snd (call_api demo_lib Some (\<lambda>s. Some demo_signed_out) (Core getVersion) demo_browser) = redirectToLogin id demo_browser"
proof -
  let ?r = "call_api demo_lib Some (\<lambda>s. Some demo_signed_out) (Core getVersion) demo_browser"
  have neq: "snd ?r \<noteq> demo_browser"
    by (simp add: call_api_def call_request_def call_reply_def core_reply_def get_req_def apiFetch_def prepare_def MUTATING_METHODS_def
        NO_REDIRECT_ON_401_def demo_lib_def demo_signed_out_def demo_browser_def redirectToLogin_def LOGIN_PATH_def goTo_def
        reply_def handle_def resp_ok_def has_word_def status_error_def new_ApiError_def lost_session_def js_Cons upper_ascii_def Let_def)
  from call_api_login_once [of demo_lib Some "\<lambda>s. Some demo_signed_out" "Core getVersion" demo_browser "fst ?r" "snd ?r"] neq
  show ?thesis by (auto simp: demo_lib_def)
qed

end
