(* ===== verification/Command_Palette.thy ===== *)
theory Command_Palette
  imports Investigation_Scope
begin

section \<open>The command palette (lib/commands.ts, nav.ts)\<close>

text \<open>
  The registry of commands for one subject in one state of the console, and their ranking against a
  query. A command's \<open>perform\<close> is the effect it asks of its context. \<open>lower\<close> is \<open>toLowerCase\<close>,
  \<open>encode\<close> is \<open>encodeURIComponent\<close>; the dictionaries of the palette and of the navigation are the
  record \<open>palette_dict\<close>. The search for a word boundary is a loop that would not end for an empty
  word, so it is a partial function and every score an option.

  The lemmas show that scoring always returns, that a command is listed exactly when every word of
  the query occurs in one of its titles or keywords, best score first, that the list does not depend
  on the order of the registry, and that the registry's identifiers are distinct.
\<close>

subsection \<open>Commands\<close>

record command_context =
  cx_can :: "jstring \<Rightarrow> bool"
  cx_writesDisabled :: bool
  cx_dark :: bool
  cx_isLive :: bool
  cx_hasTimeMachinePicker :: bool

datatype CommandGroup = g_Navigation | g_Actions | g_View | g_Incidents

definition GROUP_ORDER :: "CommandGroup list" where
  "GROUP_ORDER = [g_Navigation, g_Actions, g_View, g_Incidents]"

datatype perform = Navigate jstring | Open_external jstring | Open_picker | Return_to_live | Toggle_theme

record Command =
  cm_id :: jstring
  cm_title :: jstring
  cm_titleRu :: "jstring option"
  cm_group :: CommandGroup
  cm_keywords :: "jstring list option"
  cm_perform :: perform
  cm_permission :: "jstring option"
  cm_visibleWhen :: "(command_context \<Rightarrow> bool) option"
  cm_write :: bool

datatype display_locale = l_en | l_ru

subsection \<open>Scoring\<close>

definition TITLE_START :: nat where
  "TITLE_START = 120"

definition TITLE_BOUNDARY :: nat where
  "TITLE_BOUNDARY = 100"

definition TITLE_SUBSTRING :: nat where
  "TITLE_SUBSTRING = 60"

definition KEYWORD_BOUNDARY :: nat where
  "KEYWORD_BOUNDARY = 40"

definition KEYWORD_SUBSTRING :: nat where
  "KEYWORD_SUBSTRING = 25"

lemmas rung_defs = TITLE_START_def TITLE_BOUNDARY_def TITLE_SUBSTRING_def KEYWORD_BOUNDARY_def KEYWORD_SUBSTRING_def

definition WORD_CHAR :: "jchar \<Rightarrow> bool" where
  "WORD_CHAR c \<longleftrightarrow> 97 \<le> c \<and> c \<le> 122 \<or> 48 \<le> c \<and> c \<le> 57 \<or> 1024 \<le> c \<and> c \<le> 1279"

text \<open>\<open>hay.indexOf(needle, from)\<close> and \<open>hay.includes(needle)\<close>.\<close>

definition index_from :: "jstring \<Rightarrow> jstring \<Rightarrow> nat \<Rightarrow> nat option" where
  "index_from hay needle from =
     (let f = min from (length hay) in map_option ((+) f) (index_of (drop f hay) needle))"

definition js_includes :: "jstring \<Rightarrow> jstring \<Rightarrow> bool" where
  "js_includes hay needle \<longleftrightarrow> index_of hay needle \<noteq> None"

text \<open>The loop of \<open>boundaryIndex\<close>: \<open>Some None\<close> is its -1, \<open>None\<close> that it does not return.\<close>

partial_function (option) boundary_loop :: "jstring \<Rightarrow> jstring \<Rightarrow> nat \<Rightarrow> nat option option" where
  "boundary_loop hay needle from =
     (case index_from hay needle from of
        None \<Rightarrow> Some None
      | Some i \<Rightarrow>
          if i = 0 \<or> \<not> WORD_CHAR (hay ! (i - 1)) then Some (Some i) else boundary_loop hay needle (i + 1))"

definition boundaryIndex :: "jstring \<Rightarrow> jstring \<Rightarrow> nat option option" where
  "boundaryIndex hay needle = boundary_loop hay needle 0"

fun title_loop :: "jstring \<Rightarrow> nat \<Rightarrow> jstring list \<Rightarrow> nat option" where
  "title_loop word best [] = Some best"
| "title_loop word best (title # titles) =
     (case boundaryIndex title word of
        None \<Rightarrow> None
      | Some b \<Rightarrow>
          if b = Some 0 then Some TITLE_START
          else if b \<noteq> None then title_loop word (max best TITLE_BOUNDARY) titles
          else if js_includes title word then title_loop word (max best TITLE_SUBSTRING) titles
          else title_loop word best titles)"

definition titleScore :: "jstring \<Rightarrow> jstring list \<Rightarrow> nat option" where
  "titleScore word titles = title_loop word 0 titles"

fun keyword_loop :: "jstring \<Rightarrow> nat \<Rightarrow> jstring list \<Rightarrow> nat option" where
  "keyword_loop word best [] = Some best"
| "keyword_loop word best (k # ks) =
     (case boundaryIndex k word of
        None \<Rightarrow> None
      | Some b \<Rightarrow>
          if b \<noteq> None then keyword_loop word (max best KEYWORD_BOUNDARY) ks
          else if js_includes k word then keyword_loop word (max best KEYWORD_SUBSTRING) ks
          else keyword_loop word best ks)"

definition wordScore :: "jstring \<Rightarrow> jstring list \<Rightarrow> jstring list \<Rightarrow> nat option" where
  "wordScore word titles keywords =
     (case titleScore word titles of
        None \<Rightarrow> None
      | Some t \<Rightarrow> if 0 < t then Some t else keyword_loop word 0 keywords)"

definition commandTitle :: "Command \<Rightarrow> display_locale \<Rightarrow> jstring" where
  "commandTitle cmd loc =
     (if loc = l_ru then (case cm_titleRu cmd of Some s \<Rightarrow> s | None \<Rightarrow> cm_title cmd) else cm_title cmd)"

definition searchTitles :: "(jstring \<Rightarrow> jstring) \<Rightarrow> Command \<Rightarrow> jstring list" where
  "searchTitles lower cmd =
     lower (cm_title cmd) #
     (case cm_titleRu cmd of Some s \<Rightarrow> if s \<noteq> cm_title cmd then [lower s] else [] | None \<Rightarrow> [])"

text \<open>\<open>s.split(/\s+/)\<close>.\<close>

function (sequential) split_spaces :: "jstring \<Rightarrow> jstring list" where
  "split_spaces [] = [[]]"
| "split_spaces (c # s) =
     (if is_space c then [] # split_spaces (dropWhile is_space s)
      else case split_spaces s of w # ws \<Rightarrow> (c # w) # ws | [] \<Rightarrow> [[c]])"
  by pat_completeness auto
termination by (relation "measure length") (auto simp: less_Suc_eq_le length_dropWhile_le)

definition query_words :: "(jstring \<Rightarrow> jstring) \<Rightarrow> jstring \<Rightarrow> jstring list" where
  "query_words lower query = filter (\<lambda>w. w \<noteq> []) (split_spaces (trim (lower query)))"

fun score_loop :: "jstring list \<Rightarrow> jstring list \<Rightarrow> nat \<Rightarrow> jstring list \<Rightarrow> nat option" where
  "score_loop titles keywords acc [] = Some acc"
| "score_loop titles keywords acc (w # ws) =
     (case wordScore w titles keywords of
        None \<Rightarrow> None
      | Some s \<Rightarrow> if s = 0 then Some 0 else score_loop titles keywords (acc + s) ws)"

definition search_keywords :: "(jstring \<Rightarrow> jstring) \<Rightarrow> Command \<Rightarrow> jstring list" where
  "search_keywords lower cmd = map lower (case cm_keywords cmd of Some ks \<Rightarrow> ks | None \<Rightarrow> [])"

definition scoreCommand :: "(jstring \<Rightarrow> jstring) \<Rightarrow> jstring \<Rightarrow> Command \<Rightarrow> nat option" where
  "scoreCommand lower query cmd =
     (let ws = query_words lower query
      in if ws = [] then Some 1 else score_loop (searchTitles lower cmd) (search_keywords lower cmd) 0 ws)"

definition cmpStr :: "jstring \<Rightarrow> jstring \<Rightarrow> jsnum" where
  "cmpStr a b = (if a < b then Fin (- 1) else if b < a then Fin 1 else Fin 0)"

definition by_score :: "display_locale \<Rightarrow> Command \<times> nat \<Rightarrow> Command \<times> nat \<Rightarrow> jsnum" where
  "by_score loc a b =
     (let d = jnat (snd b) - jnat (snd a)
      in if d \<noteq> Fin 0 then d
         else let c = cmpStr (commandTitle (fst a) loc) (commandTitle (fst b) loc)
         in if c \<noteq> Fin 0 then c else cmpStr (cm_id (fst a)) (cm_id (fst b)))"

fun scored :: "(jstring \<Rightarrow> jstring) \<Rightarrow> jstring \<Rightarrow> Command list \<Rightarrow> (Command \<times> nat) list option" where
  "scored lower query [] = Some []"
| "scored lower query (cmd # cmds) =
     (case scoreCommand lower query cmd of
        None \<Rightarrow> None
      | Some s \<Rightarrow> map_option ((#) (cmd, s)) (scored lower query cmds))"

definition searchCommands :: "(jstring \<Rightarrow> jstring) \<Rightarrow> display_locale \<Rightarrow> jstring \<Rightarrow> Command list \<Rightarrow> Command list option" where
  "searchCommands lower loc query cmds =
     map_option (\<lambda>rs. map fst (js_sort (by_score loc) (filter (\<lambda>r. 0 < snd r) rs))) (scored lower query cmds)"

definition isCommandDisabled :: "Command \<Rightarrow> command_context \<Rightarrow> bool" where
  "isCommandDisabled cmd ctx \<longleftrightarrow> cm_write cmd \<and> cx_writesDisabled ctx"

subsection \<open>The registry\<close>

record NavItem =
  ni_path :: jstring
  ni_label :: jstring
  ni_description :: jstring

definition NAV_ITEMS :: "NavItem list" where
  "NAV_ITEMS =
    [\<lparr>ni_path = js ''/'', ni_label = js ''Overview'', ni_description = js ''Health summary, worst pairs, firing alerts, recent events.''\<rparr>,
     \<lparr>ni_path = js ''/live'', ni_label = js ''Events'', ni_description = js ''Real-time event feed.''\<rparr>,
     \<lparr>ni_path = js ''/investigate'', ni_label = js ''Incidents'', ni_description = js ''Investigation Mode entry and saved incidents.''\<rparr>,
     \<lparr>ni_path = js ''/matrix'', ni_label = js ''Matrix'', ni_description = js ''Live/historical N'' @ [215] @ js ''N heatmap.''\<rparr>,
     \<lparr>ni_path = js ''/topology'', ni_label = js ''Topology'', ni_description = js ''Interactive connectivity map.''\<rparr>,
     \<lparr>ni_path = js ''/mtr'', ni_label = js ''Routes '' @ [183] @ js '' MTR'', ni_description = js ''MTR Explorer.''\<rparr>,
     \<lparr>ni_path = js ''/diagnostics'', ni_label = js ''Run checks'', ni_description = js ''Run checks and run history.''\<rparr>,
     \<lparr>ni_path = js ''/targets'', ni_label = js ''Scheduled checks'', ni_description = js ''External targets, definitions, schedules.''\<rparr>,
     \<lparr>ni_path = js ''/explore'', ni_label = js ''Metrics'', ni_description = js ''Curated metrics and A/B compare.''\<rparr>,
     \<lparr>ni_path = js ''/alerting'', ni_label = js ''Alerting'', ni_description = js ''Rule list, builder, maintenance windows.''\<rparr>,
     \<lparr>ni_path = js ''/console'', ni_label = js ''PromQL'', ni_description = js ''PromQL dev-tools.''\<rparr>,
     \<lparr>ni_path = js ''/settings'', ni_label = js ''Settings'', ni_description = js ''Language, API tokens, webhooks, config export/import, about.''\<rparr>]"

text \<open>
  The tables the registry reads: the palette's texts by key in both languages, and by path the
  Russian label and description of a page.
\<close>

record palette_dict =
  pd_en :: "jstring \<Rightarrow> jstring"
  pd_ru :: "jstring \<Rightarrow> jstring"
  pd_navRu :: "jstring \<Rightarrow> jstring option"
  pd_navDescRu :: "jstring \<Rightarrow> jstring option"

definition kw :: "palette_dict \<Rightarrow> jstring \<Rightarrow> jstring list" where
  "kw dict key = [pd_en dict key, pd_ru dict key]"

definition non_blank :: "jstring option \<Rightarrow> jstring list" where
  "non_blank v = (case v of Some s \<Rightarrow> if s = [] then [] else [s] | None \<Rightarrow> [])"

definition LEGACY_NAV_KEYWORDS :: "jstring \<Rightarrow> jstring option" where
  "LEGACY_NAV_KEYWORDS = map_of
    [(js ''/live'', js ''live '' @ [1086, 1085, 1083, 1072, 1081, 1085]),
     (js ''/investigate'', js ''investigate '' @ [1088, 1072, 1089, 1089, 1083, 1077, 1076, 1086, 1074, 1072, 1085, 1080, 1077]),
     (js ''/explore'', js ''explore''),
     (js ''/console'', js ''console '' @ [1082, 1086, 1085, 1089, 1086, 1083, 1100]),
     (js ''/diagnostics'', js ''diagnostics '' @ [1076, 1080, 1072, 1075, 1085, 1086, 1089, 1090, 1080, 1082, 1072]),
     (js ''/targets'', js ''targets schedules '' @ [1094, 1077, 1083, 1080] @ js '' '' @ [1080] @ js '' '' @ [1088, 1072, 1089, 1087, 1080, 1089, 1072, 1085, 1080, 1103])]"

definition navCommands :: "palette_dict \<Rightarrow> Command list" where
  "navCommands dict = map (\<lambda>item.
     \<lparr>cm_id = js ''nav:'' @ ni_path item, cm_title = ni_label item, cm_titleRu = pd_navRu dict (ni_path item), cm_group = g_Navigation,
      cm_keywords = Some (ni_description item # non_blank (pd_navDescRu dict (ni_path item)) @ non_blank (LEGACY_NAV_KEYWORDS (ni_path item)) @ [ni_path item]),
      cm_perform = Navigate (ni_path item), cm_permission = None, cm_visibleWhen = None, cm_write = False\<rparr>) NAV_ITEMS"

definition dict_entry :: "palette_dict \<Rightarrow> CommandGroup \<Rightarrow> string \<Rightarrow> string \<Rightarrow> perform \<Rightarrow> Command" where
  "dict_entry dict grp i key act =
     \<lparr>cm_id = js i, cm_title = pd_en dict (js key), cm_titleRu = Some (pd_ru dict (js key)), cm_group = grp,
      cm_keywords = Some (kw dict (js key @ js ''.kw'')), cm_perform = act, cm_permission = None, cm_visibleWhen = None, cm_write = False\<rparr>"

definition DOCS_BASE_URL :: jstring where
  "DOCS_BASE_URL = js ''https://esdmitrii.github.io/kconmon-ng/''"

definition actionCommands :: "palette_dict \<Rightarrow> Command list" where
  "actionCommands dict =
    [(dict_entry dict g_Actions ''action:run-check'' ''action.runCheck'' (Navigate (js ''/diagnostics'')))
       \<lparr>cm_permission := Some (js ''runs:create''), cm_write := True\<rparr>,
     dict_entry dict g_Actions ''action:investigate'' ''action.investigate'' (Navigate (js ''/investigate'')),
     (dict_entry dict g_Actions ''action:alert-rule'' ''action.alertRule'' (Navigate (js ''/alerting'')))
       \<lparr>cm_permission := Some (js ''alerts:manage''), cm_write := True\<rparr>,
     (dict_entry dict g_Actions ''action:maintenance'' ''action.maintenance'' (Navigate (js ''/explore'')))
       \<lparr>cm_permission := Some (js ''maintenance:write''), cm_write := True\<rparr>,
     (dict_entry dict g_Actions ''action:annotation'' ''action.annotation'' (Navigate (js ''/explore'')))
       \<lparr>cm_permission := Some (js ''annotations:write''), cm_write := True\<rparr>,
     dict_entry dict g_Actions ''action:docs'' ''action.docs'' (Open_external DOCS_BASE_URL)]"

definition viewCommands :: "palette_dict \<Rightarrow> command_context \<Rightarrow> Command list" where
  "viewCommands dict ctx =
    [(dict_entry dict g_View ''view:timemachine-pick'' ''view.timemachinePick'' Open_picker)
       \<lparr>cm_visibleWhen := Some (\<lambda>c. cx_isLive c \<and> cx_hasTimeMachinePicker c)\<rparr>,
     (dict_entry dict g_View ''view:timemachine-live'' ''view.timemachineLive'' Return_to_live)
       \<lparr>cm_visibleWhen := Some (\<lambda>c. \<not> cx_isLive c)\<rparr>,
     (let key = (if cx_dark ctx then js ''view.themeLight'' else js ''view.themeDark'')
      in (dict_entry dict g_View ''view:theme'' ''view.theme'' Toggle_theme)
           \<lparr>cm_title := pd_en dict key, cm_titleRu := Some (pd_ru dict key)\<rparr>)]"

definition incident_command :: "(jstring \<Rightarrow> jstring) \<Rightarrow> palette_dict \<Rightarrow> jsval \<Rightarrow> Command option" where
  "incident_command encode dict incident =
     (case (jfield incident (js ''id''), jfield incident (js ''title'')) of
        (JStr i, JStr title) \<Rightarrow>
          if i = [] \<or> trim title = [] then None
          else Some \<lparr>cm_id = js ''incident:'' @ i, cm_title = title, cm_titleRu = None, cm_group = g_Incidents,
                 cm_keywords = Some (non_blank (case jfield incident (js ''scope'') of JStr s \<Rightarrow> Some s | _ \<Rightarrow> None) @ kw dict (js ''incident.kw'')),
                 cm_perform = Navigate (incidentPermalink encode i), cm_permission = Some (js ''incidents:read''),
                 cm_visibleWhen = None, cm_write = False\<rparr>
      | _ \<Rightarrow> None)"

definition incidentCommands :: "(jstring \<Rightarrow> jstring) \<Rightarrow> palette_dict \<Rightarrow> jsval list \<Rightarrow> Command list" where
  "incidentCommands encode dict incidents = List.map_filter (incident_command encode dict) incidents"

definition offered :: "command_context \<Rightarrow> Command \<Rightarrow> bool" where
  "offered ctx c \<longleftrightarrow>
     (case cm_permission c of None \<Rightarrow> True | Some p \<Rightarrow> cx_can ctx p) \<and>
     (case cm_visibleWhen c of None \<Rightarrow> True | Some v \<Rightarrow> v ctx)"

definition buildRegistry :: "(jstring \<Rightarrow> jstring) \<Rightarrow> palette_dict \<Rightarrow> command_context \<Rightarrow> jsval list \<Rightarrow> Command list" where
  "buildRegistry encode dict ctx incidents =
     filter (offered ctx) (navCommands dict @ actionCommands dict @ viewCommands dict ctx @ incidentCommands encode dict incidents)"

subsection \<open>The search for a boundary returns\<close>

lemma index_of_iff: "index_of s p \<noteq> None \<longleftrightarrow> (\<exists>u v. s = u @ p @ v)"
proof (induction s)
  case (Cons c s)
  show ?case
  proof (cases "starts_with (c # s) p")
    case True
    then have "\<exists>v. c # s = [] @ p @ v" unfolding starts_with_def by (metis append_Nil append_take_drop_id)
    with True show ?thesis by (metis index_of.simps(2) option.distinct(1))
  next
    case False
    then have "(\<exists>u v. c # s = u @ p @ v) \<longleftrightarrow> (\<exists>u v. s = u @ p @ v)"
      by (auto simp: starts_with_def Cons_eq_append_conv append_eq_Cons_conv)
    with False Cons show ?thesis by simp
  qed
qed auto

lemma index_from_bounds:
  assumes "index_from hay needle start = Some i" "start \<le> length hay" "needle \<noteq> []"
  shows "start \<le> i \<and> i < length hay"
proof -
  from assms obtain j where j: "index_of (drop start hay) needle = Some j" "i = start + j"
    by (auto simp: index_from_def Let_def)
  have "j < length (drop start hay)"
  proof (rule ccontr)
    assume "\<not> ?thesis"
    with index_of_Some [OF j(1)] assms(3) show False by simp
  qed
  then show ?thesis using j(2) by simp
qed

lemma boundary_loop_returns:
  "needle \<noteq> [] \<Longrightarrow> start \<le> length hay \<Longrightarrow> \<exists>r. boundary_loop hay needle start = Some r \<and> (r \<noteq> None \<longrightarrow> js_includes hay needle)"
proof (induction "length hay - start" arbitrary: start rule: less_induct)
  case less
  show ?case
  proof (cases "index_from hay needle start")
    case None
    then show ?thesis by (simp add: boundary_loop.simps)
  next
    case (Some i)
    note b = index_from_bounds [OF Some less.prems(2,1)]
    from Some less.prems(2) obtain j where "index_of (drop start hay) needle = Some j"
      by (auto simp: index_from_def Let_def)
    then obtain u v where "drop start hay = u @ needle @ v" using index_of_iff [of "drop start hay" needle] by auto
    then have "hay = (take start hay @ u) @ needle @ v" by (metis append.assoc append_take_drop_id)
    then have inc: "js_includes hay needle" unfolding js_includes_def index_of_iff by blast
    show ?thesis
    proof (cases "i = 0 \<or> \<not> WORD_CHAR (hay ! (i - 1))")
      case True
      with Some inc show ?thesis by (simp add: boundary_loop.simps [of hay needle start])
    next
      case False
      with Some have step: "boundary_loop hay needle start = boundary_loop hay needle (i + 1)"
        by (simp add: boundary_loop.simps [of hay needle start])
      have "length hay - (i + 1) < length hay - start" "i + 1 \<le> length hay" using b by auto
      from less.hyps [OF this(1) less.prems(1) this(2)] step show ?thesis by simp
    qed
  qed
qed

lemma boundaryIndex_returns:
  "word \<noteq> [] \<Longrightarrow> \<exists>r. boundaryIndex hay word = Some r \<and> (r \<noteq> None \<longrightarrow> js_includes hay word)"
  using boundary_loop_returns [of word 0 hay] unfolding boundaryIndex_def by simp

lemma title_loop_returns:
  assumes "word \<noteq> []"
  shows "\<exists>s. title_loop word best titles = Some s \<and> (0 < s \<longleftrightarrow> 0 < best \<or> (\<exists>t\<in>set titles. js_includes t word))"
proof (induction titles arbitrary: best)
  case (Cons t ts)
  obtain r where r: "boundaryIndex t word = Some r" "r \<noteq> None \<longrightarrow> js_includes t word"
    using boundaryIndex_returns [OF assms, of t] by blast
  show ?case
  proof (cases "r = Some 0")
    case True
    with r show ?thesis by (simp add: rung_defs)
  next
    case False
    let ?best = "if r \<noteq> None then max best TITLE_BOUNDARY else if js_includes t word then max best TITLE_SUBSTRING else best"
    from False r(1) have "title_loop word best (t # ts) = title_loop word ?best ts" by simp
    moreover have "0 < ?best \<longleftrightarrow> 0 < best \<or> js_includes t word" using r(2) by (auto simp: rung_defs max_def)
    ultimately show ?thesis using Cons.IH [of ?best] by auto
  qed
qed simp

lemma keyword_loop_returns:
  assumes "word \<noteq> []"
  shows "\<exists>s. keyword_loop word best ks = Some s \<and> (0 < s \<longleftrightarrow> 0 < best \<or> (\<exists>t\<in>set ks. js_includes t word))"
proof (induction ks arbitrary: best)
  case (Cons t ts)
  obtain r where r: "boundaryIndex t word = Some r" "r \<noteq> None \<longrightarrow> js_includes t word"
    using boundaryIndex_returns [OF assms, of t] by blast
  let ?best = "if r \<noteq> None then max best KEYWORD_BOUNDARY else if js_includes t word then max best KEYWORD_SUBSTRING else best"
  from r(1) have "keyword_loop word best (t # ts) = keyword_loop word ?best ts" by simp
  moreover have "0 < ?best \<longleftrightarrow> 0 < best \<or> js_includes t word" using r(2) by (auto simp: rung_defs max_def)
  ultimately show ?case using Cons.IH [of ?best] by auto
qed simp

lemma wordScore_returns:
  assumes "word \<noteq> []"
  shows "\<exists>s. wordScore word titles keywords = Some s \<and> (0 < s \<longleftrightarrow> (\<exists>t\<in>set (titles @ keywords). js_includes t word))"
proof -
  obtain s where s: "titleScore word titles = Some s" "0 < s \<longleftrightarrow> (\<exists>t\<in>set titles. js_includes t word)"
    using title_loop_returns [OF assms, of 0 titles] by (auto simp: titleScore_def)
  obtain k where k: "keyword_loop word 0 keywords = Some k" "0 < k \<longleftrightarrow> (\<exists>t\<in>set keywords. js_includes t word)"
    using keyword_loop_returns [OF assms, of 0 "keywords"] by auto
  show ?thesis using s k by (cases "0 < s") (auto simp: wordScore_def)
qed

text \<open>The specification: every word of the query occurs in a title or a keyword.\<close>

definition matches :: "(jstring \<Rightarrow> jstring) \<Rightarrow> jstring \<Rightarrow> Command \<Rightarrow> bool" where
  "matches lower query cmd \<longleftrightarrow>
     (\<forall>w\<in>set (query_words lower query). \<exists>t\<in>set (searchTitles lower cmd @ search_keywords lower cmd). js_includes t w)"

lemma score_loop_returns:
  "\<forall>w\<in>set ws. w \<noteq> [] \<Longrightarrow> 0 < acc \<or> ws \<noteq> [] \<Longrightarrow>
    \<exists>s. score_loop titles keywords acc ws = Some s \<and> (0 < s \<longleftrightarrow> (\<forall>w\<in>set ws. \<exists>t\<in>set (titles @ keywords). js_includes t w))"
proof (induction ws arbitrary: acc)
  case (Cons w ws)
  from Cons.prems(1) obtain s where s: "wordScore w titles keywords = Some s" "0 < s \<longleftrightarrow> (\<exists>t\<in>set (titles @ keywords). js_includes t w)"
    using wordScore_returns [of w titles "keywords"] by auto
  show ?case
  proof (cases "s = 0")
    case True
    with s show ?thesis by auto
  next
    case False
    with s Cons.IH [of "acc + s"] Cons.prems(1) show ?thesis by auto
  qed
qed auto

lemma scoreCommand_returns: "\<exists>s. scoreCommand lower query cmd = Some s \<and> (0 < s \<longleftrightarrow> matches lower query cmd)"
proof (cases "query_words lower query = []")
  case True
  then show ?thesis by (simp add: scoreCommand_def Let_def matches_def)
next
  case False
  have "\<forall>w\<in>set (query_words lower query). w \<noteq> []" by (simp add: query_words_def)
  from score_loop_returns [OF this, of 0 "searchTitles lower cmd" "search_keywords lower cmd"] False show ?thesis
    by (simp add: scoreCommand_def Let_def matches_def)
qed

definition score_of :: "(jstring \<Rightarrow> jstring) \<Rightarrow> jstring \<Rightarrow> Command \<Rightarrow> nat" where
  "score_of lower query cmd = (case scoreCommand lower query cmd of Some s \<Rightarrow> s | None \<Rightarrow> 0)"

lemma score_of_pos: "0 < score_of lower query cmd \<longleftrightarrow> matches lower query cmd"
  using scoreCommand_returns [of lower query cmd] by (auto simp: score_of_def)

lemma scored_returns: "scored lower query cmds = Some (map (\<lambda>c. (c, score_of lower query c)) cmds)"
proof (induction cmds)
  case (Cons c cs)
  with scoreCommand_returns [of lower query c] show ?case by (auto simp: score_of_def)
qed simp

subsection \<open>The order\<close>

definition rank_key :: "display_locale \<Rightarrow> Command \<times> nat \<Rightarrow> int \<times> jstring \<times> jstring" where
  "rank_key loc r = (- int (snd r), commandTitle (fst r) loc, cm_id (fst r))"

lemma gt_by_score: "gt_by (by_score loc) a b \<longleftrightarrow> rank_key loc b < rank_key loc a"
proof -
  have d: "jnat (snd b) - jnat (snd a) = Fin (rat_of_int (int (snd b) - int (snd a)))" by simp
  show ?thesis
    by (cases "snd a = snd b"; cases "commandTitle (fst a) loc = commandTitle (fst b) loc")
      (auto simp: gt_by_def by_score_def rank_key_def cmpStr_def Let_def less_prod_def')
qed

interpretation palette: comparator_on "by_score loc" UNIV for loc
  by (rule comparator_by_key [of _ _ "rank_key loc"]) (rule gt_by_score)

text \<open>The list does not depend on the order of the registry when its identifiers are distinct.\<close>

lemma ranked_same:
  assumes "distinct (map cm_id xs)" "x \<in> (\<lambda>c. (c, f c)) ` set xs" "y \<in> (\<lambda>c. (c, f c)) ` set xs"
    and "\<not> gt_by (by_score loc) x y" "\<not> gt_by (by_score loc) y x"
  shows "x = y"
proof -
  from assms(4,5) have "rank_key loc x = rank_key loc y" unfolding gt_by_score not_less by (rule antisym)
  then have i: "cm_id (fst x) = cm_id (fst y)" by (simp only: rank_key_def prod.inject)
  from assms(2) obtain c where c: "c \<in> set xs" "x = (c, f c)" by (rule imageE)
  from assms(3) obtain d where d: "d \<in> set xs" "y = (d, f d)" by (rule imageE)
  from assms(1) have "inj_on cm_id (set xs)" by (simp only: distinct_map)
  moreover from i have "cm_id c = cm_id d" by (simp only: c(2) d(2) fst_conv)
  ultimately have "c = d" using c(1) d(1) by (rule inj_onD)
  then show ?thesis by (simp only: c(2) d(2))
qed

lemma searchCommands_order_independent:
  assumes "mset xs = mset ys" "distinct (map cm_id xs)"
  shows "searchCommands lower loc query xs = searchCommands lower loc query ys"
proof -
  define f where "f = score_of lower query"
  let ?rs = "\<lambda>cs. filter (\<lambda>r. 0 < snd r) (map (\<lambda>c. (c, f c)) cs)"
  have "js_sort (by_score loc) (?rs xs) = js_sort (by_score loc) (?rs ys)"
  proof (rule palette.sort_cong)
    show "mset (?rs xs) = mset (?rs ys)" unfolding mset_filter mset_map assms(1) ..
    fix x y
    assume "x \<in> set (?rs xs)" "y \<in> set (?rs xs)"
    then have "x \<in> (\<lambda>c. (c, f c)) ` set xs" "y \<in> (\<lambda>c. (c, f c)) ` set xs" by auto
    then show "x = y" if "\<not> gt_by (by_score loc) x y" "\<not> gt_by (by_score loc) y x"
      using that by (rule ranked_same [OF assms(2)])
  qed (rule subset_UNIV)
  then show ?thesis unfolding searchCommands_def scored_returns f_def by simp
qed

subsection \<open>The registry has distinct identifiers\<close>

lemma incident_command_id: "incident_command encode dict v = Some c \<Longrightarrow> \<exists>i. cm_id c = js ''incident:'' @ i \<and> jfield v (js ''id'') = JStr i"
  by (auto simp: incident_command_def split: jsval.splits if_splits)

lemma distinct_incident_ids:
  assumes "distinct (map (\<lambda>v. jfield v (js ''id'')) vs)"
  shows "distinct (map cm_id (incidentCommands encode dict vs))"
  using assms
proof (induction vs)
  case (Cons v vs)
  show ?case
  proof (cases "incident_command encode dict v")
    case None
    with Cons show ?thesis by (simp add: incidentCommands_def map_filter_simps)
  next
    case (Some c)
    have "cm_id c \<notin> cm_id ` set (incidentCommands encode dict vs)"
    proof
      assume "cm_id c \<in> cm_id ` set (incidentCommands encode dict vs)"
      then obtain w d where w: "w \<in> set vs" "incident_command encode dict w = Some d" "cm_id d = cm_id c"
        by (auto simp: incidentCommands_def map_filter_def)
      from incident_command_id [OF Some] obtain i where i: "cm_id c = js ''incident:'' @ i" "jfield v (js ''id'') = JStr i" by blast
      from incident_command_id [OF w(2)] obtain k where k: "cm_id d = js ''incident:'' @ k" "jfield w (js ''id'') = JStr k" by blast
      from w(3) have "k = i" unfolding i(1) k(1) by (simp only: same_append_eq)
      with i(2) k(2) have same: "jfield w (js ''id'') = jfield v (js ''id'')" by (simp only:)
      from w(1) have "jfield w (js ''id'') \<in> (\<lambda>v. jfield v (js ''id'')) ` set vs" by (rule imageI)
      then have "jfield v (js ''id'') \<in> set (map (\<lambda>v. jfield v (js ''id'')) vs)" by (simp only: same set_map)
      with Cons.prems show False by (simp only: list.map distinct.simps) blast
    qed
    with Some Cons show ?thesis by (simp add: incidentCommands_def map_filter_simps)
  qed
qed (simp add: incidentCommands_def map_filter_simps)

definition fixed_ids :: "jstring list" where
  "fixed_ids = map (\<lambda>p. js ''nav:'' @ js p) [''/'', ''/live'', ''/investigate'', ''/matrix'', ''/topology'', ''/mtr'', ''/diagnostics'',
     ''/targets'', ''/explore'', ''/alerting'', ''/console'', ''/settings''] @
   map js [''action:run-check'', ''action:investigate'', ''action:alert-rule'', ''action:maintenance'', ''action:annotation'',
     ''action:docs'', ''view:timemachine-pick'', ''view:timemachine-live'', ''view:theme'']"

lemma fixed_commands:
  "map cm_id (navCommands dict @ actionCommands dict @ viewCommands dict ctx) = fixed_ids"
  by (simp add: navCommands_def NAV_ITEMS_def actionCommands_def viewCommands_def dict_entry_def fixed_ids_def Let_def)

lemma fixed_ids_distinct: "distinct fixed_ids"
  by (simp add: fixed_ids_def js_Cons)

lemma fixed_ids_head: "list_all (\<lambda>x. hd x \<noteq> 105) fixed_ids"
  by (simp add: fixed_ids_def js_Cons)

lemma fixed_ids_no_incident:
  assumes "x \<in> set fixed_ids"
  shows "x \<noteq> js ''incident:'' @ i"
proof -
  have "hd (js ''incident:'' @ i) = 105" by (simp add: js_Cons)
  moreover from fixed_ids_head assms have "hd x \<noteq> 105" unfolding list_all_iff by (rule bspec)
  ultimately show ?thesis by metis
qed

lemma distinct_filter_ids: "distinct (map f xs) \<Longrightarrow> distinct (map f (filter P xs))"
  by (induction xs) auto

lemma buildRegistry_ids:
  assumes "distinct (map (\<lambda>v. jfield v (js ''id'')) incidents)"
  shows "distinct (map cm_id (buildRegistry encode dict ctx incidents))"
proof -
  have disjoint: "set fixed_ids \<inter> cm_id ` set (incidentCommands encode dict incidents) = {}"
  proof (rule ccontr)
    assume "\<not> ?thesis"
    then obtain v c where "incident_command encode dict v = Some c" "cm_id c \<in> set fixed_ids"
      by (auto simp: incidentCommands_def map_filter_def)
    with incident_command_id fixed_ids_no_incident show False by blast
  qed
  have "map cm_id (navCommands dict @ actionCommands dict @ viewCommands dict ctx @ incidentCommands encode dict incidents) =
      fixed_ids @ map cm_id (incidentCommands encode dict incidents)"
    using fixed_commands [of dict ctx] by (metis append.assoc map_append)
  then have "distinct (map cm_id (navCommands dict @ actionCommands dict @ viewCommands dict ctx @ incidentCommands encode dict incidents))"
    using fixed_ids_distinct distinct_incident_ids [OF assms] disjoint by (simp only: distinct_append set_map)
  then show ?thesis unfolding buildRegistry_def by (rule distinct_filter_ids)
qed

subsection \<open>Properties\<close>

text \<open>
  C34: Searching always returns. What it lists is exactly the commands for which
  every word of the query occurs in a title of either language or in a keyword, each as often as the
  registry has it, with the score falling and ties in the order of the displayed title and then of
  the identifier.
\<close>

theorem searchCommands_ranked:
  "\<exists>out. searchCommands lower loc query cmds = Some out \<and>
     mset out = mset (filter (matches lower query) cmds) \<and>
     sorted_wrt (\<lambda>a b. rank_key loc (a, score_of lower query a) \<le> rank_key loc (b, score_of lower query b)) out"
proof -
  let ?rs = "map (\<lambda>c. (c, score_of lower query c)) (filter (matches lower query) cmds)"
  let ?sorted = "js_sort (by_score loc) ?rs"
  have "filter (\<lambda>r. 0 < snd r) (map (\<lambda>c. (c, score_of lower query c)) cmds) = ?rs"
    by (simp add: filter_map o_def score_of_pos)
  then have s: "searchCommands lower loc query cmds = Some (map fst ?sorted)" by (simp add: searchCommands_def scored_returns)
  have "mset (map fst ?sorted) = mset (filter (matches lower query) cmds)"
    by (simp add: image_mset.compositionality comp_def)
  moreover have "sorted_wrt (\<lambda>a b. rank_key loc (fst a, score_of lower query (fst a)) \<le> rank_key loc (fst b, score_of lower query (fst b))) ?sorted"
  proof (rule sorted_wrt_mono_rel [OF _ palette.sort_sorted])
    fix a b assume ab: "a \<in> set ?sorted" "b \<in> set ?sorted" and "\<not> gt_by (by_score loc) a b"
    then have "rank_key loc a \<le> rank_key loc b" by (simp add: gt_by_score not_less)
    moreover have "a = (fst a, score_of lower query (fst a))" "b = (fst b, score_of lower query (fst b))" using ab by auto
    ultimately show "rank_key loc (fst a, score_of lower query (fst a)) \<le> rank_key loc (fst b, score_of lower query (fst b))" by metis
  qed simp
  ultimately show ?thesis using s by (simp add: sorted_wrt_map)
qed

end
