(* ===== verification/Agents.thy ===== *)
theory Agents
  imports Js_Prelude
begin

section \<open>Agents (lib/agents.ts)\<close>

text \<open>
  What the console reads off a topology agent: whether it is a bare host and which probe planes it
  runs, over JSON values of any shape. The lemmas show the readers total in the direction the module
  states, and the list of unscraped hosts exact.
\<close>

definition EXTERNAL_LABEL :: jstring where
  "EXTERNAL_LABEL = js ''kconmon-ng.io/external''"

definition PLANE_CAPABILITY_PREFIX :: jstring where
  "PLANE_CAPABILITY_PREFIX = js ''plane:''"

definition CHECK_TYPES :: "jstring list" where
  "CHECK_TYPES = map js [''tcp'', ''udp'', ''icmp'', ''pmtu'', ''dns'', ''http'', ''mtr'']"

fun isRecord :: "jsval \<Rightarrow> bool" where
  "isRecord (JObj kvs) \<longleftrightarrow> True"
| "isRecord v \<longleftrightarrow> False"

definition isExternalAgent :: "jsval \<Rightarrow> bool" where
  "isExternalAgent agent \<longleftrightarrow>
     isRecord agent \<and>
     (let labels = jfield agent (js ''labels'') in isRecord labels \<and> jfield labels EXTERNAL_LABEL = JStr (js ''true''))"

definition add_plane :: "jsval \<Rightarrow> jstring list \<Rightarrow> jstring list" where
  "add_plane cap planes =
     (case cap of
        JStr s \<Rightarrow>
          if \<not> starts_with s PLANE_CAPABILITY_PREFIX then planes
          else let name = drop (length PLANE_CAPABILITY_PREFIX) s
               in if name \<in> set CHECK_TYPES then jadd name planes else planes
      | _ \<Rightarrow> planes)"

definition agentPlanes :: "jsval \<Rightarrow> jstring list option" where
  "agentPlanes agent =
     (if \<not> isRecord agent then None
      else case jfield agent (js ''capabilities'') of
             JArr caps \<Rightarrow> (let planes = fold add_plane caps [] in if planes = [] then None else Some planes)
           | _ \<Rightarrow> None)"

definition runsPlane :: "jsval \<Rightarrow> jstring \<Rightarrow> bool" where
  "runsPlane agent plane = (case agentPlanes agent of None \<Rightarrow> True | Some planes \<Rightarrow> plane \<in> set planes)"

text \<open>A map keeps the order of insertion: the first agent that claims a name.\<close>

fun add_external :: "jsval \<Rightarrow> (jstring \<times> jsval) list \<Rightarrow> (jstring \<times> jsval) list" where
  "add_external agent out =
     (if \<not> isExternalAgent agent then out
      else case jfield agent (js ''nodeName'') of
             JStr name \<Rightarrow> if name = [] \<or> map_of out name \<noteq> None then out else out @ [(name, agent)]
           | _ \<Rightarrow> out)"

definition agents_of :: "jsval \<Rightarrow> jsval list" where
  "agents_of topo = (if isRecord topo then case jfield topo (js ''agents'') of JArr xs \<Rightarrow> xs | _ \<Rightarrow> [] else [])"

definition externalByNode :: "jsval \<Rightarrow> (jstring \<times> jsval) list" where
  "externalByNode topo = fold add_external (agents_of topo) []"

definition add_source :: "jsval \<Rightarrow> jstring list \<Rightarrow> jstring list" where
  "add_source cell sources =
     (if isRecord cell then case jfield cell (js ''source'') of JStr s \<Rightarrow> jadd s sources | _ \<Rightarrow> sources else sources)"

definition unscrapedExternalNodes :: "jsval \<Rightarrow> jsval \<Rightarrow> jstring \<Rightarrow> jstring list" where
  "unscrapedExternalNodes topo matrix plane =
     (case (if isRecord matrix then jfield matrix (js ''cells'') else JUndef) of
        JArr cells \<Rightarrow>
          if cells = [] then []
          else let external = externalByNode topo
          in if external = [] then []
             else let sources = fold add_source cells []
             in map fst (filter (\<lambda>(name, agent). runsPlane agent plane \<and> name \<notin> set sources) external)
      | _ \<Rightarrow> [])"

subsection \<open>The readers\<close>

lemma fold_jadd_set:
  assumes "\<And>x acc. set (f x acc) = set acc \<union> g x"
  shows "set (fold f xs acc) = set acc \<union> (\<Union>x\<in>set xs. g x)"
  by (induction xs arbitrary: acc) (auto simp: assms)

definition plane_names :: "jsval \<Rightarrow> jstring set" where
  "plane_names cap = {p \<in> set CHECK_TYPES. cap = JStr (PLANE_CAPABILITY_PREFIX @ p)}"

lemma starts_with_split: "starts_with s p \<longleftrightarrow> s = p @ drop (length p) s"
  by (auto simp: starts_with_def) (metis append_take_drop_id, metis append_eq_conv_conj)

lemma set_add_plane: "set (add_plane cap planes) = set planes \<union> plane_names cap"
proof (cases cap)
  case (JStr s)
  have "plane_names cap = (if starts_with s PLANE_CAPABILITY_PREFIX \<and> drop (length PLANE_CAPABILITY_PREFIX) s \<in> set CHECK_TYPES
      then {drop (length PLANE_CAPABILITY_PREFIX) s} else {})"
    using starts_with_split [of s PLANE_CAPABILITY_PREFIX] by (auto simp: plane_names_def JStr)
  then show ?thesis by (auto simp: add_plane_def JStr Let_def)
qed (auto simp: add_plane_def plane_names_def)

text \<open>The fail-open rule: an agent without a readable plane runs all of them, any other those it names.\<close>

lemma runsPlane_iff:
  "runsPlane agent plane \<longleftrightarrow>
    (\<forall>caps. isRecord agent \<and> jfield agent (js ''capabilities'') = JArr caps \<longrightarrow>
       (\<Union>c\<in>set caps. plane_names c) = {} \<or> plane \<in> (\<Union>c\<in>set caps. plane_names c))"
proof (cases "\<exists>caps. isRecord agent \<and> jfield agent (js ''capabilities'') = JArr caps")
  case True
  then obtain caps where c: "isRecord agent" "jfield agent (js ''capabilities'') = JArr caps" by blast
  have s: "set (fold add_plane caps []) = (\<Union>c\<in>set caps. plane_names c)"
    using fold_jadd_set [of add_plane plane_names caps "[]", OF set_add_plane] by simp
  then have "fold add_plane caps [] = [] \<longleftrightarrow> (\<Union>c\<in>set caps. plane_names c) = {}" by (metis set_empty)
  with c s show ?thesis by (auto simp: runsPlane_def agentPlanes_def Let_def)
next
  case False
  then show ?thesis by (auto simp: runsPlane_def agentPlanes_def split: jsval.splits)
qed

definition external_name :: "jsval \<Rightarrow> jstring option" where
  "external_name agent =
     (if isExternalAgent agent then case jfield agent (js ''nodeName'') of JStr n \<Rightarrow> if n = [] then None else Some n | _ \<Rightarrow> None else None)"

lemma add_external_alt:
  "add_external agent out =
    (case external_name agent of None \<Rightarrow> out | Some n \<Rightarrow> if map_of out n = None then out @ [(n, agent)] else out)"
  by (auto simp: external_name_def split: jsval.splits)

lemma externals_map_of:
  "map_of (fold add_external agents out) name =
    (case map_of out name of Some a \<Rightarrow> Some a | None \<Rightarrow> find (\<lambda>a. external_name a = Some name) agents)"
proof (induction agents arbitrary: out)
  case Nil
  then show ?case by (simp split: option.split)
next
  case (Cons a as)
  have "map_of (add_external a out) name =
      (case map_of out name of Some b \<Rightarrow> Some b | None \<Rightarrow> if external_name a = Some name then Some a else None)"
    unfolding add_external_alt by (auto split: option.split simp: map_add_def)
  then show ?case by (auto simp: Cons simp del: add_external.simps split: option.split)
qed

lemma externals_distinct: "distinct (map fst out) \<Longrightarrow> distinct (map fst (fold add_external agents out))"
proof (induction agents arbitrary: out)
  case (Cons a as)
  have "distinct (map fst (add_external a out))"
    unfolding add_external_alt using Cons.prems by (auto split: option.split simp: map_of_eq_None_iff)
  with Cons.IH show ?case by (simp del: add_external.simps)
qed simp

lemma externalByNode_first: "map_of (externalByNode topo) name = find (\<lambda>a. external_name a = Some name) (agents_of topo)"
  by (simp add: externalByNode_def externals_map_of del: add_external.simps)

subsection \<open>Properties\<close>

text \<open>
  A name is listed as unscraped exactly when the matrix has cells but none of them
  has the name as its source, and the first external agent that registered under the name runs the
  plane; no name is listed twice.
\<close>

lemma unscraped_exact:
  "distinct (unscrapedExternalNodes topo matrix plane) \<and>
   (name \<in> set (unscrapedExternalNodes topo matrix plane) \<longleftrightarrow>
     (\<exists>cells agent. isRecord matrix \<and> jfield matrix (js ''cells'') = JArr cells \<and> cells \<noteq> [] \<and>
        find (\<lambda>a. external_name a = Some name) (agents_of topo) = Some agent \<and> runsPlane agent plane \<and>
        (\<nexists>cell. cell \<in> set cells \<and> isRecord cell \<and> jfield cell (js ''source'') = JStr name)))"
proof (cases "\<exists>cells. isRecord matrix \<and> jfield matrix (js ''cells'') = JArr cells \<and> cells \<noteq> []")
  case False
  then have "unscrapedExternalNodes topo matrix plane = []"
    by (auto simp: unscrapedExternalNodes_def split: jsval.splits if_splits)
  with False show ?thesis by auto
next
  case True
  then obtain cells where c: "isRecord matrix" "jfield matrix (js ''cells'') = JArr cells" "cells \<noteq> []" by blast
  let ?sources = "fold add_source cells []"
  have src: "set ?sources = (\<Union>x\<in>set cells. {s. isRecord x \<and> jfield x (js ''source'') = JStr s})"
    by (subst fold_jadd_set [where g = "\<lambda>x. {s. isRecord x \<and> jfield x (js ''source'') = JStr s}"])
      (auto simp: add_source_def split: jsval.splits)
  have u: "unscrapedExternalNodes topo matrix plane =
      map fst (filter (\<lambda>(n, a). runsPlane a plane \<and> n \<notin> set ?sources) (externalByNode topo))"
    using c by (simp add: unscrapedExternalNodes_def Let_def)
  have d: "distinct (map fst (externalByNode topo))" unfolding externalByNode_def by (rule externals_distinct) simp
  then have "distinct (unscrapedExternalNodes topo matrix plane)" unfolding u by (simp add: distinct_map_filter)
  moreover have "name \<in> set (unscrapedExternalNodes topo matrix plane) \<longleftrightarrow>
      (\<exists>a. map_of (externalByNode topo) name = Some a \<and> runsPlane a plane \<and> name \<notin> set ?sources)"
    unfolding u using d by (auto simp: image_iff)
  ultimately show ?thesis using c unfolding src externalByNode_first by auto
qed

end
