(* ===== verification/Console_Hooks.thy ===== *)
theory Console_Hooks
  imports Ws_Multiplex Time_Machine
begin

section \<open>Shared hooks and module state (hooks/, lib/location.ts)\<close>

text \<open>
  The small pieces of state the pages share: the subscription to the browser's location
  (\<open>lib/location.ts\<close>), the guard of a form's submit (\<open>hooks/use-submit-guard.ts\<close>), the two-press
  confirmation (\<open>hooks/use-confirm-step.ts\<close>), the latest value of a WebSocket topic
  (\<open>hooks/use-ws-topic.ts\<close>), what the matrix and topology hooks poll (\<open>hooks/use-matrix.ts\<close>,
  \<open>hooks/use-topology.ts\<close>), and the readers of capabilities, permissions, names and passwords. Each
  is a record and one function per callback or effect; the runs are reachable states.

  The lemmas show that a navigation calls every subscriber once, that a submit is never entered
  twice, that a topic's value never shows under another topic, and that a refused topic is polled.
\<close>

subsection \<open>Navigation without a page load\<close>

text \<open>A history method: the browser's, or the wrapper \<open>install\<close> puts around one.\<close>

datatype history_fn = Native | Notifying history_fn

record location_module =
  lo_listeners :: "nat list"
  lo_installed :: "(history_fn \<times> history_fn) option"
  lo_pushState :: history_fn
  lo_replaceState :: history_fn
  lo_popstate :: bool
  lo_calls :: "nat list"

definition notify_location :: "location_module \<Rightarrow> location_module" where
  "notify_location s = s\<lparr>lo_calls := lo_calls s @ lo_listeners s\<rparr>"

fun run_history :: "history_fn \<Rightarrow> location_module \<Rightarrow> location_module" where
  "run_history Native s = s"
| "run_history (Notifying f) s = notify_location (run_history f s)"

definition install_location :: "location_module \<Rightarrow> location_module" where
  "install_location s =
     (if lo_installed s \<noteq> None then s
      else s\<lparr>lo_installed := Some (lo_pushState s, lo_replaceState s),
             lo_pushState := Notifying (lo_pushState s), lo_replaceState := Notifying (lo_replaceState s), lo_popstate := True\<rparr>)"

definition uninstall_location :: "location_module \<Rightarrow> location_module" where
  "uninstall_location s =
     (case lo_installed s of
        None \<Rightarrow> s
      | Some (push, rep) \<Rightarrow> s\<lparr>lo_pushState := push, lo_replaceState := rep, lo_popstate := False, lo_installed := None\<rparr>)"

definition subscribeToLocation :: "nat \<Rightarrow> location_module \<Rightarrow> location_module" where
  "subscribeToLocation l s = install_location (s\<lparr>lo_listeners := jadd l (lo_listeners s)\<rparr>)"

text \<open>The closure \<open>subscribeToLocation\<close> returns.\<close>

definition unsubscribe_location :: "nat \<Rightarrow> location_module \<Rightarrow> location_module" where
  "unsubscribe_location l s =
     (let s' = s\<lparr>lo_listeners := filter (\<lambda>x. x \<noteq> l) (lo_listeners s)\<rparr>
      in if lo_listeners s' = [] then uninstall_location s' else s')"

datatype navigation = Push_state | Replace_state | Pop_state

definition navigate_to :: "navigation \<Rightarrow> location_module \<Rightarrow> location_module" where
  "navigate_to nav s =
     (case nav of
        Push_state \<Rightarrow> run_history (lo_pushState s) s
      | Replace_state \<Rightarrow> run_history (lo_replaceState s) s
      | Pop_state \<Rightarrow> if lo_popstate s then notify_location s else s)"

definition fresh_location :: location_module where
  "fresh_location = \<lparr>lo_listeners = [], lo_installed = None, lo_pushState = Native, lo_replaceState = Native,
     lo_popstate = False, lo_calls = []\<rparr>"

inductive location_reach :: "location_module \<Rightarrow> bool" where
  fresh: "location_reach fresh_location"
| subscribed: "location_reach s \<Longrightarrow> location_reach (subscribeToLocation l s)"
| unsubscribed: "location_reach s \<Longrightarrow> location_reach (unsubscribe_location l s)"
| navigated: "location_reach s \<Longrightarrow> location_reach (navigate_to nav s)"

definition location_inv :: "location_module \<Rightarrow> bool" where
  "location_inv s \<longleftrightarrow>
     distinct (lo_listeners s) \<and>
     (if lo_listeners s = []
      then lo_installed s = None \<and> lo_pushState s = Native \<and> lo_replaceState s = Native \<and> \<not> lo_popstate s
      else lo_installed s = Some (Native, Native) \<and> lo_pushState s = Notifying Native \<and> lo_replaceState s = Notifying Native \<and> lo_popstate s)"

lemma location_inv_subscribe: "location_inv s \<Longrightarrow> location_inv (subscribeToLocation l s)"
  by (auto simp: location_inv_def subscribeToLocation_def install_location_def jadd_def split: if_splits)

lemma location_inv_unsubscribe:
  assumes "location_inv s"
  shows "location_inv (unsubscribe_location l s)"
proof (cases "filter (\<lambda>x. x \<noteq> l) (lo_listeners s) = []")
  case True
  then show ?thesis using assms
    by (cases "lo_listeners s = []") (simp_all add: location_inv_def unsubscribe_location_def uninstall_location_def Let_def)
next
  case False
  then have "lo_listeners s \<noteq> []" by auto
  with False assms show ?thesis by (simp add: location_inv_def unsubscribe_location_def Let_def)
qed

lemma location_inv_navigate:
  assumes "location_inv s"
  shows "location_inv (navigate_to nav s) \<and> lo_calls (navigate_to nav s) = lo_calls s @ lo_listeners s"
  using assms by (cases nav; cases "lo_listeners s = []") (simp_all add: location_inv_def navigate_to_def notify_location_def)

lemma location_inv_reach: "location_reach s \<Longrightarrow> location_inv s"
proof (induction rule: location_reach.induct)
  case fresh
  show ?case by (simp add: location_inv_def fresh_location_def)
qed (simp_all add: location_inv_subscribe location_inv_unsubscribe location_inv_navigate)

subsection \<open>The submit guard\<close>

record submit_guard =
  sg_inFlight :: bool
  sg_submitting :: bool

definition guard_begin :: "submit_guard \<Rightarrow> bool \<times> submit_guard" where
  "guard_begin g = (if sg_inFlight g then (False, g) else (True, \<lparr>sg_inFlight = True, sg_submitting = True\<rparr>))"

definition guard_end :: "submit_guard \<Rightarrow> submit_guard" where
  "guard_end g = \<lparr>sg_inFlight = False, sg_submitting = False\<rparr>"

text \<open>A run of presses (\<open>True\<close>) and releases (\<open>False\<close>), and how often a press got through.\<close>

fun guard_run :: "bool list \<Rightarrow> submit_guard \<Rightarrow> nat" where
  "guard_run [] g = 0"
| "guard_run (press # ops) g =
     (if press then (if fst (guard_begin g) then 1 else 0) + guard_run ops (snd (guard_begin g)) else guard_run ops (guard_end g))"

lemma guard_once: "guard_run ops g \<le> length (filter Not ops) + (if sg_inFlight g then 0 else 1)"
proof (induction ops arbitrary: g)
  case (Cons press ops)
  show ?case
  proof (cases press)
    case True
    with Cons [of "snd (guard_begin g)"] show ?thesis by (simp add: guard_begin_def split: if_splits)
  next
    case False
    with Cons [of "guard_end g"] show ?thesis by (simp add: guard_end_def)
  qed
qed simp

subsection \<open>The two-press confirmation\<close>

datatype focus_move = Stay | To_confirm | To_trigger

text \<open>
  \<open>cs_confirming\<close> is the key of the row that asks (the plain hook has one key), \<open>cs_focus\<close> the
  controls the layout effect focused.
\<close>

record confirm_step =
  cs_confirming :: "jstring option"
  cs_moving :: focus_move
  cs_focus :: "focus_move list"

definition confirm_effect :: "confirm_step \<Rightarrow> confirm_step" where
  "confirm_effect s =
     s\<lparr>cs_focus := cs_focus s @ (if cs_moving s = Stay then [] else [cs_moving s]), cs_moving := Stay\<rparr>"

text \<open>Setting a state to the value it has renders nothing, so the effect does not run.\<close>

definition set_confirming :: "jstring option \<Rightarrow> confirm_step \<Rightarrow> confirm_step" where
  "set_confirming v s = (if cs_confirming s = v then s else confirm_effect (s\<lparr>cs_confirming := v\<rparr>))"

definition confirm_ask :: "jstring \<Rightarrow> confirm_step \<Rightarrow> confirm_step" where
  "confirm_ask key s = set_confirming (Some key) (s\<lparr>cs_moving := To_confirm\<rparr>)"

definition confirm_reset :: "confirm_step \<Rightarrow> confirm_step" where
  "confirm_reset s = set_confirming None (s\<lparr>cs_moving := To_trigger\<rparr>)"

lemma confirm_focus:
  "cs_confirming s \<noteq> Some key \<Longrightarrow> cs_focus (confirm_ask key s) = cs_focus s @ [To_confirm] \<and> cs_confirming (confirm_ask key s) = Some key"
  "cs_confirming s \<noteq> None \<Longrightarrow> cs_focus (confirm_reset s) = cs_focus s @ [To_trigger] \<and> cs_confirming (confirm_reset s) = None"
  by (simp_all add: confirm_ask_def confirm_reset_def set_confirming_def confirm_effect_def)

subsection \<open>The latest value of a topic\<close>

record topic_value =
  tv_topic :: jstring
  tv_data :: "jsval option"
  tv_seq :: jsnum

text \<open>
  \<open>th_topic\<close> and \<open>th_enabled\<close> are the arguments of the latest render, \<open>th_sub\<close> the topic the mounted
  effect subscribed, \<open>th_arrived\<close> the values handed to its handler.
\<close>

record topic_hook =
  th_topic :: jstring
  th_enabled :: bool
  th_value :: topic_value
  th_connected :: bool
  th_settled :: bool
  th_sub :: "jstring option"
  th_arrived :: "(jstring \<times> jsval) list"

definition blank_value :: "jstring \<Rightarrow> topic_value" where
  "blank_value topic = \<lparr>tv_topic = topic, tv_data = None, tv_seq = Fin 0\<rparr>"

definition topic_mount :: "jstring \<Rightarrow> bool \<Rightarrow> topic_hook" where
  "topic_mount topic enabled =
     \<lparr>th_topic = topic, th_enabled = enabled, th_value = blank_value topic, th_connected = False, th_settled = False,
      th_sub = None, th_arrived = []\<rparr>"

text \<open>The effect of a render: \<open>before\<close> and \<open>after\<close> are the client's state around \<open>subscribe\<close>.\<close>

definition topic_effect :: "ws_state \<Rightarrow> ws_state \<Rightarrow> topic_hook \<Rightarrow> topic_hook" where
  "topic_effect before after h =
     (if \<not> th_enabled h then h\<lparr>th_sub := None, th_connected := False, th_value := blank_value (th_topic h)\<rparr>
      else h\<lparr>th_sub := Some (th_topic h), th_connected := before = Open, th_settled := after \<noteq> Connecting\<rparr>)"

definition topic_render :: "jstring \<Rightarrow> bool \<Rightarrow> topic_hook \<Rightarrow> topic_hook" where
  "topic_render topic enabled h = h\<lparr>th_topic := topic, th_enabled := enabled\<rparr>"

definition topic_state :: "ws_state \<Rightarrow> topic_hook \<Rightarrow> topic_hook" where
  "topic_state s h = h\<lparr>th_connected := s = Open, th_settled := th_settled h \<or> s \<noteq> Connecting\<rparr>"

definition topic_envelope :: "jstring \<Rightarrow> envelope \<Rightarrow> topic_hook \<Rightarrow> topic_hook" where
  "topic_envelope topic env h =
     (if env_kind env = KError then h\<lparr>th_connected := False\<rparr>
      else h\<lparr>th_value := \<lparr>tv_topic = topic, tv_data = Some (env_data env), tv_seq = (case env_seq env of Some q \<Rightarrow> q | None \<Rightarrow> NaN)\<rparr>,
             th_arrived := th_arrived h @ [(topic, env_data env)]\<rparr>)"

definition useWsTopic_data :: "topic_hook \<Rightarrow> jsval option" where
  "useWsTopic_data h = (if tv_topic (th_value h) = th_topic h then tv_data (th_value h) else None)"

definition useWsTopic_connecting :: "topic_hook \<Rightarrow> bool" where
  "useWsTopic_connecting h \<longleftrightarrow> th_enabled h \<and> \<not> th_settled h"

definition useWsTopic_lastSeq :: "topic_hook \<Rightarrow> jsnum" where
  "useWsTopic_lastSeq h = (if tv_topic (th_value h) = th_topic h then tv_seq (th_value h) else Fin 0)"

inductive topic_reach :: "topic_hook \<Rightarrow> bool" where
  mounted: "topic_reach (topic_mount topic enabled)"
| rendered: "topic_reach h \<Longrightarrow> topic_reach (topic_render topic enabled h)"
| effect: "topic_reach h \<Longrightarrow> topic_reach (topic_effect before after h)"
| state: "topic_reach h \<Longrightarrow> th_sub h \<noteq> None \<Longrightarrow> topic_reach (topic_state s h)"
| envelope: "topic_reach h \<Longrightarrow> th_sub h = Some topic \<Longrightarrow> topic_reach (topic_envelope topic env h)"

lemma topic_value_arrived:
  assumes "topic_reach h" "tv_data (th_value h) = Some d"
  shows "(tv_topic (th_value h), d) \<in> set (th_arrived h)"
  using assms
proof (induction arbitrary: d rule: topic_reach.induct)
  case (mounted topic enabled)
  then show ?case by (simp add: topic_mount_def blank_value_def)
next
  case (rendered h topic enabled)
  then show ?case by (simp add: topic_render_def)
next
  case (effect h before after)
  then show ?case by (simp add: topic_effect_def blank_value_def split: if_splits)
next
  case (state h s)
  then show ?case by (simp add: topic_state_def)
next
  case (envelope h topic env)
  then show ?case by (simp add: topic_envelope_def split: if_splits)
qed

subsection \<open>The matrix and the topology\<close>

definition MATRIX_POLL_MS :: nat where
  "MATRIX_POLL_MS = 15000"

definition TOPOLOGY_POLL_MS :: nat where
  "TOPOLOGY_POLL_MS = 15000"

definition matrixTopic :: "jstring \<Rightarrow> jstring" where
  "matrixTopic protocol = js ''matrix:'' @ protocol @ js '':pod''"

definition matrix_live :: "bool \<Rightarrow> date option \<Rightarrow> topic_hook \<Rightarrow> bool" where
  "matrix_live realtime at_d push \<longleftrightarrow> realtime \<and> at_d = None \<and> th_connected push"

definition matrix_connecting :: "bool \<Rightarrow> bool \<Rightarrow> date option \<Rightarrow> topic_hook \<Rightarrow> bool" where
  "matrix_connecting realtime resolved at_d push \<longleftrightarrow> at_d = None \<and> (\<not> resolved \<or> realtime \<and> useWsTopic_connecting push)"

text \<open>The pushed matrix the effect writes over the cached one, if any.\<close>

definition matrix_pushed :: "bool \<Rightarrow> date option \<Rightarrow> jstring \<Rightarrow> topic_hook \<Rightarrow> jsval option" where
  "matrix_pushed realtime at_d protocol push =
     (case useWsTopic_data push of
        Some m \<Rightarrow> if realtime \<and> at_d = None \<and> jfield m (js ''protocol'') = JStr protocol then Some m else None
      | None \<Rightarrow> None)"

definition matrix_key :: "(date \<Rightarrow> jstring) \<Rightarrow> jstring \<Rightarrow> date option \<Rightarrow> jstring list" where
  "matrix_key toISO protocol at_d =
     [js ''matrix'', protocol, js ''pod''] @ (case at_d of Some d \<Rightarrow> [js ''at'', formatAtParam toISO d] | None \<Rightarrow> [])"

definition matrix_interval :: "bool \<Rightarrow> date option \<Rightarrow> topic_hook \<Rightarrow> nat option" where
  "matrix_interval realtime at_d push =
     (if at_d \<noteq> None \<or> matrix_live realtime at_d push then None else Some MATRIX_POLL_MS)"

definition topology_interval :: "date option \<Rightarrow> nat option" where
  "topology_interval at_d = (if at_d \<noteq> None then None else Some TOPOLOGY_POLL_MS)"

text \<open>A live grid whose topic was refused, or whose socket is not open, is polled.\<close>

lemma refused_topic_polled:
  "env_kind env = KError \<Longrightarrow> matrix_interval realtime None (topic_envelope topic env h) = Some MATRIX_POLL_MS"
  "s \<noteq> Open \<Longrightarrow> matrix_interval realtime None (topic_state s h) = Some MATRIX_POLL_MS"
  by (simp_all add: matrix_interval_def matrix_live_def topic_envelope_def topic_state_def)

subsection \<open>Capabilities, permissions, names and passwords\<close>

definition array_has :: "jsval \<Rightarrow> jstring \<Rightarrow> bool" where
  "array_has v s = (case v of JArr xs \<Rightarrow> JStr s \<in> set xs | _ \<Rightarrow> False)"

definition realtime_capability :: "jsval \<Rightarrow> bool" where
  "realtime_capability version \<longleftrightarrow> array_has (jfield version (js ''capabilities'')) (js ''events'')"

definition useAuth_can :: "jsval \<Rightarrow> jstring \<Rightarrow> bool" where
  "useAuth_can me p \<longleftrightarrow> array_has (jfield me (js ''permissions'')) p"

definition useAuth_isAnonymous :: "jsval \<Rightarrow> bool" where
  "useAuth_isAnonymous me \<longleftrightarrow> jfield (jfield me (js ''subject'')) (js ''kind'') = JStr (js ''anonymous'')"

definition compareNaturalName :: "(jstring \<Rightarrow> jstring \<Rightarrow> jsnum) \<Rightarrow> jstring \<Rightarrow> jstring \<Rightarrow> jsnum" where
  "compareNaturalName collate a b =
     (let byName = collate a b
      in if byName \<noteq> Fin 0 then byName else if a < b then Fin (- 1) else if b < a then Fin 1 else Fin 0)"

lemma compareNaturalName_zero: "compareNaturalName collate a b = Fin 0 \<Longrightarrow> a = b"
  by (auto simp: compareNaturalName_def Let_def split: if_splits)

definition MIN_PASSWORD_CHARS :: nat where
  "MIN_PASSWORD_CHARS = 12"

text \<open>\<open>[...s].length\<close>: a surrogate pair is one character.\<close>

fun code_points :: "jstring \<Rightarrow> nat" where
  "code_points [] = 0"
| "code_points [c] = 1"
| "code_points (c # d # s) =
     (if 55296 \<le> c \<and> c \<le> 56319 \<and> 56320 \<le> d \<and> d \<le> 57343 then Suc (code_points s) else Suc (code_points (d # s)))"

definition passwordTooShort :: "jstring \<Rightarrow> bool" where
  "passwordTooShort password \<longleftrightarrow> code_points password < MIN_PASSWORD_CHARS"

definition USERNAME_PATTERN :: "jstring \<Rightarrow> bool" where
  "USERNAME_PATTERN s \<longleftrightarrow> 1 \<le> length s \<and> length s \<le> 64 \<and>
     list_all (\<lambda>c. 65 \<le> c \<and> c \<le> 90 \<or> 97 \<le> c \<and> c \<le> 122 \<or> 48 \<le> c \<and> c \<le> 57 \<or> c \<in> {46, 95, 64, 45}) s"

lemma code_points_bounds: "code_points s \<le> length s \<and> length s \<le> 2 * code_points s"
  by (induction s rule: code_points.induct) auto

subsection \<open>Properties\<close>

text \<open>
  In every reachable state of the location module each navigation, pushed,
  replaced or popped, calls every subscriber exactly once and in the order they subscribed, and the
  browser's history methods are wrapped, once, exactly while somebody is subscribed.
\<close>

lemma location_notifies_once:
  assumes "location_reach s"
  shows "lo_calls (navigate_to nav s) = lo_calls s @ lo_listeners s \<and> distinct (lo_listeners s) \<and>
    lo_pushState s = (if lo_listeners s = [] then Native else Notifying Native) \<and>
    lo_replaceState s = (if lo_listeners s = [] then Native else Notifying Native) \<and>
    lo_popstate s = (lo_listeners s \<noteq> [])"
proof -
  have inv: "location_inv s" using assms by (rule location_inv_reach)
  then show ?thesis using location_inv_navigate [OF inv, of nav]
    by (cases "lo_listeners s = []") (simp_all add: location_inv_def)
qed

text \<open>
  In every reachable state of the topic hook a value it shows was handed to
  its handler on the topic the latest render asked for, whatever topic it showed before; once its
  effect has run disabled it shows none.
\<close>

lemma topic_shows_own_data:
  assumes "topic_reach h"
  shows "(case useWsTopic_data h of Some d \<Rightarrow> (th_topic h, d) \<in> set (th_arrived h) | None \<Rightarrow> True) \<and>
    useWsTopic_data (topic_effect before after (topic_render topic False h)) = None"
proof -
  have "(th_topic h, d) \<in> set (th_arrived h)" if "useWsTopic_data h = Some d" for d
    using that topic_value_arrived [OF assms, of d] by (simp add: useWsTopic_data_def split: if_splits)
  then show ?thesis
    by (simp add: useWsTopic_data_def topic_effect_def topic_render_def blank_value_def split: option.split)
qed

definition demo_frame :: envelope where
  "demo_frame = \<lparr>env_topic = js ''topology'', env_kind = KSnapshot, env_seq = Some (Fin 1), env_epoch = [], env_data = JNull\<rparr>"

end
