(* ===== verification/Sign_In.thy ===== *)
theory Sign_In
  imports Js_Prelude
begin

section \<open>The sign-in page's destination (pages/login.tsx)\<close>

text \<open>
  Where the browser goes after a sign-in. \<open>resolve\<close> is \<open>new URL(raw, window.location.origin)\<close>, \<open>None\<close>
  when it throws; what is assumed of it is what the URL standard says of the references named. The
  function is meant to answer with a place on this origin. The lemmas show that it does unless the
  resolved path begins with two slashes, and that it then hands that path on, which the browser reads
  as the name of another host.
\<close>

record url =
  url_origin :: jstring
  url_pathname :: jstring
  url_search :: jstring
  url_hash :: jstring

definition LOGIN_PAGE :: jstring where
  "LOGIN_PAGE = js ''/login''"

definition currentReturnTo :: "(jstring \<Rightarrow> url option) \<Rightarrow> jstring \<Rightarrow> jstring option \<Rightarrow> jstring" where
  "currentReturnTo resolve origin param =
     (case param of
        None \<Rightarrow> js ''/''
      | Some raw \<Rightarrow>
          (case resolve raw of
             None \<Rightarrow> js ''/''
           | Some u \<Rightarrow>
               if url_origin u \<noteq> origin then js ''/''
               else if url_pathname u = LOGIN_PAGE then js ''/''
               else url_pathname u @ url_search u @ url_hash u))"

text \<open>A candidate of another origin, or one that does not parse, is answered with the root.\<close>

lemma currentReturnTo_refuses:
  "\<forall>u. resolve raw = Some u \<longrightarrow> url_origin u \<noteq> origin \<Longrightarrow> currentReturnTo resolve origin (Some raw) = js ''/''"
  by (auto simp: currentReturnTo_def split: option.split)

text \<open>
  The target lands on the origin when the standard's rule for a reference of one slash applies to
  it: the path of a URL begins with a slash, and a reference that begins with exactly one stays.
\<close>

lemma currentReturnTo_stays:
  assumes path: "\<And>u. resolve raw = Some u \<Longrightarrow> \<exists>p. url_pathname u = 47 # p \<and> \<not> starts_with p [47]"
    and one: "\<And>s. \<not> starts_with s [47] \<Longrightarrow> \<exists>u. resolve (47 # s) = Some u \<and> url_origin u = origin"
    and next_part: "\<And>u. resolve raw = Some u \<Longrightarrow> \<not> starts_with (url_search u @ url_hash u) [47]"
  shows "\<exists>u. resolve (currentReturnTo resolve origin (Some raw)) = Some u \<and> url_origin u = origin"
proof -
  have root: "\<exists>u. resolve (js ''/'') = Some u \<and> url_origin u = origin"
    using one [of "[]"] by (simp add: js_Cons starts_with_def)
  show ?thesis
  proof (cases "resolve raw")
    case None
    with root show ?thesis by (simp add: currentReturnTo_def)
  next
    case (Some u)
    obtain p where p: "url_pathname u = 47 # p" "\<not> starts_with p [47]" using path [OF Some] by blast
    have "\<not> starts_with (p @ url_search u @ url_hash u) [47]"
      using p(2) next_part [OF Some] by (cases p) (simp_all add: starts_with_def)
    from one [OF this] root Some p(1) show ?thesis by (simp add: currentReturnTo_def)
  qed
qed

subsection \<open>References without a scheme\<close>

text \<open>
  The standard's rules for a reference that begins with a slash: two slashes introduce a host, a path
  loses its single-dot segments and the segment before a double dot. No query or fragment here.
\<close>

fun path_segments :: "jstring list \<Rightarrow> jstring list \<Rightarrow> jstring list" where
  "path_segments out [] = out"
| "path_segments out [seg] =
     (if seg = js ''.'' then out @ [[]] else if seg = js ''..'' then butlast out @ [[]] else out @ [seg])"
| "path_segments out (seg # segs) =
     (if seg = js ''.'' then path_segments out segs
      else if seg = js ''..'' then path_segments (butlast out) segs
      else path_segments (out @ [seg]) segs)"

definition path_text :: "jstring list \<Rightarrow> jstring" where
  "path_text segs = concat (map (\<lambda>s. 47 # s) segs)"

definition slash_reference :: "jstring \<Rightarrow> jstring \<Rightarrow> url option" where
  "slash_reference origin raw =
     (case raw of
        c # d # s \<Rightarrow>
          if c \<noteq> 47 then None
          else if d = 47
          then Some \<lparr>url_origin = js ''https://'' @ hd (split_on 47 s),
                     url_pathname = (if tl (split_on 47 s) = [] then [47] else path_text (path_segments [] (tl (split_on 47 s)))),
                     url_search = [], url_hash = []\<rparr>
          else Some \<lparr>url_origin = origin, url_pathname = path_text (path_segments [] (split_on 47 (d # s))), url_search = [], url_hash = []\<rparr>
      | [c] \<Rightarrow> if c = 47 then Some \<lparr>url_origin = origin, url_pathname = [47], url_search = [], url_hash = []\<rparr> else None
      | [] \<Rightarrow> None)"

subsection \<open>Properties\<close>

text \<open>
  C22: The guarantee that the destination is on this origin does not hold. The
  URL standard drops the single-dot segment of a candidate \<open>/.//host\<close>, so that it resolves on this
  origin with a path of two slashes and the host; the page returns that path, and as a reference of its
  own it names the host.
\<close>

theorem returnTo_can_leave_origin:
  assumes dot: "resolve (js ''/.//'' @ host) = Some \<lparr>url_origin = origin, url_pathname = js ''//'' @ host, url_search = [], url_hash = []\<rparr>"
    and two: "resolve (js ''//'' @ host) = Some other" "url_origin other \<noteq> origin"
  shows "\<exists>raw u. resolve raw \<noteq> None \<and> resolve (currentReturnTo resolve origin (Some raw)) = Some u \<and> url_origin u \<noteq> origin"
proof -
  have "js ''//'' @ host \<noteq> LOGIN_PAGE" by (simp add: LOGIN_PAGE_def js_Cons)
  with dot have "currentReturnTo resolve origin (Some (js ''/.//'' @ host)) = js ''//'' @ host" by (simp add: currentReturnTo_def)
  with dot two show ?thesis by (metis option.distinct(1))
qed

theorem returnTo_can_leave_origin_witness:
  "\<exists>raw u. slash_reference (js ''https://console.example'') raw \<noteq> None \<and>
     slash_reference (js ''https://console.example'')
       (currentReturnTo (slash_reference (js ''https://console.example'')) (js ''https://console.example'') (Some raw)) = Some u \<and>
     url_origin u \<noteq> js ''https://console.example''"
proof -
  let ?resolve = "slash_reference (js ''https://console.example'')"
  have dot: "?resolve (js ''/.//'' @ js ''evil.com'') =
      Some \<lparr>url_origin = js ''https://console.example'', url_pathname = js ''//'' @ js ''evil.com'', url_search = [], url_hash = []\<rparr>"
    by (simp add: slash_reference_def path_text_def js_Cons)
  have two: "?resolve (js ''//'' @ js ''evil.com'') =
      Some \<lparr>url_origin = js ''https://evil.com'', url_pathname = [47], url_search = [], url_hash = []\<rparr>"
    by (simp add: slash_reference_def js_Cons)
  show ?thesis by (rule returnTo_can_leave_origin [OF dot two]) (simp add: js_Cons)
qed

end
