(* ===== verification/Alert_Builder.thy ===== *)
theory Alert_Builder
  imports Js_Prelude
begin

section \<open>The alert rule builder (pages/alerting.tsx)\<close>

text \<open>
  The grammar of the \<open>for\<close> box, and the way a stored rule becomes the builder's draft and a draft the
  body of a write. A form holds strings: \<open>num\<close> is \<open>Number\<close> of a string and \<open>num_str\<close> prints a number
  that is no integer. The captions and hints of the fields are left out, and a refused duration is the
  key of its sentence.

  The lemmas show that a printed duration reads back exactly when it is a whole number of
  milliseconds, that a parsed one is the sum of its terms within the bound, that opening a stored
  rule and saving it keeps its parameters, and that the refusal of repeated keys is what keeps every
  row of a label table.
\<close>

subsection \<open>Durations\<close>

definition DURATION_UNITS :: "(jstring \<times> nat) list" where
  "DURATION_UNITS =
     [(js ''y'', 365 * 24 * 3600 * 1000000000), (js ''w'', 7 * 24 * 3600 * 1000000000), (js ''d'', 24 * 3600 * 1000000000),
      (js ''h'', 3600 * 1000000000), (js ''m'', 60 * 1000000000), (js ''s'', 1000000000), (js ''ms'', 1000000)]"

text \<open>The literal 9223372036854775807 is the double next to it.\<close>

definition MAX_DURATION_NS :: nat where
  "MAX_DURATION_NS = 9223372036854775808"

datatype duration_refusal = Not_a_duration | No_unit jstring | Bad_unit jstring | Unit_order | Too_long

definition is_lower :: "jchar \<Rightarrow> bool" where
  "is_lower c \<longleftrightarrow> 97 \<le> c \<and> c \<le> 122"

fun find_index :: "('a \<Rightarrow> bool) \<Rightarrow> 'a list \<Rightarrow> nat option" where
  "find_index P [] = None"
| "find_index P (x # xs) = (if P x then Some 0 else map_option Suc (find_index P xs))"

lemma dropWhile_shorter: "takeWhile P s \<noteq> [] \<Longrightarrow> length (dropWhile Q (dropWhile P s)) < length s"
proof -
  assume "takeWhile P s \<noteq> []"
  then have "length (dropWhile P s) < length s" by (metis length_append length_greater_0_conv less_add_same_cancel2 takeWhile_dropWhile_id)
  then show ?thesis using length_dropWhile_le [of Q "dropWhile P s"] by simp
qed

text \<open>The loop of \<open>parsePromDuration\<close> on what is left of the text.\<close>

function duration_terms :: "int \<Rightarrow> nat \<Rightarrow> jstring \<Rightarrow> duration_refusal + nat" where
  "duration_terms lastUnit ns s =
     (if s = [] then Inr ns
      else if takeWhile is_digit s = [] then Inl Not_a_duration
      else if takeWhile is_lower (dropWhile is_digit s) = [] then Inl (No_unit (takeWhile is_digit s))
      else case find_index (\<lambda>(u, _). u = takeWhile is_lower (dropWhile is_digit s)) DURATION_UNITS of
             None \<Rightarrow> Inl (Bad_unit (takeWhile is_lower (dropWhile is_digit s)))
           | Some k \<Rightarrow>
               if int k \<le> lastUnit then Inl Unit_order
               else duration_terms (int k) (ns + digits_value (takeWhile is_digit s) * snd (DURATION_UNITS ! k))
                      (dropWhile is_lower (dropWhile is_digit s)))"
  by pat_completeness auto

termination by (relation "measure (\<lambda>(l, n, s). length s)") (simp_all add: dropWhile_shorter)

declare duration_terms.simps [simp del]

definition parsePromDuration :: "jstring \<Rightarrow> duration_refusal + nat" where
  "parsePromDuration text =
     (let s = trim text
      in if s = [] then Inr 0
         else case duration_terms (- 1) 0 s of
                Inl e \<Rightarrow> Inl e
              | Inr ns \<Rightarrow> if MAX_DURATION_NS < ns then Inl Too_long else Inr ns)"

definition EM_DASH :: jstring where
  "EM_DASH = [8212]"

definition FORMAT_UNITS :: "(jstring \<times> nat) list" where
  "FORMAT_UNITS = map (\<lambda>u. (js u, case map_of DURATION_UNITS (js u) of Some n \<Rightarrow> n | None \<Rightarrow> 0)) [''d'', ''h'', ''m'', ''s'', ''ms'']"

definition formatPromDuration :: "(jsnum \<Rightarrow> jstring) \<Rightarrow> jsnum \<Rightarrow> jstring" where
  "formatPromDuration num_str ns =
     (if \<not> is_finite ns then EM_DASH
      else if ns = Fin 0 then js ''0s''
      else if ns < Fin 0 then show_num num_str ns @ js ''ns''
      else case find (\<lambda>(u, width). 0 < width \<and> jmod ns (jnat width) = Fin 0) FORMAT_UNITS of
             Some (u, width) \<Rightarrow> show_num num_str (ns / jnat width) @ u
           | None \<Rightarrow> show_num num_str ns @ js ''ns'')"

subsection \<open>The parameters of a kind\<close>

datatype param_type = p_number | p_text | p_expr | p_enum | p_target

record ParamField =
  pf_key :: jstring
  pf_type :: param_type
  pf_required :: bool
  pf_options :: "jstring list"
  pf_numeric :: bool

definition param :: "string \<Rightarrow> param_type \<Rightarrow> bool \<Rightarrow> ParamField" where
  "param key ty required = \<lparr>pf_key = js key, pf_type = ty, pf_required = required, pf_options = [], pf_numeric = False\<rparr>"

definition protocol_param :: ParamField where
  "protocol_param = (param ''protocol'' p_enum True)\<lparr>pf_options := map js [''tcp'', ''udp'', ''icmp'']\<rparr>"

definition KIND_PARAMS :: "(jstring \<times> ParamField list) list" where
  "KIND_PARAMS =
    [(js ''pair-loss'', [protocol_param, param ''thresholdPercent'' p_number True,
        param ''scope.sourceNode'' p_text False, param ''scope.destNode'' p_text False]),
     (js ''zone-latency'', [protocol_param,
        (param ''quantile'' p_enum True)\<lparr>pf_numeric := True, pf_options := map js [''0.5'', ''0.95'', ''0.99'']\<rparr>,
        param ''thresholdMs'' p_number True, param ''sourceZone'' p_text False, param ''destZone'' p_text False]),
     (js ''dns-failures'', [param ''thresholdPercent'' p_number True]),
     (js ''http-ttfb'', [param ''thresholdMs'' p_number True, param ''url'' p_text False]),
     (js ''agent-missing'', []),
     (js ''external-target-down'', [param ''targetName'' p_target False]),
     (js ''raw'', [param ''expr'' p_expr True])]"

definition paramFieldsFor :: "jstring \<Rightarrow> ParamField list" where
  "paramFieldsFor kind = (case map_of KIND_PARAMS kind of Some fs \<Rightarrow> fs | None \<Rightarrow> [])"

subsection \<open>Rule, draft and request\<close>

type_synonym string_map = "(jstring \<times> jstring) list"

record AlertRule =
  ar_name :: jstring
  ar_kind :: jstring
  ar_params :: jsval
  ar_severity :: jstring
  ar_forNs :: jsnum
  ar_labels :: string_map
  ar_annotations :: string_map
  ar_enabled :: bool

record RuleDraft =
  rd_name :: jstring
  rd_kind :: jstring
  rd_params :: string_map
  rd_severity :: jstring
  rd_forText :: jstring
  rd_labels :: string_map
  rd_annotations :: string_map
  rd_enabled :: bool

fun read_path :: "jsval \<Rightarrow> jstring list \<Rightarrow> jsval" where
  "read_path cursor [] = cursor"
| "read_path cursor (part # parts) = (if is_object cursor then read_path (jfield cursor part) parts else JUndef)"

definition readParam :: "jsval \<Rightarrow> jstring \<Rightarrow> jsval" where
  "readParam params key = read_path params (split_on 46 key)"

definition mapFrom :: "string_map \<Rightarrow> string_map" where
  "mapFrom pairs = fold (\<lambda>(k, v) out. let key = trim k in if key \<noteq> [] then AList.update key v out else out) pairs []"

fun duplicate_loop :: "jstring list \<Rightarrow> string_map \<Rightarrow> jstring option" where
  "duplicate_loop seen [] = None"
| "duplicate_loop seen ((k, v) # pairs) =
     (let key = trim k
      in if key = [] then duplicate_loop seen pairs
         else if key \<in> set seen then Some key
         else duplicate_loop (jadd key seen) pairs)"

definition duplicateKey :: "string_map \<Rightarrow> jstring option" where
  "duplicateKey pairs = duplicate_loop [] pairs"

definition draft_text :: "(jsnum \<Rightarrow> jstring) \<Rightarrow> jsval \<Rightarrow> jstring" where
  "draft_text num_str v = (if v = JUndef \<or> v = JNull then [] else template num_str v)"

definition draftFrom :: "(jsnum \<Rightarrow> jstring) \<Rightarrow> AlertRule option \<Rightarrow> RuleDraft" where
  "draftFrom num_str rule =
     (let kind = (case rule of Some r \<Rightarrow> ar_kind r | None \<Rightarrow> js ''pair-loss'')
      in \<lparr>rd_name = (case rule of Some r \<Rightarrow> ar_name r | None \<Rightarrow> []),
          rd_kind = kind,
          rd_params = fold (\<lambda>f. AList.update (pf_key f)
              (draft_text num_str (case rule of Some r \<Rightarrow> readParam (ar_params r) (pf_key f) | None \<Rightarrow> JUndef)))
            (paramFieldsFor kind) [],
          rd_severity = (case rule of Some r \<Rightarrow> ar_severity r | None \<Rightarrow> js ''warning''),
          rd_forText = (case rule of Some r \<Rightarrow> formatPromDuration num_str (ar_forNs r) | None \<Rightarrow> []),
          rd_labels = (case rule of Some r \<Rightarrow> ar_labels r | None \<Rightarrow> []),
          rd_annotations = (case rule of Some r \<Rightarrow> ar_annotations r | None \<Rightarrow> []),
          rd_enabled = (case rule of Some r \<Rightarrow> ar_enabled r | None \<Rightarrow> True)\<rparr>)"

definition typed_value :: "(jstring \<Rightarrow> jsnum) \<Rightarrow> ParamField \<Rightarrow> jstring \<Rightarrow> jsval" where
  "typed_value num f raw =
     (if (pf_type f = p_number \<or> pf_numeric f) \<and> is_finite (num raw) then JNum (num raw) else JStr raw)"

definition set_param :: "jstring list \<Rightarrow> jsval \<Rightarrow> (jstring \<times> jsval) list \<Rightarrow> (jstring \<times> jsval) list" where
  "set_param parts v out =
     (case parts of
        [k] \<Rightarrow> AList.update k v out
      | k # t # _ \<Rightarrow>
          AList.update k (JObj (AList.update t v (case map_of out k of Some (JObj kvs) \<Rightarrow> kvs | _ \<Rightarrow> []))) out
      | [] \<Rightarrow> out)"

definition add_param :: "(jstring \<Rightarrow> jsnum) \<Rightarrow> string_map \<Rightarrow> ParamField \<Rightarrow> (jstring \<times> jsval) list \<Rightarrow> (jstring \<times> jsval) list" where
  "add_param num params f out =
     (let raw = trim (case map_of params (pf_key f) of Some s \<Rightarrow> s | None \<Rightarrow> [])
      in if raw = [] then out else set_param (split_on 46 (pf_key f)) (typed_value num f raw) out)"

definition paramsFromDraft :: "(jstring \<Rightarrow> jsnum) \<Rightarrow> jstring \<Rightarrow> string_map \<Rightarrow> jsval" where
  "paramsFromDraft num kind params = JObj (fold (add_param num params) (paramFieldsFor kind) [])"

definition requestFromDraft :: "(jstring \<Rightarrow> jsnum) \<Rightarrow> RuleDraft \<Rightarrow> jsnum \<Rightarrow> AlertRule" where
  "requestFromDraft num draft forNs =
     \<lparr>ar_name = rd_name draft, ar_kind = rd_kind draft, ar_params = paramsFromDraft num (rd_kind draft) (rd_params draft),
      ar_severity = rd_severity draft, ar_forNs = forNs, ar_labels = mapFrom (rd_labels draft),
      ar_annotations = mapFrom (rd_annotations draft), ar_enabled = rd_enabled draft\<rparr>"

subsection \<open>A printed duration reads back\<close>

lemma format_units: "FORMAT_UNITS = [(js ''d'', 86400000000000), (js ''h'', 3600000000000), (js ''m'', 60000000000), (js ''s'', 1000000000), (js ''ms'', 1000000)]"
  by (simp add: FORMAT_UNITS_def DURATION_UNITS_def js_Cons)

lemma takeWhile_dec: "takeWhile is_digit (dec q @ u) = dec q @ takeWhile is_digit u" "dropWhile is_digit (dec q @ u) = dropWhile is_digit u"
  by (simp_all add: takeWhile_append2 dropWhile_append2 dec_digits)

lemma trim_dec: "\<not> is_space (last u) \<Longrightarrow> u \<noteq> [] \<Longrightarrow> trim (dec q @ u) = dec q @ u"
proof -
  assume u: "\<not> is_space (last u)" "u \<noteq> []"
  have "is_digit (hd (dec q))" by (rule dec_digits [of _ q]) simp
  then have "\<not> is_space (hd (dec q))" by (auto simp: is_digit_def is_space_def)
  then have 1: "dropWhile is_space (dec q @ u) = dec q @ u" by (cases "dec q") auto
  obtain l where l: "rev u = last u # l" using u(2) by (metis append_butlast_last_id rev_eq_Cons_iff rev_rev_ident)
  then have 2: "dropWhile is_space (rev (dec q @ u)) = rev (dec q @ u)" unfolding rev_append l using u(1) by simp
  show ?thesis unfolding trim_def 1 2 by simp
qed

text \<open>A text of one term.\<close>

lemma parse_one_term:
  assumes "unit \<noteq> []" "list_all is_lower unit" "q * width \<le> MAX_DURATION_NS"
    and k: "find_index (\<lambda>(u, _). u = unit) DURATION_UNITS = Some k" "snd (DURATION_UNITS ! k) = width"
  shows "parsePromDuration (dec q @ unit) = Inr (q * width)"
proof -
  have low: "is_lower c \<Longrightarrow> \<not> is_digit c \<and> \<not> is_space c" for c by (auto simp: is_lower_def is_digit_def is_space_def)
  have "is_lower (last unit)" using assms(1,2) by (simp add: list_all_iff)
  then have t: "trim (dec q @ unit) = dec q @ unit" using low assms(1) by (intro trim_dec) auto
  have hd: "\<not> is_digit (hd unit)" using assms(1,2) low by (cases unit) auto
  have d: "takeWhile is_digit (dec q @ unit) = dec q" "dropWhile is_digit (dec q @ unit) = unit"
    using hd assms(1) unfolding takeWhile_dec by (cases unit; simp)+
  have l: "takeWhile is_lower unit = unit" "dropWhile is_lower unit = []" using assms(2) by (simp_all add: list_all_iff takeWhile_eq_all_conv)
  have "duration_terms (- 1) 0 (dec q @ unit) = duration_terms (int k) (q * width) []"
    unfolding duration_terms.simps [of "- 1"] d l using k assms(1) by simp
  also have "\<dots> = Inr (q * width)" by (simp add: duration_terms.simps)
  finally show ?thesis using t assms(1,3) by (simp add: parsePromDuration_def Let_def)
qed

lemma parse_bad_unit: "parsePromDuration (dec q @ js ''ns'') = Inl (Bad_unit (js ''ns''))"
proof -
  have t: "trim (dec q @ js ''ns'') = dec q @ js ''ns''" by (rule trim_dec) (simp_all add: js_Cons is_space_def)
  have d: "takeWhile is_digit (dec q @ js ''ns'') = dec q" "dropWhile is_digit (dec q @ js ''ns'') = js ''ns''"
    unfolding takeWhile_dec by (simp_all add: js_Cons is_digit_def)
  have l: "takeWhile is_lower (js ''ns'') = js ''ns''" "dropWhile is_lower (js ''ns'') = []" by (simp_all add: js_Cons is_lower_def)
  have f: "find_index (\<lambda>(u, _). u = js ''ns'') DURATION_UNITS = None" by (simp add: DURATION_UNITS_def js_Cons)
  have "duration_terms (- 1) 0 (dec q @ js ''ns'') = Inl (Bad_unit (js ''ns''))"
    unfolding duration_terms.simps [of "- 1"] d l f by (simp add: js_Cons)
  with t show ?thesis by (simp add: parsePromDuration_def Let_def)
qed

lemma show_jnat: "n < 10 ^ 21 \<Longrightarrow> show_num num_str (jnat n) = dec n"
  by simp

lemma jnat_div:
  assumes "0 < w" "n mod w = 0"
  shows "jnat n / jnat w = jnat (n div w)"
proof -
  from assms(2) obtain k where k: "n = w * k" by (auto simp: mod_eq_0_iff_dvd dvd_def)
  then have "n div w = k" "rat_of_nat n / rat_of_nat w = rat_of_nat k" using assms(1) by simp_all
  with assms(1) show ?thesis by simp
qed

lemma find_format_unit:
  "list_all (\<lambda>(u, w). 0 < w) us \<Longrightarrow>
    find (\<lambda>(u, w). 0 < w \<and> jmod (jnat n) (jnat w) = Fin 0) us = find (\<lambda>(u, w). n mod w = 0) us"
proof (induction us)
  case (Cons x us)
  obtain u w where x: "x = (u, w)" by (cases x)
  with Cons.prems have w: "0 < w" and us: "list_all (\<lambda>(u, w). 0 < w) us" by auto
  have "jmod (jnat n) (jnat w) = Fin 0 \<longleftrightarrow> n mod w = 0" unfolding jmod_jnat [OF w] by simp
  then show ?case unfolding x using Cons.IH [OF us] w by (simp only: find.simps split_conv simp_thms)
qed simp

lemma found_unit: "find (\<lambda>(u, w). n mod w = 0) us = Some (u, w) \<Longrightarrow> (u, w) \<in> set us \<and> n mod w = 0"
  by (induction us) (auto split: if_splits)

lemma format_units_pos: "list_all (\<lambda>(u, w). 0 < w) FORMAT_UNITS"
  unfolding format_units by simp

lemma format_nat:
  assumes "0 < n" "n < 10 ^ 21"
  shows "formatPromDuration num_str (jnat n) =
    (case find (\<lambda>(u, w). n mod w = 0) FORMAT_UNITS of Some (u, w) \<Rightarrow> dec (n div w) @ u | None \<Rightarrow> dec n @ js ''ns'')"
proof -
  have "formatPromDuration num_str (jnat n) =
      (case find (\<lambda>(u, w). n mod w = 0) FORMAT_UNITS of
         Some (u, w) \<Rightarrow> show_num num_str (jnat n / jnat w) @ u | None \<Rightarrow> show_num num_str (jnat n) @ js ''ns'')"
    unfolding formatPromDuration_def find_format_unit [OF format_units_pos] using assms(1) by simp
  also have "\<dots> = (case find (\<lambda>(u, w). n mod w = 0) FORMAT_UNITS of Some (u, w) \<Rightarrow> dec (n div w) @ u | None \<Rightarrow> dec n @ js ''ns'')"
  proof (cases "find (\<lambda>(u, w). n mod w = 0) FORMAT_UNITS")
    case None
    with show_jnat [OF assms(2)] show ?thesis by (simp only: option.case)
  next
    case (Some p)
    obtain u w where p: "p = (u, w)" by (cases p)
    from found_unit [OF Some [unfolded p]] have w: "(u, w) \<in> set FORMAT_UNITS" "n mod w = 0" by auto
    with format_units_pos have "0 < w" by (auto simp: list_all_iff)
    then have "jnat n / jnat w = jnat (n div w)" using w(2) by (rule jnat_div)
    moreover have "n div w < 10 ^ 21" using div_le_dividend [of n w] assms(2) by (rule le_less_trans)
    ultimately show ?thesis using Some p by (simp only: option.case prod.case show_jnat)
  qed
  finally show ?thesis .
qed

text \<open>The units a duration is printed in are found again.\<close>

lemma format_unit_index:
  "list_all (\<lambda>(u, w). u \<noteq> [] \<and> list_all is_lower u \<and>
     (case find_index (\<lambda>(v, _). v = u) DURATION_UNITS of Some k \<Rightarrow> snd (DURATION_UNITS ! k) = w | None \<Rightarrow> False)) FORMAT_UNITS"
  unfolding format_units by (simp add: DURATION_UNITS_def js_Cons is_lower_def)

lemma no_unit_divides: "find (\<lambda>(u, w). n mod w = 0) FORMAT_UNITS = None \<Longrightarrow> \<not> 1000000 dvd n"
  unfolding format_units by (auto simp: dvd_eq_mod_eq_0 split: if_splits)

lemma unit_divides: "(u, w) \<in> set FORMAT_UNITS \<Longrightarrow> n mod w = 0 \<Longrightarrow> 1000000 dvd n"
proof -
  assume w: "(u, w) \<in> set FORMAT_UNITS" "n mod w = 0"
  have "1000000 dvd w" using w(1) unfolding format_units by auto
  moreover have "w dvd n" using w(2) by (simp add: mod_eq_0_iff_dvd)
  ultimately show ?thesis by (rule dvd_trans)
qed

text \<open>What a parsed text is: terms of falling unit, and the sum of their nanoseconds.\<close>

lemma takeWhile_digit: "c \<in> set (takeWhile is_digit s) \<Longrightarrow> is_digit c"
  by (rule set_takeWhileD [THEN conjunct2])

lemma find_index_Some: "find_index P xs = Some k \<Longrightarrow> k < length xs \<and> P (xs ! k)"
  by (induction xs arbitrary: k) (auto split: if_splits)

lemma duration_terms_sound:
  "duration_terms l ns s = Inr m \<Longrightarrow>
    \<exists>ts. s = concat (map (\<lambda>(d, k). d @ fst (DURATION_UNITS ! k)) ts) \<and>
      (\<forall>(d, k)\<in>set ts. d \<noteq> [] \<and> list_all is_digit d \<and> k < length DURATION_UNITS \<and> l < int k) \<and>
      sorted_wrt (<) (map snd ts) \<and>
      m = ns + sum_list (map (\<lambda>(d, k). digits_value d * snd (DURATION_UNITS ! k)) ts)"
proof (induction l ns s rule: duration_terms.induct)
  case (1 l ns s)
  let ?d = "takeWhile is_digit s" and ?s1 = "dropWhile is_digit s"
  let ?u = "takeWhile is_lower ?s1" and ?s2 = "dropWhile is_lower ?s1"
  show ?case
  proof (cases "s = []")
    case True
    with 1(2) show ?thesis by (intro exI [of _ "[]"]) (simp add: duration_terms.simps)
  next
    case False
    with 1(2) have ne: "?d \<noteq> []" "?u \<noteq> []" by (auto simp: duration_terms.simps [of l ns s] split: if_splits)
    with 1(2) False obtain k where k: "find_index (\<lambda>(u, _). u = ?u) DURATION_UNITS = Some k" "\<not> int k \<le> l"
      by (auto simp: duration_terms.simps [of l ns s] split: option.splits if_splits)
    have step: "duration_terms l ns s = duration_terms (int k) (ns + digits_value ?d * snd (DURATION_UNITS ! k)) ?s2"
      using False ne k by (simp add: duration_terms.simps [of l ns s])
    from 1(1) [OF False ne k] 1(2) step obtain ts where ts:
      "?s2 = concat (map (\<lambda>(d, k). d @ fst (DURATION_UNITS ! k)) ts)"
      "\<forall>(d, j)\<in>set ts. d \<noteq> [] \<and> list_all is_digit d \<and> j < length DURATION_UNITS \<and> int k < int j"
      "sorted_wrt (<) (map snd ts)"
      "m = ns + digits_value ?d * snd (DURATION_UNITS ! k) + sum_list (map (\<lambda>(d, k). digits_value d * snd (DURATION_UNITS ! k)) ts)"
      by auto
    have u: "k < length DURATION_UNITS" "fst (DURATION_UNITS ! k) = ?u" using find_index_Some [OF k(1)] by (auto split: prod.splits)
    have "s = ?d @ ?u @ ?s2" by simp
    moreover have "list_all is_digit ?d" by (simp add: list_all_iff takeWhile_digit)
    ultimately show ?thesis using ts u ne(1) k(2) by (intro exI [of _ "(?d, k) # ts"]) force
  qed
qed

subsection \<open>Label tables\<close>

definition table_rows :: "string_map \<Rightarrow> string_map" where
  "table_rows pairs = map (\<lambda>(k, v). (trim k, v)) (filter (\<lambda>(k, v). trim k \<noteq> []) pairs)"

lemma table_rows_simps [simp]:
  "table_rows [] = []"
  "table_rows ((k, v) # pairs) = (if trim k = [] then table_rows pairs else (trim k, v) # table_rows pairs)"
  by (simp_all add: table_rows_def)

lemma duplicate_loop_None:
  "duplicate_loop seen pairs = None \<longleftrightarrow> distinct (map fst (table_rows pairs)) \<and> set seen \<inter> fst ` set (table_rows pairs) = {}"
proof (induction seen pairs rule: duplicate_loop.induct)
  case (2 seen k v pairs)
  then show ?case by (cases "trim k = []") (auto simp: Let_def)
qed simp

lemma mapFrom_distinct:
  "distinct (map fst (out @ table_rows pairs)) \<Longrightarrow>
    fold (\<lambda>(k, v) out. let key = trim k in if key \<noteq> [] then AList.update key v out else out) pairs out = out @ table_rows pairs"
proof (induction pairs arbitrary: out)
  case (Cons p pairs)
  obtain k v where p: "p = (k, v)" by (cases p)
  show ?case
  proof (cases "trim k = []")
    case True
    with Cons p show ?thesis by simp
  next
    case False
    have fresh: "trim k \<notin> fst ` set out" using Cons.prems False by (auto simp: p)
    have upd: "AList.update (trim k) v out = out @ [(trim k, v)]" using fresh by (induction out) auto
    show ?thesis using Cons.IH [of "out @ [(trim k, v)]"] Cons.prems False
      by (simp add: p upd Let_def)
  qed
qed simp

text \<open>The refusal of a repeated key is exactly what keeps every row.\<close>

lemma mapFrom_keeps_rows: "duplicateKey pairs = None \<Longrightarrow> mapFrom pairs = table_rows pairs"
  using mapFrom_distinct [of "[]" pairs] by (simp add: duplicateKey_def duplicate_loop_None mapFrom_def)

subsection \<open>Opening a stored rule and saving it\<close>

definition paths_apart :: "jstring list \<Rightarrow> jstring list \<Rightarrow> bool" where
  "paths_apart p q \<longleftrightarrow>
     (case (p, q) of
        ([a], [b]) \<Rightarrow> a \<noteq> b
      | ([a], [b, u]) \<Rightarrow> a \<noteq> b
      | ([a, t], [b]) \<Rightarrow> a \<noteq> b
      | ([a, t], [b, u]) \<Rightarrow> a \<noteq> b \<or> t \<noteq> u
      | _ \<Rightarrow> False)"

definition short_path :: "jstring list \<Rightarrow> bool" where
  "short_path p \<longleftrightarrow> length p = 1 \<or> length p = 2"

lemma short_path_cases:
  assumes "short_path p"
  obtains a where "p = [a]" | a t where "p = [a, t]"
  using assms by (auto simp: short_path_def length_Suc_conv numeral_2_eq_2)

lemma read_set_same: "short_path p \<Longrightarrow> read_path (JObj (set_param p v out)) p = v"
  by (erule short_path_cases) (simp_all add: set_param_def update_conv')

lemma read_set_other: "paths_apart p q \<Longrightarrow> short_path p \<Longrightarrow> read_path (JObj (set_param p v out)) q = read_path (JObj out) q"
proof (erule short_path_cases)
  fix a assume "paths_apart p q" "p = [a]"
  then show ?thesis by (auto simp: paths_apart_def set_param_def update_conv' split: list.splits)
next
  fix a t assume a: "paths_apart p q" "p = [a, t]"
  then obtain b where "q = [b] \<and> a \<noteq> b \<or> (\<exists>u. q = [b, u] \<and> (a \<noteq> b \<or> t \<noteq> u))"
    by (auto simp: paths_apart_def split: list.splits)
  then show ?thesis
  proof
    assume "q = [b] \<and> a \<noteq> b"
    with a(2) show ?thesis by (auto simp: set_param_def update_conv')
  next
    assume "\<exists>u. q = [b, u] \<and> (a \<noteq> b \<or> t \<noteq> u)"
    then obtain u where u: "q = [b, u]" "a \<noteq> b \<or> t \<noteq> u" by blast
    show ?thesis
    proof (cases "a = b")
      case False
      with a(2) u(1) show ?thesis by (simp add: set_param_def update_conv')
    next
      case True
      with u have t: "t \<noteq> u" by simp
      show ?thesis
        by (cases "map_of out a") (auto simp: a(2) u(1) True [symmetric] set_param_def update_conv' t t [symmetric] split: jsval.split option.split)
    qed
  qed
qed

definition put_value :: "(ParamField \<Rightarrow> jsval) \<Rightarrow> ParamField \<Rightarrow> (jstring \<times> jsval) list \<Rightarrow> (jstring \<times> jsval) list" where
  "put_value v f out = (if v f = JUndef then out else set_param (split_on 46 (pf_key f)) (v f) out)"

definition fields_apart :: "ParamField list \<Rightarrow> bool" where
  "fields_apart fs \<longleftrightarrow> distinct (map pf_key fs) \<and> list_all (\<lambda>f. short_path (split_on 46 (pf_key f))) fs \<and>
     sorted_wrt (\<lambda>f g. paths_apart (split_on 46 (pf_key f)) (split_on 46 (pf_key g)) \<and>
       paths_apart (split_on 46 (pf_key g)) (split_on 46 (pf_key f))) fs"

lemma read_puts_other:
  "\<forall>f\<in>set fs. paths_apart (split_on 46 (pf_key f)) q \<and> short_path (split_on 46 (pf_key f)) \<Longrightarrow>
    read_path (JObj (fold (put_value v) fs out)) q = read_path (JObj out) q"
proof (induction fs arbitrary: out)
  case (Cons f fs)
  then have "read_path (JObj (put_value v f out)) q = read_path (JObj out) q" by (simp add: put_value_def read_set_other)
  with Cons show ?case by simp
qed simp

lemma read_puts:
  "fields_apart fs \<Longrightarrow> f \<in> set fs \<Longrightarrow>
    read_path (JObj (fold (put_value v) fs out)) (split_on 46 (pf_key f)) =
      (if v f = JUndef then read_path (JObj out) (split_on 46 (pf_key f)) else v f)"
proof (induction fs arbitrary: out)
  case (Cons g fs)
  have rest: "fields_apart fs" and short: "short_path (split_on 46 (pf_key g))" "\<forall>h\<in>set fs. short_path (split_on 46 (pf_key h))"
    and apart: "\<forall>h\<in>set fs. paths_apart (split_on 46 (pf_key h)) (split_on 46 (pf_key g)) \<and> paths_apart (split_on 46 (pf_key g)) (split_on 46 (pf_key h))"
    using Cons.prems(1) by (auto simp: fields_apart_def list_all_iff)
  show ?case
  proof (cases "f \<in> set fs")
    case True
    have "read_path (JObj (put_value v g out)) (split_on 46 (pf_key f)) = read_path (JObj out) (split_on 46 (pf_key f))"
      using apart short(1) True by (simp add: put_value_def read_set_other)
    with Cons.IH [OF rest True, of "put_value v g out"] show ?thesis by simp
  next
    case False
    with Cons.prems(2) have f: "f = g" by simp
    have "read_path (JObj (fold (put_value v) fs (put_value v g out))) (split_on 46 (pf_key g)) =
        read_path (JObj (put_value v g out)) (split_on 46 (pf_key g))"
      by (rule read_puts_other) (use apart short in blast)
    moreover have "read_path (JObj (put_value v g out)) (split_on 46 (pf_key g)) =
        (if v g = JUndef then read_path (JObj out) (split_on 46 (pf_key g)) else v g)"
      using short(1) by (simp add: put_value_def read_set_same)
    ultimately show ?thesis unfolding f by simp
  qed
qed simp

lemma kinds_apart: "list_all (\<lambda>(k, fs). fields_apart fs) KIND_PARAMS"
  by (simp add: KIND_PARAMS_def fields_apart_def param_def protocol_param_def paths_apart_def short_path_def js_Cons)

lemma paramFieldsFor_apart: "fields_apart (paramFieldsFor kind)"
proof (cases "map_of KIND_PARAMS kind")
  case None
  then show ?thesis by (simp add: paramFieldsFor_def fields_apart_def)
next
  case (Some fs)
  then have "(kind, fs) \<in> set KIND_PARAMS" by (rule map_of_SomeD)
  with kinds_apart Some show ?thesis by (auto simp: paramFieldsFor_def list_all_iff)
qed

lemma draft_params:
  assumes "distinct (map pf_key fs)" "f \<in> set fs"
  shows "map_of (fold (\<lambda>f. AList.update (pf_key f) (g f)) fs out) (pf_key f) = Some (g f)"
  using assms
proof (induction fs arbitrary: out)
  case (Cons h fs)
  show ?case
  proof (cases "f \<in> set fs")
    case True
    with Cons show ?thesis by simp
  next
    case False
    with Cons.prems have f: "f = h" by simp
    have "map_of (fold (\<lambda>f. AList.update (pf_key f) (g f)) fs out) k = map_of out k" if "k \<notin> pf_key ` set fs" for k out
      using that by (induction fs arbitrary: out) (auto simp: update_conv')
    with f Cons.prems(1) show ?thesis by (simp add: update_conv')
  qed
qed simp

text \<open>What a field of the form holds of a stored parameter and sends back.\<close>

definition resaved :: "(jstring \<Rightarrow> jsnum) \<Rightarrow> (jsnum \<Rightarrow> jstring) \<Rightarrow> ParamField \<Rightarrow> jsval \<Rightarrow> jsval" where
  "resaved num num_str f v =
     (let raw = trim (draft_text num_str v) in if raw = [] then JUndef else typed_value num f raw)"

definition number_field :: "ParamField \<Rightarrow> bool" where
  "number_field f \<longleftrightarrow> pf_type f = p_number \<or> pf_numeric f"

text \<open>
  The parameters a field sends back as they were: an absent one, a text without outer whitespace that
  the field does not take for a number, and a number in a number field that its own text reads back.
\<close>

definition held :: "(jstring \<Rightarrow> jsnum) \<Rightarrow> (jsnum \<Rightarrow> jstring) \<Rightarrow> ParamField \<Rightarrow> jsval \<Rightarrow> bool" where
  "held num num_str f v \<longleftrightarrow>
     (case v of
        JUndef \<Rightarrow> True
      | JNum n \<Rightarrow> number_field f \<and> is_finite n \<and> trim (show_num num_str n) \<noteq> [] \<and> num (trim (show_num num_str n)) = n
      | JStr s \<Rightarrow> s \<noteq> [] \<and> trim s = s \<and> \<not> (number_field f \<and> is_finite (num s))
      | _ \<Rightarrow> False)"

lemma resaved_same: "resaved num num_str f v = v \<longleftrightarrow> held num num_str f v"
proof -
  have "trim [] = []" by (simp add: trim_def)
  then show ?thesis
    by (cases v) (auto simp: resaved_def held_def draft_text_def typed_value_def number_field_def Let_def)
qed

lemma add_param_resaved:
  assumes "map_of params (pf_key f) = Some (draft_text num_str v)"
  shows "add_param num params f out =
    (if resaved num num_str f v = JUndef then out else set_param (split_on 46 (pf_key f)) (resaved num num_str f v) out)"
  using assms by (simp add: resaved_def add_param_def typed_value_def Let_def)

lemma paramsFromDraft_resaved:
  assumes "\<forall>f\<in>set fs. map_of params (pf_key f) = Some (draft_text num_str (v f))"
  shows "fold (add_param num params) fs out = fold (put_value (\<lambda>f. resaved num num_str f (v f))) fs out"
  using assms
proof (induction fs arbitrary: out)
  case (Cons f fs)
  then have "map_of params (pf_key f) = Some (draft_text num_str (v f))" by simp
  from add_param_resaved [OF this] have "add_param num params f out = put_value (\<lambda>f. resaved num num_str f (v f)) f out"
    by (simp add: put_value_def)
  with Cons show ?case by simp
qed simp

text \<open>
  C36: A stored rule opened in the builder and saved as it is keeps its name,
  kind, severity and state. Of the parameters the form has a field for, nested ones included, it keeps
  exactly those the field can hold (\<open>held\<close>): an absent one, a text without outer whitespace that the
  field does not take for a number, a number in a number field that its own printing reads back. A text with outer whitespace, the raw expression included, is sent
  without it, and one that is only whitespace is dropped.
\<close>

theorem rule_reopened_keeps_params:
  assumes "r' = requestFromDraft num (draftFrom num_str (Some r)) ns"
  shows "ar_name r' = ar_name r \<and> ar_kind r' = ar_kind r \<and> ar_severity r' = ar_severity r \<and> ar_enabled r' = ar_enabled r \<and>
    (\<forall>f\<in>set (paramFieldsFor (ar_kind r)).
       (readParam (ar_params r') (pf_key f) = readParam (ar_params r) (pf_key f) \<longleftrightarrow>
          held num num_str f (readParam (ar_params r) (pf_key f))) \<and>
       (\<forall>s. readParam (ar_params r) (pf_key f) = JStr s \<and> \<not> number_field f \<longrightarrow>
          readParam (ar_params r') (pf_key f) = (if trim s = [] then JUndef else JStr (trim s))))"
proof -
  let ?fs = "paramFieldsFor (ar_kind r)" and ?v = "\<lambda>f. readParam (ar_params r) (pf_key f)"
  let ?w = "\<lambda>f. resaved num num_str f (?v f)"
  let ?params = "fold (\<lambda>f. AList.update (pf_key f) (draft_text num_str (?v f))) ?fs []"
  have apart: "fields_apart ?fs" by (rule paramFieldsFor_apart)
  then have "distinct (map pf_key ?fs)" by (simp add: fields_apart_def)
  from draft_params [OF this, where g = "\<lambda>f. draft_text num_str (?v f)" and out = "[]"]
  have h: "\<forall>f\<in>set ?fs. map_of ?params (pf_key f) = Some (draft_text num_str (?v f))" by blast
  have p: "ar_params r' = JObj (fold (put_value ?w) ?fs [])"
    unfolding assms by (simp add: requestFromDraft_def draftFrom_def Let_def paramsFromDraft_def paramsFromDraft_resaved [OF h])
  have w: "readParam (ar_params r') (pf_key f) = ?w f" if f: "f \<in> set ?fs" for f
  proof -
    have "short_path (split_on 46 (pf_key f))" using apart f by (auto simp: fields_apart_def list_all_iff)
    then have "read_path (JObj []) (split_on 46 (pf_key f)) = JUndef" by (rule short_path_cases) simp_all
    with read_puts [OF apart f, of ?w "[]"] show ?thesis unfolding p readParam_def by simp
  qed
  have texts: "resaved num num_str f (JStr s) = (if trim s = [] then JUndef else JStr (trim s))" if "\<not> number_field f" for f s
    using that by (simp add: resaved_def draft_text_def typed_value_def number_field_def)
  have "ar_name r' = ar_name r \<and> ar_kind r' = ar_kind r \<and> ar_severity r' = ar_severity r \<and> ar_enabled r' = ar_enabled r"
    unfolding assms by (simp add: requestFromDraft_def draftFrom_def Let_def)
  with w texts show ?thesis by (simp add: resaved_same)
qed

definition demo_rule :: AlertRule where
  "demo_rule = \<lparr>ar_name = js ''Loss'', ar_kind = js ''pair-loss'',
     ar_params = JObj [(js ''protocol'', JStr (js ''tcp'')), (js ''scope'', JObj [(js ''destNode'', JStr (js ''n2''))])],
     ar_severity = js ''critical'', ar_forNs = Fin 0, ar_labels = [], ar_annotations = [], ar_enabled = True\<rparr>"

theorem rule_reopened_keeps_params_witness:
  "readParam (ar_params (requestFromDraft (\<lambda>_. NaN) (draftFrom (\<lambda>_. []) (Some demo_rule)) (Fin 0))) (js ''scope.destNode'') = JStr (js ''n2'')"
proof -
  let ?f = "param ''scope.destNode'' p_text False"
  let ?r' = "requestFromDraft (\<lambda>_. NaN) (draftFrom (\<lambda>_. []) (Some demo_rule)) (Fin 0)"
  have fs: "?f \<in> set (paramFieldsFor (ar_kind demo_rule))"
    by (simp add: paramFieldsFor_def demo_rule_def KIND_PARAMS_def)
  have v: "readParam (ar_params demo_rule) (pf_key ?f) = JStr (js ''n2'')" by (simp add: readParam_def demo_rule_def param_def js_Cons)
  have k: "pf_key ?f = js ''scope.destNode''" by (simp add: param_def)
  have h: "held (\<lambda>_. NaN) (\<lambda>_. []) ?f (readParam (ar_params demo_rule) (pf_key ?f))"
    unfolding v by (simp add: held_def number_field_def param_def js_Cons trim_def is_space_def)
  from rule_reopened_keeps_params [OF refl, of "\<lambda>_. NaN" "\<lambda>_. []" demo_rule "Fin 0"] fs h
  have "readParam (ar_params ?r') (pf_key ?f) = readParam (ar_params demo_rule) (pf_key ?f)" by blast
  then show ?thesis unfolding v unfolding k .
qed

text \<open>
  C35: A duration the console can hold, printed into the \<open>for\<close> box and read
  again, is the same number of nanoseconds exactly when it is a whole number of milliseconds; any
  other is printed with a unit the box refuses.
\<close>

theorem promDuration_roundtrip:
  assumes "n \<le> MAX_DURATION_NS"
  shows "parsePromDuration (formatPromDuration num_str (jnat n)) = (if 1000000 dvd n then Inr n else Inl (Bad_unit (js ''ns'')))"
proof (cases "n = 0")
  case True
  have "parsePromDuration (dec 0 @ js ''s'') = Inr (0 * 1000000000)"
    by (rule parse_one_term [where k = 5]) (simp_all add: js_Cons is_lower_def DURATION_UNITS_def)
  with True show ?thesis by (simp add: formatPromDuration_def dec.simps js_Cons)
next
  case False
  have big: "n < 10 ^ 21" using assms by (simp add: MAX_DURATION_NS_def)
  from False have "0 < n" by simp
  note f = format_nat [OF this big, of num_str]
  show ?thesis
  proof (cases "find (\<lambda>(u, w). n mod w = 0) FORMAT_UNITS")
    case None
    with f no_unit_divides [OF None] show ?thesis by (simp only: option.case parse_bad_unit if_False)
  next
    case (Some p)
    obtain u w where p: "p = (u, w)" by (cases p)
    from found_unit [OF Some [unfolded p]] have w: "(u, w) \<in> set FORMAT_UNITS" "n mod w = 0" by auto
    from format_unit_index w(1) obtain k where k: "u \<noteq> []" "list_all is_lower u"
      "find_index (\<lambda>(v, _). v = u) DURATION_UNITS = Some k" "snd (DURATION_UNITS ! k) = w"
      by (auto simp: list_all_iff split: option.splits)
    have n: "n div w * w = n" using w(2) by (metis add.right_neutral div_mult_mod_eq)
    have "parsePromDuration (dec (n div w) @ u) = Inr (n div w * w)"
      using k(1,2) _ k(3,4) by (rule parse_one_term) (use n assms in simp)
    with f Some p n unit_divides [OF w] show ?thesis by simp
  qed
qed

theorem promDuration_roundtrip_witness:
  "parsePromDuration (formatPromDuration (\<lambda>_. []) (jnat 90000000000)) = Inr 90000000000"
proof -
  have "(90000000000::nat) \<le> MAX_DURATION_NS" by (simp add: MAX_DURATION_NS_def)
  from promDuration_roundtrip [OF this, of "\<lambda>_. []"] show ?thesis by simp
qed

end
