(* ===== verification/Overview_Health.thy ===== *)
theory Overview_Health
  imports Matrix_Cells
begin

section \<open>The verdict of the Overview page (pages/overview.tsx)\<close>

text \<open>
  The counts of the tiles, the worst pairs and the sentence at the head of the page, over the tiers of
  \<open>Matrix_Cells\<close>. \<open>t\<close> is the page's translator, \<open>upper\<close> is \<open>toUpperCase\<close>, a node is its ready flag.
  The lemmas show the counts nested, the worst pairs the worst, and the claim of health made only when
  every plane answered and none has a failing or degraded pair.
\<close>

record OverviewSummary =
  ov_totalNodes :: nat
  ov_readyNodes :: nat
  ov_pairsTotal :: nat
  ov_pairsScored :: nat
  ov_pairsFailing :: nat
  ov_pairsDegraded :: nat
  ov_worstPairs :: "MatrixCell list"

fun TIER_RANK :: "CellTier \<Rightarrow> jsnum" where
  "TIER_RANK tier_bad = Fin 0"
| "TIER_RANK tier_warn = Fin 1"
| "TIER_RANK tier_ok = Fin 2"
| "TIER_RANK tier_unknown = Fin 3"

definition or_zero :: "jsnum option \<Rightarrow> jsnum" where
  "or_zero v = (case v of Some n \<Rightarrow> n | None \<Rightarrow> Fin 0)"

definition compareWorst :: "MatrixCell \<Rightarrow> MatrixCell \<Rightarrow> jsnum" where
  "compareWorst a b =
     (let ta = TIER_RANK (cellTier (Some a)); tb = TIER_RANK (cellTier (Some b))
      in if ta \<noteq> tb then ta - tb
         else let sa = or_zero (severityRatio (Some a)); sb = or_zero (severityRatio (Some b))
         in if \<not> jeq sa sb then sb - sa else or_zero (mc_rttP95 b) - or_zero (mc_rttP95 a))"

definition isScored :: "MatrixCell \<Rightarrow> bool" where
  "isScored cell \<longleftrightarrow> finite_num (mc_failRatio cell)"

text \<open>\<open>topo\<close> is \<open>None\<close> while the topology has not answered; \<open>nodes\<close> is the length of \<open>matrix.nodes\<close>.\<close>

definition summarize :: "MatrixCell list \<Rightarrow> nat \<Rightarrow> bool list option \<Rightarrow> OverviewSummary" where
  "summarize cells nodes topo =
     (let measured = filter (\<lambda>c. isMeasured (Some c)) cells;
          rated = filter isScored cells;
          failing = filter (\<lambda>c. cellTier (Some c) = tier_bad) rated;
          degraded = filter (\<lambda>c. cellTier (Some c) = tier_warn) rated
      in \<lparr>ov_totalNodes = (case topo of Some ns \<Rightarrow> length ns | None \<Rightarrow> nodes),
          ov_readyNodes = (case topo of Some ns \<Rightarrow> length (filter id ns) | None \<Rightarrow> nodes),
          ov_pairsTotal = length measured, ov_pairsScored = length rated,
          ov_pairsFailing = length failing, ov_pairsDegraded = length degraded,
          ov_worstPairs = take 5 (js_sort compareWorst (failing @ degraded))\<rparr>)"

datatype NodesTile = nt_loading | nt_unavailable | nt_counts nat nat | nt_noInventory nat string

definition nodesTile :: "(bool list \<times> jstring list) option \<Rightarrow> bool \<Rightarrow> nat option \<Rightarrow> NodesTile" where
  "nodesTile topo loading matrix =
     (case topo of
        None \<Rightarrow> if loading then nt_loading else nt_unavailable
      | Some (nodes, agents) \<Rightarrow>
          if 0 < length nodes then nt_counts (length (filter id nodes)) (length nodes)
          else let fromAgents = length (js_set agents)
          in if 0 < fromAgents then nt_noInventory fromAgents ''agents''
             else let fromMatrix = (case matrix of Some n \<Rightarrow> n | None \<Rightarrow> 0)
             in if 0 < fromMatrix then nt_noInventory fromMatrix ''matrix'' else nt_counts 0 0)"

datatype Tone = tone_bad | tone_warn

definition count_line :: "translator \<Rightarrow> nat \<Rightarrow> string \<Rightarrow> string \<Rightarrow> (jstring \<times> tval) list \<Rightarrow> jstring" where
  "count_line t n one many vars = t (if n = 1 then js one else js many) ((js ''count'', TN (jnat n)) # vars)"

definition healthStatement :: "OverviewSummary \<Rightarrow> translator \<Rightarrow> (jstring \<times> Tone option) option" where
  "healthStatement s t =
     (if ov_pairsScored s = 0 then None
      else if 0 < ov_pairsFailing s
      then Some (count_line t (ov_pairsFailing s) ''health.failing.one'' ''health.failing.many'' [], Some tone_bad)
      else if 0 < ov_pairsDegraded s
      then Some (count_line t (ov_pairsDegraded s) ''health.degraded.one'' ''health.degraded.many'' [], Some tone_warn)
      else if ov_pairsScored s < ov_pairsTotal s
      then Some (t (js ''health.healthy.scoped'') [(js ''count'', TN (jnat (ov_pairsScored s)))], None)
      else Some (count_line t (ov_pairsTotal s) ''health.healthy.one'' ''health.healthy.many'' [], None))"

type_synonym plane_summary = "jstring \<times> OverviewSummary"

text \<open>\<open>for (const p of planes) if (f(p) > (best ? f(best) : 0)) best = p\<close>.\<close>

fun pick_most :: "('a \<Rightarrow> nat) \<Rightarrow> 'a option \<Rightarrow> 'a list \<Rightarrow> 'a option" where
  "pick_most f best [] = best"
| "pick_most f best (p # ps) =
     pick_most f (if (case best of Some b \<Rightarrow> f b | None \<Rightarrow> 0) < f p then Some p else best) ps"

fun worst_loop :: "plane_summary option \<Rightarrow> plane_summary list \<Rightarrow> plane_summary option" where
  "worst_loop best [] = best"
| "worst_loop best (p # ps) =
     (let failing = ov_pairsFailing (snd p); degraded = ov_pairsDegraded (snd p)
      in if failing = 0 \<and> degraded = 0 then worst_loop best ps
         else if (case best of
                    None \<Rightarrow> True
                  | Some b \<Rightarrow> ov_pairsFailing (snd b) < failing \<or>
                      failing = ov_pairsFailing (snd b) \<and> ov_pairsDegraded (snd b) < degraded)
         then worst_loop (Some p) ps else worst_loop best ps)"

definition worstDirtyPlane :: "plane_summary list \<Rightarrow> jstring option" where
  "worstDirtyPlane planes = map_option fst (worst_loop None planes)"

definition crossPlaneStatement :: "(jstring \<Rightarrow> jstring) \<Rightarrow> plane_summary list \<Rightarrow> bool \<Rightarrow> translator \<Rightarrow> (jstring \<times> Tone option) option" where
  "crossPlaneStatement upper planes answered t =
     (case pick_most (\<lambda>p. ov_pairsFailing (snd p)) None planes of
        Some p \<Rightarrow>
          Some (count_line t (ov_pairsFailing (snd p)) ''health.failing.one.plane'' ''health.failing.many.plane''
                  [(js ''plane'', TS (upper (fst p)))], Some tone_bad)
      | None \<Rightarrow>
          (case pick_most (\<lambda>p. ov_pairsDegraded (snd p)) None planes of
             Some p \<Rightarrow>
               Some (count_line t (ov_pairsDegraded (snd p)) ''health.degraded.one.plane'' ''health.degraded.many.plane''
                       [(js ''plane'', TS (upper (fst p)))], Some tone_warn)
           | None \<Rightarrow>
               if \<not> answered then None
               else (case pick_most (\<lambda>p. ov_pairsScored (snd p)) None planes of
                       Some p \<Rightarrow> healthStatement (snd p) t
                     | None \<Rightarrow> None)))"

subsection \<open>Counts\<close>

lemma filter_length_mono: "(\<And>x. x \<in> set xs \<Longrightarrow> P x \<Longrightarrow> Q x) \<Longrightarrow> length (filter P xs) \<le> length (filter Q xs)"
  by (induction xs) (auto simp: le_SucI)

lemma scored_measured: "isScored c \<Longrightarrow> isMeasured (Some c)"
  by (simp add: isScored_def isMeasured_def)

lemma length_two_filters: "(\<And>x. \<not> (P x \<and> Q x)) \<Longrightarrow> length (filter P xs) + length (filter Q xs) \<le> length xs"
  by (induction xs) auto

lemma summarize_counts:
  "ov_pairsFailing (summarize cells nodes topo) + ov_pairsDegraded (summarize cells nodes topo) \<le> ov_pairsScored (summarize cells nodes topo)"
  "ov_pairsScored (summarize cells nodes topo) \<le> ov_pairsTotal (summarize cells nodes topo)"
proof -
  show "ov_pairsFailing (summarize cells nodes topo) + ov_pairsDegraded (summarize cells nodes topo) \<le> ov_pairsScored (summarize cells nodes topo)"
    unfolding summarize_def Let_def OverviewSummary.simps by (rule length_two_filters) simp
  show "ov_pairsScored (summarize cells nodes topo) \<le> ov_pairsTotal (summarize cells nodes topo)"
    unfolding summarize_def Let_def OverviewSummary.simps by (rule filter_length_mono) (rule scored_measured)
qed

lemma pick_most_None: "pick_most f None ps = None \<longleftrightarrow> (\<forall>p\<in>set ps. f p = 0)"
proof -
  have some: "pick_most f (Some b) ps \<noteq> None" for b ps by (induction ps arbitrary: b) auto
  show ?thesis by (induction ps) (auto simp: some)
qed

lemma pick_most_best:
  "pick_most f best ps = Some p \<Longrightarrow>
    (best = Some p \<or> p \<in> set ps) \<and> (case best of Some b \<Rightarrow> f b | None \<Rightarrow> 0) \<le> f p \<and> (\<forall>q\<in>set ps. f q \<le> f p)"
proof (induction ps arbitrary: best)
  case (Cons q ps)
  let ?best = "if (case best of Some b \<Rightarrow> f b | None \<Rightarrow> 0) < f q then Some q else best"
  from Cons.prems have "pick_most f ?best ps = Some p" by simp
  from Cons.IH [OF this] show ?case by (cases "(case best of Some b \<Rightarrow> f b | None \<Rightarrow> 0) < f q") auto
qed simp

lemma pick_most_pos: "pick_most f None ps = Some p \<Longrightarrow> 0 < f p"
  using pick_most_best [of f None ps p] pick_most_None [of f ps] by (metis bot_nat_0.not_eq_extremum le_zero_eq option.distinct(1))

subsection \<open>Properties\<close>

text \<open>
  C23: The sentence at the head of the page is the healthy one only when every
  plane answered, none of them has a failing or a degraded pair and some plane has scored pairs; while
  any plane that answered has failing pairs it names the plane with the most of them and their number,
  and a degraded plane is named when none fails. It says nothing only when no plane shows trouble and
  a plane is still out or nothing is scored.
\<close>

theorem crossPlane_health_earned:
  "case crossPlaneStatement upper planes answered t of
     Some (text, None) \<Rightarrow>
       answered \<and> (\<forall>p\<in>set planes. ov_pairsFailing (snd p) = 0 \<and> ov_pairsDegraded (snd p) = 0) \<and> (\<exists>p\<in>set planes. 0 < ov_pairsScored (snd p))
   | Some (text, Some tone_bad) \<Rightarrow>
       (\<exists>p\<in>set planes. 0 < ov_pairsFailing (snd p) \<and> (\<forall>q\<in>set planes. ov_pairsFailing (snd q) \<le> ov_pairsFailing (snd p)) \<and>
          text = count_line t (ov_pairsFailing (snd p)) ''health.failing.one.plane'' ''health.failing.many.plane'' [(js ''plane'', TS (upper (fst p)))])
   | Some (text, Some tone_warn) \<Rightarrow>
       (\<forall>p\<in>set planes. ov_pairsFailing (snd p) = 0) \<and>
       (\<exists>p\<in>set planes. 0 < ov_pairsDegraded (snd p) \<and> (\<forall>q\<in>set planes. ov_pairsDegraded (snd q) \<le> ov_pairsDegraded (snd p)) \<and>
          text = count_line t (ov_pairsDegraded (snd p)) ''health.degraded.one.plane'' ''health.degraded.many.plane'' [(js ''plane'', TS (upper (fst p)))])
   | None \<Rightarrow>
       (\<forall>p\<in>set planes. ov_pairsFailing (snd p) = 0 \<and> ov_pairsDegraded (snd p) = 0) \<and>
       (answered \<longrightarrow> (\<forall>p\<in>set planes. ov_pairsScored (snd p) = 0))"
proof (cases "pick_most (\<lambda>p. ov_pairsFailing (snd p)) None planes")
  case (Some p)
  from pick_most_best [OF Some] pick_most_pos [OF Some]
  have "p \<in> set planes" "0 < ov_pairsFailing (snd p)" "\<forall>q\<in>set planes. ov_pairsFailing (snd q) \<le> ov_pairsFailing (snd p)" by auto
  with Some show ?thesis by (auto simp: crossPlaneStatement_def)
next
  case calm: None
  then have f: "\<forall>p\<in>set planes. ov_pairsFailing (snd p) = 0" by (simp only: pick_most_None)
  show ?thesis
  proof (cases "pick_most (\<lambda>p. ov_pairsDegraded (snd p)) None planes")
    case (Some p)
    from pick_most_best [OF Some] pick_most_pos [OF Some]
    have "p \<in> set planes" "0 < ov_pairsDegraded (snd p)" "\<forall>q\<in>set planes. ov_pairsDegraded (snd q) \<le> ov_pairsDegraded (snd p)" by auto
    with Some calm f show ?thesis by (auto simp: crossPlaneStatement_def)
  next
    case clean: None
    then have d: "\<forall>p\<in>set planes. ov_pairsDegraded (snd p) = 0" by (simp only: pick_most_None)
    show ?thesis
    proof (cases "pick_most (\<lambda>p. ov_pairsScored (snd p)) None planes")
      case None
      then have "\<forall>p\<in>set planes. ov_pairsScored (snd p) = 0" by (simp only: pick_most_None)
      with None calm clean f d show ?thesis by (simp add: crossPlaneStatement_def)
    next
      case (Some p)
      from pick_most_best [OF Some] pick_most_pos [OF Some] have p: "p \<in> set planes" "0 < ov_pairsScored (snd p)" by auto
      with f d have "\<exists>text. healthStatement (snd p) t = Some (text, None)" by (auto simp: healthStatement_def)
      with Some calm clean f d p show ?thesis by (auto simp: crossPlaneStatement_def)
    qed
  qed
qed

definition demo_plane :: "nat \<Rightarrow> OverviewSummary" where
  "demo_plane n = \<lparr>ov_totalNodes = 3, ov_readyNodes = 3, ov_pairsTotal = 6, ov_pairsScored = 6, ov_pairsFailing = n,
     ov_pairsDegraded = 0, ov_worstPairs = []\<rparr>"

theorem crossPlane_health_earned_witness:
  "\<exists>p\<in>set [(js ''tcp'', demo_plane 0), (js ''udp'', demo_plane 2)]. 0 < ov_pairsFailing (snd p)"
proof -
  let ?planes = "[(js ''tcp'', demo_plane 0), (js ''udp'', demo_plane 2)]" and ?t = "\<lambda>k v. k"
  have "\<exists>text. crossPlaneStatement id ?planes False ?t = Some (text, Some tone_bad)"
    by (simp add: crossPlaneStatement_def demo_plane_def)
  with crossPlane_health_earned [where upper = id and planes = ?planes and answered = False and t = ?t] show ?thesis by auto
qed

end
