(* ===== verification/Live_Page.thy ===== *)
theory Live_Page
  imports Live_Events Text_Rules Chart_Overlays
begin

section \<open>The Live page's feed (pages/live.tsx)\<close>

text \<open>
  What the page does with the ring of \<open>Live_Events\<close>: the filters, the count of events that may have
  been missed, and the rows it draws with the annotations between the events. \<open>parse\<close> is
  \<open>Date.parse\<close> and \<open>lower\<close> is \<open>toLowerCase\<close>; an annotation's scope is a string on the wire.

  The lemmas show the count of missed events to be the number of sequence numbers between the first
  and the last that no event has, within one era of the controller, and the rows to be every event in
  the feed's own order and every matching note, newest first.
\<close>

subsection \<open>Filters\<close>

record LiveFilters =
  lf_type :: "LiveEventType option"
  lf_severity :: "severity option"
  lf_scope :: jstring

definition contains :: "jstring \<Rightarrow> jstring \<Rightarrow> bool" where
  "contains hay needle \<longleftrightarrow> index_of hay needle \<noteq> None"

definition filterEvents :: "(jstring \<Rightarrow> jstring) \<Rightarrow> LiveEvent list \<Rightarrow> LiveFilters \<Rightarrow> LiveEvent list" where
  "filterEvents lower events filters =
     (let scope = lower (normalizePairInput (lf_scope filters))
      in filter (\<lambda>e.
           (case lf_type filters of None \<Rightarrow> True | Some ty \<Rightarrow> ev_type e = ty) \<and>
           (case lf_severity filters of None \<Rightarrow> True | Some s \<Rightarrow> ev_severity e = s) \<and>
           (scope = [] \<or> contains (lower (ev_scope e)) scope)) events)"

definition scope_text :: "Annotation \<Rightarrow> jstring" where
  "scope_text a = (case an_scope a of JStr s \<Rightarrow> s | _ \<Rightarrow> [])"

definition annotationMatchesFilters :: "(jstring \<Rightarrow> jstring) \<Rightarrow> Annotation \<Rightarrow> LiveFilters \<Rightarrow> bool" where
  "annotationMatchesFilters lower a filters \<longleftrightarrow>
     lf_type filters = None \<and> lf_severity filters = None \<and>
     (let scope = lower (normalizePairInput (lf_scope filters))
      in scope = [] \<or> scope_text a \<noteq> [] \<and> contains (lower (scope_text a)) scope)"

subsection \<open>Missed events\<close>

definition seq_cmp :: "LiveEvent \<Rightarrow> LiveEvent \<Rightarrow> jsnum" where
  "seq_cmp a b = ev_seq a - ev_seq b"

fun missed_loop :: "date_parse \<Rightarrow> jsnum \<Rightarrow> LiveEvent list \<Rightarrow> jsnum" where
  "missed_loop parse missed (lo # hi # es) =
     (let delta = ev_seq hi - ev_seq lo
      in if delta \<le> Fin 1 then missed_loop parse missed (hi # es)
         else if timeOf parse hi < timeOf parse lo then missed_loop parse missed (hi # es)
         else missed_loop parse (missed + (delta - Fin 1)) (hi # es))"
| "missed_loop parse missed es = missed"

definition counted :: "LiveEvent list \<Rightarrow> LiveEvent list" where
  "counted events = filter (\<lambda>e. is_finite (ev_seq e) \<and> \<not> filteredHistory e) events"

definition countMissedEvents :: "date_parse \<Rightarrow> LiveEvent list \<Rightarrow> jsnum" where
  "countMissedEvents parse events =
     (if length (counted events) < 2 then Fin 0 else missed_loop parse (Fin 0) (js_sort seq_cmp (counted events)))"

subsection \<open>Rows\<close>

datatype FeedRow = Event_row jstring jsnum LiveEvent | Annotation_row jstring jsnum Annotation

fun row_at :: "FeedRow \<Rightarrow> jsnum" where
  "row_at (Event_row k d e) = d"
| "row_at (Annotation_row k d a) = d"

definition event_row_of :: "date_parse \<Rightarrow> nat \<Rightarrow> LiveEvent \<Rightarrow> FeedRow" where
  "event_row_of parse i e =
     Event_row (case ev_id e of Some s \<Rightarrow> if s \<noteq> [] then s else js ''row:'' @ dec i | None \<Rightarrow> js ''row:'' @ dec i) (timeOf parse e) e"

definition annotation_row_of :: "date_parse \<Rightarrow> Annotation \<Rightarrow> FeedRow" where
  "annotation_row_of parse a =
     (let parsed = parse (an_startAt a)
      in Annotation_row (js ''annotation:'' @ an_id a) (if is_nan parsed then NInf else parsed) a)"

definition newest_first :: "FeedRow \<Rightarrow> FeedRow \<Rightarrow> jsnum" where
  "newest_first a b = row_at b - row_at a"

definition mergeFeedRows :: "(jstring \<Rightarrow> jstring) \<Rightarrow> date_parse \<Rightarrow> LiveEvent list \<Rightarrow> Annotation list \<Rightarrow> LiveFilters \<Rightarrow> FeedRow list" where
  "mergeFeedRows lower parse events annotations filters =
     js_sort newest_first
       (map (\<lambda>(i, e). event_row_of parse i e) (enumerate 0 events) @
        map (annotation_row_of parse) (filter (\<lambda>a. annotationMatchesFilters lower a filters) annotations))"

subsection \<open>Sorting keeps what was sorted\<close>

context comparator_on
begin

lemma filter_insert:
  assumes "x \<in> A" "set ys \<subseteq> A" "sorted_wrt before ys"
  shows "filter P (insert_by cmp x ys) = (if P x then insert_by cmp x (filter P ys) else filter P ys)"
  using assms
proof (induction ys)
  case (Cons y ys)
  show ?case
  proof (cases "gt_by cmp x y")
    case True
    with Cons show ?thesis by auto
  next
    case False
    have "before x w" if "w \<in> set (y # ys)" for w
      using trans [of x y w] that False Cons.prems by auto
    then have "insert_by cmp x (filter P (y # ys)) = x # filter P (y # ys)" by (intro insert_front) simp
    with False show ?thesis by simp
  qed
qed simp

lemma filter_sort: "set xs \<subseteq> A \<Longrightarrow> filter P (js_sort cmp xs) = js_sort cmp (filter P xs)"
proof (induction xs)
  case (Cons x xs)
  then show ?case using filter_insert [of x "js_sort cmp xs" P] by (simp add: sort_sorted)
qed simp

end

lemma gt_by_newest_first: "row_at a \<noteq> NaN \<Longrightarrow> row_at b \<noteq> NaN \<Longrightarrow> gt_by newest_first a b \<longleftrightarrow> row_at a < row_at b"
  by (cases "row_at a"; cases "row_at b") (simp_all add: gt_by_def newest_first_def minus_jsnum_def)

definition dated_rows :: "FeedRow set" where
  "dated_rows = {r. row_at r \<noteq> NaN}"

interpretation feed_rows: comparator_on newest_first dated_rows
proof
  fix x y z
  assume xy: "x \<in> dated_rows" "y \<in> dated_rows"
  show "\<not> gt_by newest_first y x" if "gt_by newest_first x y"
    using that xy by (auto simp: dated_rows_def gt_by_newest_first jless_iff)
  assume z: "z \<in> dated_rows" and le: "\<not> gt_by newest_first x y" "\<not> gt_by newest_first y z"
  with xy show "\<not> gt_by newest_first x z"
    by (cases "row_at x"; cases "row_at y"; cases "row_at z") (auto simp: dated_rows_def gt_by_newest_first)
qed

lemma event_row_at: "row_at (event_row_of parse i e) = timeOf parse e"
  by (simp add: event_row_of_def)

lemma annotation_row_dated: "row_at (annotation_row_of parse a) \<noteq> NaN"
  by (simp add: annotation_row_of_def Let_def is_nan_def)

fun row_event :: "FeedRow \<Rightarrow> LiveEvent option" where
  "row_event (Event_row k d e) = Some e"
| "row_event (Annotation_row k d a) = None"

fun row_annotation :: "FeedRow \<Rightarrow> Annotation option" where
  "row_annotation (Annotation_row k d a) = Some a"
| "row_annotation (Event_row k d e) = None"

lemma rows_dated:
  "set (map (\<lambda>(i, e). event_row_of parse i e) (enumerate 0 events) @ map (annotation_row_of parse) notes) \<subseteq> dated_rows"
  by (auto simp: dated_rows_def event_row_at annotation_row_dated)

lemma event_rows_filter:
  "filter (\<lambda>r. row_event r \<noteq> None) (map (\<lambda>(i, e). event_row_of parse i e) (enumerate n events) @ map (annotation_row_of parse) notes) =
    map (\<lambda>(i, e). event_row_of parse i e) (enumerate n events)"
proof -
  have "filter (\<lambda>r. row_event r \<noteq> None) (map (\<lambda>(i, e). event_row_of parse i e) (enumerate n events)) =
      map (\<lambda>(i, e). event_row_of parse i e) (enumerate n events)"
    by (rule filter_True) (auto simp: event_row_of_def)
  moreover have "filter (\<lambda>r. row_event r \<noteq> None) (map (annotation_row_of parse) notes) = []"
    by (rule filter_False) (auto simp: annotation_row_of_def Let_def)
  ultimately show ?thesis by simp
qed

lemma event_rows_sorted:
  assumes "sorted_wrt (\<lambda>a b. timeOf parse b \<le> timeOf parse a) events"
  shows "sorted_wrt (\<lambda>x y. \<not> gt_by newest_first x y) (map (\<lambda>(i, e). event_row_of parse i e) (enumerate n events))"
  using assms
proof (induction events arbitrary: n)
  case (Cons e es)
  have "\<not> gt_by newest_first (event_row_of parse n e) (event_row_of parse m f)" if "f \<in> set es" for f m
    using Cons.prems that by (auto simp: gt_by_newest_first event_row_at jless_iff)
  with Cons show ?case by (auto simp: in_set_enumerate_eq)
qed simp

lemma event_rows_events: "map (\<lambda>r. the (row_event r)) (map (\<lambda>(i, e). event_row_of parse i e) (enumerate n events)) = events"
  by (induction events arbitrary: n) (simp_all add: event_row_of_def)

subsection \<open>The gaps of a sorted list of numbers\<close>

fun gaps :: "int list \<Rightarrow> int" where
  "gaps (a # b # qs) = (if b - a \<le> 1 then 0 else b - a - 1) + gaps (b # qs)"
| "gaps qs = 0"

lemma sorted_last: "sorted (a # qs) \<Longrightarrow> x \<in> set (a # qs) \<Longrightarrow> x \<le> last (a # qs)"
proof (induction qs arbitrary: a)
  case (Cons b qs)
  show ?case
  proof (cases "x = a")
    case True
    with Cons.prems Cons.IH [of b] have "a \<le> b" "b \<le> last (b # qs)" by (auto simp: Cons.IH)
    with True show ?thesis by simp
  next
    case False
    with Cons show ?thesis by simp
  qed
qed simp

lemma gaps_card: "sorted (a # qs) \<Longrightarrow> gaps (a # qs) = int (card ({a..last (a # qs)} - set (a # qs)))"
proof (induction qs arbitrary: a)
  case (Cons b qs)
  have ab: "a \<le> b" and s: "sorted (b # qs)" using Cons.prems by simp_all
  have bl: "b \<le> last (b # qs)" using sorted_last [OF s, of b] by simp
  have qs: "\<forall>q\<in>set qs. b \<le> q" using s by simp
  let ?gap = "{a<..<b}" and ?rest = "{b..last (b # qs)} - set (b # qs)"
  have split: "{a..last (a # b # qs)} - set (a # b # qs) = ?gap \<union> ?rest"
  proof (rule set_eqI)
    fix x
    show "x \<in> {a..last (a # b # qs)} - set (a # b # qs) \<longleftrightarrow> x \<in> ?gap \<union> ?rest"
      using ab bl qs by (cases "x < b") auto
  qed
  have "card (?gap \<union> ?rest) = card ?gap + card ?rest" by (rule card_Un_disjoint) auto
  moreover have "int (card ?gap) = (if b - a \<le> 1 then 0 else b - a - 1)" using ab by simp
  ultimately show ?case using Cons.IH [OF s] split by simp
qed simp

lemma missed_loop_gaps:
  assumes "\<forall>e\<in>set es. ev_seq e = jint (q e)"
    and "\<And>a b. a \<in> set es \<Longrightarrow> b \<in> set es \<Longrightarrow> q a < q b \<Longrightarrow> \<not> timeOf parse b < timeOf parse a"
  shows "missed_loop parse (jint m) es = jint (m + gaps (map q es))"
  using assms
proof (induction es arbitrary: m)
  case lo: (Cons lo es)
  show ?case
  proof (cases es)
    case (Cons hi rest)
    have s: "ev_seq lo = jint (q lo)" "ev_seq hi = jint (q hi)" using lo.prems(1) Cons by simp_all
    then have delta: "ev_seq hi - ev_seq lo = jint (q hi - q lo)" by simp
    have ih: "missed_loop parse (jint n) es = jint (n + gaps (map q es))" for n using lo.IH lo.prems by simp
    have le: "ev_seq hi - ev_seq lo \<le> Fin 1 \<longleftrightarrow> q hi - q lo \<le> 1"
      unfolding delta by (simp add: of_int_le_1_iff [symmetric] del: of_int_diff)
    have step: "missed_loop parse (jint m) (lo # es) =
        missed_loop parse (jint (m + (if q hi - q lo \<le> 1 then 0 else q hi - q lo - 1))) es"
    proof (cases "q hi - q lo \<le> 1")
      case True
      with le show ?thesis by (simp only: Cons missed_loop.simps Let_def if_True add_0_right)
    next
      case False
      have "\<not> timeOf parse hi < timeOf parse lo" using False lo.prems(2) [of lo hi] Cons by simp
      moreover have "jint m + (ev_seq hi - ev_seq lo - Fin 1) = jint (m + (q hi - q lo - 1))" unfolding delta by simp
      ultimately show ?thesis using False le by (simp only: Cons missed_loop.simps Let_def if_False)
    qed
    show ?thesis unfolding step ih by (simp add: Cons)
  qed simp
qed simp

lemma seq_sorted:
  assumes "\<forall>e\<in>set es. ev_seq e = jint (q e)"
  shows "sorted (map q (js_sort seq_cmp es))"
proof -
  have gt: "gt_by seq_cmp x y \<longleftrightarrow> q y < q x" if "x \<in> set es" "y \<in> set es" for x y
    using assms that by (simp add: gt_by_def seq_cmp_def)
  then have "comparator_on seq_cmp (set es)" by (rule comparator_by_key [of _ _ q])
  from comparator_on.sort_sorted [OF this order_refl] have "sorted_wrt (\<lambda>x y. \<not> gt_by seq_cmp x y) (js_sort seq_cmp es)" .
  then have "sorted_wrt (\<lambda>x y. q x \<le> q y) (js_sort seq_cmp es)"
    by (rule sorted_wrt_mono_rel [rotated]) (simp add: gt not_less)
  then show ?thesis by (simp add: sorted_wrt_map)
qed

subsection \<open>Properties\<close>

text \<open>
  C12: Where the counted events, those with a number that the server was not asked
  to filter, have whole numbers and no higher number has an earlier time, the count of missed events
  is how many numbers between the lowest and the highest no counted event has.
\<close>

theorem missed_events_exact:
  assumes "\<forall>e\<in>set (counted events). ev_seq e = jint (q e)" "counted events \<noteq> []"
    and "\<And>a b. a \<in> set (counted events) \<Longrightarrow> b \<in> set (counted events) \<Longrightarrow> q a < q b \<Longrightarrow> \<not> timeOf parse b < timeOf parse a"
  shows "countMissedEvents parse events =
    jint (int (card ({Min (q ` set (counted events))..Max (q ` set (counted events))} - q ` set (counted events))))"
proof (cases "length (counted events) < 2")
  case True
  with assms(2) obtain e where "counted events = [e]" by (cases "counted events") auto
  then show ?thesis by (simp add: countMissedEvents_def)
next
  case False
  let ?s = "js_sort seq_cmp (counted events)"
  have s: "sorted (map q ?s)" using assms(1) by (rule seq_sorted)
  obtain a qs where aqs: "map q ?s = a # qs" using assms(2) by (cases "map q ?s") (simp_all, metis length_0_conv length_js_sort length_map)
  have set: "set (a # qs) = q ` set (counted events)" unfolding aqs [symmetric] by simp
  have "missed_loop parse (jint 0) ?s = jint (0 + gaps (map q ?s))" by (rule missed_loop_gaps) (use assms(1,3) in auto)
  then have "countMissedEvents parse events = jint (gaps (a # qs))" using False by (simp add: countMissedEvents_def aqs)
  moreover have "gaps (a # qs) = int (card ({a..last (a # qs)} - set (a # qs)))" using s unfolding aqs by (rule gaps_card)
  moreover have "Min (set (a # qs)) = a" using s unfolding aqs by (intro Min_eqI) auto
  moreover have "Max (set (a # qs)) = last (a # qs)"
  proof (rule Max_eqI)
    fix y assume "y \<in> set (a # qs)"
    with s show "y \<le> last (a # qs)" unfolding aqs by (rule sorted_last)
  qed (simp_all only: finite_set last_in_set list.distinct not_False_eq_True)
  ultimately show ?thesis unfolding set [symmetric] by (simp only:)
qed

definition demo_event :: "int \<Rightarrow> LiveEvent" where
  "demo_event n = \<lparr>ev_id = None, ev_seq = jint n, ev_type = check_observed, ev_severity = sev_info, ev_scope = [], ev_timestamp = [],
     ev_summary = [], ev_details = JNull, filteredHistory = False\<rparr>"

theorem missed_events_exact_witness: "countMissedEvents (\<lambda>_. Fin 0) [demo_event 7, demo_event 3, demo_event 4] = jint 2"
proof -
  let ?es = "[demo_event 7, demo_event 3, demo_event 4]"
  define q where "q e = (if ev_seq e = jint 7 then 7 else if ev_seq e = jint 3 then 3 else (4::int))" for e :: LiveEvent
  have c: "counted ?es = ?es" by (simp add: counted_def demo_event_def)
  have q: "q ` set ?es = {3, 4, 7}" by (auto simp: q_def demo_event_def)
  have "countMissedEvents (\<lambda>_. Fin 0) ?es =
      jint (int (card ({Min (q ` set (counted ?es))..Max (q ` set (counted ?es))} - q ` set (counted ?es))))"
    by (rule missed_events_exact) (unfold c, auto simp: q_def demo_event_def timeOf_def)
  also have "{Min (q ` set (counted ?es))..Max (q ` set (counted ?es))} - q ` set (counted ?es) = {5, 6}"
    unfolding c q by (auto simp: Min_insert2)
  finally show ?thesis by simp
qed

text \<open>
  The drawn rows are every event of the feed in its own newest-first order,
  every note that matches the filters and nothing else, and they run newest first.
\<close>

lemma mergeFeedRows_keeps_feed:
  assumes "sorted_wrt (\<lambda>a b. timeOf parse b \<le> timeOf parse a) events"
  shows "map (\<lambda>r. the (row_event r)) (filter (\<lambda>r. row_event r \<noteq> None) (mergeFeedRows lower parse events annotations filters)) = events \<and>
    mset (map (\<lambda>r. the (row_annotation r)) (filter (\<lambda>r. row_event r = None) (mergeFeedRows lower parse events annotations filters))) =
      mset (filter (\<lambda>a. annotationMatchesFilters lower a filters) annotations) \<and>
    sorted_wrt (\<lambda>x y. \<not> row_at x < row_at y) (mergeFeedRows lower parse events annotations filters)"
proof -
  let ?notes = "filter (\<lambda>a. annotationMatchesFilters lower a filters) annotations"
  let ?ev = "map (\<lambda>(i, e). event_row_of parse i e) (enumerate 0 events)" and ?an = "map (annotation_row_of parse) ?notes"
  have dated: "set (?ev @ ?an) \<subseteq> dated_rows" by (rule rows_dated)
  have m: "mergeFeedRows lower parse events annotations filters = js_sort newest_first (?ev @ ?an)"
    by (simp only: mergeFeedRows_def)
  have "filter (\<lambda>r. row_event r \<noteq> None) (js_sort newest_first (?ev @ ?an)) = js_sort newest_first ?ev"
    unfolding feed_rows.filter_sort [OF dated] event_rows_filter ..
  also have "\<dots> = ?ev" by (rule feed_rows.sort_id) (rule event_rows_sorted [OF assms])
  finally have ev: "map (\<lambda>r. the (row_event r)) (filter (\<lambda>r. row_event r \<noteq> None) (js_sort newest_first (?ev @ ?an))) = events"
    by (simp only: event_rows_events)
  have none: "filter (\<lambda>r. row_event r = None) (?ev @ ?an) = ?an"
    by (induction events) (auto simp: filter_empty_conv event_row_of_def annotation_row_of_def Let_def filter_True)
  have "filter (\<lambda>r. row_event r = None) (js_sort newest_first (?ev @ ?an)) = js_sort newest_first ?an"
    unfolding feed_rows.filter_sort [OF dated] none ..
  then have an: "mset (map (\<lambda>r. the (row_annotation r)) (filter (\<lambda>r. row_event r = None) (js_sort newest_first (?ev @ ?an)))) = mset ?notes"
    by (simp add: image_mset.compositionality comp_def annotation_row_of_def Let_def)
  have "sorted_wrt (\<lambda>x y. \<not> row_at x < row_at y) (js_sort newest_first (?ev @ ?an))"
  proof (rule sorted_wrt_mono_rel [OF _ feed_rows.sort_sorted [OF dated]])
    fix x y assume "x \<in> set (js_sort newest_first (?ev @ ?an))" "y \<in> set (js_sort newest_first (?ev @ ?an))"
      and gt: "\<not> gt_by newest_first x y"
    then have "x \<in> dated_rows" "y \<in> dated_rows" using dated by auto
    with gt show "\<not> row_at x < row_at y" by (simp add: dated_rows_def gt_by_newest_first)
  qed
  with ev an show ?thesis unfolding m by blast
qed

end
