(* ===== verification/Investigate_Page.thy ===== *)
theory Investigate_Page
  imports Investigation_Scope Time_Machine
begin

section \<open>What the Incidents page frames (pages/investigate.tsx)\<close>

text \<open>
  The scope and window on screen, the address that names them and the incident they were saved
  under, as one state with an operation per handler and effect. The browser and the translator are
  the fields of the record \<open>browser_calls\<close>: \<open>br_query\<close> is \<open>new URLSearchParams(s)\<close>, \<open>br_print\<close> its
  \<open>toString\<close>, \<open>br_date\<close> is \<open>new Date(s)\<close> and \<open>br_iso\<close> is \<open>toISOString\<close>. The history methods call
  the page's location listener before they return, as \<open>lib/location.ts\<close> makes them. A handler runs
  to its end before the page renders again, which is when the refs take the new values.

  The window is shown real, non-empty and never past the instant being viewed in every reachable
  state, and the address the page corrects to be read back as the very same frame.
\<close>

record browser_calls =
  br_query :: "jstring \<Rightarrow> search_params"
  br_print :: "search_params \<Rightarrow> jstring"
  br_date :: "jstring \<Rightarrow> date"
  br_iso :: "date \<Rightarrow> jstring"
  br_t :: translator

datatype RangePreset = range_15m | range_1h | range_6h | range_custom

fun preset_seconds :: "RangePreset \<Rightarrow> jsnum" where
  "preset_seconds range_15m = Fin 900"
| "preset_seconds range_1h = Fin 3600"
| "preset_seconds range_6h = Fin 21600"
| "preset_seconds range_custom = Fin 0"

definition RANGE_PRESETS :: "RangePreset list" where
  "RANGE_PRESETS = [range_15m, range_1h, range_6h, range_custom]"

definition presetForSpan :: "date \<Rightarrow> date \<Rightarrow> RangePreset" where
  "presetForSpan from_at to_at =
     (let seconds = jround ((to_at - from_at) / Fin 1000)
      in case find (\<lambda>p. preset_seconds p = seconds) RANGE_PRESETS of Some p \<Rightarrow> p | None \<Rightarrow> range_custom)"

definition scopeHeadline :: "translator \<Rightarrow> 'a InvestigationScope_scheme \<Rightarrow> jstring" where
  "scopeHeadline t scope =
     (case sc_kind scope of
        sk_pair \<Rightarrow> sc_a scope @ js '' '' @ PAIR_SEPARATOR @ js '' '' @ sc_b scope
      | sk_zone_pair \<Rightarrow> t (js ''scope.headline.zonePair'')
          [(js ''a'', TS (sc_a scope)), (js ''sep'', TS PAIR_SEPARATOR), (js ''b'', TS (sc_b scope))]
      | sk_cluster \<Rightarrow> t (js ''scope.headline.cluster'') []
      | _ \<Rightarrow> if sc_a scope = [] then t (js ''scope.headline.empty'') [] else sc_a scope)"

text \<open>\<open>url.search\<close> once \<open>url.searchParams\<close> has been changed.\<close>

definition url_search :: "browser_calls \<Rightarrow> search_params \<Rightarrow> jstring" where
  "url_search br ps = (if ps = [] then [] else js ''?'' @ br_print br ps)"

definition without_params :: "jstring list \<Rightarrow> search_params \<Rightarrow> search_params" where
  "without_params ks ps = fold params_delete ks ps"

definition paramsHref :: "browser_calls \<Rightarrow> jstring \<Rightarrow> InvestigationParams \<Rightarrow> jstring" where
  "paramsHref br search p =
     (let kept = without_params [js ''kind'', js ''scope'', js ''from'', js ''to'', js ''incident''] (br_query br search);
          own = br_query br (drop 1 (investigationParamsToSearch (br_print br) (br_iso br) p))
      in url_search br (fold (\<lambda>(k, v). params_set k v) own kept))"

record Hydrated =
  hy_params :: InvestigationParams
  hy_clamped :: bool
  hy_error :: "jstring option"
  hy_ignored :: "jstring list"

definition last_hour :: "InvestigationParams \<Rightarrow> date \<Rightarrow> InvestigationParams" where
  "last_hour p anchor = p\<lparr>ip_from := new_date (anchor - DEFAULT_RANGE_SECONDS * Fin 1000), ip_to := anchor\<rparr>"

definition instant_or :: "date option \<Rightarrow> date \<Rightarrow> date" where
  "instant_or viewed now = (case viewed of Some d \<Rightarrow> d | None \<Rightarrow> now)"

definition hydrateInvestigation :: "browser_calls \<Rightarrow> jstring \<Rightarrow> date \<Rightarrow> date option \<Rightarrow> Hydrated" where
  "hydrateInvestigation br search now viewed =
     (let parsed = parseInvestigationParams (br_query br) (br_date br) search now;
          ignored = ignoredInvestigationParams (br_query br) (br_date br) search
      in case commitWindow (br_t br) (ip_from parsed) (ip_to parsed) viewed of
           Committed a b clamped \<Rightarrow>
             \<lparr>hy_params = parsed\<lparr>ip_from := a, ip_to := b\<rparr>, hy_clamped = clamped, hy_error = None, hy_ignored = ignored\<rparr>
         | Refused reason \<Rightarrow>
             \<lparr>hy_params = last_hour parsed (instant_or viewed now), hy_clamped = False, hy_error = Some reason, hy_ignored = ignored\<rparr>)"

definition readIncidentParam :: "browser_calls \<Rightarrow> jstring \<Rightarrow> jstring option" where
  "readIncidentParam br search =
     (case map_of (br_query br search) (js ''incident'') of
        None \<Rightarrow> None
      | Some raw \<Rightarrow> if trim raw = [] then None else Some raw)"

subsection \<open>The page\<close>

text \<open>
  \<open>pg_search\<close> is \<open>window.location.search\<close>. \<open>pg_at\<close> is the viewed instant of the last render, which
  \<open>atRef\<close> repeats, and \<open>pg_incidentIdRef\<close> the incident id of the last render.
\<close>

record investigate_page =
  pg_search :: jstring
  pg_applied :: jstring
  pg_at :: "date option"
  pg_atMs :: "date option"
  pg_firstGate :: bool
  pg_params :: InvestigationParams
  pg_commitError :: "jstring option"
  pg_clamped :: bool
  pg_ignored :: "jstring list"
  pg_incidentId :: "jstring option"
  pg_incidentIdRef :: "jstring option"
  pg_missingIncidentId :: "jstring option"
  pg_hydratedRef :: "jstring option"
  pg_saveOpen :: bool
  pg_draft :: InvestigationScope
  pg_preset :: RangePreset
  pg_customFrom :: date
  pg_customTo :: date

definition scope_of :: "'a InvestigationScope_scheme \<Rightarrow> InvestigationScope" where
  "scope_of p = \<lparr>sc_kind = sc_kind p, sc_a = sc_a p, sc_b = sc_b p\<rparr>"

definition set_window :: "InvestigationParams \<Rightarrow> investigate_page \<Rightarrow> investigate_page" where
  "set_window p s =
     s\<lparr>pg_params := p, pg_preset := presetForSpan (ip_from p) (ip_to p), pg_customFrom := ip_from p, pg_customTo := ip_to p\<rparr>"

text \<open>The listener's own work on an address it has not applied yet.\<close>

definition take_location :: "browser_calls \<Rightarrow> date \<Rightarrow> investigate_page \<Rightarrow> investigate_page" where
  "take_location br now s =
     (let nextIncident = readIncidentParam br (pg_search s);
          next = hydrateInvestigation br (pg_search s) now (pg_at s)
      in (set_window (hy_params next) s)\<lparr>
           pg_applied := pg_search s,
           pg_hydratedRef := (if nextIncident \<noteq> pg_incidentIdRef s then None else pg_hydratedRef s),
           pg_incidentId := nextIncident, pg_missingIncidentId := None, pg_draft := scope_of (hy_params next),
           pg_saveOpen := False, pg_commitError := hy_error next, pg_clamped := hy_clamped next,
           pg_ignored := hy_ignored next\<rparr>)"

definition needs_correction :: "Hydrated \<Rightarrow> jstring option \<Rightarrow> bool" where
  "needs_correction h incidentParam \<longleftrightarrow>
     incidentParam = None \<and> \<not> (hy_ignored h = [] \<and> \<not> hy_clamped h \<and> hy_error h = None)"

text \<open>The two assignments of \<open>writeParamsApplied\<close>: the ref, then the address.\<close>

definition record_applied :: "browser_calls \<Rightarrow> InvestigationParams \<Rightarrow> investigate_page \<Rightarrow> investigate_page" where
  "record_applied br p s =
     s\<lparr>pg_applied := paramsHref br (pg_search s) p, pg_search := paramsHref br (pg_search s) p\<rparr>"

text \<open>The listener; the address it corrects calls it again.\<close>

function on_location :: "browser_calls \<Rightarrow> date \<Rightarrow> investigate_page \<Rightarrow> investigate_page" where
  "on_location br now s =
     (if pg_search s = pg_applied s then s
      else if needs_correction (hydrateInvestigation br (pg_search s) now (pg_at s)) (readIncidentParam br (pg_search s))
      then on_location br now (record_applied br (hy_params (hydrateInvestigation br (pg_search s) now (pg_at s))) (take_location br now s))
      else take_location br now s)"
  by pat_completeness auto
termination
  by (relation "measure (\<lambda>(br, now, s). if pg_search s = pg_applied s then 0 else 1)") (auto simp: record_applied_def)

declare on_location.simps [simp del]

definition writeParamsApplied :: "browser_calls \<Rightarrow> date \<Rightarrow> InvestigationParams \<Rightarrow> investigate_page \<Rightarrow> investigate_page" where
  "writeParamsApplied br now p s = on_location br now (record_applied br p s)"

definition correctURL :: "browser_calls \<Rightarrow> date \<Rightarrow> Hydrated \<Rightarrow> jstring option \<Rightarrow> investigate_page \<Rightarrow> investigate_page" where
  "correctURL br now h incidentParam s =
     (if needs_correction h incidentParam then writeParamsApplied br now (hy_params h) s else s)"

text \<open>A history method called with an address whose search is \<open>search\<close>.\<close>

definition to_search :: "browser_calls \<Rightarrow> date \<Rightarrow> jstring \<Rightarrow> investigate_page \<Rightarrow> investigate_page" where
  "to_search br now search s = on_location br now (s\<lparr>pg_search := search\<rparr>)"

definition render_page :: "investigate_page \<Rightarrow> investigate_page" where
  "render_page s = s\<lparr>pg_incidentIdRef := pg_incidentId s\<rparr>"

text \<open>The effect on the viewed instant.\<close>

definition gate_effect :: "browser_calls \<Rightarrow> date \<Rightarrow> investigate_page \<Rightarrow> investigate_page" where
  "gate_effect br now s =
     (if \<not> pg_firstGate s \<and> pg_at s = pg_atMs s then s
      else let s' = s\<lparr>pg_firstGate := False, pg_atMs := pg_at s\<rparr>
           in case pg_at s of
                None \<Rightarrow> s'
              | Some instant \<Rightarrow>
                  (let commit = commitWindow (br_t br) (ip_from (pg_params s)) (ip_to (pg_params s)) (Some instant);
                       finish = (\<lambda>next s'. if readIncidentParam br (pg_search s') = None then writeParamsApplied br now next s' else s')
                   in case commit of
                        Committed a b clamped \<Rightarrow>
                          if \<not> clamped then s'
                          else let next = (pg_params s)\<lparr>ip_from := a, ip_to := b\<rparr>
                               in finish next ((set_window next s')\<lparr>pg_clamped := True, pg_commitError := None\<rparr>)
                      | Refused reason \<Rightarrow>
                          let next = last_hour (pg_params s) instant
                          in finish next ((set_window next s')\<lparr>pg_clamped := False, pg_commitError := Some reason\<rparr>)))"

definition mount_page :: "browser_calls \<Rightarrow> date \<Rightarrow> jstring \<Rightarrow> date option \<Rightarrow> investigate_page" where
  "mount_page br now search viewed =
     (let h = hydrateInvestigation br search now viewed;
          p = hy_params h;
          incident = readIncidentParam br search;
          s = \<lparr>pg_search = search, pg_applied = search, pg_at = viewed, pg_atMs = viewed, pg_firstGate = True,
               pg_params = p, pg_commitError = hy_error h, pg_clamped = hy_clamped h, pg_ignored = hy_ignored h,
               pg_incidentId = incident, pg_incidentIdRef = incident, pg_missingIncidentId = None, pg_hydratedRef = None,
               pg_saveOpen = False, pg_draft = scope_of p, pg_preset = presetForSpan (ip_from p) (ip_to p),
               pg_customFrom = ip_from p, pg_customTo = ip_to p\<rparr>
      in render_page (gate_effect br now (correctURL br now h incident s)))"

definition view_instant :: "browser_calls \<Rightarrow> date \<Rightarrow> date option \<Rightarrow> investigate_page \<Rightarrow> investigate_page" where
  "view_instant br now viewed s = render_page (gate_effect br now (s\<lparr>pg_at := viewed\<rparr>))"

definition rangeReason :: "browser_calls \<Rightarrow> investigate_page \<Rightarrow> jstring option" where
  "rangeReason br s =
     (if pg_preset s \<noteq> range_custom then None
      else case commitWindow (br_t br) (pg_customFrom s) (pg_customTo s) (pg_at s) of
             Committed _ _ _ \<Rightarrow> None
           | Refused reason \<Rightarrow> Some reason)"

text \<open>The button of the form. \<open>writeParams\<close> returns only after the listener has run.\<close>

definition apply_form :: "browser_calls \<Rightarrow> date \<Rightarrow> investigate_page \<Rightarrow> investigate_page" where
  "apply_form br now s =
     (if scopeIncompleteReason (br_t br) (pg_draft s) \<noteq> None \<or> rangeReason br s \<noteq> None then s
      else let rawFrom = (if pg_preset s = range_custom then pg_customFrom s
                          else new_date (now - preset_seconds (pg_preset s) * Fin 1000));
               rawTo = (if pg_preset s = range_custom then pg_customTo s else now)
           in case commitWindow (br_t br) rawFrom rawTo (pg_at s) of
                Refused reason \<Rightarrow> s\<lparr>pg_commitError := Some reason\<rparr>
              | Committed a b clamped \<Rightarrow>
                  (let next = \<lparr>sc_kind = sc_kind (pg_draft s), sc_a = sc_a (pg_draft s), sc_b = sc_b (pg_draft s),
                               ip_from = a, ip_to = b\<rparr>;
                       search = paramsHref br (pg_search s) next;
                       s = (to_search br now search s)\<lparr>pg_applied := search\<rparr>;
                       s = s\<lparr>pg_params := next, pg_commitError := None, pg_clamped := clamped\<rparr>;
                       s = (if clamped then s\<lparr>pg_preset := range_custom, pg_customFrom := a, pg_customTo := b\<rparr> else s)
                   in render_page (s\<lparr>pg_incidentId := None, pg_missingIncidentId := None, pg_ignored := [], pg_saveOpen := False\<rparr>)))"

text \<open>The form's fields: the names, the preset and the two pickers.\<close>

definition edit_form :: "InvestigationScope \<Rightarrow> RangePreset \<Rightarrow> date \<Rightarrow> date \<Rightarrow> investigate_page \<Rightarrow> investigate_page" where
  "edit_form draft preset from_at to_at s =
     s\<lparr>pg_draft := draft, pg_preset := preset, pg_customFrom := from_at, pg_customTo := to_at\<rparr>"

definition changeKind :: "ScopeKind \<Rightarrow> investigate_page \<Rightarrow> investigate_page" where
  "changeKind kind s = s\<lparr>pg_draft := \<lparr>sc_kind = kind, sc_a = [], sc_b = []\<rparr>\<rparr>"

definition writeIncidentParam :: "browser_calls \<Rightarrow> jstring \<Rightarrow> jstring \<Rightarrow> jstring" where
  "writeIncidentParam br search i =
     url_search br (params_set (js ''incident'') i
       (without_params [js ''kind'', js ''scope'', js ''from'', js ''to''] (br_query br search)))"

text \<open>What \<open>saveIncident\<close> does once the server has answered with the id of the new row.\<close>

definition incident_saved :: "browser_calls \<Rightarrow> date \<Rightarrow> jstring \<Rightarrow> investigate_page \<Rightarrow> investigate_page" where
  "incident_saved br now i s =
     (let search = writeIncidentParam br (pg_search s) i;
          s = s\<lparr>pg_hydratedRef := Some i, pg_incidentId := Some i, pg_saveOpen := False\<rparr>
      in render_page ((to_search br now search s)\<lparr>pg_applied := search\<rparr>))"

text \<open>The effect that frames a saved row, for the row the query of \<open>pg_incidentId\<close> answered.\<close>

definition incident_effect :: "browser_calls \<Rightarrow> date \<Rightarrow> jstring list \<Rightarrow> Incident \<Rightarrow> investigate_page \<Rightarrow> investigate_page" where
  "incident_effect br now targetNames incident s =
     (if pg_hydratedRef s = Some (in_id incident) then s
      else let instant = instant_or (pg_at s) now;
               saved = incidentParams (br_date br) incident targetNames instant;
               commit = commitWindow (br_t br) (ip_from saved) (ip_to saved) (pg_at s);
               next = (case commit of Committed a b _ \<Rightarrow> saved\<lparr>ip_from := a, ip_to := b\<rparr> | Refused _ \<Rightarrow> last_hour saved instant)
           in (set_window next s)\<lparr>
                pg_hydratedRef := Some (in_id incident), pg_draft := scope_of next,
                pg_clamped := (case commit of Committed _ _ clamped \<Rightarrow> clamped | Refused _ \<Rightarrow> False),
                pg_commitError := (case commit of Committed _ _ _ \<Rightarrow> None | Refused reason \<Rightarrow> Some reason)\<rparr>)"

text \<open>The effect of a 404 on the incident's query.\<close>

definition incident_gone :: "browser_calls \<Rightarrow> date \<Rightarrow> investigate_page \<Rightarrow> investigate_page" where
  "incident_gone br now s =
     (if pg_incidentId s = None then s
      else let search = url_search br (params_delete (js ''incident'') (br_query br (pg_search s)));
               s = s\<lparr>pg_missingIncidentId := pg_incidentId s, pg_incidentId := None, pg_hydratedRef := None, pg_applied := search\<rparr>
           in render_page (to_search br now search s))"

definition onIncidentDeleted :: "browser_calls \<Rightarrow> date \<Rightarrow> investigate_page \<Rightarrow> investigate_page" where
  "onIncidentDeleted br now s =
     (let kept = (case map_of (br_query br (pg_search s)) (js ''at'') of None \<Rightarrow> [] | Some a \<Rightarrow> [(js ''at'', a)])
      in render_page (to_search br now (url_search br kept) (s\<lparr>pg_hydratedRef := None\<rparr>)))"

subsection \<open>Sessions\<close>

datatype page_event =
    Navigated jstring
  | Viewed "date option"
  | Pressed
  | Edited InvestigationScope RangePreset date date
  | Kind_changed ScopeKind
  | Saved jstring
  | Row_read "jstring list" Incident
  | Row_missing
  | Row_deleted

fun page_step :: "browser_calls \<Rightarrow> date \<Rightarrow> page_event \<Rightarrow> investigate_page \<Rightarrow> investigate_page" where
  "page_step br now (Navigated search) s = render_page (to_search br now search s)"
| "page_step br now (Viewed viewed) s = view_instant br now viewed s"
| "page_step br now Pressed s = apply_form br now s"
| "page_step br now (Edited draft preset f u) s = edit_form draft preset f u s"
| "page_step br now (Kind_changed k) s = changeKind k s"
| "page_step br now (Saved i) s = incident_saved br now i s"
| "page_step br now (Row_read names row) s = (if pg_incidentId s = Some (in_id row) then incident_effect br now names row s else s)"
| "page_step br now Row_missing s = incident_gone br now s"
| "page_step br now Row_deleted s = onIncidentDeleted br now s"

text \<open>
  What is relied on: a printed query reads back, with or without the question mark; a real instant
  printed reads back; and a date read from text is a real instant or \<open>Invalid Date\<close>.
\<close>

definition browser_ok :: "browser_calls \<Rightarrow> bool" where
  "browser_ok br \<longleftrightarrow>
     br_query br [] = [] \<and>
     (\<forall>ps. br_query br (br_print br ps) = ps \<and> br_query br (js ''?'' @ br_print br ps) = ps) \<and>
     (\<forall>d. valid_date d \<longrightarrow> br_iso br d \<noteq> [] \<and> br_date br (br_iso br d) = d) \<and>
     (\<forall>s. valid_date (br_date br s) \<or> br_date br s = NaN)"

text \<open>An instant with an hour before it in the calendar.\<close>

definition anchor_ok :: "date \<Rightarrow> bool" where
  "anchor_ok d \<longleftrightarrow> valid_date d \<and> valid_date (new_date (d - DEFAULT_RANGE_SECONDS * Fin 1000))"

definition date_ok :: "date \<Rightarrow> bool" where
  "date_ok d \<longleftrightarrow> valid_date d \<or> d = NaN"

fun event_ok :: "page_event \<Rightarrow> bool" where
  "event_ok (Viewed viewed) \<longleftrightarrow> pred_option anchor_ok viewed"
| "event_ok (Edited draft preset f u) \<longleftrightarrow> date_ok f \<and> date_ok u"
| "event_ok (Saved i) \<longleftrightarrow> trim i \<noteq> []"
| "event_ok e \<longleftrightarrow> True"

inductive page_reach :: "browser_calls \<Rightarrow> investigate_page \<Rightarrow> bool" for br where
  mounted: "anchor_ok now \<Longrightarrow> pred_option anchor_ok viewed \<Longrightarrow> page_reach br (mount_page br now search viewed)"
| stepped: "page_reach br s \<Longrightarrow> anchor_ok now \<Longrightarrow> event_ok e \<Longrightarrow> page_reach br (page_step br now e s)"

definition window_ok :: "date option \<Rightarrow> InvestigationParams \<Rightarrow> bool" where
  "window_ok viewed p \<longleftrightarrow>
     valid_date (ip_from p) \<and> valid_date (ip_to p) \<and> ip_from p < ip_to p \<and> pred_option (\<lambda>i. ip_to p \<le> i) viewed"

definition page_inv :: "investigate_page \<Rightarrow> bool" where
  "page_inv s \<longleftrightarrow>
     pg_applied s = pg_search s \<and> window_ok (pg_at s) (pg_params s) \<and> pred_option anchor_ok (pg_at s) \<and>
     pg_atMs s = pg_at s \<and> \<not> pg_firstGate s \<and> pg_incidentIdRef s = pg_incidentId s \<and>
     date_ok (pg_customFrom s) \<and> date_ok (pg_customTo s)"

subsection \<open>Windows\<close>

lemma anchor_ok_valid: "anchor_ok d \<Longrightarrow> valid_date d"
  by (simp add: anchor_ok_def)

lemma new_date_ok: "date_ok (new_date x)"
proof (cases x)
  case (Fin r)
  show ?thesis
  proof (cases "\<bar>r\<bar> \<le> MAX_TIME")
    case True
    then show ?thesis using new_date_valid [OF True] by (simp only: date_ok_def Fin simp_thms)
  qed (simp add: date_ok_def Fin)
qed (simp_all add: date_ok_def)

lemma last_hour_ok:
  assumes "anchor_ok i" "pred_option (\<lambda>d. i \<le> d) viewed"
  shows "window_ok viewed (last_hour p i)"
proof -
  obtain n where n: "i = jint n" using assms(1) by (auto simp: anchor_ok_def valid_date_def)
  have shift: "i - DEFAULT_RANGE_SECONDS * Fin 1000 = jint (n - 3600000)"
    by (simp add: n DEFAULT_RANGE_SECONDS_def)
  have v: "valid_date (new_date (jint (n - 3600000)))" using assms(1) by (simp only: anchor_ok_def shift)
  then have "\<bar>of_int (n - 3600000) :: rat\<bar> \<le> MAX_TIME"
    by (rule contrapos_pp) (simp add: valid_date_def)
  then have e: "new_date (jint (n - 3600000)) = jint (n - 3600000)" by (rule new_date_jint)
  have "ip_from (last_hour p i) = new_date (i - DEFAULT_RANGE_SECONDS * Fin 1000)" "ip_to (last_hour p i) = jint n"
    by (simp_all add: last_hour_def n del: new_date.simps)
  then have "ip_from (last_hour p i) = jint (n - 3600000)" "ip_to (last_hour p i) = jint n" by (simp_all only: shift e)
  moreover have "jint (n - 3600000) < jint n" by simp
  moreover have "valid_date (jint (n - 3600000))" using v by (simp only: e)
  ultimately show ?thesis using assms by (simp only: window_ok_def anchor_ok_def n simp_thms)
qed

lemma commit_ok:
  assumes "commitWindow t f u viewed = Committed a b clamped" "date_ok f" "date_ok u" "pred_option valid_date viewed"
  shows "a = f \<and> window_ok viewed (p\<lparr>ip_from := a, ip_to := b\<rparr>) \<and> (\<not> clamped \<longrightarrow> b = u)"
proof -
  have fin: "is_finite f" "is_finite u" using assms(1) by (auto simp: commitWindow_def split: if_splits option.splits)
  then have v: "valid_date f" "valid_date u" using assms(2,3) by (auto simp: date_ok_def)
  show ?thesis
  proof (cases viewed)
    case None
    then show ?thesis using assms(1) v fin by (auto simp: commitWindow_def window_ok_def is_finite_iff split: if_splits)
  next
    case (Some i)
    then have "valid_date i" "is_finite i" using assms(4) by (auto simp: valid_date_finite)
    then show ?thesis using Some assms(1) v fin
      by (auto simp: commitWindow_def window_ok_def is_finite_iff split: if_splits)
  qed
qed

lemma commit_keeps:
  assumes "window_ok viewed p" "pred_option valid_date viewed"
  shows "commitWindow t (ip_from p) (ip_to p) viewed = Committed (ip_from p) (ip_to p) False"
proof -
  have "is_finite (ip_from p)" "is_finite (ip_to p)" using assms(1) by (simp_all add: window_ok_def valid_date_finite)
  moreover have "is_finite i" if "viewed = Some i" for i using assms(2) that by (simp add: valid_date_finite)
  ultimately show ?thesis using assms(1)
    by (cases viewed) (auto simp: commitWindow_def window_ok_def is_finite_iff)
qed

lemma parsed_dates:
  assumes "browser_ok br" "anchor_ok now"
  shows "valid_date (ip_from (parseInvestigationParams (br_query br) (br_date br) search now)) \<and>
         valid_date (ip_to (parseInvestigationParams (br_query br) (br_date br) search now))"
proof -
  have "\<forall>s. valid_date (br_date br s) \<or> br_date br s = NaN" using assms(1) by (simp add: browser_ok_def)
  from parseInvestigationParams_valid [OF this anchor_ok_valid [OF assms(2)] refl] show ?thesis by blast
qed

lemma anchors_valid: "pred_option anchor_ok viewed \<Longrightarrow> pred_option valid_date viewed"
  by (cases viewed) (simp_all add: anchor_ok_valid)

lemma instant_or_ok:
  assumes "anchor_ok now" "pred_option anchor_ok viewed"
  shows "anchor_ok (instant_or viewed now) \<and> pred_option (\<lambda>d. instant_or viewed now \<le> d) viewed"
  using assms by (cases viewed) (auto simp: instant_or_def anchor_ok_def valid_date_def)

lemma framed_ok:
  assumes "date_ok (ip_from p)" "date_ok (ip_to p)" "anchor_ok i" "pred_option (\<lambda>d. i \<le> d) viewed" "pred_option valid_date viewed"
  shows "window_ok viewed (case commitWindow t (ip_from p) (ip_to p) viewed of
      Committed a b c \<Rightarrow> p\<lparr>ip_from := a, ip_to := b\<rparr> | Refused r \<Rightarrow> last_hour p i)"
proof (cases "commitWindow t (ip_from p) (ip_to p) viewed")
  case (Committed a b c)
  have "window_ok viewed (p\<lparr>ip_from := a, ip_to := b\<rparr>)" using commit_ok [OF Committed assms(1,2,5)] by blast
  then show ?thesis by (simp only: Committed WindowCommit.case)
next
  case (Refused r)
  then show ?thesis using last_hour_ok [OF assms(3,4)] by simp
qed

lemma hydrate_params:
  "hy_params (hydrateInvestigation br search now viewed) =
     (let p = parseInvestigationParams (br_query br) (br_date br) search now
      in case commitWindow (br_t br) (ip_from p) (ip_to p) viewed of
           Committed a b c \<Rightarrow> p\<lparr>ip_from := a, ip_to := b\<rparr> | Refused r \<Rightarrow> last_hour p (instant_or viewed now))"
  by (simp add: hydrateInvestigation_def Let_def split: WindowCommit.split)

lemma hydrate_ok:
  assumes "browser_ok br" "anchor_ok now" "pred_option anchor_ok viewed"
  shows "window_ok viewed (hy_params (hydrateInvestigation br search now viewed))"
  unfolding hydrate_params Let_def
  using parsed_dates [OF assms(1,2)] instant_or_ok [OF assms(2,3)] anchors_valid [OF assms(3)]
  by (intro framed_ok) (simp_all add: date_ok_def)

subsection \<open>The address\<close>

lemma query_url_search: "browser_ok br \<Longrightarrow> br_query br (url_search br ps) = ps"
  by (simp add: browser_ok_def url_search_def)

lemma map_of_without: "map_of (without_params ks ps) k = (if k \<in> set ks then None else map_of ps k)"
  unfolding without_params_def by (induction ks arbitrary: ps) (auto simp: map_of_params_delete)

lemma investigation_query_list:
  "investigation_query toISO p =
     (js ''kind'', scope_kind_name (sc_kind p)) # (if scopeParamValue p = [] then [] else [(js ''scope'', scopeParamValue p)]) @
     [(js ''from'', toISO (ip_from p)), (js ''to'', toISO (ip_to p))]"
  by (simp add: investigation_query_def Let_def)

lemma href_query:
  assumes "browser_ok br"
  shows "map_of (br_query br (paramsHref br search p)) k =
     (if k = js ''incident'' then None
      else case map_of (investigation_query (br_iso br) p) k of
             Some v \<Rightarrow> Some v
           | None \<Rightarrow> if k \<in> {js ''kind'', js ''scope'', js ''from'', js ''to''} then None else map_of (br_query br search) k)"
proof -
  have "br_query br (drop 1 (investigationParamsToSearch (br_print br) (br_iso br) p)) = investigation_query (br_iso br) p"
    using assms by (simp add: investigationParamsToSearch_def browser_ok_def)
  then show ?thesis
    unfolding paramsHref_def Let_def query_url_search [OF assms] investigation_query_list
    by (simp add: map_of_params_set map_of_without)
qed

lemma href_states:
  assumes "browser_ok br"
  shows "map_of (br_query br (paramsHref br search p)) (js ''kind'') = Some (scope_kind_name (sc_kind p))"
    "map_of (br_query br (paramsHref br search p)) (js ''scope'') = (if scopeParamValue p = [] then None else Some (scopeParamValue p))"
    "map_of (br_query br (paramsHref br search p)) (js ''from'') = Some (br_iso br (ip_from p))"
    "map_of (br_query br (paramsHref br search p)) (js ''to'') = Some (br_iso br (ip_to p))"
  unfolding href_query [OF assms] investigation_query_get by simp_all

lemma href_no_incident: "browser_ok br \<Longrightarrow> readIncidentParam br (paramsHref br search p) = None"
  by (simp add: readIncidentParam_def href_query)

lemma iso_instant: "browser_ok br \<Longrightarrow> valid_date d \<Longrightarrow> parseInstant (br_date br) (Some (br_iso br d)) = Some d"
  by (auto simp: parseInstant_def browser_ok_def valid_date_def)

lemma href_ignored:
  assumes "browser_ok br" "window_ok viewed p"
  shows "ignoredInvestigationParams (br_query br) (br_date br) (paramsHref br search p) = []"
proof -
  have scope: "scopeParamValue p \<noteq> [] \<longrightarrow> sc_kind p \<noteq> sk_cluster" by (simp add: scopeParamValue_def)
  have name: "scope_kind_name (sc_kind p) = js ''cluster'' \<longleftrightarrow> sc_kind p = sk_cluster" by (cases "sc_kind p") simp_all
  have "valid_date (ip_from p)" "valid_date (ip_to p)" using assms(2) by (simp_all add: window_ok_def)
  then have i: "parseInstant (br_date br) (Some (br_iso br (ip_from p))) \<noteq> None" "parseInstant (br_date br) (Some (br_iso br (ip_to p))) \<noteq> None"
    by (simp_all add: iso_instant [OF assms(1)])
  have "filter (\<lambda>key. map_of (br_query br (paramsHref br search p)) key \<noteq> None \<and>
      parseInstant (br_date br) (map_of (br_query br (paramsHref br search p)) key) = None) [js ''from'', js ''to''] = []"
    using i by (simp only: filter.simps href_states [OF assms(1)] simp_thms if_False)
  then show ?thesis
    unfolding ignoredInvestigationParams_def Let_def href_states [OF assms(1)] using scope name by simp
qed

lemma href_window:
  assumes "browser_ok br" "window_ok viewed p"
  shows "ip_from (parseInvestigationParams (br_query br) (br_date br) (paramsHref br search p) now) = ip_from p \<and>
         ip_to (parseInvestigationParams (br_query br) (br_date br) (paramsHref br search p) now) = ip_to p"
  using assms unfolding parseInvestigationParams_def Let_def href_states [OF assms(1)]
  by (simp add: window_ok_def iso_instant split: prod.split)

text \<open>An address the page writes is read back without a complaint.\<close>

lemma hydrate_written:
  assumes "browser_ok br" "window_ok viewed p" "pred_option anchor_ok viewed"
  shows "hydrateInvestigation br (paramsHref br search p) now viewed =
    \<lparr>hy_params = parseInvestigationParams (br_query br) (br_date br) (paramsHref br search p) now,
     hy_clamped = False, hy_error = None, hy_ignored = []\<rparr>"
proof -
  have c: "commitWindow (br_t br) (ip_from p) (ip_to p) viewed = Committed (ip_from p) (ip_to p) False"
    by (rule commit_keeps [OF assms(2) anchors_valid [OF assms(3)]])
  show ?thesis
    unfolding hydrateInvestigation_def Let_def href_ignored [OF assms(1,2)]
    using href_window [OF assms(1,2), of search now] c by simp
qed

lemma written_uncorrected:
  assumes "browser_ok br" "window_ok viewed p" "pred_option anchor_ok viewed"
  shows "\<not> needs_correction (hydrateInvestigation br (paramsHref br search p) now viewed) incident"
  by (simp add: needs_correction_def hydrate_written [OF assms])

text \<open>The names read from a link are in the form a link writes them.\<close>

lemma clean_append: "clean (s @ s') \<Longrightarrow> clean s"
proof (induction s)
  case (Cons c s)
  then show ?case by (cases s) auto
qed simp

lemma clean_before_arrow: "clean (s @ PAIR_ARROW # s') \<Longrightarrow> s \<noteq> [] \<Longrightarrow> \<not> is_space (last s)"
proof (induction s)
  case (Cons c s)
  then show ?case by (cases s) auto
qed simp

lemma normalize_clean: "clean s \<Longrightarrow> trimmed s \<Longrightarrow> normalizePairInput s = s"
  by (simp only: normalizePairInput_def trim_id replace_clean_id)

lemma split_scope_names:
  assumes raw: "raw = normalizePairInput x" and ab: "split_scope k raw = (a, b)"
    and p: "sc_kind p = k" "sc_a p = a" "sc_b p = b"
  shows "normalizePairInput (scopeParamValue p) = scopeParamValue p \<and>
    (case k of sk_cluster \<Rightarrow> a = [] \<and> b = [] | sk_pair \<Rightarrow> PAIR_ARROW \<notin> set a
      | sk_zone_pair \<Rightarrow> PAIR_ARROW \<notin> set a | _ \<Rightarrow> b = [])"
proof -
  have c: "clean raw" and tr: "trimmed raw"
    using replace_clean normalize_trimmed by (simp_all add: raw normalizePairInput_def)
  note whole = normalize_clean [OF c tr]
  show ?thesis
  proof (cases "k = sk_pair \<or> k = sk_zone_pair")
    case two: True
    show ?thesis
    proof (cases "index_of raw PAIR_SEPARATOR")
      case None
      then have "PAIR_ARROW \<notin> set raw" by (simp add: PAIR_SEPARATOR_def index_of_single_None)
      moreover have "a = raw" "b = []" using None ab two by (auto simp: split_scope_def)
      ultimately show ?thesis using two whole p by (auto simp: scopeParamValue_def)
    next
      case (Some i)
      then have "a = take i raw" "b = drop (Suc i) raw" using ab two by (auto simp: split_scope_def PAIR_SEPARATOR_def)
      then have s: "raw = a @ PAIR_ARROW # b" "PAIR_ARROW \<notin> set a"
        using index_of_single_Some [of raw PAIR_ARROW i] Some by (simp_all add: PAIR_SEPARATOR_def)
      have "trimmed a" using tr clean_before_arrow [of a b] c by (cases "a = []") (auto simp: s(1) trimmed_def)
      then have "normalizePairInput a = a" using clean_append [of a] c by (simp add: s(1) normalize_clean)
      then show ?thesis using two whole p s by (auto simp: scopeParamValue_def PAIR_SEPARATOR_def)
    qed
  next
    case False
    have "normalizePairInput [] = []" by (rule normalize_clean) (simp_all add: trimmed_def)
    then show ?thesis using False ab whole p by (cases k) (auto simp: split_scope_def scopeParamValue_def)
  qed
qed

lemma parsed_names:
  assumes "p = hy_params (hydrateInvestigation br search now viewed)"
  shows "normalizePairInput (scopeParamValue p) = scopeParamValue p"
    and "case sc_kind p of sk_cluster \<Rightarrow> sc_a p = [] \<and> sc_b p = [] | sk_pair \<Rightarrow> PAIR_ARROW \<notin> set (sc_a p)
      | sk_zone_pair \<Rightarrow> PAIR_ARROW \<notin> set (sc_a p) | _ \<Rightarrow> sc_b p = []"
proof -
  let ?q = "parseInvestigationParams (br_query br) (br_date br) search now"
  let ?raw = "normalizePairInput (or_blank (map_of (br_query br search) (js ''scope'')))"
  have "split_scope (sc_kind ?q) ?raw = (sc_a ?q, sc_b ?q)"
    by (simp add: parseInvestigationParams_def Let_def split: prod.split)
  moreover have same: "sc_kind p = sc_kind ?q" "sc_a p = sc_a ?q" "sc_b p = sc_b ?q"
    by (simp_all add: assms hydrate_params Let_def last_hour_def split: WindowCommit.split)
  ultimately have "normalizePairInput (scopeParamValue p) = scopeParamValue p \<and>
    (case sc_kind ?q of sk_cluster \<Rightarrow> sc_a ?q = [] \<and> sc_b ?q = [] | sk_pair \<Rightarrow> PAIR_ARROW \<notin> set (sc_a ?q)
      | sk_zone_pair \<Rightarrow> PAIR_ARROW \<notin> set (sc_a ?q) | _ \<Rightarrow> sc_b ?q = [])"
    by (intro split_scope_names [OF refl])
  then show "normalizePairInput (scopeParamValue p) = scopeParamValue p"
    and "case sc_kind p of sk_cluster \<Rightarrow> sc_a p = [] \<and> sc_b p = [] | sk_pair \<Rightarrow> PAIR_ARROW \<notin> set (sc_a p)
      | sk_zone_pair \<Rightarrow> PAIR_ARROW \<notin> set (sc_a p) | _ \<Rightarrow> sc_b p = []"
    by (simp_all only: same)
qed

subsection \<open>The handlers\<close>

lemma on_location_idle: "pg_search s = pg_applied s \<Longrightarrow> on_location br now s = s"
  by (subst on_location.simps) simp

lemma record_applied_fields [simp]:
  "pg_applied (record_applied br p s) = pg_search (record_applied br p s)"
  "pg_at (record_applied br p s) = pg_at s" "pg_atMs (record_applied br p s) = pg_atMs s"
  "pg_firstGate (record_applied br p s) = pg_firstGate s" "pg_params (record_applied br p s) = pg_params s"
  "pg_incidentIdRef (record_applied br p s) = pg_incidentIdRef s" "pg_incidentId (record_applied br p s) = pg_incidentId s"
  "pg_customFrom (record_applied br p s) = pg_customFrom s" "pg_customTo (record_applied br p s) = pg_customTo s"
  by (simp_all add: record_applied_def)

lemma writeParamsApplied_eq: "writeParamsApplied br now p s = record_applied br p s"
  unfolding writeParamsApplied_def by (rule on_location_idle) simp

lemma on_location_takes:
  assumes "pg_search s \<noteq> pg_applied s"
  shows "on_location br now s =
    correctURL br now (hydrateInvestigation br (pg_search s) now (pg_at s)) (readIncidentParam br (pg_search s)) (take_location br now s)"
  by (subst on_location.simps) (simp add: assms correctURL_def writeParamsApplied_def)

lemma take_location_fields [simp]:
  "pg_search (take_location br now s) = pg_search s" "pg_applied (take_location br now s) = pg_search s"
  "pg_at (take_location br now s) = pg_at s" "pg_atMs (take_location br now s) = pg_atMs s"
  "pg_firstGate (take_location br now s) = pg_firstGate s"
  "pg_params (take_location br now s) = hy_params (hydrateInvestigation br (pg_search s) now (pg_at s))"
  "pg_customFrom (take_location br now s) = ip_from (hy_params (hydrateInvestigation br (pg_search s) now (pg_at s)))"
  "pg_customTo (take_location br now s) = ip_to (hy_params (hydrateInvestigation br (pg_search s) now (pg_at s)))"
  "pg_incidentId (take_location br now s) = readIncidentParam br (pg_search s)"
  by (simp_all add: take_location_def set_window_def Let_def)

text \<open>The part of the invariant that holds while a handler is running.\<close>

definition handler_inv :: "investigate_page \<Rightarrow> bool" where
  "handler_inv s \<longleftrightarrow>
     window_ok (pg_at s) (pg_params s) \<and> pred_option anchor_ok (pg_at s) \<and> pg_atMs s = pg_at s \<and> \<not> pg_firstGate s \<and>
     date_ok (pg_customFrom s) \<and> date_ok (pg_customTo s)"

lemma page_inv_iff:
  "page_inv s \<longleftrightarrow> handler_inv s \<and> pg_applied s = pg_search s \<and> pg_incidentIdRef s = pg_incidentId s"
  by (auto simp: page_inv_def handler_inv_def)

lemma render_inv: "handler_inv s \<Longrightarrow> pg_applied s = pg_search s \<Longrightarrow> page_inv (render_page s)"
  by (simp add: page_inv_def handler_inv_def render_page_def)

lemma window_dates: "window_ok viewed p \<Longrightarrow> date_ok (ip_from p) \<and> date_ok (ip_to p)"
  by (simp add: window_ok_def date_ok_def)

lemma record_applied_inv: "handler_inv s \<Longrightarrow> handler_inv (record_applied br p s)"
  by (simp add: handler_inv_def)

lemma on_location_inv:
  assumes "browser_ok br" "anchor_ok now" "handler_inv s"
  shows "handler_inv (on_location br now s) \<and> pg_applied (on_location br now s) = pg_search (on_location br now s)"
proof (cases "pg_search s = pg_applied s")
  case True
  then show ?thesis using assms(3) by (simp add: on_location_idle)
next
  case False
  have w: "window_ok (pg_at s) (hy_params (hydrateInvestigation br (pg_search s) now (pg_at s)))"
    using hydrate_ok [OF assms(1,2)] assms(3) by (simp add: handler_inv_def)
  then have "handler_inv (take_location br now s)"
    using assms(3) window_dates [OF w] by (simp add: handler_inv_def)
  then show ?thesis
    by (simp add: on_location_takes [OF False] correctURL_def writeParamsApplied_eq record_applied_inv)
qed

lemma to_search_inv:
  assumes "browser_ok br" "anchor_ok now" "handler_inv s"
  shows "handler_inv (to_search br now search s) \<and>
    pg_applied (to_search br now search s) = pg_search (to_search br now search s)"
  unfolding to_search_def using assms by (intro on_location_inv) (simp_all add: handler_inv_def)

lemma to_search_at: "pg_at (to_search br now search s) = pg_at s"
  by (cases "search = pg_applied s")
     (simp_all add: to_search_def on_location_idle on_location_takes correctURL_def writeParamsApplied_eq)

text \<open>An address that needs no correction stays.\<close>

lemma to_search_stays:
  assumes "\<not> needs_correction (hydrateInvestigation br search now (pg_at s)) (readIncidentParam br search)"
  shows "pg_search (to_search br now search s) = search"
proof (cases "search = pg_applied s")
  case True
  then show ?thesis by (simp add: to_search_def on_location_idle)
next
  case False
  then have "pg_search (s\<lparr>pg_search := search\<rparr>) \<noteq> pg_applied (s\<lparr>pg_search := search\<rparr>)" by simp
  from on_location_takes [OF this] show ?thesis using assms by (simp add: to_search_def correctURL_def)
qed

lemma set_window_inv:
  assumes "window_ok (pg_at s) p" "pred_option anchor_ok (pg_at s)" "pg_atMs s = pg_at s" "\<not> pg_firstGate s"
  shows "handler_inv ((set_window p s)\<lparr>pg_clamped := c, pg_commitError := e\<rparr>)"
  using assms window_dates [OF assms(1)] by (simp add: handler_inv_def set_window_def)

lemma gate_inv:
  assumes "window_ok None (pg_params s)" "pred_option anchor_ok (pg_at s)" "date_ok (pg_customFrom s)" "date_ok (pg_customTo s)"
    and "\<not> pg_firstGate s \<and> pg_at s = pg_atMs s \<longrightarrow> window_ok (pg_at s) (pg_params s)" and sync: "pg_applied s = pg_search s"
  shows "handler_inv (gate_effect br now s) \<and> pg_applied (gate_effect br now s) = pg_search (gate_effect br now s)"
proof (cases "\<not> pg_firstGate s \<and> pg_at s = pg_atMs s")
  case True
  then show ?thesis using assms by (simp add: gate_effect_def handler_inv_def)
next
  case go: False
  let ?s = "s\<lparr>pg_firstGate := False, pg_atMs := pg_at s\<rparr>" and ?f = "ip_from (pg_params s)" and ?u = "ip_to (pg_params s)"
  show ?thesis
  proof (cases "pg_at s")
    case None
    then have "gate_effect br now s = ?s" using go by (auto simp: gate_effect_def Let_def)
    then show ?thesis using assms None by (simp add: handler_inv_def)
  next
    case (Some i)
    have i: "anchor_ok i" "pred_option valid_date (Some i)" using assms(2) Some by (simp_all add: anchor_ok_valid)
    have d: "date_ok ?f" "date_ok ?u" using window_dates [OF assms(1)] by simp_all
    show ?thesis
    proof (cases "commitWindow (br_t br) ?f ?u (Some i)")
      case (Committed a b clamped)
      have c: "a = ?f" "window_ok (Some i) ((pg_params s)\<lparr>ip_from := a, ip_to := b\<rparr>)" "\<not> clamped \<longrightarrow> b = ?u"
        using commit_ok [OF Committed d i(2)] by blast+
      show ?thesis
      proof (cases clamped)
        case True
        have "handler_inv ((set_window ((pg_params s)\<lparr>ip_from := a, ip_to := b\<rparr>) ?s)\<lparr>pg_clamped := True, pg_commitError := None\<rparr>)"
          by (rule set_window_inv) (simp_all add: Some c(2) i(1))
        then show ?thesis using go Some Committed True sync
          by (auto simp: gate_effect_def Let_def writeParamsApplied_eq record_applied_inv set_window_def)
      next
        case False
        have "window_ok (Some i) (pg_params s)" using c False by (simp add: window_ok_def)
        then show ?thesis using go Some Committed False sync assms(3,4) i(1)
          by (auto simp: gate_effect_def Let_def handler_inv_def)
      qed
    next
      case (Refused reason)
      have "handler_inv ((set_window (last_hour (pg_params s) i) ?s)\<lparr>pg_clamped := False, pg_commitError := Some reason\<rparr>)"
        using last_hour_ok [OF i(1), of "Some i"] i(1)
        by (intro set_window_inv) (auto simp: Some anchor_ok_def valid_date_def)
      then show ?thesis using go Some Refused sync
        by (auto simp: gate_effect_def Let_def writeParamsApplied_eq record_applied_inv set_window_def)
    qed
  qed
qed

lemma mount_page_inv:
  assumes "browser_ok br" "anchor_ok now" "pred_option anchor_ok viewed"
  shows "page_inv (mount_page br now search viewed)"
proof -
  let ?h = "hydrateInvestigation br search now viewed"
  have w: "window_ok viewed (hy_params ?h)" by (rule hydrate_ok [OF assms])
  then have "window_ok None (hy_params ?h)" by (simp add: window_ok_def)
  then show ?thesis
    unfolding mount_page_def Let_def using assms(3) w window_dates [OF w]
    by (intro render_inv gate_inv [THEN conjunct1] gate_inv [THEN conjunct2])
       (simp_all add: correctURL_def writeParamsApplied_eq)
qed

lemma view_inv:
  assumes "page_inv s" "pred_option anchor_ok viewed"
  shows "page_inv (view_instant br now viewed s)"
proof -
  have "window_ok None (pg_params s)" using assms(1) by (simp add: page_inv_def window_ok_def)
  then show ?thesis unfolding view_instant_def using assms
    by (intro render_inv gate_inv [THEN conjunct1] gate_inv [THEN conjunct2]) (auto simp: page_inv_def)
qed

text \<open>The address names the incident on screen, and no other.\<close>

definition names_incident :: "browser_calls \<Rightarrow> investigate_page \<Rightarrow> bool" where
  "names_incident br s \<longleftrightarrow> readIncidentParam br (pg_search s) = pg_incidentId s"

lemma apply_inv:
  assumes "browser_ok br" "anchor_ok now" "page_inv s"
  shows "page_inv (apply_form br now s) \<and> (names_incident br s \<longrightarrow> names_incident br (apply_form br now s))"
proof (cases "scopeIncompleteReason (br_t br) (pg_draft s) \<noteq> None \<or> rangeReason br s \<noteq> None")
  case True
  then show ?thesis using assms(3) by (simp add: apply_form_def)
next
  case go: False
  let ?f = "if pg_preset s = range_custom then pg_customFrom s else new_date (now - preset_seconds (pg_preset s) * Fin 1000)"
  let ?u = "if pg_preset s = range_custom then pg_customTo s else now"
  have d: "date_ok ?f" "date_ok ?u" using assms(2,3) new_date_ok by (auto simp: page_inv_def date_ok_def anchor_ok_def)
  have at_ok: "pred_option anchor_ok (pg_at s)" using assms(3) by (simp add: page_inv_def)
  show ?thesis
  proof (cases "commitWindow (br_t br) ?f ?u (pg_at s)")
    case (Refused reason)
    then show ?thesis using go assms(3) by (simp add: apply_form_def Let_def page_inv_def names_incident_def)
  next
    case (Committed a b clamped)
    let ?p = "\<lparr>sc_kind = sc_kind (pg_draft s), sc_a = sc_a (pg_draft s), sc_b = sc_b (pg_draft s), ip_from = a, ip_to = b\<rparr>"
    let ?search = "paramsHref br (pg_search s) ?p"
    have "window_ok (pg_at s) (?p\<lparr>ip_from := a, ip_to := b\<rparr>)"
      using commit_ok [OF Committed d anchors_valid [OF at_ok], of ?p] by blast
    then have w: "window_ok (pg_at s) ?p" by simp
    have "handler_inv (to_search br now ?search s)" using to_search_inv [OF assms(1,2)] assms(3) by (simp add: page_inv_iff)
    moreover have "pg_search (to_search br now ?search s) = ?search"
      by (rule to_search_stays [OF written_uncorrected [OF assms(1) w at_ok]])
    moreover have "pg_at (to_search br now ?search s) = pg_at s" by (rule to_search_at)
    ultimately show ?thesis
      using go Committed w window_dates [OF w]
      by (auto simp: apply_form_def Let_def page_inv_def handler_inv_def render_page_def names_incident_def
            href_no_incident [OF assms(1)])
  qed
qed

lemma saved_address:
  assumes "browser_ok br" "trim i \<noteq> []"
  shows "readIncidentParam br (writeIncidentParam br search i) = Some i"
  using assms(2) by (simp add: readIncidentParam_def writeIncidentParam_def query_url_search [OF assms(1)] map_of_params_set)

lemma saved_inv:
  assumes "browser_ok br" "anchor_ok now" "page_inv s" "trim i \<noteq> []"
  shows "page_inv (incident_saved br now i s)"
proof -
  let ?s = "s\<lparr>pg_hydratedRef := Some i, pg_incidentId := Some i, pg_saveOpen := False\<rparr>"
  let ?search = "writeIncidentParam br (pg_search s) i"
  have "handler_inv ?s" using assms(3) by (simp add: page_inv_def handler_inv_def)
  from to_search_inv [OF assms(1,2) this] have "handler_inv (to_search br now ?search ?s)" by blast
  moreover have "pg_search (to_search br now ?search ?s) = ?search"
    by (rule to_search_stays) (simp add: needs_correction_def saved_address [OF assms(1,4)])
  ultimately show ?thesis unfolding incident_saved_def Let_def by (intro render_inv) (simp_all add: handler_inv_def)
qed

lemma row_dates:
  assumes "browser_ok br" "valid_date now"
  shows "valid_date (ip_from (incidentParams (br_date br) row names now)) \<and> valid_date (ip_to (incidentParams (br_date br) row names now))"
proof -
  have "\<forall>s. valid_date (br_date br s) \<or> br_date br s = NaN" using assms(1) by (simp add: browser_ok_def)
  then have "valid_date d" if "parseInstant (br_date br) raw = Some d" for raw d using parseInstant_valid [OF _ that] by blast
  then show ?thesis using assms(2) shiftInstant_valid by (auto simp: incidentParams_def Let_def split: option.split)
qed

lemma row_inv:
  assumes "browser_ok br" "anchor_ok now" "page_inv s"
  shows "page_inv (incident_effect br now names row s)"
proof -
  let ?i = "instant_or (pg_at s) now"
  let ?p = "incidentParams (br_date br) row names ?i"
  have at_ok: "pred_option anchor_ok (pg_at s)" using assms(3) by (simp add: page_inv_def)
  note i = instant_or_ok [OF assms(2) at_ok]
  have "date_ok (ip_from ?p)" "date_ok (ip_to ?p)" using row_dates [OF assms(1)] i by (auto simp: date_ok_def anchor_ok_def)
  then have w: "window_ok (pg_at s) (case commitWindow (br_t br) (ip_from ?p) (ip_to ?p) (pg_at s) of
      Committed a b c \<Rightarrow> ?p\<lparr>ip_from := a, ip_to := b\<rparr> | Refused r \<Rightarrow> last_hour ?p ?i)"
    using i anchors_valid [OF at_ok] by (intro framed_ok) simp_all
  show ?thesis using assms(3) w window_dates [OF w]
    by (simp add: incident_effect_def Let_def page_inv_def set_window_def)
qed

lemma gone_inv:
  assumes "page_inv s"
  shows "page_inv (incident_gone br now s)"
  using assms by (simp add: incident_gone_def Let_def to_search_def on_location_idle page_inv_def render_page_def)

lemma deleted_inv:
  assumes "browser_ok br" "anchor_ok now" "page_inv s"
  shows "page_inv (onIncidentDeleted br now s)"
proof -
  have "handler_inv (s\<lparr>pg_hydratedRef := None\<rparr>)" using assms(3) by (simp add: page_inv_def handler_inv_def)
  then show ?thesis unfolding onIncidentDeleted_def Let_def using to_search_inv [OF assms(1,2)] by (intro render_inv) simp_all
qed

lemma step_inv:
  assumes "browser_ok br" "anchor_ok now" "page_inv s" "event_ok e"
  shows "page_inv (page_step br now e s)"
proof (cases e)
  case (Navigated search)
  have "handler_inv s" using assms(3) by (simp add: page_inv_iff)
  then show ?thesis using Navigated to_search_inv [OF assms(1,2)] by (simp add: render_inv)
next
  case (Edited draft preset f u)
  then show ?thesis using assms(3,4) by (simp add: edit_form_def page_inv_def)
next
  case (Kind_changed k)
  then show ?thesis using assms(3) by (simp add: changeKind_def page_inv_def)
qed (use assms in \<open>simp_all add: view_inv apply_inv saved_inv row_inv gone_inv deleted_inv\<close>)

lemma reach_inv: "page_reach br s \<Longrightarrow> browser_ok br \<Longrightarrow> page_inv s"
  by (induction rule: page_reach.induct) (simp_all add: mount_page_inv step_inv)

lemma names_record:
  assumes "browser_ok br" "pg_incidentId s = None"
  shows "names_incident br (record_applied br p s)"
  using assms(2) href_no_incident [OF assms(1)] by (simp add: names_incident_def record_applied_def)

lemma names_correct:
  assumes "browser_ok br" "names_incident br s"
  shows "names_incident br (correctURL br now h (readIncidentParam br (pg_search s)) s)"
proof (cases "needs_correction h (readIncidentParam br (pg_search s))")
  case True
  then have "pg_incidentId s = None" using assms(2) by (simp add: needs_correction_def names_incident_def)
  then show ?thesis using True names_record [OF assms(1)] by (simp add: correctURL_def writeParamsApplied_eq)
qed (simp add: correctURL_def assms(2))

lemma names_on_location:
  assumes "browser_ok br" "pg_search s \<noteq> pg_applied s"
  shows "names_incident br (on_location br now s)"
proof -
  have "names_incident br (take_location br now s)" by (simp add: names_incident_def)
  from names_correct [OF assms(1) this] show ?thesis by (simp add: on_location_takes [OF assms(2)])
qed

lemma names_to_search:
  assumes "browser_ok br" "search \<noteq> pg_applied s \<or> readIncidentParam br search = pg_incidentId s"
  shows "names_incident br (to_search br now search s)"
proof (cases "search = pg_applied s")
  case True
  then show ?thesis using assms(2) by (simp add: to_search_def on_location_idle names_incident_def)
qed (simp add: to_search_def names_on_location [OF assms(1)])

lemma names_render [simp]: "names_incident br (render_page s) \<longleftrightarrow> names_incident br s"
  by (simp add: names_incident_def render_page_def)

lemma names_gate:
  assumes "browser_ok br" "names_incident br s"
  shows "names_incident br (gate_effect br now s)"
  using assms(2) href_no_incident [OF assms(1)]
  by (auto simp: names_incident_def gate_effect_def Let_def writeParamsApplied_eq record_applied_def set_window_def
        split: option.split WindowCommit.split)

lemma names_mount:
  assumes "browser_ok br"
  shows "names_incident br (mount_page br now search viewed)"
  unfolding mount_page_def Let_def names_render
  by (intro names_gate [OF assms])
     (simp add: names_incident_def correctURL_def writeParamsApplied_eq record_applied_def needs_correction_def
        href_no_incident [OF assms])

lemma names_saved:
  assumes "browser_ok br" "page_inv s" "trim i \<noteq> []"
  shows "names_incident br (incident_saved br now i s)"
proof -
  let ?s = "s\<lparr>pg_hydratedRef := Some i, pg_incidentId := Some i, pg_saveOpen := False\<rparr>"
  have "names_incident br (to_search br now (writeIncidentParam br (pg_search s) i) ?s)"
    by (rule names_to_search [OF assms(1)]) (simp add: saved_address [OF assms(1,3)])
  then show ?thesis by (simp add: incident_saved_def Let_def names_incident_def render_page_def)
qed

lemma names_gone: "browser_ok br \<Longrightarrow> names_incident br s \<Longrightarrow> names_incident br (incident_gone br now s)"
  by (simp add: incident_gone_def Let_def to_search_def on_location_idle names_incident_def render_page_def
        readIncidentParam_def query_url_search map_of_params_delete)

lemma names_deleted:
  assumes "browser_ok br" "page_inv s" "names_incident br s"
  shows "names_incident br (onIncidentDeleted br now s)"
proof -
  let ?kept = "case map_of (br_query br (pg_search s)) (js ''at'') of None \<Rightarrow> [] | Some a \<Rightarrow> [(js ''at'', a)]"
  have "readIncidentParam br (url_search br ?kept) = None"
    by (simp add: readIncidentParam_def query_url_search [OF assms(1)] split: option.split)
  then have "url_search br ?kept \<noteq> pg_applied s \<or> readIncidentParam br (url_search br ?kept) = pg_incidentId s"
    using assms(2,3) by (auto simp: page_inv_def names_incident_def)
  then show ?thesis unfolding onIncidentDeleted_def Let_def names_render
    by (intro names_to_search [OF assms(1)]) simp
qed

lemma names_step:
  assumes "browser_ok br" "anchor_ok now" "page_inv s" "event_ok e" "names_incident br s"
  shows "names_incident br (page_step br now e s)"
proof (cases e)
  case (Navigated search)
  have "names_incident br (to_search br now search s)"
    using assms(3,5) by (intro names_to_search [OF assms(1)]) (auto simp: page_inv_def names_incident_def)
  then show ?thesis using Navigated by simp
next
  case (Viewed viewed)
  have "names_incident br (s\<lparr>pg_at := viewed\<rparr>)" using assms(5) by (simp add: names_incident_def)
  then show ?thesis using Viewed names_gate [OF assms(1)] by (simp add: view_instant_def)
next
  case (Edited draft preset f u)
  then show ?thesis using assms(5) by (simp add: edit_form_def names_incident_def)
next
  case (Kind_changed k)
  then show ?thesis using assms(5) by (simp add: changeKind_def names_incident_def)
next
  case (Row_read names row)
  then show ?thesis using assms(5) by (simp add: incident_effect_def set_window_def Let_def names_incident_def)
qed (use assms in \<open>simp_all add: apply_inv names_saved names_gone names_deleted\<close>)

lemma reach_names: "page_reach br s \<Longrightarrow> browser_ok br \<Longrightarrow> names_incident br s"
  by (induction rule: page_reach.induct) (simp_all add: names_mount names_step reach_inv)

text \<open>
  C15: In every state the page can reach, whatever links, edits, saves and
  instants lead to it, the window on screen has two real instants, is not empty and ends no later
  than the instant being viewed; and the address is one the page has applied, so that it never
  mistakes an address of its own for a navigation, and names the incident on screen or none.
\<close>

theorem investigate_window_safe:
  assumes "browser_ok br" "page_reach br s"
  shows "valid_date (ip_from (pg_params s)) \<and> valid_date (ip_to (pg_params s)) \<and> ip_from (pg_params s) < ip_to (pg_params s) \<and>
    pred_option (\<lambda>i. ip_to (pg_params s) \<le> i) (pg_at s) \<and> pg_applied s = pg_search s \<and>
    readIncidentParam br (pg_search s) = pg_incidentId s"
  using reach_inv [OF assms(2,1)] reach_names [OF assms(2,1)] by (simp add: page_inv_def window_ok_def names_incident_def)

text \<open>A toy browser, for the witnesses.\<close>

fun toy_query :: "jstring \<Rightarrow> search_params" where
  "toy_query (c # s) = (if c = 63 then toy_query s else get_params s)"
| "toy_query [] = []"

definition toy_browser :: browser_calls where
  "toy_browser = \<lparr>br_query = toy_query, br_print = (\<lambda>ps. 0 # put_params ps), br_date = get_date, br_iso = put_date, br_t = (\<lambda>k ps. k)\<rparr>"

lemma toy_browser_ok: "browser_ok toy_browser"
  using get_put_date get_date_valid by (simp add: browser_ok_def toy_browser_def get_put_params)

lemma toy_anchor: "anchor_ok (jint 9000000)" "anchor_ok (jint 5000000)"
  by (auto simp: anchor_ok_def valid_date_def DEFAULT_RANGE_SECONDS_def MAX_TIME_def
        intro!: exI [of _ 9000000] exI [of _ 5000000] exI [of _ 5400000] exI [of _ 1400000])

lemma view_instant_at: "pg_at (view_instant br now viewed s) = viewed"
  by (auto simp: view_instant_def render_page_def gate_effect_def Let_def writeParamsApplied_eq set_window_def
        split: option.split WindowCommit.split)

theorem investigate_window_safe_witness:
  "ip_to (pg_params (view_instant toy_browser (jint 9000000) (Some (jint 5000000)) (mount_page toy_browser (jint 9000000) [] None))) \<le> jint 5000000"
proof -
  have "page_reach toy_browser (mount_page toy_browser (jint 9000000) [] None)" by (rule mounted) (simp_all add: toy_anchor del: of_int_numeral)
  from stepped [OF this toy_anchor(1), of "Viewed (Some (jint 5000000))"]
  have "page_reach toy_browser (view_instant toy_browser (jint 9000000) (Some (jint 5000000)) (mount_page toy_browser (jint 9000000) [] None))"
    using toy_anchor(2) by (simp only: page_step.simps event_ok.simps option.pred_inject)
  from investigate_window_safe [OF toy_browser_ok this] show ?thesis by (simp only: view_instant_at option.pred_inject)
qed

text \<open>
  C16: The address the page writes for what it framed, from any link and at any
  viewed instant, is read back as that very frame, scope and window, with nothing ignored, clamped or
  refused: a corrected address is never corrected again.
\<close>

theorem corrected_address_stable:
  assumes "browser_ok br" "anchor_ok now" "pred_option anchor_ok viewed"
    and "p = hy_params (hydrateInvestigation br search now viewed)"
  shows "hydrateInvestigation br (paramsHref br search' p) now' viewed =
    \<lparr>hy_params = p, hy_clamped = False, hy_error = None, hy_ignored = []\<rparr>"
proof -
  have w: "window_ok viewed p" unfolding assms(4) by (rule hydrate_ok [OF assms(1-3)])
  have iso: "\<forall>d. valid_date d \<longrightarrow> br_iso br d \<noteq> [] \<and> br_date br (br_iso br d) = d" using assms(1) by (simp add: browser_ok_def)
  have real: "valid_date (ip_from p)" "valid_date (ip_to p)" using w by (simp_all add: window_ok_def)
  have "parseInvestigationParams (br_query br) (br_date br) (paramsHref br search' p) now' = p"
    by (rule parse_written [OF _ _ _ _ iso real parsed_names [OF assms(4)]]) (rule href_states [OF assms(1)])+
  then show ?thesis using hydrate_written [OF assms(1) w assms(3)] by simp
qed

lemma mount_live:
  "pg_params (mount_page br now search None) = hy_params (hydrateInvestigation br search now None)"
  "pg_incidentId (mount_page br now search None) = readIncidentParam br search"
  by (simp_all add: mount_page_def Let_def render_page_def gate_effect_def correctURL_def writeParamsApplied_eq)

text \<open>Witness of a corrected address: a link into the future of the instant being viewed.\<close>

theorem corrected_address_stable_witness:
  "hy_ignored (hydrateInvestigation toy_browser (paramsHref toy_browser [] (hy_params
     (hydrateInvestigation toy_browser [] (jint 9000000) (Some (jint 5000000))))) (jint 9000000) (Some (jint 5000000))) = []"
proof -
  have "pred_option anchor_ok (Some (jint 5000000))" using toy_anchor(2) by (simp only: option.pred_inject)
  from corrected_address_stable [OF toy_browser_ok toy_anchor(1) this refl] show ?thesis by (simp only: Hydrated.select_convs)
qed

subsection \<open>Saving and reopening\<close>

text \<open>The row the server keeps of a page: the body \<open>saveIncident\<close> posts, under the id it answers with.\<close>

definition saved_row :: "browser_calls \<Rightarrow> jstring \<Rightarrow> jstring \<Rightarrow> investigate_page \<Rightarrow> Incident" where
  "saved_row br i created s =
     \<lparr>in_id = i, in_scope = scopeFilterValue (pg_params s), in_fromAt = br_iso br (ip_from (pg_params s)),
      in_toAt = Some (br_iso br (ip_to (pg_params s))), in_createdAt = created, in_resolvedAt = None\<rparr>"

definition scope_kept :: "jstring list \<Rightarrow> 'a InvestigationScope_scheme \<Rightarrow> bool" where
  "scope_kept targets s \<longleftrightarrow>
     (case sc_kind s of sk_cluster \<Rightarrow> sc_a s = [] \<and> sc_b s = [] | sk_pair \<Rightarrow> PAIR_ARROW \<notin> set (sc_a s)
        | sk_target \<Rightarrow> sc_a s \<in> set targets \<and> sc_a s \<noteq> [] \<and> PAIR_ARROW \<notin> set (sc_a s) \<and> sc_b s = []
        | sk_node \<Rightarrow> sc_a s \<notin> set targets \<and> sc_a s \<noteq> [] \<and> PAIR_ARROW \<notin> set (sc_a s) \<and> sc_b s = []
        | sk_zone_pair \<Rightarrow> False)"

lemma scope_kept_reopens:
  assumes "scope_kept targets p"
  shows "scopeFromIncidentScope (scopeFilterValue p) targets = scope_of p"
proof -
  have "scopeFilterValue p = scopeFilterValue (scope_of p)" by (cases "sc_kind p") (simp_all add: scopeFilterValue_def scope_of_def)
  moreover have "scopeFromIncidentScope (scopeFilterValue (scope_of p)) targets = scope_of p"
    using assms by (intro incident_scope_roundtrip) (simp only: scope_kept_def scope_of_def InvestigationScope.select_convs)
  ultimately show ?thesis by simp
qed

lemma saved_row_params:
  assumes "browser_ok br" "window_ok viewed (pg_params s)" "scope_kept targets (pg_params s)"
  shows "incidentParams (br_date br) (saved_row br i created s) targets now = pg_params s"
proof -
  have "valid_date (ip_from (pg_params s))" "valid_date (ip_to (pg_params s))" using assms(2) by (simp_all add: window_ok_def)
  then show ?thesis
    by (simp add: incidentParams_def Let_def saved_row_def iso_instant [OF assms(1)] scope_kept_reopens [OF assms(3)] scope_of_def)
qed

text \<open>Saving passes through the frame of a bare address, and forgets which row it had framed.\<close>

lemma saved_forgets:
  assumes "page_inv s" "browser_ok br" "trim i \<noteq> []" "pg_incidentId s \<noteq> Some i" "names_incident br s"
  shows "pg_hydratedRef (incident_saved br now i s) = None" "pg_incidentId (incident_saved br now i s) = Some i"
    "pg_at (incident_saved br now i s) = pg_at s"
proof -
  let ?search = "writeIncidentParam br (pg_search s) i"
  let ?s = "s\<lparr>pg_hydratedRef := Some i, pg_incidentId := Some i, pg_saveOpen := False\<rparr>"
  have ref: "pg_incidentIdRef s = pg_incidentId s" "pg_applied s = pg_search s" using assms(1) by (simp_all add: page_inv_def)
  have new: "?search \<noteq> pg_applied s"
  proof
    assume "?search = pg_applied s"
    then have "readIncidentParam br (pg_search s) = Some i" using saved_address [OF assms(2,3)] ref(2) by metis
    then show False using assms(4,5) by (simp add: names_incident_def)
  qed
  then show "pg_hydratedRef (incident_saved br now i s) = None" "pg_incidentId (incident_saved br now i s) = Some i"
    "pg_at (incident_saved br now i s) = pg_at s"
    using saved_address [OF assms(2,3), of "pg_search s"] ref assms(4)
    by (simp_all add: incident_saved_def Let_def to_search_def on_location_takes correctURL_def needs_correction_def
          render_page_def take_location_def set_window_def)
qed

text \<open>
  C17: Whatever the page frames, saving it as an incident and reading back the row
  the server keeps shows the same scope and the same window again, under the id of the new incident.
  The scope is one the incident vocabulary has: not a pair of zones, and a name that the list of
  targets tells apart from a node.
\<close>

theorem saved_incident_reopens:
  assumes "browser_ok br" "page_reach br s" "anchor_ok now" "trim i \<noteq> []" "pg_incidentId s \<noteq> Some i"
    and "scope_kept targets (pg_params s)"
    and "s' = page_step br now' (Row_read targets (saved_row br i created s)) (page_step br now (Saved i) s)"
  shows "pg_params s' = pg_params s \<and> pg_incidentId s' = Some i \<and> \<not> pg_clamped s' \<and> pg_commitError s' = None"
proof -
  note inv = reach_inv [OF assms(2,1)]
  note saved = saved_forgets [OF inv assms(1,4,5) reach_names [OF assms(2,1)], of now]
  have w: "window_ok (pg_at s) (pg_params s)" "pred_option valid_date (pg_at s)"
    using inv anchors_valid by (simp_all add: page_inv_def)
  have "in_id (saved_row br i created s) = i" by (simp add: saved_row_def)
  then show ?thesis
    unfolding assms(7)
    using saved saved_row_params [OF assms(1) w(1) assms(6)] commit_keeps [OF w]
    by (simp add: incident_effect_def Let_def set_window_def)
qed

theorem saved_incident_reopens_witness:
  "\<exists>s. page_reach toy_browser s \<and>
     pg_params (page_step toy_browser (jint 9000000) (Row_read [] (saved_row toy_browser (js ''i'') [] s))
       (page_step toy_browser (jint 9000000) (Saved (js ''i'')) s)) = pg_params s"
proof -
  let ?s = "mount_page toy_browser (jint 9000000) [] None"
  have r: "page_reach toy_browser ?s" by (rule mounted) (simp_all add: toy_anchor del: of_int_numeral)
  let ?q = "parseInvestigationParams toy_query get_date [] (jint 9000000)"
  have q: "sc_kind ?q = sk_cluster" "sc_a ?q = []" "sc_b ?q = []"
    by (simp_all add: parseInvestigationParams_def Let_def or_blank_def kind_of_name_def SCOPE_KINDS_def split_scope_def del: of_int_numeral)
  have "pg_params ?s = hy_params (hydrateInvestigation toy_browser [] (jint 9000000) None)" by (simp only: mount_live)
  then have "sc_kind (pg_params ?s) = sk_cluster" "sc_a (pg_params ?s) = []" "sc_b (pg_params ?s) = []"
    using q by (simp_all add: hydrate_params Let_def last_hour_def toy_browser_def del: of_int_numeral split: WindowCommit.split)
  then have k: "scope_kept [] (pg_params ?s)" by (simp add: scope_kept_def del: of_int_numeral)
  have "readIncidentParam toy_browser [] = None" by (simp add: readIncidentParam_def toy_browser_def)
  then have i: "pg_incidentId ?s \<noteq> Some (js ''i'')" by (simp only: mount_live) simp
  have "trim (js ''i'') \<noteq> []" by (simp add: trim_def is_space_def)
  from saved_incident_reopens [OF toy_browser_ok r toy_anchor(1) this i k refl] r show ?thesis by blast
qed

end
