(* ===== verification/Chart_Cursor.thy ===== *)
theory Chart_Cursor
  imports Chart_Tooltip
begin

section \<open>The shared time cursor (lib/chart-cursor.tsx)\<close>

text \<open>
  The publish/subscribe group behind the crosshair of a page, and what a neighbouring chart reads at
  the shared instant. \<open>parse\<close> is \<open>Date.parse\<close>, \<open>num\<close> is \<open>Number\<close> of a string. A chart's option is JSON
  of unknown shape, in which a \<open>Date\<close> at the place of an instant stands for its time value. What a
  subscriber does is outside; that it was called, and with what, is recorded.

  The group is shown to keep at most one frame booked and to leave no subscriber on an old instant;
  the search of a series to answer with the sample nearest the instant, or with none when that is
  more than a step away.
\<close>

subsection \<open>The group\<close>

record CursorGroup =
  cg_subscribers :: "nat list"
  cg_latest :: "jsnum option"
  cg_source :: jstring
  cg_queued :: bool
  cg_frames :: nat
  cg_told :: "(nat, jsnum option \<times> jstring) jmap"

definition createCursorGroup :: CursorGroup where
  "createCursorGroup =
     \<lparr>cg_subscribers = [], cg_latest = None, cg_source = [], cg_queued = False, cg_frames = 0, cg_told = []\<rparr>"

text \<open>\<open>cg_frames\<close> counts the callbacks handed to the scheduler and not yet run.\<close>

definition cursor_set :: "jsnum option \<Rightarrow> jstring \<Rightarrow> CursorGroup \<Rightarrow> CursorGroup" where
  "cursor_set instant publisher g =
     (let g = g\<lparr>cg_latest := instant, cg_source := publisher\<rparr>
      in if cg_queued g then g else g\<lparr>cg_queued := True, cg_frames := cg_frames g + 1\<rparr>)"

definition cursor_flush :: "CursorGroup \<Rightarrow> CursorGroup" where
  "cursor_flush g =
     g\<lparr>cg_queued := False, cg_frames := cg_frames g - 1,
       cg_told := fold (\<lambda>s. AList.update s (cg_latest g, cg_source g)) (cg_subscribers g) (cg_told g)\<rparr>"

definition cursor_subscribe :: "nat \<Rightarrow> CursorGroup \<Rightarrow> CursorGroup" where
  "cursor_subscribe s g = g\<lparr>cg_subscribers := jadd s (cg_subscribers g)\<rparr>"

definition cursor_unsubscribe :: "nat \<Rightarrow> CursorGroup \<Rightarrow> CursorGroup" where
  "cursor_unsubscribe s g =
     g\<lparr>cg_subscribers := filter (\<lambda>x. x \<noteq> s) (cg_subscribers g), cg_told := AList.delete s (cg_told g)\<rparr>"

text \<open>A booked frame runs once; nobody subscribes a callback twice under one name.\<close>

inductive cursor_reach :: "CursorGroup \<Rightarrow> bool" where
  created: "cursor_reach createCursorGroup"
| published: "cursor_reach g \<Longrightarrow> cursor_reach (cursor_set instant publisher g)"
| frame: "cursor_reach g \<Longrightarrow> 0 < cg_frames g \<Longrightarrow> cursor_reach (cursor_flush g)"
| joined: "cursor_reach g \<Longrightarrow> s \<notin> set (cg_subscribers g) \<Longrightarrow> cursor_reach (cursor_subscribe s g)"
| left: "cursor_reach g \<Longrightarrow> cursor_reach (cursor_unsubscribe s g)"

subsection \<open>What is printed\<close>

definition readoutInstant :: "jsnum option \<Rightarrow> bool \<Rightarrow> jsnum option \<Rightarrow> jsnum option" where
  "readoutInstant cursor fromChart snapped =
     (case cursor of
        None \<Rightarrow> None
      | Some c \<Rightarrow>
          if \<not> is_finite c then None
          else case snapped of
                 Some s \<Rightarrow> if fromChart \<and> is_finite s then Some s else Some c
               | None \<Rightarrow> Some c)"

definition isTimeSeriesOption :: "jsval \<Rightarrow> bool" where
  "isTimeSeriesOption option \<longleftrightarrow>
     (let xAxis = jfield option (js ''xAxis''); axis = (case xAxis of JArr _ \<Rightarrow> jelem xAxis 0 | _ \<Rightarrow> xAxis)
      in jfield axis (js ''type'') = JStr (js ''time''))"

subsection \<open>A chart's series\<close>

definition READOUT_ROW_CAP :: nat where
  "READOUT_ROW_CAP = 5"

type_synonym reading = "jsnum \<times> jsnum"

record ReadoutSeries =
  rs_name :: jstring
  rs_color :: "jstring option"
  rs_points :: "reading list"
  rs_step :: jsnum
  rs_optionIndex :: nat

fun toInstant :: "(jstring \<Rightarrow> jsnum) \<Rightarrow> jsval \<Rightarrow> jsnum option" where
  "toInstant parse (JNum n) = (if is_finite n then Some n else None)"
| "toInstant parse (JStr s) = (if is_finite (parse s) then Some (parse s) else None)"
| "toInstant parse v = None"

fun toReading :: "(jstring \<Rightarrow> jsnum) \<Rightarrow> jsval \<Rightarrow> jsnum option" where
  "toReading num (JNum n) = (if is_finite n then Some n else None)"
| "toReading num (JStr s) = (if trim s \<noteq> [] \<and> is_finite (num s) then Some (num s) else None)"
| "toReading num v = None"

definition median_or_zero :: "jsnum list \<Rightarrow> jsnum" where
  "median_or_zero values =
     (if values = [] then Fin 0
      else let sorted = js_sort num_cmp values; mid = length sorted div 2
           in if length sorted mod 2 = 1 then sorted ! mid else (sorted ! (mid - 1) + sorted ! mid) / Fin 2)"

definition medianStep :: "reading list \<Rightarrow> jsnum" where
  "medianStep points = median_or_zero (filter (\<lambda>gap. Fin 0 < gap) (map (\<lambda>(p, q). fst q - fst p) (zip points (tl points))))"

definition toPoint :: "(jstring \<Rightarrow> jsnum) \<Rightarrow> (jstring \<Rightarrow> jsnum) \<Rightarrow> jsval \<Rightarrow> reading option" where
  "toPoint parse num item =
     (case (case item of JArr _ \<Rightarrow> item | _ \<Rightarrow> jfield item (js ''value'')) of
        JArr pair \<Rightarrow>
          if length pair < 2 then None
          else (case (toInstant parse (pair ! 0), toReading num (last pair)) of
                  (Some t, Some v) \<Rightarrow> Some (t, v)
                | _ \<Rightarrow> None)
      | _ \<Rightarrow> None)"

definition declaredColor :: "jsval \<Rightarrow> jstring option" where
  "declaredColor entry =
     (case jfield entry (js ''color'') of
        JStr c \<Rightarrow> Some c
      | _ \<Rightarrow> (case jfield (jfield entry (js ''itemStyle'')) (js ''color'') of
                JStr c \<Rightarrow> Some c
              | _ \<Rightarrow> (case jfield (jfield entry (js ''lineStyle'')) (js ''color'') of JStr c \<Rightarrow> Some c | _ \<Rightarrow> None)))"

definition by_time :: "reading \<Rightarrow> reading \<Rightarrow> jsnum" where
  "by_time a b = fst a - fst b"

text \<open>One series may stand without its array; anything falsy is none.\<close>

fun series_list :: "jsval \<Rightarrow> jsval list" where
  "series_list (JArr xs) = xs"
| "series_list v = (if v \<in> {JUndef, JNull, JBool False, JStr [], JNum (Fin 0), JNum NaN} then [] else [v])"

definition built_series :: "(jstring \<Rightarrow> jsnum) \<Rightarrow> (jstring \<Rightarrow> jsnum) \<Rightarrow> nat \<Rightarrow> jsval \<Rightarrow> ReadoutSeries" where
  "built_series parse num i entry =
     (let data = (case jfield entry (js ''data'') of JArr xs \<Rightarrow> xs | _ \<Rightarrow> []);
          points = js_sort by_time (List.map_filter (toPoint parse num) data)
      in \<lparr>rs_name = (case jfield entry (js ''name'') of JStr n \<Rightarrow> n | _ \<Rightarrow> []), rs_color = declaredColor entry,
          rs_points = points, rs_step = medianStep points, rs_optionIndex = i\<rparr>)"

definition readoutSeries :: "(jstring \<Rightarrow> jsnum) \<Rightarrow> (jstring \<Rightarrow> jsnum) \<Rightarrow> jsval \<Rightarrow> ReadoutSeries list" where
  "readoutSeries parse num option =
     (let list = series_list (jfield option (js ''series''));
          built = filter (\<lambda>s. rs_points s \<noteq> []) (map (\<lambda>i. built_series parse num i (list ! i)) [0..<length list]);
          chartStep = median_or_zero (filter (\<lambda>step. Fin 0 < step) (map rs_step built))
      in map (\<lambda>s. if Fin 0 < rs_step s then s else s\<lparr>rs_step := chartStep\<rparr>) built)"

subsection \<open>The sample at an instant\<close>

text \<open>The loop of \<open>nearestSample\<close>: the bracket it ends with.\<close>

function bracket :: "reading list \<Rightarrow> jsnum \<Rightarrow> nat \<Rightarrow> nat \<Rightarrow> nat \<times> nat" where
  "bracket points instant lo hi =
     (if hi - lo \<le> 1 then (lo, hi)
      else if fst (points ! ((lo + hi) div 2)) \<le> instant then bracket points instant ((lo + hi) div 2) hi
      else bracket points instant lo ((lo + hi) div 2))"
  by pat_completeness auto
termination
  by (relation "measure (\<lambda>(points, instant, lo, hi). hi - lo)") auto

declare bracket.simps [simp del]

definition nearestSample :: "ReadoutSeries \<Rightarrow> jsnum \<Rightarrow> reading option" where
  "nearestSample series instant =
     (let points = rs_points series
      in if points = [] \<or> \<not> is_finite instant then None
         else let (lo, hi) =
                    (if instant \<le> fst (points ! 0) then (0, 0)
                     else if fst (points ! (length points - 1)) \<le> instant then (length points - 1, length points - 1)
                     else bracket points instant 0 (length points - 1));
                  near = (if instant - fst (points ! lo) \<le> fst (points ! hi) - instant then lo else hi);
                  away = jabs (fst (points ! near) - instant)
              in if rs_step series < away \<and> \<not> jeq away (Fin 0) then None else Some (points ! near))"

definition nearestInstant :: "ReadoutSeries list \<Rightarrow> jsnum \<Rightarrow> jsnum option" where
  "nearestInstant model instant =
     fold (\<lambda>series best.
        case nearestSample series instant of
          None \<Rightarrow> best
        | Some sample \<Rightarrow>
            (case best of
               None \<Rightarrow> Some (fst sample)
             | Some b \<Rightarrow> if jabs (fst sample - instant) < jabs (b - instant) then Some (fst sample) else best))
      model None"

record ReadoutRow = AxisTooltipRow +
  rr_index :: nat
  rr_series :: ReadoutSeries
  rr_sample :: reading

definition readout_row :: "jsnum \<Rightarrow> ReadoutSeries \<Rightarrow> ReadoutRow option" where
  "readout_row instant series =
     map_option (\<lambda>sample.
       \<lparr>tr_marker = None, tr_seriesName = Some (rs_name series), tr_axisValueLabel = None,
        tr_value = JArr [JNum (fst sample), JNum (snd sample)], tr_seriesIndex = None,
        rr_index = rs_optionIndex series, rr_series = series, rr_sample = sample\<rparr>)
       (nearestSample series instant)"

definition by_index :: "ReadoutRow \<Rightarrow> ReadoutRow \<Rightarrow> jsnum" where
  "by_index a b = jnat (rr_index a) - jnat (rr_index b)"

definition pickReadoutRows :: "(jstring \<Rightarrow> jsnum) \<Rightarrow> (jsnum \<Rightarrow> jstring) \<Rightarrow> ReadoutSeries list \<Rightarrow> jsnum option \<Rightarrow> nat \<Rightarrow> ReadoutRow list \<times> nat" where
  "pickReadoutRows num num_str model instant cap =
     (case instant of
        None \<Rightarrow> ([], 0)
      | Some i \<Rightarrow>
          let (rows, hidden) = capTooltipRows num num_str (List.map_filter (readout_row i) model) None cap
          in (js_sort by_index rows, hidden))"

subsection \<open>The group keeps everybody current\<close>

definition cursor_inv :: "CursorGroup \<Rightarrow> bool" where
  "cursor_inv g \<longleftrightarrow>
     cg_frames g = (if cg_queued g then 1 else 0) \<and> distinct (cg_subscribers g) \<and>
     fst ` set (cg_told g) \<subseteq> set (cg_subscribers g) \<and>
     (\<not> cg_queued g \<longrightarrow> (\<forall>s v. map_of (cg_told g) s = Some v \<longrightarrow> v = (cg_latest g, cg_source g)))"

lemma flush_told:
  "map_of (fold (\<lambda>s. AList.update s v) ss m) s = (if s \<in> set ss then Some v else map_of m s)"
  by (induction ss arbitrary: m) (auto simp: update_conv')

lemma flush_keys: "fst ` set (fold (\<lambda>s. AList.update s v) ss m) = fst ` set m \<union> set ss"
  by (induction ss arbitrary: m) auto

lemma told_subscriber: "cursor_inv g \<Longrightarrow> map_of (cg_told g) s = Some v \<Longrightarrow> s \<in> set (cg_subscribers g)"
  unfolding cursor_inv_def by (drule map_of_SomeD) force

lemma cursor_inv_flush:
  assumes "cursor_inv g" "0 < cg_frames g"
  shows "cursor_inv (cursor_flush g)"
  unfolding cursor_inv_def
proof (intro conjI impI allI)
  show "cg_frames (cursor_flush g) = (if cg_queued (cursor_flush g) then 1 else 0)"
    using assms by (simp add: cursor_inv_def cursor_flush_def)
  show "distinct (cg_subscribers (cursor_flush g))" using assms(1) by (simp add: cursor_inv_def cursor_flush_def)
  show "fst ` set (cg_told (cursor_flush g)) \<subseteq> set (cg_subscribers (cursor_flush g))"
    using assms(1) by (simp add: cursor_flush_def flush_keys cursor_inv_def)
  fix s v
  assume told: "map_of (cg_told (cursor_flush g)) s = Some v"
  have "s \<in> set (cg_subscribers g)"
  proof (rule ccontr)
    assume out: "s \<notin> set (cg_subscribers g)"
    then have "map_of (cg_told g) s = Some v" using told by (simp add: cursor_flush_def flush_told)
    then show False using out told_subscriber [OF assms(1)] by blast
  qed
  then show "v = (cg_latest (cursor_flush g), cg_source (cursor_flush g))"
    using told by (simp add: cursor_flush_def flush_told)
qed

lemma cursor_inv_leave:
  assumes "cursor_inv g"
  shows "cursor_inv (cursor_unsubscribe s g)"
  using assms unfolding cursor_inv_def cursor_unsubscribe_def by (simp add: delete_conv') blast

lemma cursor_reach_inv: "cursor_reach g \<Longrightarrow> cursor_inv g"
proof (induction rule: cursor_reach.induct)
  case (published g instant publisher)
  then show ?case by (simp add: cursor_inv_def cursor_set_def Let_def)
next
  case (joined g s)
  then show ?case unfolding cursor_inv_def cursor_subscribe_def jadd_def by simp blast
next
  case created
  show ?case by (simp add: cursor_inv_def createCursorGroup_def)
qed (simp_all add: cursor_inv_flush cursor_inv_leave)

text \<open>
  In every reachable state of the cursor group at most one frame is booked, and
  exactly when one is queued; running it tells every subscriber the instant published last and who
  published it; and with none booked nobody who has been told an instant was told an older one.
\<close>

lemma cursor_never_stale:
  assumes "cursor_reach g"
  shows "cg_frames g = (if cg_queued g then 1 else 0) \<and>
    (\<forall>s \<in> set (cg_subscribers g). map_of (cg_told (cursor_flush g)) s = Some (cg_latest g, cg_source g)) \<and>
    (\<not> cg_queued g \<longrightarrow> (\<forall>s v. map_of (cg_told g) s = Some v \<longrightarrow> v = (cg_latest g, cg_source g)))"
  using cursor_reach_inv [OF assms] by (simp add: cursor_inv_def cursor_flush_def flush_told)

subsection \<open>The search\<close>

definition timed_points :: "reading list \<Rightarrow> bool" where
  "timed_points ps \<longleftrightarrow> (\<forall>p \<in> set ps. is_finite (fst p)) \<and> sorted_wrt (\<lambda>p q. fst p \<le> fst q) ps"

abbreviation time_at :: "reading list \<Rightarrow> nat \<Rightarrow> rat" where
  "time_at ps i \<equiv> fin_val (fst (ps ! i))"

lemma timed_fin:
  assumes "timed_points ps" "i < length ps"
  shows "fst (ps ! i) = Fin (time_at ps i)"
proof -
  have "is_finite (fst (ps ! i))" using assms by (simp add: timed_points_def)
  then obtain r where "fst (ps ! i) = Fin r" by (rule is_finiteE)
  then show ?thesis by simp
qed

lemma timed_mono:
  assumes "timed_points ps" "i \<le> j" "j < length ps"
  shows "time_at ps i \<le> time_at ps j"
proof (cases "i = j")
  case False
  then have le: "fst (ps ! i) \<le> fst (ps ! j)" using assms by (auto simp: timed_points_def sorted_wrt_iff_nth_less)
  have "i < length ps" using assms(2,3) by simp
  from le have "Fin (time_at ps i) \<le> Fin (time_at ps j)"
    by (simp only: timed_fin [OF assms(1) \<open>i < length ps\<close>, symmetric] timed_fin [OF assms(1,3), symmetric])
  then show ?thesis by simp
qed simp

lemma bracket_spec:
  assumes "timed_points ps" "lo < hi" "hi < length ps" "time_at ps lo \<le> a" "a \<le> time_at ps hi"
  shows "\<exists>l. bracket ps (Fin a) lo hi = (l, Suc l) \<and> Suc l < length ps \<and> time_at ps l \<le> a \<and> a \<le> time_at ps (Suc l)"
  using assms(2-5)
proof (induction "hi - lo" arbitrary: lo hi rule: less_induct)
  case less
  show ?case
  proof (cases "hi - lo \<le> 1")
    case True
    then have "hi = Suc lo" using less.prems(1) by simp
    moreover have "bracket ps (Fin a) lo hi = (lo, hi)" using True by (simp add: bracket.simps)
    ultimately show ?thesis using less.prems by simp
  next
    case False
    define m where "m = (lo + hi) div 2"
    have m: "lo < m" "m < hi" "m < length ps" using False less.prems(2) by (auto simp: m_def)
    obtain r where r: "fst (ps ! m) = Fin r" using timed_fin [OF assms(1) m(3)] by blast
    have step: "bracket ps (Fin a) lo hi = (if r \<le> a then bracket ps (Fin a) m hi else bracket ps (Fin a) lo m)"
      using False by (subst bracket.simps) (simp add: m_def [symmetric] r)
    show ?thesis
    proof (cases "r \<le> a")
      case True
      have "hi - m < hi - lo" using m by linarith
      from less.hyps [OF this m(2) less.prems(2)] show ?thesis using True less.prems(4) r step by simp
    next
      case above: False
      have "m - lo < hi - lo" using m by linarith
      from less.hyps [OF this m(1,3) less.prems(3)] show ?thesis using above r step by simp
    qed
  qed
qed

text \<open>An index nearest to an instant between two neighbours is one of the two.\<close>

lemma near_bracket:
  assumes "timed_points ps" "l \<le> h" "h \<le> Suc l" "h < length ps" "k < length ps"
    and "l = h \<longrightarrow> l = 0 \<and> a \<le> time_at ps 0 \<or> Suc l = length ps \<and> time_at ps l \<le> a"
    and "l < h \<longrightarrow> time_at ps l \<le> a \<and> a \<le> time_at ps h"
    and "near = (if a - time_at ps l \<le> time_at ps h - a then l else h)"
  shows "\<bar>time_at ps near - a\<bar> \<le> \<bar>time_at ps k - a\<bar>"
proof (cases "k \<le> l")
  case True
  then have "time_at ps k \<le> time_at ps l" using assms(1,2,4) by (intro timed_mono) simp_all
  moreover have "time_at ps 0 \<le> time_at ps k" using assms(1,5) by (intro timed_mono) simp_all
  ultimately show ?thesis using assms(2,3,6-8) True by (cases "l = h") (auto split: if_splits)
next
  case False
  then have "time_at ps h \<le> time_at ps k" using assms(1,3,5) by (intro timed_mono) simp_all
  then show ?thesis using assms(2-8) False by (cases "l = h") (auto split: if_splits)
qed

definition ends_of :: "reading list \<Rightarrow> jsnum \<Rightarrow> nat \<times> nat" where
  "ends_of ps instant =
     (if instant \<le> fst (ps ! 0) then (0, 0)
      else if fst (ps ! (length ps - 1)) \<le> instant then (length ps - 1, length ps - 1)
      else bracket ps instant 0 (length ps - 1))"

lemma ends_of_spec:
  assumes tp: "timed_points ps" and ne: "ps \<noteq> []"
  shows "\<exists>l h. ends_of ps (Fin a) = (l, h) \<and> l \<le> h \<and> h \<le> Suc l \<and> h < length ps \<and>
    (l = h \<longrightarrow> l = 0 \<and> a \<le> time_at ps 0 \<or> Suc l = length ps \<and> time_at ps l \<le> a) \<and>
    (l < h \<longrightarrow> time_at ps l \<le> a \<and> a \<le> time_at ps h)"
proof -
  obtain n where len: "length ps = Suc n" using ne by (cases ps) auto
  have n: "n < length ps" "0 < length ps" by (simp_all add: len)
  obtain x y where xy: "fst (ps ! 0) = Fin x" "fst (ps ! n) = Fin y" using timed_fin [OF tp] n by blast
  show ?thesis
  proof (cases "a \<le> x")
    case True
    then have "ends_of ps (Fin a) = (0, 0)" by (simp add: ends_of_def xy)
    then show ?thesis using True xy n by simp
  next
    case gt: False
    show ?thesis
    proof (cases "y \<le> a")
      case True
      then have "ends_of ps (Fin a) = (n, n)" using gt by (simp add: ends_of_def xy len)
      moreover have "time_at ps n \<le> a" using True xy by simp
      ultimately show ?thesis using n len by auto
    next
      case False
      then have e: "ends_of ps (Fin a) = bracket ps (Fin a) 0 n" using gt by (simp add: ends_of_def xy len)
      have "n \<noteq> 0"
      proof
        assume "n = 0"
        then have "x = y" using xy by simp
        then show False using gt False by simp
      qed
      then obtain l where "bracket ps (Fin a) 0 n = (l, Suc l)" "Suc l < length ps" "time_at ps l \<le> a" "a \<le> time_at ps (Suc l)"
        using bracket_spec [OF tp _ n(1), of 0 a] gt False xy by auto
      then show ?thesis using e by auto
    qed
  qed
qed

lemma nearest_index:
  assumes tp: "timed_points (rs_points s)" and ne: "rs_points s \<noteq> []" and w: "rs_step s = Fin w"
  shows "\<exists>n < length (rs_points s). (\<forall>k < length (rs_points s). \<bar>time_at (rs_points s) n - a\<bar> \<le> \<bar>time_at (rs_points s) k - a\<bar>) \<and>
    nearestSample s (Fin a) =
      (if w < \<bar>time_at (rs_points s) n - a\<bar> \<and> time_at (rs_points s) n \<noteq> a then None else Some (rs_points s ! n))"
proof -
  let ?ps = "rs_points s"
  obtain l h where e: "ends_of ?ps (Fin a) = (l, h)" "l \<le> h" "h \<le> Suc l" "h < length ?ps"
    "l = h \<longrightarrow> l = 0 \<and> a \<le> time_at ?ps 0 \<or> Suc l = length ?ps \<and> time_at ?ps l \<le> a"
    "l < h \<longrightarrow> time_at ?ps l \<le> a \<and> a \<le> time_at ?ps h"
    using ends_of_spec [OF tp ne, of a] by blast
  define n where "n = (if a - time_at ?ps l \<le> time_at ?ps h - a then l else h)"
  have len: "l < length ?ps" "n < length ?ps" using e(2,4) by (simp_all add: n_def)
  obtain x y z where xyz: "fst (?ps ! l) = Fin x" "fst (?ps ! h) = Fin y" "fst (?ps ! n) = Fin z"
    using timed_fin [OF tp] len e(4) by blast
  have "(if Fin a - fst (?ps ! l) \<le> fst (?ps ! h) - Fin a then l else h) = n" by (simp add: n_def xyz)
  then have "nearestSample s (Fin a) = (if rs_step s < jabs (fst (?ps ! n) - Fin a) \<and> \<not> jeq (jabs (fst (?ps ! n) - Fin a)) (Fin 0) then None else Some (?ps ! n))"
    using ne e(1) by (simp add: nearestSample_def Let_def ends_of_def [symmetric])
  moreover have "\<bar>time_at ?ps n - a\<bar> \<le> \<bar>time_at ?ps k - a\<bar>" if "k < length ?ps" for k
    by (rule near_bracket [OF tp e(2-4) that e(5,6) n_def])
  ultimately show ?thesis using len(2) by (intro exI [of _ n]) (simp add: xyz w)
qed

lemma nearestSample_spec:
  assumes tp: "timed_points (rs_points s)" and st: "is_finite (rs_step s)"
  shows "case nearestSample s instant of
      None \<Rightarrow> is_finite instant \<longrightarrow> (\<forall>p \<in> set (rs_points s). rs_step s < jabs (fst p - instant) \<and> fst p \<noteq> instant)
    | Some q \<Rightarrow> q \<in> set (rs_points s) \<and> (\<forall>p \<in> set (rs_points s). jabs (fst q - instant) \<le> jabs (fst p - instant)) \<and>
        (jabs (fst q - instant) \<le> rs_step s \<or> fst q = instant)"
proof (cases "rs_points s = [] \<or> \<not> is_finite instant")
  case True
  then have "nearestSample s instant = None" by (simp add: nearestSample_def Let_def)
  then show ?thesis using True by auto
next
  case False
  let ?ps = "rs_points s"
  have ne: "?ps \<noteq> []" and fin: "is_finite instant" using False by simp_all
  obtain a where a: "instant = Fin a" using fin by (rule is_finiteE)
  obtain w where w: "rs_step s = Fin w" using st by (rule is_finiteE)
  obtain n where n: "n < length ?ps" "\<forall>k < length ?ps. \<bar>time_at ?ps n - a\<bar> \<le> \<bar>time_at ?ps k - a\<bar>"
    "nearestSample s (Fin a) = (if w < \<bar>time_at ?ps n - a\<bar> \<and> time_at ?ps n \<noteq> a then None else Some (?ps ! n))"
    using nearest_index [OF tp ne w, of a] by (elim exE conjE)
  obtain z where z: "fst (?ps ! n) = Fin z" using timed_fin [OF tp n(1)] by (rule that)
  note n3 = n(3) [unfolded z fin_val.simps]
  have near: "\<exists>y. fst p = Fin y \<and> \<bar>z - a\<bar> \<le> \<bar>y - a\<bar>" if mem: "p \<in> set ?ps" for p
  proof -
    obtain k where k: "k < length ?ps" "p = ?ps ! k" using mem by (auto simp: in_set_conv_nth)
    obtain y where y: "fst (?ps ! k) = Fin y" using timed_fin [OF tp k(1)] by blast
    moreover have "\<bar>z - a\<bar> \<le> \<bar>y - a\<bar>" using n(2) [rule_format, OF k(1)] by (simp only: z y fin_val.simps)
    ultimately show ?thesis using k(2) by simp
  qed
  show ?thesis
  proof (cases "w < \<bar>z - a\<bar> \<and> z \<noteq> a")
    case True
    have "Fin w < jabs (fst p - Fin a) \<and> fst p \<noteq> Fin a" if "p \<in> set ?ps" for p
      using near [OF that] True by auto
    then show ?thesis by (simp only: a w n3 True if_True option.case is_finite.simps simp_thms) blast
  next
    case in_step: False
    have "jabs (Fin z - Fin a) \<le> jabs (fst p - Fin a)" if "p \<in> set ?ps" for p
      using near [OF that] by auto
    moreover have "jabs (Fin z - Fin a) \<le> Fin w \<or> Fin z = Fin a" using in_step by auto
    ultimately show ?thesis using in_step nth_mem [OF n(1)] by (simp only: a w n3 if_False option.case z simp_thms) blast
  qed
qed

subsection \<open>Every series of a chart can be searched\<close>

definition timed_reading :: "reading set" where
  "timed_reading = {p. is_finite (fst p)}"

interpretation by_instant: comparator_on by_time timed_reading
proof (rule comparator_by_key [of _ _ "\<lambda>p. fin_val (fst p)"])
  fix x y
  assume "x \<in> timed_reading" "y \<in> timed_reading"
  then show "gt_by by_time x y \<longleftrightarrow> fin_val (fst y) < fin_val (fst x)"
    by (auto simp: timed_reading_def is_finite_iff gt_by_def by_time_def)
qed

lemma toInstant_finite: "toInstant parse v = Some t \<Longrightarrow> is_finite t"
  by (cases v) (auto split: if_splits)

lemma toPoint_timed: "toPoint parse num item = Some p \<Longrightarrow> p \<in> timed_reading"
  by (auto simp: toPoint_def timed_reading_def dest: toInstant_finite split: jsval.splits if_splits option.splits)

lemma sorted_points:
  assumes "set ps \<subseteq> timed_reading"
  shows "timed_points (js_sort by_time ps)"
proof -
  have "sorted_wrt by_instant.before (js_sort by_time ps)" by (rule by_instant.sort_sorted [OF assms])
  then have "sorted_wrt (\<lambda>p q. fst p \<le> fst q) (js_sort by_time ps)"
  proof (rule sorted_wrt_mono_rel [rotated])
    fix p q
    assume "p \<in> set (js_sort by_time ps)" "q \<in> set (js_sort by_time ps)" and le: "\<not> gt_by by_time p q"
    then have "is_finite (fst p)" "is_finite (fst q)" using assms by (auto simp: timed_reading_def)
    then obtain a b where "fst p = Fin a" "fst q = Fin b" by (auto simp: is_finite_iff)
    then show "fst p \<le> fst q" using le by (simp add: gt_by_def by_time_def)
  qed
  then show ?thesis using assms by (auto simp: timed_points_def timed_reading_def)
qed

lemma median_finite:
  assumes "\<forall>v \<in> set vs. is_finite v"
  shows "is_finite (median_or_zero vs)"
proof (cases "vs = []")
  case False
  let ?s = "js_sort num_cmp vs"
  have fin: "is_finite (?s ! i)" if "i < length vs" for i
  proof -
    have "?s ! i \<in> set ?s" using that by (intro nth_mem) simp
    then show ?thesis using assms by simp
  qed
  have "length vs div 2 < length vs" "length vs div 2 - 1 < length vs" using False by (auto simp: length_greater_0_conv [symmetric] simp del: length_greater_0_conv)
  then obtain a b where "?s ! (length vs div 2) = Fin a" "?s ! (length vs div 2 - 1) = Fin b" using fin by (meson is_finite_iff)
  then show ?thesis using False by (simp add: median_or_zero_def Let_def)
qed (simp add: median_or_zero_def)

lemma medianStep_finite:
  assumes "timed_points ps"
  shows "is_finite (medianStep ps)"
  unfolding medianStep_def
proof (rule median_finite, rule ballI)
  fix v
  assume "v \<in> set (filter (\<lambda>gap. Fin 0 < gap) (map (\<lambda>(p, q). fst q - fst p) (zip ps (tl ps))))"
  then obtain p q where v: "v = fst q - fst p" and "(p, q) \<in> set (zip ps (tl ps))" by auto
  then have "p \<in> set ps" "q \<in> set (tl ps)" by (auto dest: set_zip_leftD set_zip_rightD)
  moreover from this(2) have "q \<in> set ps" by (cases ps) auto
  ultimately have "is_finite (fst p)" "is_finite (fst q)" using assms by (auto simp: timed_points_def)
  then show "is_finite v" by (auto simp: v is_finite_iff)
qed

lemma built_series_timed: "timed_points (rs_points (built_series parse num i entry)) \<and> is_finite (rs_step (built_series parse num i entry))"
proof -
  have "set (List.map_filter (toPoint parse num) data) \<subseteq> timed_reading" for data
    by (auto simp: map_filter_def toPoint_timed)
  from sorted_points [OF this] medianStep_finite [OF sorted_points [OF this]] show ?thesis
    by (simp add: built_series_def Let_def)
qed

lemma readoutSeries_timed:
  assumes "s \<in> set (readoutSeries parse num option)"
  shows "timed_points (rs_points s) \<and> is_finite (rs_step s)"
proof -
  let ?list = "series_list (jfield option (js ''series''))"
  let ?built = "filter (\<lambda>s. rs_points s \<noteq> []) (map (\<lambda>i. built_series parse num i (?list ! i)) [0..<length ?list])"
  have b: "timed_points (rs_points r) \<and> is_finite (rs_step r)" if "r \<in> set ?built" for r
    using that built_series_timed by auto
  have "is_finite (median_or_zero (filter (\<lambda>step. Fin 0 < step) (map rs_step ?built)))"
    by (rule median_finite) (use b in auto)
  then show ?thesis using assms b unfolding readoutSeries_def Let_def by auto
qed

text \<open>
  Whatever a chart's option holds, what one of its series reads at an instant
  is a sample the series has, none lies nearer to the instant, and it lies within one step of the
  series or exactly on the instant. Nothing is read only where every sample is farther than a step.
\<close>

lemma nearestSample_nearest:
  assumes "s \<in> set (readoutSeries parse num option)"
  shows "case nearestSample s instant of
      None \<Rightarrow> is_finite instant \<longrightarrow> (\<forall>p \<in> set (rs_points s). rs_step s < jabs (fst p - instant) \<and> fst p \<noteq> instant)
    | Some q \<Rightarrow> q \<in> set (rs_points s) \<and> (\<forall>p \<in> set (rs_points s). jabs (fst q - instant) \<le> jabs (fst p - instant)) \<and>
        (jabs (fst q - instant) \<le> rs_step s \<or> fst q = instant)"
  using nearestSample_spec readoutSeries_timed [OF assms] by blast

definition toy_chart :: jsval where
  "toy_chart = JObj [(js ''series'', JArr [JObj [(js ''data'', JArr
     [JArr [JNum (Fin 20), JNum (Fin 5)], JArr [JNum (Fin 0), JNum (Fin 7)], JArr [JNum (Fin 10), JNull], JArr [JNum (Fin 10), JNum (Fin 6)]])]])]"

end
