(* ===== verification/Js_Double.thy ===== *)
theory Js_Double
  imports Js_Prelude
begin

section \<open>The doubles of the language\<close>

text \<open>
  The rest of the library computes with exact rationals. Where a figure is typed in one unit and sent
  in another the rounding of a double is part of what the code does, and this theory has it: the double
  nearest to a rational that is not negative, ties to the even significand, and \<open>Number(s)\<close> of a plain
  decimal. A double is a whole number of grains, and the grain of a number is the least power of two
  from \<open>2 ^ -1074\<close> on that leaves the significand below \<open>2 ^ 53\<close>.

  Shown are the grain's defining inequalities, that a whole number of grains below \<open>2 ^ 53\<close> is itself,
  how far a double is from the number it stands for, and that rounding does not cross a whole number.
\<close>

definition round_half_even :: "rat \<Rightarrow> int" where
  "round_half_even x =
     (let f = \<lfloor>x\<rfloor>; d = x - of_int f in if d < 1 / 2 \<or> d = 1 / 2 \<and> even f then f else f + 1)"

text \<open>\<open>2 ^ k\<close> of the smallest grains.\<close>

definition grains :: "nat \<Rightarrow> rat" where
  "grains k = 2 ^ k / 2 ^ 1074"

primrec grain_exp :: "nat \<Rightarrow> rat \<Rightarrow> nat" where
  "grain_exp 0 x = 0"
| "grain_exp (Suc n) x = (let k = grain_exp n x in if x < grains k * 2 ^ 53 then k else Suc k)"

text \<open>The largest grain is \<open>2 ^ 971\<close>.\<close>

definition grain :: "rat \<Rightarrow> rat" where
  "grain x = grains (grain_exp 2045 x)"

definition double :: "rat \<Rightarrow> rat" where
  "double x = of_int (round_half_even (x / grain x)) * grain x"

text \<open>\<open>Number(s)\<close> where \<open>s\<close> spells the number \<open>x\<close>, which is not negative.\<close>

definition number_value :: "rat \<Rightarrow> jsnum" where
  "number_value x = (if x < 2 ^ 1024 - 2 ^ 970 then Fin (double x) else PInf)"

subsection \<open>The grain\<close>

lemma grains_pos [simp]: "0 < grains k"
  by (simp add: grains_def)

lemma grains_nonzero [simp]: "grains k \<noteq> 0"
  by (simp add: grains_def)

lemma grains_Suc: "grains (Suc k) = 2 * grains k"
  by (simp add: grains_def)

lemma grains_mono: "k \<le> j \<Longrightarrow> grains k \<le> grains j"
  by (simp add: grains_def divide_right_mono)

lemma grains_step: "k \<le> j \<Longrightarrow> grains j = 2 ^ (j - k) * grains k"
  by (simp add: grains_def flip: power_add)

text \<open>Each turn of the search keeps what it found or doubles a grain that was too fine.\<close>

lemma grain_exp_lower: "grain_exp n x = 0 \<or> grains (grain_exp n x) * 2 ^ 52 \<le> x"
proof (induction n)
  case (Suc n)
  show ?case
  proof (cases "x < grains (grain_exp n x) * 2 ^ 53")
    case False
    have "grains (Suc (grain_exp n x)) * 2 ^ 52 = grains (grain_exp n x) * 2 ^ 53" by (simp add: grains_Suc)
    with False show ?thesis by (simp add: Let_def)
  qed (use Suc in simp)
qed simp

lemma grain_exp_upper: "x < grains n * 2 ^ 53 \<Longrightarrow> x < grains (grain_exp n x) * 2 ^ 53"
proof -
  have "grain_exp n x = n \<or> x < grains (grain_exp n x) * 2 ^ 53" for n
    by (induction n) (auto simp: Let_def)
  then show "x < grains n * 2 ^ 53 \<Longrightarrow> x < grains (grain_exp n x) * 2 ^ 53" by metis
qed

lemma grain_exp_le: "x < grains j * 2 ^ 53 \<Longrightarrow> grain_exp n x \<le> j"
proof (rule ccontr)
  assume x: "x < grains j * 2 ^ 53" and "\<not> grain_exp n x \<le> j"
  then have k: "Suc j \<le> grain_exp n x" by simp
  have "grains j * 2 ^ 53 = grains (Suc j) * 2 ^ 52" by (simp add: grains_Suc)
  also have "\<dots> \<le> grains (grain_exp n x) * 2 ^ 52" using grains_mono [OF k] by simp
  also have "\<dots> \<le> x" using grain_exp_lower [of n x] k by auto
  finally show False using x by simp
qed

lemma grain_le: "x < grains j * 2 ^ 53 \<Longrightarrow> grain x \<le> grains j"
  unfolding grain_def by (rule grains_mono [OF grain_exp_le])

text \<open>The grain of a number of \<open>53\<close> binary places.\<close>

lemma grain_at:
  assumes "grains j * 2 ^ 52 \<le> x" "x < grains j * 2 ^ 53" "j \<le> 2045"
  shows "grain x = grains j"
proof -
  have "grain_exp 2045 x \<le> j" by (rule grain_exp_le [OF assms(2)])
  moreover have "j \<le> grain_exp 2045 x"
  proof (rule ccontr)
    assume "\<not> j \<le> grain_exp 2045 x"
    then have k: "Suc (grain_exp 2045 x) \<le> j" by simp
    have "x < grains 2045 * 2 ^ 53" using assms(2) mult_right_mono [OF grains_mono [OF assms(3)], of "2 ^ 53"] by simp
    then have "x < grains (grain_exp 2045 x) * 2 ^ 53" by (rule grain_exp_upper)
    also have "\<dots> = grains (Suc (grain_exp 2045 x)) * 2 ^ 52" by (simp add: grains_Suc)
    also have "\<dots> \<le> grains j * 2 ^ 52" using mult_right_mono [OF grains_mono [OF k], of "2 ^ 52"] by simp
    finally show False using assms(1) by simp
  qed
  ultimately show ?thesis by (simp add: grain_def)
qed

lemma grain_pos [simp]: "0 < grain x"
  by (simp add: grain_def)

lemma grain_nonzero [simp]: "grain x \<noteq> 0"
  by (metis grain_pos less_irrefl)

subsection \<open>Rounding\<close>

lemma round_half_even_int [simp]: "round_half_even (of_int i) = i"
  by (simp add: round_half_even_def)

lemma round_half_even_error: "\<bar>of_int (round_half_even x) - x\<bar> \<le> 1 / 2"
proof -
  have "of_int \<lfloor>x\<rfloor> \<le> x" "x < of_int \<lfloor>x\<rfloor> + 1" by linarith+
  then show ?thesis unfolding round_half_even_def Let_def abs_le_iff by (cases "x - of_int \<lfloor>x\<rfloor> < 1 / 2 \<or> x - of_int \<lfloor>x\<rfloor> = 1 / 2 \<and> even \<lfloor>x\<rfloor>") (simp_all only: if_True if_False of_int_add of_int_1, linarith+)
qed

lemma round_half_even_le: "x \<le> of_int i \<Longrightarrow> round_half_even x \<le> i"
proof -
  assume x: "x \<le> of_int i"
  then have f: "\<lfloor>x\<rfloor> \<le> i" by (simp add: floor_le_iff)
  show ?thesis
  proof (cases "\<lfloor>x\<rfloor> = i")
    case True
    then have "x = of_int i" using x by linarith
    then show ?thesis by simp
  qed (use f in \<open>auto simp: round_half_even_def Let_def\<close>)
qed

lemma round_half_even_nonneg: "0 \<le> x \<Longrightarrow> 0 \<le> round_half_even x"
  by (auto simp: round_half_even_def Let_def)

lemma double_error: "\<bar>double x - x\<bar> \<le> grain x / 2"
proof -
  have "double x - x = (of_int (round_half_even (x / grain x)) - x / grain x) * grain x"
    by (simp add: double_def left_diff_distrib)
  then have "\<bar>double x - x\<bar> = \<bar>of_int (round_half_even (x / grain x)) - x / grain x\<bar> * grain x"
    by (simp only: abs_mult abs_of_pos [OF grain_pos])
  also have "\<dots> \<le> 1 / 2 * grain x"
    by (rule mult_right_mono [OF round_half_even_error]) (simp add: less_imp_le)
  finally show ?thesis by simp
qed

lemma double_near: "x < grains j * 2 ^ 53 \<Longrightarrow> \<bar>double x - x\<bar> \<le> grains j / 2"
  using double_error [of x] grain_le [of x j] by simp

text \<open>Above the smallest doubles the error is a fraction of the number.\<close>

lemma double_relative:
  assumes "grains 0 * 2 ^ 53 \<le> x" "x < 2 ^ 1024"
  shows "\<bar>double x - x\<bar> \<le> x / 2 ^ 53"
proof -
  have "grains 2045 * 2 ^ 53 = 2 ^ 1024" by (simp add: grains_def)
  then have "x < grains (grain_exp 2045 x) * 2 ^ 53" using assms(2) grain_exp_upper [of x 2045] by simp
  then have "grain_exp 2045 x \<noteq> 0" using assms(1) by (metis linorder_not_less)
  then have "grain x * 2 ^ 52 \<le> x" using grain_exp_lower [of 2045 x] by (simp add: grain_def)
  then have "grain x / 2 \<le> x / 2 ^ 53" by (simp add: field_simps)
  with double_error [of x] show ?thesis by linarith
qed

text \<open>The only numbers read as zero are those up to half the smallest double.\<close>

lemma double_zero:
  assumes "0 \<le> x" "x < 2 ^ 1024"
  shows "double x = 0 \<longleftrightarrow> x \<le> grains 0 / 2"
proof
  assume z: "double x = 0"
  show "x \<le> grains 0 / 2"
  proof (cases "x < grains 0 * 2 ^ 53")
    case True
    from double_near [OF True] z assms(1) show ?thesis by simp
  next
    case False
    from double_relative [of x] False z assms have "x \<le> x / 2 ^ 53" by simp
    then have "x \<le> 0" by (simp add: field_simps)
    with False grains_pos [of 0] show ?thesis by (simp add: mult_pos_pos not_less less_le_trans)
  qed
next
  assume x: "x \<le> grains 0 / 2"
  have "x < grains 0 * 2 ^ 53" by (rule le_less_trans [OF x]) (simp add: grains_def)
  then have "grain_exp 2045 x \<le> 0" by (rule grain_exp_le)
  then have g: "grain x = grains 0" by (simp add: grain_def)
  have "x / grains 0 \<le> 1 / 2" using x by (simp add: pos_divide_le_eq)
  moreover have "0 \<le> x / grains 0" using assms(1) by (simp add: less_imp_le)
  ultimately have "\<lfloor>x / grains 0\<rfloor> = 0" by linarith
  then have "round_half_even (x / grains 0) = 0"
    using \<open>x / grains 0 \<le> 1 / 2\<close> by (auto simp: round_half_even_def Let_def)
  then show "double x = 0" by (simp add: double_def g)
qed

lemma double_nonneg: "0 \<le> x \<Longrightarrow> 0 \<le> double x"
  using round_half_even_nonneg [of "x / grain x"] by (simp add: double_def less_imp_le)

text \<open>A whole number of grains below \<open>2 ^ 53\<close> is a double.\<close>

lemma double_exact:
  assumes "x = of_nat m * grains j" "m < 2 ^ 53"
  shows "double x = x"
proof -
  have "(of_nat m :: rat) < 2 ^ 53" using assms(2) by (metis of_nat_less_iff of_nat_numeral of_nat_power)
  then have "x < grains j * 2 ^ 53" unfolding assms(1) using grains_pos [of j] by (simp add: mult.commute)
  then have "grain_exp 2045 x \<le> j" by (rule grain_exp_le)
  from grains_step [OF this] have x: "x = of_int (int (m * 2 ^ (j - grain_exp 2045 x))) * grain x"
    unfolding assms(1) grain_def by simp
  then have "x / grain x = of_int (int (m * 2 ^ (j - grain_exp 2045 x)))" by (metis nonzero_mult_div_cancel_right grain_nonzero)
  then have "double x = of_int (int (m * 2 ^ (j - grain_exp 2045 x))) * grain x"
    unfolding double_def by (simp only: round_half_even_int)
  with x show ?thesis by (simp only:)
qed

lemma grains_one: "grains 1074 = 1"
  by (simp add: grains_def)

lemma double_nat: "n < 2 ^ 53 \<Longrightarrow> double (of_nat n) = of_nat n"
  by (rule double_exact [where j = 1074]) (simp_all add: grains_one)

text \<open>Below a whole number the grain divides it, so rounding up stops there.\<close>

lemma double_le_nat:
  assumes "x \<le> of_nat n" "n < 2 ^ 53"
  shows "double x \<le> of_nat n"
proof -
  define m where "m = int (n * 2 ^ (1074 - grain_exp 2045 x))"
  have "(of_nat n :: rat) < 2 ^ 53" using assms(2) by (metis of_nat_less_iff of_nat_numeral of_nat_power)
  then have "x < grains 1074 * 2 ^ 53" unfolding grains_one mult_1 using assms(1) by (rule le_less_trans [rotated])
  then have "grain_exp 2045 x \<le> 1074" by (rule grain_exp_le)
  from grains_step [OF this] have "1 = 2 ^ (1074 - grain_exp 2045 x) * grain x" unfolding grain_def grains_one .
  then have n: "of_nat n = of_int m * grain x" unfolding m_def by (metis mult.assoc mult.right_neutral of_int_of_nat_eq of_nat_mult of_nat_numeral of_nat_power)
  then have "x / grain x \<le> of_int m" using assms(1) by (simp only: pos_divide_le_eq [OF grain_pos])
  then have "round_half_even (x / grain x) \<le> m" by (rule round_half_even_le)
  then have "(of_int (round_half_even (x / grain x)) :: rat) \<le> of_int m" by (simp only: of_int_le_iff)
  then have "double x \<le> of_int m * grain x" unfolding double_def by (rule mult_right_mono) (rule less_imp_le [OF grain_pos])
  then show ?thesis unfolding n .
qed

end
