(* ===== verification/Targets_Page.thy ===== *)
theory Targets_Page
  imports Js_Double Text_Rules Adhoc_Address Agents Api_Client Time_Machine
begin

section \<open>Targets, checks and schedules (pages/targets.tsx)\<close>

text \<open>
  The three forms of the page: what they read from a stored row, what they refuse and what they send,
  with the readers and printers between. Wire words (kinds, check types) are strings. \<open>parse\<close> is
  \<open>new Date(s)\<close>, \<open>toISO\<close> is \<open>toISOString\<close>, \<open>lower\<close> is \<open>toLowerCase\<close>, \<open>json\<close> is \<open>JSON.parse\<close>
  (\<open>None\<close> where it throws), \<open>quote\<close> is \<open>JSON.stringify\<close> on a string, \<open>stampFull\<close> prints an
  instant, \<open>t\<close> is the translator, \<open>num_str\<close> prints a non-integer. The interval box computes with
  doubles (\<open>Js_Double\<close>).

  Shown are the round trip of the label box and where it ends, what the interval box accepts, that a
  schedule request has the fields of its kind and no others, and whose projection the form shows.
\<close>

subsection \<open>The view in the address\<close>

definition TABS :: "jstring list" where
  "TABS = [js ''targets'', js ''definitions'', js ''schedules'']"

definition VIEW_PARAM :: jstring where
  "VIEW_PARAM = js ''view''"

definition tabFromSearch :: "search_params \<Rightarrow> jstring" where
  "tabFromSearch ps =
     (case map_of ps VIEW_PARAM of
        Some raw \<Rightarrow> if raw \<in> set TABS then raw else js ''targets''
      | None \<Rightarrow> js ''targets'')"

text \<open>\<open>select\<close>: the address it pushes, or \<open>None\<close> when it returns early.\<close>

definition select_tab :: "jstring \<Rightarrow> search_params \<Rightarrow> search_params option" where
  "select_tab next_tab ps =
     (if map_of ps VIEW_PARAM = Some next_tab then None
      else if next_tab = js ''targets'' then Some (params_delete VIEW_PARAM ps)
      else Some (params_set VIEW_PARAM next_tab ps))"

subsection \<open>What an agent can run\<close>

definition EXTERNAL_CONTINUOUS_TYPES :: "jstring list" where
  "EXTERNAL_CONTINUOUS_TYPES = map js [''tcp'', ''icmp'', ''dns'', ''http'']"

definition EXTERNAL_RUN_TYPES :: "jstring list" where
  "EXTERNAL_RUN_TYPES = map js [''tcp'', ''icmp'', ''mtr'']"

definition probesNodesOnly :: "jstring \<Rightarrow> bool" where
  "probesNodesOnly ct \<longleftrightarrow> ct \<notin> set EXTERNAL_CONTINUOUS_TYPES \<and> ct \<notin> set EXTERNAL_RUN_TYPES"

subsection \<open>Refusals\<close>

definition TARGET_FIELD_PHRASES :: "(jstring \<times> jstring) list" where
  "TARGET_FIELD_PHRASES = map (\<lambda>f. (js f, js f)) [''labels'', ''address'', ''kind'', ''name'']"

definition SCHEDULE_FIELD_PHRASES :: "(jstring \<times> jstring) list" where
  "SCHEDULE_FIELD_PHRASES =
     [(js ''definitionId'', js ''definition id''), (js ''runAt'', js ''run at''), (js ''intervalNs'', js ''interval''), (js ''kind'', js ''kind'')]"

definition DEFINITION_FIELD_PHRASES :: "(jstring \<times> jstring) list" where
  "DEFINITION_FIELD_PHRASES =
     [(js ''destinationTargetId'', js ''destination target id''), (js ''destinationAddress'', js ''destination address''),
      (js ''destinationKind'', js ''destination kind''), (js ''sourceSelection'', js ''source selection''),
      (js ''checkType'', js ''check type''), (js ''params'', js ''params''), (js ''plane'', js ''plane''), (js ''name'', js ''name'')]"

definition fieldForDetail :: "(jstring \<Rightarrow> jstring) \<Rightarrow> jstring \<Rightarrow> (jstring \<times> jstring) list \<Rightarrow> jstring option" where
  "fieldForDetail lower detail phrases =
     map_option fst (find (\<lambda>(f, phrase). index_of (lower detail) phrase \<noteq> None) phrases)"

text \<open>
  A field and its message; the field \<open>form\<close> is the form's own. A detail that is no string has no
  \<open>trim\<close>.
\<close>

definition errorsFromProblem :: "(jstring \<Rightarrow> jstring) \<Rightarrow> api_error \<Rightarrow> (jstring \<times> jstring) list \<Rightarrow> jstring \<Rightarrow> api_error + (jstring \<times> jstring)" where
  "errorsFromProblem lower err phrases fallback =
     (case err of
        Api_Error problem \<Rightarrow>
          (let detail = jfield problem (js ''detail''); title = jfield problem (js ''title'');
               said = (if detail \<noteq> JUndef \<and> detail \<noteq> JNull then detail else if title \<noteq> JUndef \<and> title \<noteq> JNull then title else JStr [])
           in case said of
                JStr s \<Rightarrow>
                  (let words = (if trim s = [] then fallback else trim s)
                   in Inr (case fieldForDetail lower words phrases of Some f \<Rightarrow> (f, words) | None \<Rightarrow> (js ''form'', words)))
              | _ \<Rightarrow> Inl Type_Error)
      | _ \<Rightarrow> Inr (js ''form'', fallback))"

subsection \<open>Labels\<close>

type_synonym labels = "(jstring, jstring) jmap"

text \<open>Assigning a string to \<open>__proto__\<close> of an object leaves it as it is.\<close>

definition set_label :: "jstring \<Rightarrow> jstring \<Rightarrow> labels \<Rightarrow> labels" where
  "set_label k v m = (if k = js ''__proto__'' then m else AList.update k v m)"

text \<open>The loop of \<open>parseLabels\<close>; \<open>Inl\<close> is the fragment a \<open>LabelSyntaxError\<close> carries.\<close>

fun label_parts :: "labels \<Rightarrow> jstring list \<Rightarrow> jstring + labels" where
  "label_parts out [] = Inr out"
| "label_parts out (raw # raws) =
     (let part = trim raw
      in if part = [] then label_parts out raws
         else case index_of part (js ''='') of
                None \<Rightarrow> Inl part
              | Some 0 \<Rightarrow> Inl part
              | Some eq \<Rightarrow> label_parts (set_label (trim (take eq part)) (trim (drop (eq + 1) part)) out) raws)"

definition parseLabels :: "jstring \<Rightarrow> jstring + labels" where
  "parseLabels text = label_parts [] (split_on 44 text)"

definition formatLabels :: "labels option \<Rightarrow> jstring" where
  "formatLabels ls =
     (case ls of None \<Rightarrow> [] | Some m \<Rightarrow> join (js '', '') (map (\<lambda>(k, v). k @ js ''='' @ v) m))"

record Target =
  ta_id :: jstring
  ta_name :: jstring
  ta_kind :: jstring
  ta_address :: jstring
  ta_labels :: labels

text \<open>The box of the target form and what its submit sends: a refused field, or the body.\<close>

record TargetDraft =
  td_name :: jstring
  td_kind :: jstring
  td_address :: jstring
  td_labels :: jstring

definition target_draft :: "Target option \<Rightarrow> TargetDraft" where
  "target_draft initial =
     (case initial of
        None \<Rightarrow> \<lparr>td_name = [], td_kind = js ''host'', td_address = [], td_labels = []\<rparr>
      | Some x \<Rightarrow> \<lparr>td_name = ta_name x, td_kind = ta_kind x, td_address = ta_address x, td_labels = formatLabels (Some (ta_labels x))\<rparr>)"

definition target_submit :: "translator \<Rightarrow> (jstring \<Rightarrow> jstring) \<Rightarrow> TargetDraft \<Rightarrow> (jstring \<times> jstring) + (jstring \<times> jstring \<times> jstring \<times> labels)" where
  "target_submit t quote d =
     (if trim (td_name d) = [] then Inl (js ''name'', t (js ''targets.form.nameRequired'') [])
      else case parseLabels (td_labels d) of
             Inl part \<Rightarrow> Inl (js ''labels'', t (js ''targets.form.labelsSyntax'') [(js ''part'', TS (quote part))])
           | Inr ls \<Rightarrow> Inr (td_name d, td_kind d, td_address d, ls))"

subsection \<open>Check definitions\<close>

definition tryParseParams :: "(jstring \<Rightarrow> jsval option) \<Rightarrow> jstring \<Rightarrow> jstring + jsval option" where
  "tryParseParams json text =
     (let trimmed = trim text
      in if trimmed = [] then Inr None
         else case json trimmed of
                None \<Rightarrow> Inl (js ''definitions.form.paramsNotJson'')
              | Some v \<Rightarrow> (case v of JObj _ \<Rightarrow> Inr (Some v) | _ \<Rightarrow> Inl (js ''definitions.form.paramsNotObject'')))"

record DefinitionDraft =
  dd_name :: jstring
  dd_checkType :: jstring
  dd_sourceSelection :: jstring
  dd_destinationKind :: jstring
  dd_destinationTargetId :: jstring
  dd_destinationAddress :: jstring
  dd_paramsText :: jstring
  dd_enabled :: bool

record CheckDefinitionRequest =
  cr_name :: jstring
  cr_sourceSelection :: jstring
  cr_destinationKind :: jstring
  cr_destinationTargetId :: "jstring option"
  cr_destinationAddress :: "jstring option"
  cr_checkType :: jstring
  cr_plane :: jstring
  cr_params :: "jsval option"
  cr_enabled :: bool

definition definition_body :: "(jstring \<Rightarrow> jsval option) \<Rightarrow> DefinitionDraft \<Rightarrow> CheckDefinitionRequest" where
  "definition_body json d =
     \<lparr>cr_name = dd_name d, cr_sourceSelection = dd_sourceSelection d, cr_destinationKind = dd_destinationKind d,
      cr_destinationTargetId = (if dd_destinationKind d = js ''target'' then Some (dd_destinationTargetId d) else None),
      cr_destinationAddress = (if dd_destinationKind d = js ''adhoc'' then Some (dd_destinationAddress d) else None),
      cr_checkType = dd_checkType d, cr_plane = js ''pod'',
      cr_params = (case tryParseParams json (dd_paramsText d) of Inr v \<Rightarrow> v | Inl _ \<Rightarrow> None), cr_enabled = dd_enabled d\<rparr>"

text \<open>The draft the projection effect does not ask about.\<close>

definition not_projected :: "CheckDefinitionRequest \<Rightarrow> bool" where
  "not_projected r \<longleftrightarrow>
     cr_name r = [] \<or>
     (cr_destinationKind r = js ''target'' \<and> (cr_destinationTargetId r = None \<or> cr_destinationTargetId r = Some [])) \<or>
     (cr_destinationKind r = js ''adhoc'' \<and> (case cr_destinationAddress r of None \<Rightarrow> True | Some a \<Rightarrow> trim a = []))"

record Projection =
  pj_series :: nat
  pj_agents :: nat
  pj_protocols :: nat
  pj_limit :: nat
  pj_overLimit :: bool

definition unrunnable :: "bool \<Rightarrow> DefinitionDraft \<Rightarrow> bool" where
  "unrunnable is_new d \<longleftrightarrow>
     probesNodesOnly (dd_checkType d) \<and> dd_destinationKind d \<noteq> js ''node'' \<and>
     (dd_checkType d = js ''pmtu'' \<or> is_new \<or> dd_enabled d)"

definition blocked :: "bool \<Rightarrow> DefinitionDraft \<Rightarrow> Projection option \<Rightarrow> bool" where
  "blocked is_new d projection \<longleftrightarrow>
     unrunnable is_new d \<or> (dd_enabled d \<and> (case projection of Some p \<Rightarrow> pj_overLimit p | None \<Rightarrow> False))"

definition definition_submit :: "translator \<Rightarrow> (jstring \<Rightarrow> jsval option) \<Rightarrow> (jstring \<Rightarrow> jstring option) \<Rightarrow> DefinitionDraft \<Rightarrow>
    (jstring \<times> jstring) + CheckDefinitionRequest" where
  "definition_submit t json url_hostname d =
     (if trim (dd_name d) = [] then Inl (js ''name'', t (js ''definitions.form.nameRequired'') [])
      else case tryParseParams json (dd_paramsText d) of
             Inl key \<Rightarrow> Inl (js ''params'', t key [])
           | Inr _ \<Rightarrow>
               if dd_destinationKind d = js ''adhoc'' \<and> trim (dd_destinationAddress d) \<noteq> [] \<and>
                  \<not> isValidAdhocAddress url_hostname (dd_destinationAddress d)
               then Inl (js ''destinationAddress'', t (js ''adhoc.address'') [])
               else Inr (definition_body json d))"

text \<open>
  The projection effect. \<open>pe_timer\<close> is the draft whose debounce is running, \<open>pe_asked\<close> the draft of
  the request in flight that has not been cancelled, \<open>pe_shown\<close> what the form shows and \<open>pe_of\<close> the
  draft that was asked about.
\<close>

record projection_effect =
  pe_draft :: CheckDefinitionRequest
  pe_timer :: "CheckDefinitionRequest option"
  pe_asked :: "CheckDefinitionRequest option"
  pe_shown :: "Projection option"
  pe_of :: "CheckDefinitionRequest option"

definition draft_changes :: "CheckDefinitionRequest \<Rightarrow> projection_effect \<Rightarrow> projection_effect" where
  "draft_changes r s =
     (let s = s\<lparr>pe_draft := r, pe_timer := None, pe_asked := None\<rparr>
      in if not_projected r then s\<lparr>pe_shown := None, pe_of := None\<rparr> else s\<lparr>pe_timer := Some r\<rparr>)"

definition debounce_fires :: "projection_effect \<Rightarrow> projection_effect" where
  "debounce_fires s = (case pe_timer s of None \<Rightarrow> s | Some r \<Rightarrow> s\<lparr>pe_timer := None, pe_asked := Some r\<rparr>)"

text \<open>The answer to the request in flight: a projection, or \<open>None\<close> for a failure.\<close>

definition projection_answers :: "Projection option \<Rightarrow> projection_effect \<Rightarrow> projection_effect" where
  "projection_answers p s =
     (case pe_asked s of
        None \<Rightarrow> s
      | Some r \<Rightarrow> s\<lparr>pe_asked := None, pe_shown := p, pe_of := (if p = None then None else Some r)\<rparr>)"

definition destinationLabel :: "translator \<Rightarrow> Target list \<Rightarrow> jstring \<Rightarrow> jstring \<Rightarrow> jstring \<Rightarrow> jstring" where
  "destinationLabel t targets kind targetId address =
     (if kind = js ''node'' then t (js ''definitions.destination.everyNode'') []
      else if kind = js ''target'' then (case find (\<lambda>x. ta_id x = targetId) targets of Some x \<Rightarrow> ta_name x | None \<Rightarrow> targetId)
      else if kind = js ''adhoc'' then address
      else kind)"

subsection \<open>Cadences\<close>

text \<open>\<open>Number(x.toFixed(d))\<close> on a finite number.\<close>

fun to_places :: "nat \<Rightarrow> jsnum \<Rightarrow> jsnum" where
  "to_places d (Fin r) = Fin ((if r < 0 then - 1 else 1) * of_int \<lfloor>\<bar>r\<bar> * 10 ^ d + 1 / 2\<rfloor> / 10 ^ d)"
| "to_places d x = x"

datatype IntervalUnit = u_second | u_minute | u_hour

definition intervalParts :: "jsnum \<Rightarrow> (jsnum \<times> IntervalUnit) option" where
  "intervalParts ns =
     (if \<not> is_finite ns \<or> ns = Fin 0 then None
      else let seconds = ns / Fin 1000000000; minutes = seconds / Fin 60
           in if seconds < Fin 60 then Some (to_places 3 seconds, u_second)
              else if minutes < Fin 60 then Some (to_places 2 minutes, u_minute)
              else Some (to_places 2 (minutes / Fin 60), u_hour))"

definition fmtIntervalNs :: "(jsnum \<Rightarrow> jstring) \<Rightarrow> jsnum \<Rightarrow> jstring" where
  "fmtIntervalNs num_str ns =
     (if \<not> is_finite ns \<or> ns = Fin 0 then [8212]
      else let seconds = ns / Fin 1000000000; minutes = seconds / Fin 60
           in if seconds < Fin 60 then show_num num_str (to_places 3 seconds) @ js ''s''
              else if minutes < Fin 60 then show_num num_str (to_places 2 minutes) @ js ''m''
              else show_num num_str (to_places 2 (minutes / Fin 60)) @ js ''h'')"

record CadencePhrases =
  cp_interval :: "jstring \<Rightarrow> jstring"
  cp_every :: "IntervalUnit \<Rightarrow> jstring"
  cp_unit :: "IntervalUnit \<Rightarrow> jstring"

definition fmtCadence :: "(jsnum \<Rightarrow> jstring) \<Rightarrow> jsnum \<Rightarrow> bool \<Rightarrow> CadencePhrases \<Rightarrow> jstring" where
  "fmtCadence num_str ns english phrases =
     (case intervalParts ns of
        None \<Rightarrow> cp_interval phrases (fmtIntervalNs num_str ns)
      | Some (value, unit_of) \<Rightarrow>
          if english then cp_interval phrases (fmtIntervalNs num_str ns)
          else if value = Fin 1 then cp_every phrases unit_of
          else cp_interval phrases (show_num num_str value @ js '' '' @ cp_unit phrases unit_of))"

record Schedule =
  sch_id :: jstring
  sch_definitionId :: jstring
  sch_kind :: jstring
  sch_intervalNs :: nat
  sch_runAt :: "jstring option"
  sch_enabled :: bool

record ScheduleRequest =
  sq_definitionId :: jstring
  sq_kind :: jstring
  sq_intervalNs :: "nat option"
  sq_runAt :: "jstring option"
  sq_enabled :: bool

definition fmtTime :: "(date \<Rightarrow> jstring) \<Rightarrow> (jstring \<Rightarrow> date) \<Rightarrow> jstring option \<Rightarrow> jstring" where
  "fmtTime stampFull parse timestamp =
     (case timestamp of
        None \<Rightarrow> [8212]
      | Some w \<Rightarrow> if w = [] then [8212] else if is_nan (parse w) then w else stampFull (parse w))"

definition cadence :: "translator \<Rightarrow> (jsnum \<Rightarrow> jstring) \<Rightarrow> (date \<Rightarrow> jstring) \<Rightarrow> (jstring \<Rightarrow> date) \<Rightarrow> bool \<Rightarrow> Schedule \<Rightarrow> jstring" where
  "cadence t num_str stampFull parse english s =
     (if sch_kind s = js ''interval'' then
        fmtCadence num_str (jnat (sch_intervalNs s)) english
          \<lparr>cp_interval = (\<lambda>w. t (js ''schedules.cadence.interval'') [(js ''interval'', TS w)]),
           cp_every = (\<lambda>u. t (case u of u_second \<Rightarrow> js ''schedules.cadence.every.second'' | u_minute \<Rightarrow> js ''schedules.cadence.every.minute''
             | u_hour \<Rightarrow> js ''schedules.cadence.every.hour'') []),
           cp_unit = (\<lambda>u. t (case u of u_second \<Rightarrow> js ''schedules.cadence.unit.second'' | u_minute \<Rightarrow> js ''schedules.cadence.unit.minute''
             | u_hour \<Rightarrow> js ''schedules.cadence.unit.hour'') [])\<rparr>
      else if sch_kind s = js ''once'' then
        t (js ''schedules.cadence.once'') [(js ''at'', TS (fmtTime stampFull parse (sch_runAt s)))]
      else if sch_kind s = js ''continuous'' then t (js ''schedules.cadence.continuous'') []
      else sch_kind s)"

definition SCHEDULE_KINDS :: "jstring list" where
  "SCHEDULE_KINDS = map js [''once'', ''interval'', ''continuous'']"

text \<open>A definition is its check type and destination kind here.\<close>

definition scheduleKindsFor :: "(jstring \<times> jstring) option \<Rightarrow> jstring list" where
  "scheduleKindsFor d =
     (case d of
        None \<Rightarrow> SCHEDULE_KINDS
      | Some (checkType, destinationKind) \<Rightarrow>
          if destinationKind = js ''node'' then SCHEDULE_KINDS
          else filter (\<lambda>k. checkType \<in> set (if k = js ''continuous'' then EXTERNAL_CONTINUOUS_TYPES else EXTERNAL_RUN_TYPES)) SCHEDULE_KINDS)"

definition scheduleKindsHint :: "translator \<Rightarrow> (jstring \<times> jstring) option \<Rightarrow> jstring list \<Rightarrow> jstring option" where
  "scheduleKindsHint t d kinds =
     (case d of
        None \<Rightarrow> None
      | Some (checkType, destinationKind) \<Rightarrow>
          if length kinds = length SCHEDULE_KINDS then None
          else if kinds = [] then Some (t (js ''schedules.form.kinds.nodesOnly'') [(js ''type'', TS checkType)])
          else Some (t (if js ''continuous'' \<in> set kinds then js ''schedules.form.kinds.continuousOnly'' else js ''schedules.form.kinds.runsOnly'')
                 [(js ''type'', TS checkType)]))"

text \<open>An empty \<open>runAt\<close> is falsy.\<close>

definition scheduleRequestFrom :: "Schedule \<Rightarrow> bool \<Rightarrow> ScheduleRequest" where
  "scheduleRequestFrom s enabled =
     \<lparr>sq_definitionId = sch_definitionId s, sq_kind = sch_kind s,
      sq_intervalNs = (if sch_kind s = js ''interval'' then Some (sch_intervalNs s) else None),
      sq_runAt = (if sch_kind s = js ''once'' \<and> sch_runAt s \<noteq> Some [] then sch_runAt s else None), sq_enabled = enabled\<rparr>"

definition MAX_SAFE_INTEGER :: nat where
  "MAX_SAFE_INTEGER = 9007199254740991"

definition MAX_INTERVAL_SECONDS :: nat where
  "MAX_INTERVAL_SECONDS = MAX_SAFE_INTEGER div 1000000000"

text \<open>The grammar \<open>digits\<close> or \<open>digits.digits\<close>, and the number it spells.\<close>

definition decimal :: "jstring \<Rightarrow> rat option" where
  "decimal s =
     (case split_on 46 s of
        [w] \<Rightarrow> if w \<noteq> [] \<and> list_all is_digit w then Some (of_nat (digits_value w)) else None
      | [w, f] \<Rightarrow>
          if w \<noteq> [] \<and> list_all is_digit w \<and> f \<noteq> [] \<and> list_all is_digit f
          then Some (of_nat (digits_value w) + of_nat (digits_value f) / 10 ^ length f) else None
      | _ \<Rightarrow> None)"

text \<open>\<open>Number(s)\<close> and the product with a billion are doubles; \<open>Math.round\<close> of a double is exact.\<close>

definition parseIntervalSeconds :: "jstring \<Rightarrow> jstring + nat" where
  "parseIntervalSeconds text =
     (case decimal (trim text) of
        None \<Rightarrow> Inl (js ''schedules.form.error.interval'')
      | Some q \<Rightarrow>
          let seconds = number_value q
          in if \<not> Fin 0 < seconds then Inl (js ''schedules.form.error.interval'')
             else if jnat MAX_INTERVAL_SECONDS < seconds then Inl (js ''schedules.form.error.intervalRange'')
             else let ns = nat \<lfloor>double (fin_val seconds * 1000000000) + 1 / 2\<rfloor>
                  in if MAX_SAFE_INTEGER < ns then Inl (js ''schedules.form.error.intervalRange'') else Inr ns)"

definition localDateTimeToIso :: "(jstring \<Rightarrow> date) \<Rightarrow> (date \<Rightarrow> jstring) \<Rightarrow> jstring \<Rightarrow> jstring option" where
  "localDateTimeToIso parse toISO value =
     (if value = [] then None else if is_nan (parse value) then None else Some (toISO (parse value)))"

subsection \<open>The schedule form\<close>

record ScheduleDraft =
  sd_definitionId :: jstring
  sd_kind :: jstring
  sd_intervalSeconds :: jstring
  sd_runAt :: "date option"
  sd_enabled :: bool

text \<open>The definitions by id, as the form finds them.\<close>

type_synonym definitions = "(jstring \<times> jstring \<times> jstring) list"

definition schedule_draft :: "(jsnum \<Rightarrow> jstring) \<Rightarrow> (jstring \<Rightarrow> date) \<Rightarrow> Schedule option \<Rightarrow> definitions \<Rightarrow> ScheduleDraft" where
  "schedule_draft num_str parse initial definitions =
     (case initial of
        None \<Rightarrow>
          \<lparr>sd_definitionId = (case definitions of [] \<Rightarrow> [] | d # _ \<Rightarrow> fst d), sd_kind = js ''interval'', sd_intervalSeconds = js ''60'',
           sd_runAt = None, sd_enabled = True\<rparr>
      | Some s \<Rightarrow>
          \<lparr>sd_definitionId = sch_definitionId s, sd_kind = sch_kind s,
           sd_intervalSeconds = (if 0 < sch_intervalNs s then show_num num_str (Fin (double (of_nat (sch_intervalNs s) / 1000000000))) else js ''60''),
           sd_runAt = (case sch_runAt s of None \<Rightarrow> None | Some r \<Rightarrow> if r = [] then None else Some (parse r)),
           sd_enabled = sch_enabled s\<rparr>)"

definition effectiveKind :: "definitions \<Rightarrow> ScheduleDraft \<Rightarrow> jstring" where
  "effectiveKind definitions d =
     (let kinds = scheduleKindsFor (map_of definitions (sd_definitionId d))
      in if sd_kind d \<in> set kinds \<or> kinds = [] then sd_kind d else hd kinds)"

datatype schedule_outcome = Refuses jstring jstring | Sends ScheduleRequest | Throws

definition schedule_submit :: "translator \<Rightarrow> (date \<Rightarrow> jstring) \<Rightarrow> date \<Rightarrow> definitions \<Rightarrow> ScheduleDraft \<Rightarrow> schedule_outcome" where
  "schedule_submit t toISO now definitions d =
     (let kind = effectiveKind definitions d;
          req = \<lparr>sq_definitionId = sd_definitionId d, sq_kind = kind, sq_intervalNs = None, sq_runAt = None, sq_enabled = sd_enabled d\<rparr>
      in if sd_definitionId d = [] then Refuses (js ''definitionId'') (t (js ''schedules.form.definitionRequired'') [])
         else if kind = js ''interval'' then
           (case parseIntervalSeconds (sd_intervalSeconds d) of
              Inl key \<Rightarrow> Refuses (js ''intervalNs'') (t key [(js ''max'', TN (jnat MAX_INTERVAL_SECONDS))])
            | Inr ns \<Rightarrow> Sends (req\<lparr>sq_intervalNs := Some ns\<rparr>))
         else if kind = js ''once'' then
           (case sd_runAt d of
              None \<Rightarrow> Refuses (js ''runAt'') (t (js ''schedules.form.runAtRequired'') [])
            | Some r \<Rightarrow>
                if r \<le> now then Refuses (js ''runAt'') (t (js ''schedules.form.error.runAtPast'') [])
                else if is_nan r then Throws
                else Sends (req\<lparr>sq_runAt := Some (toISO r)\<rparr>))
         else Sends req)"

text \<open>\<open>edit\<close>: a change of a field drops its own message and the form's.\<close>

definition edit_errors :: "jstring \<Rightarrow> (jstring, jstring) jmap \<Rightarrow> (jstring, jstring) jmap" where
  "edit_errors field errors = AList.delete (js ''form'') (AList.delete field errors)"


text \<open>The two walks down the ladder of units agree.\<close>

lemma fmtIntervalNs_parts:
  "fmtIntervalNs num_str ns =
     (case intervalParts ns of
        None \<Rightarrow> [8212]
      | Some (v, u) \<Rightarrow> show_num num_str v @ (case u of u_second \<Rightarrow> js ''s'' | u_minute \<Rightarrow> js ''m'' | u_hour \<Rightarrow> js ''h''))"
  by (simp add: fmtIntervalNs_def intervalParts_def Let_def)

subsection \<open>The label box\<close>

text \<open>A label the box can hold: what stands between commas, with the key before the first equals sign.\<close>

definition clean_label :: "jstring \<times> jstring \<Rightarrow> bool" where
  "clean_label kv \<longleftrightarrow>
     fst kv \<noteq> [] \<and> fst kv \<noteq> js ''__proto__'' \<and> trimmed (fst kv) \<and> trimmed (snd kv) \<and> 61 \<notin> set (fst kv) \<and>
     44 \<notin> set (fst kv) \<and> 44 \<notin> set (snd kv)"

lemma split_on_comma_join:
  "(\<forall>p \<in> set (p # ps). 44 \<notin> set p) \<Longrightarrow> split_on 44 (join [44, 32] (p # ps)) = p # map ((#) (32 :: nat)) ps"
proof (induction ps arbitrary: p)
  case Nil
  then show ?case by (simp add: split_on_no_sep)
next
  case (Cons q ps)
  obtain w ws where w: "split_on 44 (join [44, 32] (q # ps)) = w # ws" by (cases "split_on 44 (join [44, 32] (q # ps))") auto
  have "split_on 44 (join [44, 32] (q # ps)) = q # map ((#) 32) ps" using Cons by simp
  with w have "w = q" "ws = map ((#) 32) ps" by simp_all
  with w Cons.prems split_on_append [of 44 p "32 # join [44, 32] (q # ps)"] show ?case by simp
qed

lemma set_trim: "set (trim s) \<subseteq> set s"
proof
  fix x
  assume "x \<in> set (trim s)"
  then have "x \<in> set (dropWhile is_space (rev (dropWhile is_space s)))" by (simp add: trim_def)
  from set_dropWhileD [OF this] have "x \<in> set (dropWhile is_space s)" by simp
  from set_dropWhileD [OF this] show "x \<in> set s" by simp
qed

lemma trim_nonempty: "s \<noteq> [] \<Longrightarrow> \<not> is_space (hd s) \<Longrightarrow> trim s \<noteq> []"
  by (cases s) (auto simp: trim_def)

lemma set_AList_update: "set (AList.update k v m) \<subseteq> insert (k, v) (set m)"
  by (induction m) auto

lemma trim_space_Cons: "trim (32 # s) = trim s"
  by (simp add: trim_def is_space_def)

lemma trimmed_label: "clean_label (k, v) \<Longrightarrow> trimmed (k @ 61 # v)"
  by (auto simp: clean_label_def trimmed_def is_space_def)

lemma label_part_clean:
  assumes c: "clean_label (k, v)" and p: "trim raw = k @ 61 # v"
  shows "label_parts out (raw # raws) = label_parts (AList.update k v out) raws"
proof -
  have i: "index_of (k @ 61 # v) [61] = Some (length k)" using c by (simp add: clean_label_def index_of_single_append)
  obtain n where n: "length k = Suc n" using c by (cases k) (auto simp: clean_label_def)
  have "take (Suc n) (k @ 61 # v) = k" "drop (Suc n + 1) (k @ 61 # v) = v" by (simp_all add: n [symmetric])
  moreover have "trim k = k" "trim v = v" "k \<noteq> js ''__proto__''" using c by (simp_all add: clean_label_def trim_id)
  ultimately show ?thesis using i n by (simp add: p Let_def js_Cons set_label_def)
qed

lemma label_parts_clean:
  assumes "list_all clean_label ls" "distinct (map fst ls)" "fst ` set out \<inter> fst ` set ls = {}"
  shows "label_parts out (map (\<lambda>(k, v). 32 # k @ 61 # v) ls) = Inr (out @ ls)"
  using assms
proof (induction ls arbitrary: out)
  case (Cons l ls)
  obtain k v where l: "l = (k, v)" by fastforce
  have c: "clean_label (k, v)" using Cons.prems l by simp
  have "trim (32 # k @ 61 # v) = k @ 61 # v" by (simp add: trim_space_Cons trim_id trimmed_label [OF c])
  moreover have "k \<notin> fst ` set out" using Cons.prems l by auto
  then have "AList.update k v out = out @ [(k, v)]" by (induction out) auto
  ultimately show ?case using Cons label_part_clean [OF c, of "32 # k @ 61 # v" out] l by auto
qed simp

lemma parseLabels_clean:
  assumes c: "list_all clean_label ls" and d: "distinct (map fst ls)"
  shows "parseLabels (formatLabels (Some ls)) = Inr ls"
proof (cases ls)
  case Nil
  then show ?thesis by (simp add: parseLabels_def formatLabels_def trim_def)
next
  case (Cons l rest)
  obtain k v where l: "l = (k, v)" by fastforce
  have kv: "clean_label (k, v)" using c Cons l by simp
  have "\<forall>p \<in> set (map (\<lambda>(k, v). k @ 61 # v) ls). 44 \<notin> set p" using c by (auto simp: list_all_iff clean_label_def)
  then have "split_on 44 (formatLabels (Some ls)) = (k @ 61 # v) # map (\<lambda>(k, v). 32 # k @ 61 # v) rest"
    using split_on_comma_join [of "k @ 61 # v" "map (\<lambda>(k, v). k @ 61 # v) rest"] Cons l
    by (simp add: formatLabels_def js_Cons o_def case_prod_unfold)
  moreover have "trim (k @ 61 # v) = k @ 61 # v" by (rule trim_id [OF trimmed_label [OF kv]])
  ultimately show ?thesis
    using label_part_clean [OF kv, of "k @ 61 # v" "[]"] label_parts_clean [of rest "[(k, v)]"] c d Cons l
    by (auto simp: parseLabels_def)
qed

lemma label_part_makes_clean:
  assumes i: "index_of p [61] = Some (Suc n)" and t: "trimmed p" and c: "44 \<notin> set p"
    and k: "trim (take (Suc n) p) \<noteq> js ''__proto__''"
  shows "clean_label (trim (take (Suc n) p), trim (drop (Suc n + 1) p))"
proof -
  have e: "61 \<notin> set (take (Suc n) p)" using index_of_single_Some [OF i] by (rule conjunct2)
  obtain x xs where p: "p = x # xs" using i by (cases p) auto
  have "trim (take (Suc n) p) \<noteq> []" by (rule trim_nonempty) (use t p in \<open>simp_all add: trimmed_def\<close>)
  moreover have "61 \<notin> set (trim (take (Suc n) p))" using e set_trim [of "take (Suc n) p"] by blast
  moreover have "44 \<notin> set (trim (take (Suc n) p))" using c set_trim [of "take (Suc n) p"] set_take_subset [of "Suc n" p] by blast
  moreover have "44 \<notin> set (trim (drop (Suc n + 1) p))"
    using c set_trim [of "drop (Suc n + 1) p"] set_drop_subset [of "Suc n + 1" p] by blast
  ultimately show ?thesis using k by (simp add: clean_label_def trim_trimmed del: take_Suc_Cons)
qed

lemma set_label_clean: "(k \<noteq> js ''__proto__'' \<Longrightarrow> clean_label (k, v)) \<Longrightarrow> list_all clean_label m \<Longrightarrow> list_all clean_label (set_label k v m)"
  using set_AList_update [of k v m] by (auto simp: set_label_def list_all_iff)

lemma label_parts_makes_clean:
  "label_parts out raws = Inr m \<Longrightarrow> list_all clean_label out \<Longrightarrow> \<forall>r \<in> set raws. 44 \<notin> set r \<Longrightarrow> list_all clean_label m"
proof (induction raws arbitrary: out)
  case (Cons raw raws)
  show ?case
  proof (cases "trim raw = []")
    case True
    with Cons show ?thesis by simp
  next
    case False
    obtain n where n: "index_of (trim raw) [61] = Some (Suc n)"
      using Cons.prems(1) False by (auto simp: Let_def js_Cons split: option.splits nat.splits)
    let ?k = "trim (take (Suc n) (trim raw))" and ?v = "trim (drop (Suc n + 1) (trim raw))"
    have "44 \<notin> set (trim raw)" using Cons.prems(3) set_trim [of raw] by auto
    then have "list_all clean_label (set_label ?k ?v out)"
      using label_part_makes_clean [OF n trim_trimmed] Cons.prems(2) by (intro set_label_clean)
    moreover have "label_parts (set_label ?k ?v out) raws = Inr m" using Cons.prems(1) False n by (simp add: Let_def js_Cons)
    ultimately show ?thesis using Cons.IH Cons.prems(3) by simp
  qed
qed simp

text \<open>
  C37: A stored target opened for editing and saved with nothing changed sends its own
  name, kind, address and labels back exactly when every label is one the box can hold. Any other
  label, such as one whose value has a comma, is refused or replaced.
\<close>

theorem target_reopened:
  assumes name: "trim (ta_name x) \<noteq> []" and keys: "distinct (map fst (ta_labels x))"
  shows "(\<exists>m. target_submit t quote (target_draft (Some x)) = Inr (ta_name x, ta_kind x, ta_address x, m) \<and>
            map_of m = map_of (ta_labels x)) \<longleftrightarrow> list_all clean_label (ta_labels x)"
proof
  assume "list_all clean_label (ta_labels x)"
  with keys name show "\<exists>m. target_submit t quote (target_draft (Some x)) = Inr (ta_name x, ta_kind x, ta_address x, m) \<and>
      map_of m = map_of (ta_labels x)"
    by (simp add: target_submit_def target_draft_def parseLabels_clean)
next
  assume "\<exists>m. target_submit t quote (target_draft (Some x)) = Inr (ta_name x, ta_kind x, ta_address x, m) \<and>
      map_of m = map_of (ta_labels x)"
  then obtain m where m: "parseLabels (formatLabels (Some (ta_labels x))) = Inr m" "map_of m = map_of (ta_labels x)"
    using name by (auto simp: target_submit_def target_draft_def split: sum.splits)
  have "list_all clean_label m"
    by (rule label_parts_makes_clean [OF m(1) [unfolded parseLabels_def]]) (simp_all add: split_on_pieces)
  moreover have "set (ta_labels x) \<subseteq> set m"
  proof
    fix l
    assume l: "l \<in> set (ta_labels x)"
    have "map_of m (fst l) = Some (snd l)" unfolding m(2) by (rule map_of_is_SomeI [OF keys]) (simp add: l)
    from map_of_SomeD [OF this] show "l \<in> set m" by simp
  qed
  ultimately show "list_all clean_label (ta_labels x)" unfolding list_all_iff by blast
qed

theorem target_reopened_witness:
  "let x = \<lparr>ta_id = js ''t1'', ta_name = js ''edge'', ta_kind = js ''host'', ta_address = js ''10.0.0.1'',
            ta_labels = [(js ''team'', js ''net,tier=1'')]\<rparr>
   in \<not> (\<exists>m. target_submit (\<lambda>k _. k) (\<lambda>s. s) (target_draft (Some x)) = Inr (ta_name x, ta_kind x, ta_address x, m) \<and>
         map_of m = map_of (ta_labels x))"
  unfolding Let_def
  by (subst target_reopened) (simp_all add: js_Cons trim_def is_space_def clean_label_def)

lemma comma_label_becomes_two:
  "parseLabels (formatLabels (Some [(js ''team'', js ''net,tier=1'')])) = Inr [(js ''team'', js ''net''), (js ''tier'', js ''1'')]"
  by (simp add: parseLabels_def formatLabels_def js_Cons trim_def is_space_def set_label_def Let_def starts_with_def)

subsection \<open>The interval box\<close>

lemma rounded_ns:
  fixes p :: rat
  assumes "0 \<le> p"
  shows "ns = nat \<lfloor>p + 1 / 2\<rfloor> \<longleftrightarrow> p - 1 / 2 < of_nat ns \<and> of_nat ns \<le> p + 1 / 2"
proof -
  have "0 \<le> \<lfloor>p + 1 / 2\<rfloor>" using assms by simp
  then have "ns = nat \<lfloor>p + 1 / 2\<rfloor> \<longleftrightarrow> \<lfloor>p + 1 / 2\<rfloor> = int ns" by auto
  also have "\<dots> \<longleftrightarrow> of_nat ns \<le> p + 1 / 2 \<and> p + 1 / 2 < of_nat ns + 1" by (simp add: floor_eq_iff)
  finally show ?thesis by (auto simp: algebra_simps)
qed

definition to_ns :: "rat \<Rightarrow> nat" where
  "to_ns seconds = nat \<lfloor>double (seconds * 1000000000) + 1 / 2\<rfloor>"

lemma to_ns_near:
  assumes "0 \<le> s" "s * 1000000000 < grains j * 2 ^ 53"
  shows "\<bar>of_nat (to_ns s) - s * 1000000000\<bar> \<le> grains j / 2 + 1 / 2"
proof -
  have "0 \<le> double (s * 1000000000)" using assms(1) by (intro double_nonneg) simp
  from rounded_ns [OF this, of "to_ns s"] have "double (s * 1000000000) - 1 / 2 < of_nat (to_ns s)"
    "of_nat (to_ns s) \<le> double (s * 1000000000) + 1 / 2" by (simp_all only: to_ns_def simp_thms)
  with double_near [OF assms(2)] show ?thesis unfolding abs_diff_le_iff by linarith
qed

text \<open>The last range test of the box never refuses.\<close>

lemma to_ns_safe:
  assumes "0 \<le> s" "s \<le> of_nat MAX_INTERVAL_SECONDS"
  shows "to_ns s \<le> MAX_SAFE_INTEGER"
proof -
  have "s * 1000000000 \<le> of_nat 9007199000000000" using assms(2) by (simp add: MAX_INTERVAL_SECONDS_def MAX_SAFE_INTEGER_def)
  then have "double (s * 1000000000) \<le> of_nat 9007199000000000" by (rule double_le_nat) simp
  moreover have "0 \<le> double (s * 1000000000)" using assms(1) by (intro double_nonneg) simp
  moreover have "of_nat (to_ns s) \<le> double (s * 1000000000) + 1 / 2" if "0 \<le> double (s * 1000000000)"
    using rounded_ns [OF that, of "to_ns s"] by (simp only: to_ns_def simp_thms)
  ultimately have "of_nat (to_ns s) \<le> (9007199000000000 + 1 / 2 :: rat)" by fastforce
  then have "(of_nat (to_ns s) :: rat) < of_nat 9007199000000001" by (rule le_less_trans) simp
  then have "to_ns s < 9007199000000001" by (simp only: of_nat_less_iff)
  then show ?thesis by (simp add: MAX_SAFE_INTEGER_def)
qed

lemma max_interval: "MAX_INTERVAL_SECONDS = 9007199"
  by (simp add: MAX_INTERVAL_SECONDS_def MAX_SAFE_INTEGER_def)

text \<open>What the box does with a decimal, in terms of the double it is read as.\<close>

lemma decimal_nonneg: "decimal s = Some q \<Longrightarrow> 0 \<le> q"
  by (auto simp: decimal_def split: list.splits if_splits)

lemma box_reads:
  assumes "decimal (trim text) = Some q" "q < 2 ^ 1024 - 2 ^ 970"
  shows "parseIntervalSeconds text =
    (if double q = 0 then Inl (js ''schedules.form.error.interval'')
     else if of_nat MAX_INTERVAL_SECONDS < double q then Inl (js ''schedules.form.error.intervalRange'')
     else Inr (to_ns (double q)))"
proof -
  have n: "number_value q = Fin (double q)" using assms(2) by (simp add: number_value_def)
  have p: "0 \<le> double q" using decimal_nonneg [OF assms(1)] by (rule double_nonneg)
  have "\<not> MAX_SAFE_INTEGER < to_ns (double q)" if "\<not> of_nat MAX_INTERVAL_SECONDS < double q"
    using to_ns_safe [OF p] that by simp
  then show ?thesis using p unfolding parseIntervalSeconds_def assms(1) n option.case Let_def to_ns_def [symmetric]
    by (auto simp: to_ns_def)
qed

lemma box_reads_huge:
  assumes "decimal (trim text) = Some q" "\<not> q < 2 ^ 1024 - 2 ^ 970"
  shows "parseIntervalSeconds text = Inl (js ''schedules.form.error.intervalRange'')"
  using assms by (simp add: parseIntervalSeconds_def number_value_def)

text \<open>A reading within the box's range is near what was typed.\<close>

lemma grains_used: "grains 1045 * 2 ^ 53 = 2 ^ 24" "grains 1045 / 2 = 1 / 2 ^ 30" "grains 1021 * 2 ^ 53 = 1" "grains 1021 / 2 = 1 / 2 ^ 54"
    "grains 1051 * 2 ^ 53 = 2 ^ 30" "grains 1051 / 2 = 1 / 2 ^ 24" "grains 1043 * 2 ^ 53 = 2 ^ 22" "grains 1043 / 2 = 1 / 2 ^ 32"
    "grains 1073 * 2 ^ 53 = 2 ^ 52" "grains 1073 / 2 = 1 / 4" "grains 1074 * 2 ^ 53 = 2 ^ 53" "grains 1074 / 2 = 1 / 2"
  by (simp_all add: grains_def)

lemma typed_in_range:
  assumes "0 \<le> q" "q < 2 ^ 1024 - 2 ^ 970" "double q \<le> of_nat MAX_INTERVAL_SECONDS"
  shows "q < 2 ^ 24 \<and> \<bar>double q - q\<bar> \<le> 1 / 2 ^ 30"
proof -
  have q: "q < 2 ^ 24"
  proof (rule ccontr)
    assume n: "\<not> q < 2 ^ 24"
    have "grains 0 * 2 ^ 53 \<le> (2 ^ 24 :: rat)" by (simp add: grains_def)
    then have "grains 0 * 2 ^ 53 \<le> q" using n unfolding not_less by (rule order_trans)
    moreover have "q < 2 ^ 1024" using assms(2) by (rule less_trans) simp
    ultimately have "\<bar>double q - q\<bar> \<le> q / 2 ^ 53" by (rule double_relative)
    then have "q - q / 9007199254740992 \<le> double q" unfolding abs_diff_le_iff by simp
    moreover have "double q \<le> 9007199" using assms(3) by (simp add: max_interval)
    moreover have "16777216 \<le> q" using n by simp
    ultimately show False by linarith
  qed
  from double_near [of q 1045] q have "\<bar>double q - q\<bar> \<le> 1 / 2 ^ 30" unfolding grains_used by blast
  with q show ?thesis by blast
qed

lemma sent_near:
  assumes "0 \<le> q" "q < 2 ^ 1024 - 2 ^ 970" "double q \<le> of_nat MAX_INTERVAL_SECONDS"
  shows "\<bar>of_nat (to_ns (double q)) - q * 1000000000\<bar> < 2"
proof -
  from typed_in_range [OF assms] have e: "\<bar>double q - q\<bar> \<le> 1 / 2 ^ 30" by blast
  have "0 \<le> double q" using assms(1) by (rule double_nonneg)
  moreover have "double q * 1000000000 < grains 1074 * 2 ^ 53" unfolding grains_used using assms(3) by (simp add: max_interval)
  ultimately have "\<bar>of_nat (to_ns (double q)) - double q * 1000000000\<bar> \<le> 1"
    using to_ns_near [of "double q" 1074] by (simp add: grains_one)
  then have "double q * 1000000000 - 1 \<le> of_nat (to_ns (double q))" "of_nat (to_ns (double q)) \<le> double q * 1000000000 + 1"
    unfolding abs_diff_le_iff by simp_all
  moreover have "q - 1 / 1073741824 \<le> double q" "double q \<le> q + 1 / 1073741824"
    using e unfolding abs_diff_le_iff by simp_all
  ultimately show ?thesis unfolding abs_diff_less_iff by linarith
qed

lemma sent_whole:
  assumes "double (of_nat k) \<le> of_nat MAX_INTERVAL_SECONDS" "k < 2 ^ 24"
  shows "to_ns (double (of_nat k)) = k * 1000000000"
proof -
  have k: "double (of_nat k) = of_nat k" using assms(2) by (intro double_nat) simp
  then have "k \<le> 9007199" using assms(1) by (simp add: max_interval)
  then have "double (of_nat (k * 1000000000)) = of_nat (k * 1000000000)" by (intro double_nat) simp
  then have "double (of_nat k * 1000000000) = of_nat (k * 1000000000)" by simp
  then show ?thesis using rounded_ns [of "of_nat (k * 1000000000)" "k * 1000000000"] unfolding k to_ns_def by simp
qed

lemma sent_positive:
  assumes "1 / 1000000000 \<le> q" "q < 2 ^ 1024 - 2 ^ 970" "double q \<le> of_nat MAX_INTERVAL_SECONDS"
  shows "0 < to_ns (double q)"
proof (cases "q < 1")
  case True
  have q: "0 \<le> q" using assms(1) by (rule order_trans [rotated]) simp
  have "\<bar>double q - q\<bar> \<le> 1 / 2 ^ 54" using double_near [of q 1021] True unfolding grains_used by blast
  then have e: "q - 1 / 18014398509481984 \<le> double q" "double q \<le> q + 1 / 18014398509481984"
    unfolding abs_diff_le_iff by simp_all
  have "double q * 1000000000 < 1073741824" using e True by linarith
  then have "double q * 1000000000 < grains 1051 * 2 ^ 53" unfolding grains_used by simp
  from to_ns_near [OF double_nonneg [OF q] this] have "double q * 1000000000 - (1 / 16777216 + 1 / 2) \<le> of_nat (to_ns (double q))"
    unfolding grains_used abs_diff_le_iff by simp
  with e(1) assms(1) have "(0 :: rat) < of_nat (to_ns (double q))" by linarith
  then show ?thesis by simp
next
  case False
  have "0 \<le> q" using False by simp
  from sent_near [OF this assms(2,3)] have "q * 1000000000 - 2 < of_nat (to_ns (double q))" unfolding abs_diff_less_iff by simp
  with False have "(0 :: rat) < of_nat (to_ns (double q))" by linarith
  then show ?thesis by simp
qed

text \<open>
  C40: The interval box refuses a text as no interval exactly when it is no plain decimal or
  spells at most half the smallest double, which is read as zero, and as out of range only when it
  spells more than the largest interval. Anything else it accepts, so every decimal from a nanosecond
  to the largest interval. What it hands on is a safe integer, within two nanoseconds of what was typed
  (the reading and the product are each rounded to a double), exact for whole seconds, and not zero
  from a nanosecond on.
\<close>

theorem interval_box:
  "case parseIntervalSeconds text of
     Inr ns \<Rightarrow> (\<exists>q. decimal (trim text) = Some q \<and> 1 / 2 ^ 1075 < q \<and> q \<le> of_nat MAX_INTERVAL_SECONDS + 1 / 2 ^ 30 \<and>
       ns \<le> MAX_SAFE_INTEGER \<and> \<bar>of_nat ns - q * 1000000000\<bar> < 2 \<and>
       (\<forall>k. q = of_nat k \<longrightarrow> ns = k * 1000000000) \<and> (1 / 1000000000 \<le> q \<longrightarrow> 0 < ns))
   | Inl key \<Rightarrow> (case decimal (trim text) of
       None \<Rightarrow> key = js ''schedules.form.error.interval''
     | Some q \<Rightarrow> key = js ''schedules.form.error.interval'' \<and> q \<le> 1 / 2 ^ 1075 \<or>
                key = js ''schedules.form.error.intervalRange'' \<and> of_nat MAX_INTERVAL_SECONDS < q)"
proof (cases "decimal (trim text)")
  case None
  then show ?thesis by (simp add: parseIntervalSeconds_def)
next
  case (Some q)
  have q: "0 \<le> q" by (rule decimal_nonneg [OF Some])
  have half: "grains 0 / 2 = 1 / 2 ^ 1075" by (simp add: grains_def)
  show ?thesis
  proof (cases "q < 2 ^ 1024 - 2 ^ 970")
    case False
    have "of_nat MAX_INTERVAL_SECONDS < (2 ^ 1024 - 2 ^ 970 :: rat)" by (simp add: max_interval)
    then have "of_nat MAX_INTERVAL_SECONDS < q" using False unfolding not_less by (rule less_le_trans)
    with box_reads_huge [OF Some False] Some show ?thesis by simp
  next
    case True
    have "q < 2 ^ 1024" using True by (rule less_trans) simp
    note zero = double_zero [OF q this, unfolded half]
    consider (zero) "double q = 0" | (range) "double q \<noteq> 0" "of_nat MAX_INTERVAL_SECONDS < double q"
      | (ok) "double q \<noteq> 0" "double q \<le> of_nat MAX_INTERVAL_SECONDS" by (metis not_less)
    then show ?thesis
    proof cases
      case zero
      then have "parseIntervalSeconds text = Inl (js ''schedules.form.error.interval'')" using box_reads [OF Some True] by (simp only: if_True simp_thms)
      moreover have "q \<le> 1 / 2 ^ 1075" using \<open>double q = 0 \<longleftrightarrow> q \<le> 1 / 2 ^ 1075\<close> zero by blast
      ultimately show ?thesis using Some by (simp only: sum.case option.case simp_thms)
    next
      case range
      have "of_nat MAX_INTERVAL_SECONDS < q"
      proof (rule ccontr)
        assume "\<not> of_nat MAX_INTERVAL_SECONDS < q"
        then have "double q \<le> of_nat MAX_INTERVAL_SECONDS" by (intro double_le_nat) (simp_all add: max_interval)
        with range(2) show False by simp
      qed
      with box_reads [OF Some True] Some range show ?thesis by (simp only: if_True if_False sum.case option.case simp_thms)
    next
      case ok
      have sent: "parseIntervalSeconds text = Inr (to_ns (double q))"
        using box_reads [OF Some True] ok by (simp only: if_False not_less [symmetric])
      have "\<not> q \<le> 1 / 2 ^ 1075" using zero ok(1) by blast
      then have "1 / 2 ^ 1075 < q" by (simp only: not_le)
      moreover have near: "q < 2 ^ 24" "q \<le> of_nat MAX_INTERVAL_SECONDS + 1 / 2 ^ 30"
        using typed_in_range [OF q True ok(2)] ok(2) unfolding abs_diff_le_iff by linarith+
      moreover have "to_ns (double q) \<le> MAX_SAFE_INTEGER" by (rule to_ns_safe [OF double_nonneg [OF q] ok(2)])
      moreover have "to_ns (double q) = k * 1000000000" if "q = of_nat k" for k
      proof -
        have "(of_nat k :: rat) < of_nat (2 ^ 24)" using near(1) that by simp
        then have "k < 2 ^ 24" by (simp only: of_nat_less_iff)
        with sent_whole [of k] ok(2) that show ?thesis by simp
      qed
      ultimately show ?thesis unfolding sent sum.case
        using Some sent_near [OF q True ok(2)] sent_positive [OF _ True ok(2)] by blast
    qed
  qed
qed

theorem interval_box_witness: "parseIntervalSeconds (js ''60'') = Inr 60000000000"
proof -
  have d: "decimal (trim (js ''60'')) = Some 60"
    by (simp add: decimal_def js_Cons is_digit_def digits_value_def trim_def is_space_def)
  have "\<not> (60 :: rat) \<le> 1 / 2 ^ 1075" "\<not> (of_nat MAX_INTERVAL_SECONDS < (60 :: rat))" by (simp_all add: max_interval)
  with interval_box [of "js ''60''"] d obtain ns where ns: "parseIntervalSeconds (js ''60'') = Inr ns"
    and whole: "\<forall>k. (60 :: rat) = of_nat k \<longrightarrow> ns = k * 1000000000"
    by (cases "parseIntervalSeconds (js ''60'')") (auto simp only: sum.case option.case option.inject)
  from whole [rule_format, of 60] ns show ?thesis by simp
qed

text \<open>
  The rounding at work: a nanosecond typed on top of 104 days is sent as two, and a positive entry far
  below a nanosecond is sent as zero.
\<close>

lemma interval_off_by_one: "parseIntervalSeconds (js ''9007198.000000001'') = Inr 9007198000000002"
proof -
  let ?q = "9007198000000001 / 1000000000 :: rat" and ?s = "4835702604824577 / 536870912 :: rat"
  have d: "decimal (trim (js ''9007198.000000001'')) = Some ?q"
    by (simp add: decimal_def js_Cons is_digit_def digits_value_def trim_def is_space_def)
  have "grain ?q = grains 1045" by (rule grain_at) (simp_all add: grains_def)
  also have "\<dots> = 1 / 536870912" by (simp add: grains_def)
  finally have g: "grain ?q = 1 / 536870912" .
  have "\<lfloor>?q / (1 / 536870912)\<rfloor> = 4835702604824576" by (rule floor_unique) simp_all
  then have r: "round_half_even (?q / (1 / 536870912)) = 4835702604824577" unfolding round_half_even_def Let_def by simp
  have s: "double ?q = ?s" unfolding double_def g r by simp
  have "grain (?s * 1000000000) = grains 1074" by (rule grain_at) (simp_all add: grains_def)
  then have g: "grain (?s * 1000000000) = 1" by (simp only: grains_one)
  have "\<lfloor>?s * 1000000000 / 1\<rfloor> = 9007198000000001" by (rule floor_unique) simp_all
  then have r: "round_half_even (?s * 1000000000 / 1) = 9007198000000002" unfolding round_half_even_def Let_def by simp
  have p: "double (?s * 1000000000) = 9007198000000002" unfolding double_def g r by simp
  have "\<lfloor>9007198000000002 + 1 / 2 :: rat\<rfloor> = 9007198000000002" by (rule floor_unique) simp_all
  then have "to_ns ?s = 9007198000000002" unfolding to_ns_def p by simp
  moreover have "?q < 2 ^ 1024 - 2 ^ 970" by simp
  ultimately show ?thesis using box_reads [OF d] unfolding s by (simp add: max_interval del: js_Cons)
qed

lemma interval_rounds_to_zero: "parseIntervalSeconds (js ''0.0000000001'') = Inr 0"
proof -
  let ?q = "1 / 10000000000 :: rat"
  have d: "decimal (trim (js ''0.0000000001'')) = Some ?q"
    by (simp add: decimal_def js_Cons is_digit_def digits_value_def trim_def is_space_def)
  have "\<bar>double ?q - ?q\<bar> \<le> 1 / 2 ^ 54" using double_near [of ?q 1021] unfolding grains_used by simp
  then have e: "double ?q \<le> ?q + 1 / 18014398509481984" "?q - 1 / 18014398509481984 \<le> double ?q"
    unfolding abs_diff_le_iff by simp_all
  have "0 \<le> double ?q" by (rule double_nonneg) simp
  moreover have "double ?q * 1000000000 < grains 1021 * 2 ^ 53" unfolding grains_used using e(1) by simp
  ultimately have "of_nat (to_ns (double ?q)) \<le> double ?q * 1000000000 + (1 / 18014398509481984 + 1 / 2)"
    using to_ns_near [of "double ?q" 1021] unfolding grains_used abs_diff_le_iff by simp
  then have "of_nat (to_ns (double ?q)) < (1 :: rat)" using e(1) by linarith
  then have "to_ns (double ?q) = 0" by simp
  moreover have "double ?q \<noteq> 0" using e(2) by auto
  moreover have "\<not> of_nat MAX_INTERVAL_SECONDS < double ?q" using e(1) by (simp add: max_interval)
  moreover have "?q < 2 ^ 1024 - 2 ^ 970" by simp
  ultimately show ?thesis using box_reads [OF d] by (simp only: if_False simp_thms)
qed

subsection \<open>What a schedule sends\<close>

lemma effectiveKind_offered:
  "scheduleKindsFor (map_of definitions (sd_definitionId d)) \<noteq> [] \<Longrightarrow>
   effectiveKind definitions d \<in> set (scheduleKindsFor (map_of definitions (sd_definitionId d)))"
  by (simp add: effectiveKind_def Let_def)

lemma scheduleKindsFor_subset: "set (scheduleKindsFor d) \<subseteq> set SCHEDULE_KINDS"
  by (auto simp: scheduleKindsFor_def split: option.splits)

text \<open>
  C38: A request the schedule form sends is for a kind the chosen definition
  can run, and carries the fields of that kind and no others: an interval exactly for a repeating
  schedule, an instant still ahead exactly for a single run.
\<close>

theorem schedule_request_of_its_kind:
  assumes sent: "schedule_submit t toISO now definitions d = Sends r"
    and runnable: "scheduleKindsFor (map_of definitions (sd_definitionId d)) \<noteq> []"
  shows "sq_definitionId r = sd_definitionId d \<and> sq_definitionId r \<noteq> [] \<and> sq_enabled r = sd_enabled d \<and>
    sq_kind r \<in> set (scheduleKindsFor (map_of definitions (sq_definitionId r))) \<and>
    (case sq_intervalNs r of
       Some ns \<Rightarrow> sq_kind r = js ''interval'' \<and> ns \<le> MAX_SAFE_INTEGER
     | None \<Rightarrow> sq_kind r \<noteq> js ''interval'') \<and>
    (case sq_runAt r of
       Some w \<Rightarrow> sq_kind r = js ''once'' \<and> (\<exists>at'. sd_runAt d = Some at' \<and> w = toISO at' \<and> \<not> is_nan at' \<and> \<not> at' \<le> now)
     | None \<Rightarrow> sq_kind r \<noteq> js ''once'')"
proof -
  have k: "effectiveKind definitions d \<in> set (scheduleKindsFor (map_of definitions (sd_definitionId d)))"
    by (rule effectiveKind_offered [OF runnable])
  have ns: "ns \<le> MAX_SAFE_INTEGER" if "parseIntervalSeconds w = Inr ns" for w ns
    using that by (auto simp: parseIntervalSeconds_def Let_def split: option.splits if_splits)
  have "js ''once'' \<noteq> js ''interval''" by (simp add: js_Cons)
  with sent k ns show ?thesis
    by (auto simp: schedule_submit_def Let_def split: if_splits sum.splits option.splits)
qed

theorem schedule_request_of_its_kind_witness:
  "\<exists>r. schedule_submit (\<lambda>k _. k) (\<lambda>_. js ''2026'') (Fin 5) [(js ''d'', js ''mtr'', js ''target'')]
      \<lparr>sd_definitionId = js ''d'', sd_kind = js ''once'', sd_intervalSeconds = js ''60'', sd_runAt = Some (Fin 9), sd_enabled = True\<rparr> = Sends r \<and>
    sq_kind r = js ''once'' \<and> sq_runAt r = Some (js ''2026'')"
proof -
  let ?d = "\<lparr>sd_definitionId = js ''d'', sd_kind = js ''once'', sd_intervalSeconds = js ''60'', sd_runAt = Some (Fin 9), sd_enabled = True\<rparr>"
  let ?ds = "[(js ''d'', js ''mtr'', js ''target'')]"
  have k: "scheduleKindsFor (map_of ?ds (sd_definitionId ?d)) = [js ''once'', js ''interval'']"
    by (simp add: scheduleKindsFor_def SCHEDULE_KINDS_def EXTERNAL_CONTINUOUS_TYPES_def EXTERNAL_RUN_TYPES_def js_Cons)
  obtain r where r: "schedule_submit (\<lambda>k _. k) (\<lambda>_. js ''2026'') (Fin 5) ?ds ?d = Sends r"
    using k by (simp add: schedule_submit_def effectiveKind_def Let_def js_Cons)
  from schedule_request_of_its_kind [OF r] k have "sq_runAt r \<noteq> None \<longrightarrow> sq_runAt r = Some (js ''2026'') \<and> sq_kind r = js ''once''"
    by (auto split: option.splits)
  moreover have "sq_kind r = js ''once''"
    using r k by (auto simp: schedule_submit_def effectiveKind_def Let_def js_Cons)
  ultimately show ?thesis using r schedule_request_of_its_kind [OF r] k by (auto split: option.splits)
qed

lemma decimal_chars: "decimal s = Some q \<Longrightarrow> s \<noteq> [] \<and> (\<forall>c \<in> set s. is_digit c \<or> c = 46) \<and> is_digit (hd s) \<and> is_digit (last s)"
proof -
  assume d: "decimal s = Some q"
  have j: "join [46] (split_on 46 s) = s" by (rule join_split_on)
  consider (whole) w where "split_on 46 s = [w]" "w \<noteq> []" "list_all is_digit w"
    | (frac) w f where "split_on 46 s = [w, f]" "w \<noteq> []" "list_all is_digit w" "f \<noteq> []" "list_all is_digit f"
    using d by (auto simp: decimal_def split: list.splits if_splits)
  then show ?thesis
  proof cases
    case whole
    then show ?thesis using j by (auto simp: list_all_iff)
  next
    case frac
    then have "s = w @ 46 # f" using j by simp
    with frac show ?thesis by (auto simp: list_all_iff)
  qed
qed

lemma decimal_trim: "decimal s = Some q \<Longrightarrow> trim s = s"
  using decimal_chars [of s q] by (intro trim_id) (auto simp: trimmed_def is_digit_def is_space_def)

text \<open>
  An interval printed by the form and read again: up to \<open>2 ^ 51\<close> nanoseconds, which is 26 days, the two
  roundings stay under half a nanosecond, and whole seconds are exact.
\<close>

lemma printed_interval:
  assumes "0 < ns" "ns \<le> 2 ^ 51 \<or> 1000000000 dvd ns \<and> ns \<le> MAX_INTERVAL_SECONDS * 1000000000"
  shows "to_ns (double (of_nat ns / 1000000000)) = ns \<and> double (of_nat ns / 1000000000) \<le> of_nat MAX_INTERVAL_SECONDS \<and>
    double (of_nat ns / 1000000000) \<noteq> 0"
  using assms(2)
proof
  let ?q = "of_nat ns / 1000000000 :: rat"
  assume "ns \<le> 2 ^ 51"
  then have n: "(of_nat ns :: rat) \<le> 2251799813685248" using of_nat_le_iff [of ns "2 ^ 51", where 'a = rat] by simp
  have pos: "0 < ?q" using assms(1) by simp
  have "?q < grains 1043 * 2 ^ 53" unfolding grains_used using n by simp
  from double_near [OF this] have e: "\<bar>double ?q - ?q\<bar> \<le> 1 / 2 ^ 32" unfolding grains_used .
  then have e: "?q - 1 / 4294967296 \<le> double ?q" "double ?q \<le> ?q + 1 / 4294967296" unfolding abs_diff_le_iff by simp_all
  have up: "double ?q * 1000000000 < 4503599627370496" using e n by linarith
  then have "double ?q * 1000000000 < grains 1073 * 2 ^ 53" unfolding grains_used by simp
  from double_near [OF this] have p: "double ?q * 1000000000 - 1 / 4 \<le> double (double ?q * 1000000000)"
    "double (double ?q * 1000000000) \<le> double ?q * 1000000000 + 1 / 4" unfolding grains_used abs_diff_le_iff by simp_all
  have "0 \<le> double (double ?q * 1000000000)" using pos by (intro double_nonneg mult_nonneg_nonneg) (simp_all add: less_imp_le)
  note r = rounded_ns [OF this, of ns]
  have "double (double ?q * 1000000000) - 1 / 2 < of_nat ns \<and> of_nat ns \<le> double (double ?q * 1000000000) + 1 / 2"
    using e p by linarith
  then have "to_ns (double ?q) = ns" unfolding to_ns_def by (rule r [THEN iffD2, symmetric])
  moreover have "double ?q \<le> of_nat MAX_INTERVAL_SECONDS" using e n unfolding max_interval by linarith
  moreover have "?q < 2 ^ 1024" using n by simp
  then have "double ?q \<noteq> 0"
  proof -
    have "\<not> ?q \<le> grains 0 / 2"
    proof -
      have "grains 0 / 2 < (1 / 1000000000 :: rat)" by (simp add: grains_def)
      also have "\<dots> \<le> ?q" using assms(1) by (simp add: Suc_le_eq)
      finally show ?thesis by simp
    qed
    with double_zero [of ?q] pos \<open>?q < 2 ^ 1024\<close> show ?thesis by simp
  qed
  ultimately show ?thesis by blast
next
  assume w: "1000000000 dvd ns \<and> ns \<le> MAX_INTERVAL_SECONDS * 1000000000"
  then obtain k where k: "ns = 1000000000 * k" by blast
  with w have "k \<le> 9007199" by (simp add: max_interval)
  then have d: "double (of_nat k) = of_nat k" by (intro double_nat) simp
  have q: "of_nat ns / 1000000000 = (of_nat k :: rat)" unfolding k by simp
  have "to_ns (double (of_nat k)) = k * 1000000000" by (rule sent_whole) (use d \<open>k \<le> 9007199\<close> in \<open>simp_all add: max_interval\<close>)
  with k d assms(1) \<open>k \<le> 9007199\<close> show ?thesis unfolding q by (simp add: max_interval mult.commute)
qed

lemma printed_read:
  assumes "0 < ns" "ns \<le> 2 ^ 51 \<or> 1000000000 dvd ns \<and> ns \<le> MAX_INTERVAL_SECONDS * 1000000000"
    and "decimal w = Some q" "double q = double (of_nat ns / 1000000000)" "q < 2 ^ 1024 - 2 ^ 970"
  shows "parseIntervalSeconds w = Inr ns"
proof -
  have "decimal (trim w) = Some q" using assms(3) decimal_trim [OF assms(3)] by simp
  from box_reads [OF this assms(5)] printed_interval [OF assms(1,2)] show ?thesis unfolding assms(4) by (simp only: if_False not_less [symmetric] simp_thms)
qed

text \<open>
  C39: A stored schedule of a kind its definition can run, opened in the form and saved
  with nothing changed, sends the request that rebuilds its own cadence, with the conditions that follow.
  A repeating schedule's interval is at most 26 days (\<open>2 ^ 51\<close> nanoseconds) or a whole number of seconds
  within the box's range, and it is long enough to be printed as a plain decimal, which \<open>String(x)\<close> does
  with a text that is read back as the same double. A single run's instant is a valid date: when it has
  passed the form refuses it, and otherwise the request carries the text \<open>toISOString\<close> writes for that
  instant, which may differ from the stored spelling of it.
\<close>

theorem schedule_reopened:
  assumes id: "sch_definitionId s \<noteq> []"
    and kind: "sch_kind s \<in> set (scheduleKindsFor (map_of definitions (sch_definitionId s)))"
    and interval: "sch_kind s = js ''interval'' \<Longrightarrow> 0 < sch_intervalNs s \<and>
      (sch_intervalNs s \<le> 2 ^ 51 \<or> 1000000000 dvd sch_intervalNs s \<and> sch_intervalNs s \<le> MAX_INTERVAL_SECONDS * 1000000000)"
    and printed: "sch_kind s = js ''interval'' \<Longrightarrow>
      \<exists>q. decimal (show_num num_str (Fin (double (of_nat (sch_intervalNs s) / 1000000000)))) = Some q \<and> q < 2 ^ 1000 \<and>
        double q = double (of_nat (sch_intervalNs s) / 1000000000)"
    and once: "sch_kind s = js ''once'' \<Longrightarrow> \<exists>w. sch_runAt s = Some w \<and> w \<noteq> [] \<and> \<not> is_nan (parse w)"
  shows "schedule_submit t toISO now definitions (schedule_draft num_str parse (Some s) definitions) =
    (if sch_kind s = js ''once'' \<and> parse (the (sch_runAt s)) \<le> now
     then Refuses (js ''runAt'') (t (js ''schedules.form.error.runAtPast'') [])
     else Sends ((scheduleRequestFrom s (sch_enabled s))\<lparr>
       sq_runAt := map_option (\<lambda>w. toISO (parse w)) (sq_runAt (scheduleRequestFrom s (sch_enabled s)))\<rparr>))"
proof -
  let ?d = "schedule_draft num_str parse (Some s) definitions"
  have d: "sd_definitionId ?d = sch_definitionId s" "sd_kind ?d = sch_kind s" "sd_enabled ?d = sch_enabled s"
    by (simp_all add: schedule_draft_def)
  have e: "effectiveKind definitions ?d = sch_kind s" using kind d by (simp add: effectiveKind_def Let_def)
  have ne: "js ''once'' \<noteq> js ''interval''" by (simp add: js_Cons)
  consider (i) "sch_kind s = js ''interval''" | (o1) "sch_kind s = js ''once''" | (c) "sch_kind s \<noteq> js ''interval''" "sch_kind s \<noteq> js ''once''" by blast
  then show ?thesis
  proof cases
    case i
    from printed [OF i] obtain q where q: "decimal (show_num num_str (Fin (double (of_nat (sch_intervalNs s) / 1000000000)))) = Some q"
      "q < 2 ^ 1000" "double q = double (of_nat (sch_intervalNs s) / 1000000000)" by blast
    have "q < 2 ^ 1024 - 2 ^ 970" using q(2) by (rule less_trans) simp
    with interval [OF i] q have r: "parseIntervalSeconds (show_num num_str (Fin (double (of_nat (sch_intervalNs s) / 1000000000)))) = Inr (sch_intervalNs s)"
      by (intro printed_read [where q = q]) simp_all
    have "sd_intervalSeconds ?d = show_num num_str (Fin (double (of_nat (sch_intervalNs s) / 1000000000)))"
      using interval [OF i] by (simp add: schedule_draft_def)
    with r i id e d ne show ?thesis by (simp add: schedule_submit_def Let_def scheduleRequestFrom_def del: js_Cons)
  next
    case o1
    from once [OF o1] obtain w where w: "sch_runAt s = Some w" "w \<noteq> []" "\<not> is_nan (parse w)" by blast
    then have "sd_runAt ?d = Some (parse w)" by (simp add: schedule_draft_def)
    with o1 w id e d ne show ?thesis by (simp add: schedule_submit_def Let_def scheduleRequestFrom_def del: js_Cons)
  next
    case c
    with id e d show ?thesis by (simp add: schedule_submit_def Let_def scheduleRequestFrom_def del: js_Cons)
  qed
qed

theorem schedule_reopened_witness:
  "let ds = [(js ''d'', js ''mtr'', js ''target'')];
       s = \<lparr>sch_id = js ''s'', sch_definitionId = js ''d'', sch_kind = js ''interval'', sch_intervalNs = 12500000000, sch_runAt = None, sch_enabled = False\<rparr>;
       o1 = \<lparr>sch_id = js ''o'', sch_definitionId = js ''d'', sch_kind = js ''once'', sch_intervalNs = 0, sch_runAt = Some (js ''2030''), sch_enabled = True\<rparr>
   in schedule_submit (\<lambda>k _. k) (\<lambda>_. []) (Fin 0) ds (schedule_draft (\<lambda>_. js ''12.5'') (\<lambda>_. NaN) (Some s) ds) = Sends (scheduleRequestFrom s False) \<and>
      schedule_submit (\<lambda>k _. k) (\<lambda>_. js ''2030-01'') (Fin 5) ds (schedule_draft (\<lambda>_. []) (\<lambda>_. Fin 9) (Some o1) ds) =
        Sends ((scheduleRequestFrom o1 True)\<lparr>sq_runAt := Some (js ''2030-01'')\<rparr>) \<and>
      schedule_submit (\<lambda>k _. k) (\<lambda>_. js ''2030-01'') (Fin 9) ds (schedule_draft (\<lambda>_. []) (\<lambda>_. Fin 9) (Some o1) ds) =
        Refuses (js ''runAt'') (js ''schedules.form.error.runAtPast'')"
proof -
  let ?ds = "[(js ''d'', js ''mtr'', js ''target'')]"
  let ?s = "\<lparr>sch_id = js ''s'', sch_definitionId = js ''d'', sch_kind = js ''interval'', sch_intervalNs = 12500000000, sch_runAt = None, sch_enabled = False\<rparr>"
  let ?o = "\<lparr>sch_id = js ''o'', sch_definitionId = js ''d'', sch_kind = js ''once'', sch_intervalNs = 0, sch_runAt = Some (js ''2030''), sch_enabled = True\<rparr>"
  have k: "scheduleKindsFor (map_of ?ds (js ''d'')) = [js ''once'', js ''interval'']"
    by (simp add: scheduleKindsFor_def SCHEDULE_KINDS_def EXTERNAL_CONTINUOUS_TYPES_def EXTERNAL_RUN_TYPES_def js_Cons)
  have ne: "js ''d'' \<noteq> []" "js ''2030'' \<noteq> []" "js ''once'' \<noteq> js ''interval''" by (simp_all add: js_Cons)
  have d: "double (25 / 2) = 25 / 2" by (rule double_exact [of _ 25 1073]) (simp_all add: grains_def)
  have "\<lfloor>25 / 2 :: rat\<rfloor> = 12" by (rule floor_unique) simp_all
  then have p: "show_num (\<lambda>_. js ''12.5'') (Fin (25 / 2)) = js ''12.5''" by simp
  have q: "of_nat (sch_intervalNs ?s) / 1000000000 = (25 / 2 :: rat)" by simp
  have "decimal (js ''12.5'') = Some (25 / 2)" by (simp add: decimal_def js_Cons is_digit_def digits_value_def)
  then have "\<exists>q. decimal (show_num (\<lambda>_. js ''12.5'') (Fin (double (of_nat (sch_intervalNs ?s) / 1000000000)))) = Some q \<and> q < 2 ^ 1000 \<and>
      double q = double (of_nat (sch_intervalNs ?s) / 1000000000)"
    unfolding q d p by (intro exI [of _ "25 / 2"]) (simp add: d del: js_Cons)
  then have 1: "schedule_submit (\<lambda>k _. k) (\<lambda>_. []) (Fin 0) ?ds (schedule_draft (\<lambda>_. js ''12.5'') (\<lambda>_. NaN) (Some ?s) ?ds) = Sends (scheduleRequestFrom ?s False)"
    by (subst schedule_reopened) (use k ne in \<open>simp_all add: scheduleRequestFrom_def del: js_Cons\<close>)
  have 2: "schedule_submit (\<lambda>k _. k) (\<lambda>_. js ''2030-01'') (Fin 5) ?ds (schedule_draft (\<lambda>_. []) (\<lambda>_. Fin 9) (Some ?o) ?ds) =
        Sends ((scheduleRequestFrom ?o True)\<lparr>sq_runAt := Some (js ''2030-01'')\<rparr>)"
    by (subst schedule_reopened) (use k ne in \<open>simp_all add: scheduleRequestFrom_def is_nan_def del: js_Cons\<close>)
  have 3: "schedule_submit (\<lambda>k _. k) (\<lambda>_. js ''2030-01'') (Fin 9) ?ds (schedule_draft (\<lambda>_. []) (\<lambda>_. Fin 9) (Some ?o) ?ds) =
        Refuses (js ''runAt'') (js ''schedules.form.error.runAtPast'')"
    by (subst schedule_reopened) (use k ne in \<open>simp_all add: is_nan_def del: js_Cons\<close>)
  from 1 2 3 show ?thesis unfolding Let_def by (intro conjI)
qed

subsection \<open>Whose projection is shown\<close>

datatype projection_event = Edits CheckDefinitionRequest | Debounced | Answers "Projection option"

fun projection_step :: "projection_event \<Rightarrow> projection_effect \<Rightarrow> projection_effect" where
  "projection_step (Edits r) s = draft_changes r s"
| "projection_step Debounced s = debounce_fires s"
| "projection_step (Answers p) s = projection_answers p s"

text \<open>The form mounted on a draft, and what happens to it.\<close>

definition projection_run :: "CheckDefinitionRequest \<Rightarrow> projection_event list \<Rightarrow> projection_effect" where
  "projection_run r evs =
     fold projection_step evs (draft_changes r \<lparr>pe_draft = r, pe_timer = None, pe_asked = None, pe_shown = None, pe_of = None\<rparr>)"

definition projection_inv :: "projection_effect \<Rightarrow> bool" where
  "projection_inv s \<longleftrightarrow>
     pe_timer s \<in> {None, Some (pe_draft s)} \<and> pe_asked s \<in> {None, Some (pe_draft s)} \<and> (pe_timer s = None \<or> pe_asked s = None) \<and>
     (pe_shown s = None \<or> pe_of s = Some (pe_draft s) \<or> pe_timer s \<noteq> None \<or> pe_asked s \<noteq> None)"

lemma projection_step_inv: "projection_inv s \<Longrightarrow> projection_inv (projection_step e s)"
  by (cases e) (auto simp: projection_inv_def draft_changes_def debounce_fires_def projection_answers_def Let_def split: option.splits)

lemma projection_run_inv: "projection_inv (projection_run r evs)"
proof -
  have "projection_inv (fold projection_step es s)" if "projection_inv s" for es s
    using that by (induction es arbitrary: s) (simp_all add: projection_step_inv)
  then show ?thesis unfolding projection_run_def
    by (simp add: projection_inv_def draft_changes_def Let_def)
qed

text \<open>
  Whatever is typed and however the answers are ordered, a projection of another
  draft stands on the form only while the question about the present draft is being held back or is in
  flight, and the answer to that question replaces it: no answer to an earlier draft is ever taken.
\<close>

lemma projection_settles:
  "let s = projection_run r evs
   in (pe_shown s = None \<or> pe_of s = Some (pe_draft s) \<or> pe_timer s = Some (pe_draft s) \<or> pe_asked s = Some (pe_draft s)) \<and>
      (let after = projection_answers p (debounce_fires s) in pe_shown after = None \<or> pe_of after = Some (pe_draft after))"
proof -
  let ?s = "projection_run r evs"
  have i: "projection_inv ?s" by (rule projection_run_inv)
  then have "pe_shown (projection_answers p (debounce_fires ?s)) = None \<or>
      pe_of (projection_answers p (debounce_fires ?s)) = Some (pe_draft (projection_answers p (debounce_fires ?s)))"
    by (auto simp: projection_inv_def debounce_fires_def projection_answers_def split: option.splits)
  with i show ?thesis by (auto simp: projection_inv_def Let_def)
qed

lemma projection_can_be_stale:
  assumes "\<not> not_projected r" "\<not> not_projected r'" "r \<noteq> r'"
  shows "pe_shown (projection_run r [Debounced, Answers (Some p), Edits r']) = Some p \<and>
    pe_of (projection_run r [Debounced, Answers (Some p), Edits r']) \<noteq> Some (pe_draft (projection_run r [Debounced, Answers (Some p), Edits r']))"
  using assms by (simp add: projection_run_def draft_changes_def debounce_fires_def projection_answers_def Let_def)

end
