(* ===== verification/Pinned_Findings.thy ===== *)
theory Pinned_Findings
  imports Investigation_Scope
begin

section \<open>Pinned findings of an incident (pages/investigate.tsx)\<close>

text \<open>
  The list of findings pinned to a saved incident: the copy the page edits, the row the server holds,
  the refs and effects between the two, and a save in flight while both go on changing. An array of the
  source is a number, which is its identity for \<open>===\<close>, with its content. The row is what the incident's
  query holds: another row, a newer one or none while it loads.

  Shown are that a typed note stays through everything the server does until the reader saves, pins or
  unpins, what each of those then does to it, and that with nothing typed and no save in flight the
  list on screen is the stored one, as long as every save is answered with an incident on screen and
  none fails after the row it began from has been replaced. Three lemmas show what happens otherwise.
\<close>

record PinnedRef =
  pr_kind :: PinKind
  pr_id :: jstring
  pr_note :: "jstring option"

type_synonym pin_array = "nat \<times> PinnedRef list"

type_synonym pin_row = "jstring \<times> pin_array"

record pin_page =
  ps_row :: "pin_row option"
  ps_pinned :: pin_array
  ps_dirty :: bool
  ps_busy :: bool
  ps_error :: "jstring option"
  ps_server :: "(jstring \<times> PinnedRef list) option"
  ps_draft :: "pin_array \<times> bool"
  ps_flight :: "(pin_array \<times> pin_row) option"
  ps_next :: nat

definition key_of :: "PinnedRef \<Rightarrow> jstring" where
  "key_of p = pinKey (pr_kind p, pr_id p)"

text \<open>The page mounts with an empty list and no row.\<close>

definition pins_mount :: pin_page where
  "pins_mount = \<lparr>ps_row = None, ps_pinned = (0, []), ps_dirty = False, ps_busy = False, ps_error = None, ps_server = None,
     ps_draft = ((0, []), False), ps_flight = None, ps_next = 1\<rparr>"

text \<open>A new array.\<close>

definition set_pins :: "PinnedRef list \<Rightarrow> bool \<Rightarrow> pin_page \<Rightarrow> pin_page" where
  "set_pins ps dirty s = s\<lparr>ps_pinned := (ps_next s, ps), ps_dirty := dirty, ps_next := Suc (ps_next s)\<rparr>"

text \<open>
  The two effects after a render: the ref repeats the state, and a row that is new to the page, or newer
  while nothing is typed, replaces the list. The second compares the rows as JSON.
\<close>

definition draft_effect :: "pin_page \<Rightarrow> pin_page" where
  "draft_effect s = s\<lparr>ps_draft := (ps_pinned s, ps_dirty s)\<rparr>"

definition row_effect :: "pin_page \<Rightarrow> pin_page" where
  "row_effect s =
     (case ps_row s of
        None \<Rightarrow> s
      | Some (i, a) \<Rightarrow>
          (let s' = s\<lparr>ps_server := Some (i, snd a)\<rparr>
           in case ps_server s of
                Some (j, c) \<Rightarrow>
                  if j = i \<and> (c = snd a \<or> snd (ps_draft s)) then s' else s'\<lparr>ps_pinned := a, ps_dirty := False\<rparr>
              | None \<Rightarrow> s'\<lparr>ps_pinned := a, ps_dirty := False\<rparr>))"

definition rendered :: "pin_page \<Rightarrow> pin_page" where
  "rendered s = draft_effect (row_effect (draft_effect s))"

text \<open>A row in the query: its array is new.\<close>

definition row_arrives :: "(jstring \<times> PinnedRef list) option \<Rightarrow> pin_page \<Rightarrow> pin_page" where
  "row_arrives r s =
     rendered (case r of
        None \<Rightarrow> s\<lparr>ps_row := None\<rparr>
      | Some (i, ps) \<Rightarrow> s\<lparr>ps_row := Some (i, ps_next s, ps), ps_next := Suc (ps_next s)\<rparr>)"

definition savePinned :: "pin_array \<Rightarrow> pin_page \<Rightarrow> pin_page" where
  "savePinned next_pins s =
     (case ps_row s of
        None \<Rightarrow> s
      | Some row \<Rightarrow> s\<lparr>ps_busy := True, ps_error := None, ps_flight := Some (next_pins, row)\<rparr>)"

text \<open>The server stored the list and answered with its copy of it.\<close>

definition save_answered :: "PinnedRef list \<Rightarrow> pin_page \<Rightarrow> pin_page" where
  "save_answered ps s =
     (case ps_flight s of
        None \<Rightarrow> s
      | Some (next_pins, row) \<Rightarrow>
          (let updated = (ps_next s, ps);
               s1 = s\<lparr>ps_next := Suc (ps_next s), ps_flight := None\<rparr>;
               s2 = (if map_option fst (ps_row s) = Some (fst row) then s1\<lparr>ps_row := Some (fst row, updated)\<rparr> else s1);
               s3 = (if fst (fst (ps_draft s)) = fst next_pins then s2\<lparr>ps_pinned := updated, ps_dirty := False\<rparr> else s2)
           in rendered (s3\<lparr>ps_busy := False\<rparr>)))"

definition save_failed :: "jstring \<Rightarrow> pin_page \<Rightarrow> pin_page" where
  "save_failed message s =
     (case ps_flight s of
        None \<Rightarrow> s
      | Some (next_pins, row) \<Rightarrow>
          (let s1 = s\<lparr>ps_error := Some message, ps_flight := None\<rparr>;
               s2 = (if \<not> snd (ps_draft s) then s1\<lparr>ps_pinned := snd row, ps_dirty := False\<rparr> else s1)
           in rendered (s2\<lparr>ps_busy := False\<rparr>)))"

text \<open>The controls; a busy page disables all of them but the note boxes.\<close>

definition togglePin :: "PinKind \<times> jstring \<Rightarrow> pin_page \<Rightarrow> pin_page" where
  "togglePin ref s =
     (if ps_busy s \<or> ps_row s = None then s
      else let next_pins =
             (if pinKey ref \<in> set (map key_of (snd (ps_pinned s))) then filter (\<lambda>p. key_of p \<noteq> pinKey ref) (snd (ps_pinned s))
              else snd (ps_pinned s) @ [\<lparr>pr_kind = fst ref, pr_id = snd ref, pr_note = None\<rparr>])
           in rendered (savePinned (ps_next s, next_pins) (set_pins next_pins False s)))"

definition drop_nth :: "nat \<Rightarrow> 'a list \<Rightarrow> 'a list" where
  "drop_nth i xs = take i xs @ drop (Suc i) xs"

definition onRemove :: "nat \<Rightarrow> pin_page \<Rightarrow> pin_page" where
  "onRemove i s =
     (if ps_busy s \<or> ps_row s = None then s
      else let next_pins = drop_nth i (snd (ps_pinned s))
           in rendered (savePinned (ps_next s, next_pins) (set_pins next_pins False s)))"

definition onNote :: "nat \<Rightarrow> jstring \<Rightarrow> pin_page \<Rightarrow> pin_page" where
  "onNote i note s =
     (if ps_row s = None \<or> length (snd (ps_pinned s)) \<le> i then s
      else rendered (set_pins ((snd (ps_pinned s))[i := (snd (ps_pinned s) ! i)\<lparr>pr_note := Some note\<rparr>]) True s))"

definition onSave :: "pin_page \<Rightarrow> pin_page" where
  "onSave s =
     (if ps_busy s \<or> \<not> ps_dirty s \<or> ps_row s = None then s else rendered (savePinned (ps_pinned s) s))"

datatype pin_event =
    Row "(jstring \<times> PinnedRef list) option"
  | Toggle "PinKind \<times> jstring"
  | Remove nat
  | Note nat jstring
  | Save
  | Answered "PinnedRef list"
  | Failed jstring

fun pin_step :: "pin_event \<Rightarrow> pin_page \<Rightarrow> pin_page" where
  "pin_step (Row r) s = row_arrives r s"
| "pin_step (Toggle ref) s = togglePin ref s"
| "pin_step (Remove i) s = onRemove i s"
| "pin_step (Note i note) s = onNote i note s"
| "pin_step Save s = onSave s"
| "pin_step (Answered ps) s = save_answered ps s"
| "pin_step (Failed message) s = save_failed message s"

subsection \<open>What the refs hold\<close>

text \<open>
  After every event the ref repeats the state and the row seen last is the row on screen; a page is busy
  exactly while a save is in flight; every array has a number given out before, and two arrays of one
  number are the same.
\<close>

definition arrays :: "pin_page \<Rightarrow> pin_array set" where
  "arrays s = insert (ps_pinned s)
     (snd ` set_option (ps_row s) \<union> fst ` set_option (ps_flight s) \<union> (snd \<circ> snd) ` set_option (ps_flight s))"

definition arrays_ok :: "pin_page \<Rightarrow> bool" where
  "arrays_ok s \<longleftrightarrow> (ps_busy s \<longleftrightarrow> ps_flight s \<noteq> None) \<and> (\<forall>x \<in> arrays s. fst x < ps_next s) \<and> inj_on fst (arrays s)"

definition refs_inv :: "pin_page \<Rightarrow> bool" where
  "refs_inv s \<longleftrightarrow>
     arrays_ok s \<and> ps_draft s = (ps_pinned s, ps_dirty s) \<and> (\<forall>i a. ps_row s = Some (i, a) \<longrightarrow> ps_server s = Some (i, snd a))"

lemma rendered_fields [simp]:
  "ps_row (rendered s) = ps_row s" "ps_busy (rendered s) = ps_busy s" "ps_flight (rendered s) = ps_flight s" "ps_next (rendered s) = ps_next s"
  by (simp_all add: rendered_def draft_effect_def row_effect_def Let_def split: option.splits prod.splits if_splits)

lemma rendered_draft [simp]: "ps_draft (rendered s) = (ps_pinned (rendered s), ps_dirty (rendered s))"
  by (simp add: rendered_def draft_effect_def)

lemma rendered_server: "ps_server (rendered s) = (case ps_row s of None \<Rightarrow> ps_server s | Some (i, a) \<Rightarrow> Some (i, snd a))"
  by (auto simp: rendered_def draft_effect_def row_effect_def Let_def split: option.splits if_splits)

text \<open>Whether the effects keep the list.\<close>

definition kept :: "pin_page \<Rightarrow> bool" where
  "kept s \<longleftrightarrow> (case ps_row s of None \<Rightarrow> True | Some (i, a) \<Rightarrow> (case ps_server s of None \<Rightarrow> False | Some (j, c) \<Rightarrow> j = i \<and> (c = snd a \<or> ps_dirty s)))"

lemma rendered_pins:
  "(ps_pinned (rendered s), ps_dirty (rendered s)) = (if kept s then (ps_pinned s, ps_dirty s) else (snd (the (ps_row s)), False))"
  by (auto simp: rendered_def draft_effect_def row_effect_def Let_def kept_def split: option.splits)

lemma rendered_kept: "kept s \<Longrightarrow> ps_pinned (rendered s) = ps_pinned s \<and> ps_dirty (rendered s) = ps_dirty s"
  using rendered_pins [of s] by simp

lemma rendered_replaced: "\<not> kept s \<Longrightarrow> ps_pinned (rendered s) = snd (the (ps_row s)) \<and> \<not> ps_dirty (rendered s)"
  using rendered_pins [of s] by simp

lemma refs_kept: "refs_inv s \<Longrightarrow> ps_row s' = ps_row s \<Longrightarrow> ps_server s' = ps_server s \<Longrightarrow> kept s'"
  by (auto simp: refs_inv_def kept_def split: option.splits)

lemma arrays_ok_same:
  "arrays_ok s \<Longrightarrow> arrays s' \<subseteq> arrays s \<Longrightarrow> ps_next s' = ps_next s \<Longrightarrow> (ps_busy s' \<longleftrightarrow> ps_flight s' \<noteq> None) \<Longrightarrow> arrays_ok s'"
  unfolding arrays_ok_def by (metis inj_on_subset subsetD)

lemma arrays_ok_new:
  assumes n: "arrays_ok s" and a: "arrays s' \<subseteq> insert (ps_next s, c) (arrays s)" and m: "ps_next s' = Suc (ps_next s)"
    and f: "ps_busy s' \<longleftrightarrow> ps_flight s' \<noteq> None"
  shows "arrays_ok s'"
proof -
  have "ps_next s \<notin> fst ` arrays s" using n by (auto simp: arrays_ok_def)
  then have "inj_on fst (insert (ps_next s, c) (arrays s))" using n by (auto simp: arrays_ok_def)
  then have "inj_on fst (arrays s')" by (rule inj_on_subset [OF _ a])
  moreover have "\<forall>x \<in> arrays s'. fst x < ps_next s'" using n a m by (fastforce simp: arrays_ok_def)
  ultimately show ?thesis using f by (simp add: arrays_ok_def)
qed

lemma refs_rendered: "arrays_ok s \<Longrightarrow> refs_inv (rendered s)"
proof -
  assume n: "arrays_ok s"
  have "arrays (rendered s) \<subseteq> arrays s"
    using rendered_pins [of s] by (auto simp: arrays_def kept_def split: if_splits option.splits)
  from arrays_ok_same [OF n this] n show ?thesis by (simp add: refs_inv_def arrays_ok_def rendered_server)
qed

lemma refs_busy: "refs_inv s \<Longrightarrow> ps_busy s \<longleftrightarrow> ps_flight s \<noteq> None"
  by (simp add: refs_inv_def arrays_ok_def)

lemma refs_arrays: "refs_inv s \<Longrightarrow> arrays_ok s"
  by (simp add: refs_inv_def)

lemma arrays_ok_row:
  "refs_inv s \<Longrightarrow> arrays_ok (s\<lparr>ps_row := None\<rparr>)"
  "refs_inv s \<Longrightarrow> arrays_ok (s\<lparr>ps_row := Some (i, ps_next s, c), ps_next := Suc (ps_next s)\<rparr>)"
  by (rule arrays_ok_same [OF refs_arrays]; auto simp: arrays_def refs_busy)
    (rule arrays_ok_new [OF refs_arrays, where c = c]; auto simp: arrays_def refs_busy)

lemma arrays_ok_save_new:
  assumes i: "refs_inv s" and r: "ps_row s = Some (j, a)"
  shows "arrays_ok (savePinned (ps_next s, c) (set_pins c False s))"
  by (rule arrays_ok_new [OF refs_arrays [OF i], where c = c]) (use r in \<open>auto simp: arrays_def savePinned_def set_pins_def\<close>)

lemma arrays_ok_note: "refs_inv s \<Longrightarrow> arrays_ok (set_pins c True s)"
  by (rule arrays_ok_new [OF refs_arrays, where c = c]) (auto simp: arrays_def set_pins_def refs_busy)

lemma arrays_ok_save: "refs_inv s \<Longrightarrow> ps_row s = Some (j, a) \<Longrightarrow> arrays_ok (savePinned (ps_pinned s) s)"
  by (rule arrays_ok_same [OF refs_arrays]) (auto simp: arrays_def savePinned_def)

lemma refs_answered: "refs_inv s \<Longrightarrow> refs_inv (save_answered ps s)"
proof (cases "ps_flight s")
  case (Some f)
  assume i: "refs_inv s"
  obtain p j a where f: "ps_flight s = Some (p, j, a)" using Some by (cases f) auto
  show ?thesis
    unfolding save_answered_def f option.case prod.case Let_def
    by (rule refs_rendered, rule arrays_ok_new [OF refs_arrays [OF i], where c = ps]) (auto simp: arrays_def)
qed (simp add: save_answered_def)

lemma refs_failed: "refs_inv s \<Longrightarrow> refs_inv (save_failed message s)"
proof (cases "ps_flight s")
  case (Some f)
  assume i: "refs_inv s"
  obtain p j a where f: "ps_flight s = Some (p, j, a)" using Some by (cases f) auto
  show ?thesis
    unfolding save_failed_def f option.case prod.case Let_def
    by (rule refs_rendered, rule arrays_ok_same [OF refs_arrays [OF i]]) (auto simp: arrays_def f)
qed (simp add: save_failed_def)

lemmas refs_intros = refs_rendered arrays_ok_row arrays_ok_save_new arrays_ok_note arrays_ok_save refs_answered refs_failed

lemma refs_step: "refs_inv s \<Longrightarrow> refs_inv (pin_step e s)"
  by (cases e)
    (auto simp: row_arrives_def togglePin_def onRemove_def onNote_def onSave_def Let_def intro!: refs_intros split: option.splits)

lemma refs_mount: "refs_inv pins_mount"
  by (simp add: refs_inv_def arrays_ok_def arrays_def pins_mount_def)


text \<open>The save of the list on screen, told by its number.\<close>

lemma refs_same_array: "refs_inv s \<Longrightarrow> ps_flight s = Some (p, r) \<Longrightarrow> fst (ps_pinned s) = fst p \<Longrightarrow> p = ps_pinned s"
proof -
  assume i: "refs_inv s" and f: "ps_flight s = Some (p, r)" and e: "fst (ps_pinned s) = fst p"
  have "inj_on fst (arrays s)" "ps_pinned s \<in> arrays s" "p \<in> arrays s" using i f by (simp_all add: refs_inv_def arrays_ok_def arrays_def)
  from inj_onD [OF this(1) e this(2,3)] show ?thesis by simp
qed

lemma refs_shown:
  assumes "refs_inv s" "ps_row s = Some (j, a)"
  shows "ps_server s = Some (j, snd a)" "ps_draft s = (ps_pinned s, ps_dirty s)"
  using assms by (cases a; simp add: refs_inv_def)+

text \<open>The list on screen is the one a save in flight has sent.\<close>

definition saving :: "pin_page \<Rightarrow> bool" where
  "saving s \<longleftrightarrow> map_option (fst \<circ> fst) (ps_flight s) = Some (fst (ps_pinned s))"









lemma flight_number: "refs_inv s \<Longrightarrow> ps_flight s = Some (p, r) \<Longrightarrow> fst p < ps_next s"
  by (simp add: refs_inv_def arrays_ok_def arrays_def)











subsection \<open>The list on screen and the list stored\<close>

text \<open>
  A save is answered while an incident is on screen, and fails only while the row it began from is still
  the last one read.
\<close>

fun pin_event_ok :: "pin_event \<Rightarrow> pin_page \<Rightarrow> bool" where
  "pin_event_ok (Answered ps) s \<longleftrightarrow> ps_row s \<noteq> None"
| "pin_event_ok (Failed message) s \<longleftrightarrow>
     (case ps_flight s of None \<Rightarrow> True | Some (p, i, a) \<Rightarrow> ps_server s = Some (i, snd a))"
| "pin_event_ok e s \<longleftrightarrow> True"

inductive pins_reach :: "pin_page \<Rightarrow> bool" where
  mounted: "pins_reach pins_mount"
| stepped: "pins_reach s \<Longrightarrow> pin_event_ok e s \<Longrightarrow> pins_reach (pin_step e s)"

definition stored_inv :: "pin_page \<Rightarrow> bool" where
  "stored_inv s \<longleftrightarrow>
     (case ps_server s of
        None \<Rightarrow> True
      | Some (i, c) \<Rightarrow> (saving s \<longrightarrow> fst (snd (the (ps_flight s))) = i) \<and> (ps_dirty s \<or> snd (ps_pinned s) = c \<or> saving s))"

lemma refs_unchanged:
  assumes "refs_inv s" "ps_row s' = ps_row s" "ps_server s' = ps_server s"
  shows "ps_pinned (rendered s') = ps_pinned s'" "ps_dirty (rendered s') = ps_dirty s'" "ps_server (rendered s') = ps_server s"
  using rendered_kept [OF refs_kept [OF assms]] assms
  by (auto simp: rendered_server refs_inv_def split: option.splits)

lemma saving_rendered: "ps_pinned (rendered s) = ps_pinned s \<Longrightarrow> saving (rendered s) \<longleftrightarrow> saving s"
  by (simp add: saving_def)

lemma stored_unchanged:
  assumes "refs_inv s" "ps_row s' = ps_row s" "ps_server s' = ps_server s" "stored_inv s'"
  shows "stored_inv (rendered s')"
  using refs_unchanged [OF assms(1-3)] assms(3,4) by (auto simp: stored_inv_def saving_rendered split: option.splits)

lemma stored_row: "refs_inv s \<Longrightarrow> stored_inv s \<Longrightarrow> stored_inv (row_arrives q s)"
proof (cases q)
  case None
  assume "refs_inv s" "stored_inv s"
  with None show ?thesis
    using rendered_kept [of "s\<lparr>ps_row := None\<rparr>"]
    by (auto simp: row_arrives_def stored_inv_def saving_def kept_def rendered_server split: option.splits)
next
  case (Some jc)
  assume i: "refs_inv s" and st: "stored_inv s"
  obtain j c where q: "q = Some (j, c)" using Some by (cases jc) auto
  let ?s = "s\<lparr>ps_row := Some (j, ps_next s, c), ps_next := Suc (ps_next s)\<rparr>"
  have sv: "ps_server (rendered ?s) = Some (j, c)" by (simp add: rendered_server)
  show ?thesis
  proof (cases "kept ?s")
    case True
    then show ?thesis using rendered_kept [OF True] st sv q
      by (auto simp: row_arrives_def stored_inv_def saving_def kept_def split: option.splits)
  next
    case False
    then have "\<not> saving (rendered ?s)" using rendered_replaced [OF False] flight_number [OF i] by (auto simp: saving_def)
    then show ?thesis using rendered_replaced [OF False] sv q by (simp add: row_arrives_def stored_inv_def)
  qed
qed

lemma stored_save_new:
  assumes i: "refs_inv s" and r: "ps_row s = Some (j, a)"
  shows "stored_inv (rendered (savePinned (ps_next s, c) (set_pins c False s)))"
  by (rule stored_unchanged [OF i])
    (use r refs_shown [OF i r] in \<open>simp_all add: savePinned_def set_pins_def stored_inv_def saving_def\<close>)

lemma stored_note:
  assumes i: "refs_inv s"
  shows "stored_inv (rendered (set_pins c True s))"
  by (rule stored_unchanged [OF i])
    (use flight_number [OF i] in \<open>auto simp: set_pins_def stored_inv_def saving_def split: option.splits\<close>)

lemma stored_save:
  assumes i: "refs_inv s" and r: "ps_row s = Some (j, a)"
  shows "stored_inv (rendered (savePinned (ps_pinned s) s))"
  by (rule stored_unchanged [OF i]) (use r refs_shown [OF i r] in \<open>simp_all add: savePinned_def stored_inv_def saving_def\<close>)

lemma stored_failed:
  assumes i: "refs_inv s" and st: "stored_inv s" and ok: "pin_event_ok (Failed message) s"
  shows "stored_inv (save_failed message s)"
proof (cases "ps_flight s")
  case (Some f)
  obtain p j a where f: "ps_flight s = Some (p, j, a)" using Some by (cases f) auto
  show ?thesis unfolding save_failed_def f option.case prod.case Let_def
    by (rule stored_unchanged [OF i])
      (use i f st ok in \<open>auto simp: stored_inv_def saving_def refs_inv_def split: option.splits\<close>)
qed (use st in \<open>simp add: save_failed_def\<close>)

lemma stored_answered:
  assumes i: "refs_inv s" and st: "stored_inv s" and ok: "pin_event_ok (Answered ps) s"
  shows "stored_inv (save_answered ps s)"
proof (cases "ps_flight s")
  case (Some f)
  obtain p q b where f: "ps_flight s = Some (p, q, b)" using Some by (cases f) auto
  obtain j a where r: "ps_row s = Some (j, a)" using ok by auto
  note h = refs_shown [OF i r]
  let ?u = "(ps_next s, ps)"
  let ?s1 = "s\<lparr>ps_next := Suc (ps_next s), ps_flight := None\<rparr>"
  have ns: "\<not> saving (rendered x)" if "ps_flight x = None" for x using that by (simp add: saving_def)
  have goal: "stored_inv (rendered x)"
    if x: "ps_flight x = None" "ps_row x = Some (k, d)" "ps_server x = Some (j, snd a)" "ps_dirty x \<or> snd (ps_pinned x) = snd d \<or> \<not> kept x" for x k d
    using rendered_pins [of x] ns [OF x(1)] x
    by (cases "kept x") (auto simp: stored_inv_def rendered_server split: option.splits)
  consider (own) "fst (ps_pinned s) = fst p" "j = q" | (same) "fst (ps_pinned s) \<noteq> fst p" "j = q" | (other) "fst (ps_pinned s) \<noteq> fst p" "j \<noteq> q"
    using st f h by (auto simp: stored_inv_def saving_def)
  then show ?thesis
  proof cases
    case own
    have e: "save_answered ps s = rendered (?s1\<lparr>ps_row := Some (q, ?u), ps_pinned := ?u, ps_dirty := False, ps_busy := False\<rparr>)"
      using f r h own by (simp add: save_answered_def Let_def)
    show ?thesis unfolding e by (rule goal [of _ q ?u]) (use h in simp_all)
  next
    case same
    have e: "save_answered ps s = rendered (?s1\<lparr>ps_row := Some (q, ?u), ps_busy := False\<rparr>)" using f r h same by (simp add: save_answered_def Let_def)
    have "ps_dirty s \<or> snd (ps_pinned s) = snd a" using st f h same by (auto simp: stored_inv_def saving_def)
    then show ?thesis unfolding e by (intro goal [of _ q ?u]) (use h same in \<open>auto simp: kept_def\<close>)
  next
    case other
    have e: "save_answered ps s = rendered (?s1\<lparr>ps_busy := False\<rparr>)" using f r h other by (simp add: save_answered_def Let_def)
    have "ps_dirty s \<or> snd (ps_pinned s) = snd a" using st f h other by (auto simp: stored_inv_def saving_def)
    then show ?thesis unfolding e by (intro goal [of _ j a]) (use h r in auto)
  qed
qed (use st in \<open>simp add: save_answered_def\<close>)

lemma stored_step: "refs_inv s \<Longrightarrow> stored_inv s \<Longrightarrow> pin_event_ok e s \<Longrightarrow> stored_inv (pin_step e s)"
  by (cases e)
    (auto simp: togglePin_def onRemove_def onNote_def onSave_def Let_def simp del: pin_event_ok.simps
      intro!: stored_row stored_save_new stored_note stored_save stored_failed stored_answered)

lemma pins_reach_inv: "pins_reach s \<Longrightarrow> refs_inv s \<and> stored_inv s"
  by (induction rule: pins_reach.induct) (simp_all add: refs_mount refs_step stored_step, simp add: stored_inv_def pins_mount_def)

text \<open>
  C19: With no note typed and no save in flight the list on screen is the list stored
  with the incident on screen, through edits, saves, changes of incident and other writers' rows in any
  order, under two conditions on the run (\<open>pin_event_ok\<close>): every save is answered while some incident's
  row is on screen, and none fails after the row it began from has been replaced. The lemmas below show
  that neither condition can be dropped.
\<close>

theorem settled_pins_stored:
  assumes "pins_reach s" "ps_row s = Some (i, a)" "\<not> ps_dirty s" "\<not> ps_busy s"
  shows "snd (ps_pinned s) = snd a"
  using pins_reach_inv [OF assms(1)] refs_shown [of s i a] assms(2-)
  by (simp add: stored_inv_def saving_def refs_busy)

text \<open>
  A save that fails after the reader went on to another incident puts the pins of the first on the
  screen of the second, and the next pin there stores them with it.
\<close>

lemmas pin_defs = row_arrives_def rendered_def draft_effect_def row_effect_def onNote_def onSave_def set_pins_def savePinned_def
  pins_mount_def save_answered_def save_failed_def togglePin_def key_of_def pinKey_def Let_def js_Cons

lemma failed_save_crosses_incidents:
  "let p = \<lparr>pr_kind = pin_run, pr_id = js ''r1'', pr_note = None\<rparr>; q = \<lparr>pr_kind = pin_run, pr_id = js ''r2'', pr_note = None\<rparr>;
       s = fold pin_step [Row (Some (js ''i1'', [p])), Toggle (pin_run, js ''r1''), Row (Some (js ''i2'', [])), Failed (js ''no'')] pins_mount
   in map_option fst (ps_row s) = Some (js ''i2'') \<and> snd (ps_pinned s) = [p] \<and> \<not> ps_dirty s \<and>
      map_option (\<lambda>(sent, row). (snd sent, fst row)) (ps_flight (pin_step (Toggle (pin_run, js ''r2'')) s)) = Some ([p, q], js ''i2'')"
  by (simp add: pin_defs)

text \<open>
  A save answered while no incident is on screen leaves the new list on the page; when the row that
  then comes back is still the old one, the effect takes it for a row already seen.
\<close>

lemma answer_without_row_stays:
  "let p = \<lparr>pr_kind = pin_run, pr_id = js ''r1'', pr_note = None\<rparr>; q = \<lparr>pr_kind = pin_run, pr_id = js ''r2'', pr_note = None\<rparr>;
       s = fold pin_step [Row (Some (js ''i1'', [p])), Toggle (pin_run, js ''r2''), Row None, Answered [p, q], Row (Some (js ''i1'', [p]))] pins_mount
   in \<not> ps_dirty s \<and> \<not> ps_busy s \<and> map_option (snd \<circ> snd) (ps_row s) = Some [p] \<and> snd (ps_pinned s) = [p, q]"
  by (simp add: pin_defs)

text \<open>A note typed and then sent along with a new pin is gone when that save fails.\<close>

lemma failed_pin_drops_note:
  "let p = \<lparr>pr_kind = pin_run, pr_id = js ''r1'', pr_note = None\<rparr>;
       s = fold pin_step [Row (Some (js ''i1'', [p])), Note 0 (js ''why''), Toggle (pin_run, js ''r2''), Failed (js ''no'')] pins_mount
   in snd (ps_pinned s) = [p] \<and> \<not> ps_dirty s"
  by (simp add: pin_defs)

theorem settled_pins_stored_witness:
  "let p = \<lparr>pr_kind = pin_run, pr_id = js ''r1'', pr_note = None\<rparr>;
       s = pin_step (Failed (js ''no'')) (pin_step (Toggle (pin_run, js ''r2'')) (pin_step (Row (Some (js ''i1'', [p]))) pins_mount))
   in pins_reach s \<and> snd (ps_pinned s) = [p]"
proof -
  let ?p = "\<lparr>pr_kind = pin_run, pr_id = js ''r1'', pr_note = None\<rparr>"
  let ?s1 = "pin_step (Toggle (pin_run, js ''r2'')) (pin_step (Row (Some (js ''i1'', [?p]))) pins_mount)"
  let ?s = "pin_step (Failed (js ''no'')) ?s1"
  have r: "pins_reach ?s" by (intro pins_reach.intros) (simp_all add: pin_defs)
  have "ps_row ?s = Some (js ''i1'', 1, [?p])" "\<not> ps_dirty ?s" "\<not> ps_busy ?s" by (simp_all add: pin_defs)
  from settled_pins_stored [OF r this] r show ?thesis by (simp add: Let_def)
qed

end
