(* ===== verification/Investigate_Sources.thy ===== *)
theory Investigate_Sources
  imports Investigation_Entries Api_Client Pinned_Findings
begin

section \<open>What an investigation asks and what its timeline says (pages/investigate.tsx, components/investigation-timeline.tsx)\<close>

text \<open>
  Which sources the page asks for a scope, the rows it merges out of their answers, the notes about the
  sources that are absent or failed, the verdicts drawn on all of them (loading, all failed, nothing
  happened), and the rows of the timeline with runs of read-only audit rows folded into one. The library
  that fetches is the state it reports of each query: whether it is loading, and its error.

  Shown are exactly when the pane says that nothing happened, and that the folded list reads back as the
  list with every run of two or more read-only rows, and nothing else, folded.
\<close>

subsection \<open>Sources\<close>

datatype query_name =
    q_events | q_audit | q_annotations | q_snapshots | q_runs | q_runDetails | q_k8s | q_maintenance | q_loss | q_rtt | q_delta | q_alerts

record query_state =
  qy_isLoading :: bool
  qy_error :: "api_error option"

record source_inputs =
  si_can :: "jstring \<Rightarrow> bool"
  si_authResolved :: bool
  si_dbResolved :: bool
  si_dbAvailable :: bool
  si_dbConfigError :: "api_error option"
  si_promConfigured :: bool
  si_engaged :: bool
  si_scope :: InvestigationScope
  si_query :: "query_name \<Rightarrow> query_state"
  si_hiddenByScope :: int
  si_locale :: jstring

definition ready :: "source_inputs \<Rightarrow> bool" where
  "ready s \<longleftrightarrow> si_authResolved s \<and> si_dbResolved s"

definition dbReady :: "source_inputs \<Rightarrow> bool" where
  "dbReady s \<longleftrightarrow> ready s \<and> si_dbAvailable s"

definition signalsEnabled :: "source_inputs \<Rightarrow> bool" where
  "signalsEnabled s \<longleftrightarrow> ready s \<and> si_can s (js ''promql:query'') \<and> si_promConfigured s"

datatype mtr_mode = mtr_pair | mtr_by_source | mtr_by_destination | mtr_none

definition mtrMode :: "'a InvestigationScope_scheme \<Rightarrow> mtr_mode" where
  "mtrMode scope =
     (case sc_kind scope of sk_pair \<Rightarrow> mtr_pair | sk_node \<Rightarrow> mtr_by_source | sk_target \<Rightarrow> mtr_by_destination | _ \<Rightarrow> mtr_none)"

definition MTR_FANOUT :: nat where
  "MTR_FANOUT = 4"

definition AUDIT_SCAN_LIMIT :: nat where
  "AUDIT_SCAN_LIMIT = 200"

definition RUN_SCAN_LIMIT :: nat where
  "RUN_SCAN_LIMIT = 20"

definition CAUSE_TOP_N :: nat where
  "CAUSE_TOP_N = 5"

text \<open>The pairs of a source and a destination whose snapshots are asked for, out of the traced ones.\<close>

definition snapshot_pairs :: "'a InvestigationScope_scheme \<Rightarrow> (jstring \<times> jstring) list \<Rightarrow> (jstring \<times> jstring) list" where
  "snapshot_pairs scope traced =
     (if mtrMode scope = mtr_pair then [(sc_a scope, sc_b scope)]
      else take MTR_FANOUT (filter (\<lambda>(source, destination).
             if mtrMode scope = mtr_by_source then source = sc_a scope else destination = sc_a scope) traced))"

definition k8sNames :: "'a InvestigationScope_scheme \<Rightarrow> jstring list" where
  "k8sNames scope = (case sc_kind scope of sk_pair \<Rightarrow> [sc_a scope, sc_b scope] | sk_node \<Rightarrow> [sc_a scope] | _ \<Rightarrow> [])"

definition runIdsInWindow :: "(jstring \<Rightarrow> date) \<Rightarrow> RunSummary list \<Rightarrow> date \<Rightarrow> date \<Rightarrow> jstring list" where
  "runIdsInWindow parse runs from_at to_at =
     map ru_id (filter (\<lambda>r. case validAt parse (ru_createdAt r) of None \<Rightarrow> False | Some d \<Rightarrow> inRange d from_at to_at) runs)"

text \<open>The pinned runs the scan did not bring, once each, joined by commas.\<close>

definition pinnedRunIds :: "RunSummary list option \<Rightarrow> PinnedRef list \<Rightarrow> jstring" where
  "pinnedRunIds scan pins =
     (case scan of
        None \<Rightarrow> []
      | Some runs \<Rightarrow>
          join (js '','') (js_set (map pr_id (filter (\<lambda>p. pr_kind p = pin_run \<and> pr_id p \<noteq> [] \<and> pr_id p \<notin> ru_id ` set runs) pins))))"

text \<open>
  What the details query hands over: the scanned runs, and of the pinned ones those that were still
  there (\<open>None\<close> is a run that could not be read) and were created in the window. A run is its summary
  with its specification.
\<close>

definition run_details :: "(jstring \<Rightarrow> date) \<Rightarrow> date \<Rightarrow> date \<Rightarrow> (RunSummary \<times> jsval) list \<Rightarrow> (RunSummary \<times> jsval) option list \<Rightarrow>
    (RunSummary \<times> jsval) list" where
  "run_details parse from_at to_at scanned extra =
     scanned @ filter (\<lambda>r. case validAt parse (ru_createdAt (fst r)) of None \<Rightarrow> False | Some d \<Rightarrow> inRange d from_at to_at)
       (List.map_filter id extra)"

definition scopedRuns :: "'a InvestigationScope_scheme \<Rightarrow> (RunSummary \<times> jsval) list \<Rightarrow> RunSummary list" where
  "scopedRuns scope runs = map fst (filter (\<lambda>r. runTouchesScope (snd r) scope) runs)"

text \<open>The pages of maintenance windows, by id; a window on a later page keeps the place of the first.\<close>

definition windows_by_id :: "MaintenanceWindow list list \<Rightarrow> MaintenanceWindow list" where
  "windows_by_id pages = map snd (fold (\<lambda>w m. AList.update (mw_id w) w m) (concat pages) [])"

text \<open>The rows drawn for the pins, by key; a later row replaces an earlier one.\<close>

definition presentPins :: "TimelineEntry list \<Rightarrow> (jstring, TimelineEntry) jmap" where
  "presentPins entries =
     fold (\<lambda>e m. case pinnedRefFor e of None \<Rightarrow> m | Some ref \<Rightarrow> AList.update (pinKey ref) e m) entries []"

definition causes :: "TimelineEntry list \<Rightarrow> RankedCause list" where
  "causes entries =
     (case anomalyOnset entries of None \<Rightarrow> [] | Some onset \<Rightarrow> take CAUSE_TOP_N (rankCauses entries onset None))"

subsection \<open>What every source answered\<close>

record source_state =
  so_id :: jstring
  so_label :: jstring
  so_asked :: bool
  so_error :: "api_error option"

definition first_error :: "api_error option \<Rightarrow> api_error option \<Rightarrow> api_error option" where
  "first_error a b = (case a of None \<Rightarrow> b | Some e \<Rightarrow> Some e)"

definition error_of :: "source_inputs \<Rightarrow> query_name \<Rightarrow> api_error option" where
  "error_of s q = qy_error (si_query s q)"

definition source_row :: "string \<Rightarrow> bool \<Rightarrow> api_error option \<Rightarrow> source_state" where
  "source_row name asked err = \<lparr>so_id = js name, so_label = js ''source.name.'' @ js name, so_asked = asked, so_error = err\<rparr>"

definition sourceStates :: "source_inputs \<Rightarrow> source_state list" where
  "sourceStates s =
     [source_row ''events'' (dbReady s \<and> si_can s (js ''events:read'')) (error_of s q_events),
      source_row ''audit'' (dbReady s \<and> si_can s (js ''audit:read'')) (error_of s q_audit),
      source_row ''annotations'' (dbReady s \<and> si_can s (js ''annotations:read'')) (error_of s q_annotations),
      source_row ''snapshots'' (dbReady s \<and> si_can s (js ''mtr:read'') \<and> mtrMode (si_scope s) \<noteq> mtr_none) (error_of s q_snapshots),
      source_row ''runs'' (dbReady s \<and> si_can s (js ''runs:read'')) (first_error (error_of s q_runs) (error_of s q_runDetails)),
      source_row ''k8s'' (dbReady s \<and> si_can s (js ''events:read'')) (error_of s q_k8s),
      source_row ''maintenance'' (dbReady s \<and> si_can s (js ''maintenance:read'')) (error_of s q_maintenance),
      source_row ''loss'' (signalsEnabled s) (error_of s q_loss),
      source_row ''rtt'' (signalsEnabled s) (error_of s q_rtt),
      source_row ''delta'' (signalsEnabled s) (error_of s q_delta),
      source_row ''alerts'' (ready s \<and> si_can s (js ''alerts:read'') \<and> si_promConfigured s \<and> \<not> si_engaged s) (error_of s q_alerts)]"

definition failedSources :: "source_inputs \<Rightarrow> source_state list" where
  "failedSources s = filter (\<lambda>x. so_error x \<noteq> None) (sourceStates s)"

record SourceNote =
  sn_id :: jstring
  sn_text :: jstring
  sn_failed :: bool

definition countForm :: "jstring \<Rightarrow> nat \<Rightarrow> jstring" where
  "countForm locale n =
     (if locale \<noteq> js ''ru'' then (if n = 1 then js ''one'' else js ''many'')
      else if 11 \<le> n mod 100 \<and> n mod 100 \<le> 14 then js ''many''
      else if n mod 10 = 1 then js ''one''
      else if 2 \<le> n mod 10 \<and> n mod 10 \<le> 4 then js ''few''
      else js ''many'')"

abbreviation plain_note :: "translator \<Rightarrow> string \<Rightarrow> string \<Rightarrow> SourceNote" where
  "plain_note t i key \<equiv> \<lparr>sn_id = js i, sn_text = t (js key) [], sn_failed = False\<rparr>"

abbreviation limit_note :: "translator \<Rightarrow> string \<Rightarrow> string \<Rightarrow> nat \<Rightarrow> SourceNote" where
  "limit_note t i key n \<equiv> \<lparr>sn_id = js i, sn_text = t (js key) [(js ''limit'', TN (jnat n))], sn_failed = False\<rparr>"

text \<open>The message of an error may itself throw, on a problem whose words are no strings; then no note is drawn.\<close>

definition database_notes :: "translator \<Rightarrow> source_inputs \<Rightarrow> api_error + SourceNote list" where
  "database_notes t s =
     (case si_dbConfigError s of
        Some err \<Rightarrow>
          (case queryErrorMessage err (t (js ''config.failed.generic'') []) of
             Inl e \<Rightarrow> Inl e
           | Inr w \<Rightarrow> Inr [\<lparr>sn_id = js ''database'', sn_text = t (js ''config.failed'') [(js ''error'', TS w)], sn_failed = False\<rparr>])
      | None \<Rightarrow> Inr (if si_dbResolved s \<and> \<not> si_dbAvailable s then [plain_note t ''database'' ''source.database''] else []))"

definition permission_notes :: "translator \<Rightarrow> source_inputs \<Rightarrow> SourceNote list" where
  "permission_notes t s =
     (let can = (\<lambda>p. si_can s (js p)); mode = mtrMode (si_scope s)
      in (if \<not> can ''events:read'' then [plain_note t ''events'' ''source.events''] else []) @
         (if \<not> can ''audit:read'' then [plain_note t ''audit'' ''source.audit'']
          else [limit_note t ''audit-window'' ''source.auditWindow'' AUDIT_SCAN_LIMIT, plain_note t ''audit-fold'' ''source.auditFold'']) @
         (if \<not> can ''annotations:read'' then [plain_note t ''annotations'' ''source.annotations''] else []) @
         (if \<not> can ''mtr:read'' then [plain_note t ''mtr'' ''source.mtr'']
          else if mode = mtr_none then [plain_note t ''mtr-scope'' ''source.mtrScope'']
          else if mode \<noteq> mtr_pair then [limit_note t ''mtr-fanout'' ''source.mtrFanout'' MTR_FANOUT]
          else []) @
         (if \<not> can ''runs:read'' then [plain_note t ''runs'' ''source.runs'']
          else [limit_note t ''runs-scan'' ''source.runsScan'' RUN_SCAN_LIMIT]) @
         (if \<not> can ''maintenance:read'' then [plain_note t ''maintenance'' ''source.maintenance''] else []) @
         (if \<not> can ''promql:query'' then [plain_note t ''promql'' ''source.promql'']
          else if \<not> si_promConfigured s then [plain_note t ''promql-config'' ''source.promqlConfig'']
          else []) @
         (if \<not> can ''alerts:read'' then [plain_note t ''alerts'' ''source.alerts'']
          else if si_engaged s then [plain_note t ''alerts-live-only'' ''source.alertsLiveOnly'']
          else if \<not> si_promConfigured s then [plain_note t ''alerts-config'' ''source.alertsConfig'']
          else plain_note t ''alerts-now'' ''source.alertsNow'' #
            (if 0 < si_hiddenByScope s
             then [\<lparr>sn_id = js ''alerts-scope-hidden'',
                    sn_text = t (js ''source.alertsScopeHidden.'' @ countForm (si_locale s) (nat (si_hiddenByScope s)))
                      [(js ''count'', TN (jint (si_hiddenByScope s)))], sn_failed = False\<rparr>]
             else [])))"

fun failed_notes :: "translator \<Rightarrow> source_state list \<Rightarrow> api_error + SourceNote list" where
  "failed_notes t [] = Inr []"
| "failed_notes t (x # xs) =
     (case so_error x of
        None \<Rightarrow> failed_notes t xs
      | Some err \<Rightarrow>
          (case queryErrorMessage err (t (js ''source.failed.fallback'') []) of
             Inl e \<Rightarrow> Inl e
           | Inr w \<Rightarrow>
               (case failed_notes t xs of
                  Inl e \<Rightarrow> Inl e
                | Inr ns \<Rightarrow> Inr (\<lparr>sn_id = js ''failed-'' @ so_id x,
                    sn_text = t (js ''source.failed'') [(js ''label'', TS (t (so_label x) [])), (js ''error'', TS w)], sn_failed = True\<rparr> # ns))))"

definition source_notes :: "translator \<Rightarrow> source_inputs \<Rightarrow> api_error + SourceNote list" where
  "source_notes t s =
     (case database_notes t s of
        Inl e \<Rightarrow> Inl e
      | Inr ns \<Rightarrow>
          if \<not> si_authResolved s then Inr ns
          else (case failed_notes t (failedSources s) of Inl e \<Rightarrow> Inl e | Inr fs \<Rightarrow> Inr (ns @ permission_notes t s @ fs)))"

definition watched :: "query_name list" where
  "watched = [q_events, q_audit, q_annotations, q_snapshots, q_k8s, q_maintenance, q_loss, q_alerts]"

definition loading :: "source_inputs \<Rightarrow> bool" where
  "loading s \<longleftrightarrow> \<not> ready s \<or> list_ex (\<lambda>q. qy_isLoading (si_query s q)) watched"

definition askedSources :: "source_inputs \<Rightarrow> source_state list" where
  "askedSources s = filter so_asked (sourceStates s)"

definition allFailed :: "source_inputs \<Rightarrow> bool" where
  "allFailed s \<longleftrightarrow> \<not> loading s \<and> askedSources s \<noteq> [] \<and> list_all (\<lambda>x. so_error x \<noteq> None) (askedSources s)"

text \<open>The pane's verdict that nothing happened, over the notes and the entries it is handed.\<close>

definition nothing_happened :: "bool \<Rightarrow> bool \<Rightarrow> bool \<Rightarrow> SourceNote list \<Rightarrow> TimelineEntry list \<Rightarrow> bool" where
  "nothing_happened is_loading all_failed asked ns entries \<longleftrightarrow>
     \<not> is_loading \<and> asked \<and> entries = [] \<and> length (filter sn_failed ns) = 0 \<and> \<not> all_failed"

subsection \<open>The rows of the timeline\<close>

definition FOLD_MIN :: nat where
  "FOLD_MIN = 2"

datatype TimelineItem = Row_item TimelineEntry nat | Fold_item jstring "TimelineEntry list" nat

definition readOnlyRow :: "TimelineEntry \<Rightarrow> bool" where
  "readOnlyRow e \<longleftrightarrow> te_kind e = k_audit \<and> te_readOnly e"

definition rowKey :: "(jsnum \<Rightarrow> jstring) \<Rightarrow> TimelineEntry \<Rightarrow> nat \<Rightarrow> jstring" where
  "rowKey num_str e index =
     kind_name (te_kind e) @ js '':'' @ (case te_ref e of Some (k, i) \<Rightarrow> i | None \<Rightarrow> dec index) @ js '':'' @ show_num num_str (te_at e)"

function fold_from :: "(jsnum \<Rightarrow> jstring) \<Rightarrow> nat \<Rightarrow> TimelineEntry list \<Rightarrow> TimelineItem list" where
  "fold_from num_str i [] = []"
| "fold_from num_str i (e # es) =
     (if \<not> readOnlyRow e then Row_item e i # fold_from num_str (Suc i) es
      else let run = takeWhile readOnlyRow (e # es)
           in if length run < FOLD_MIN then Row_item e i # fold_from num_str (Suc i) es
              else Fold_item (js ''fold:'' @ rowKey num_str e i) run i # fold_from num_str (i + length run) (drop (length run) (e # es)))"
  by pat_completeness auto
termination
  by (relation "measure (\<lambda>(num_str, i, es). length es)") (auto simp: Let_def)

definition foldReadOnlyAudit :: "(jsnum \<Rightarrow> jstring) \<Rightarrow> TimelineEntry list \<Rightarrow> TimelineItem list" where
  "foldReadOnlyAudit num_str es = fold_from num_str 0 es"

fun item_entries :: "TimelineItem \<Rightarrow> TimelineEntry list" where
  "item_entries (Row_item e i) = [e]"
| "item_entries (Fold_item k es i) = es"

text \<open>The state of the pane: the row that is lit, the folds that are open and the window they belong to.\<close>

record timeline_pane =
  tp_activeKey :: "jstring option"
  tp_openFolds :: "jstring list"
  tp_seenWindow :: jstring

definition toggleFold :: "jstring \<Rightarrow> timeline_pane \<Rightarrow> timeline_pane" where
  "toggleFold key s = s\<lparr>tp_openFolds := (if key \<in> set (tp_openFolds s) then filter (\<lambda>k. k \<noteq> key) (tp_openFolds s) else jadd key (tp_openFolds s))\<rparr>"

definition see_window :: "jstring \<Rightarrow> timeline_pane \<Rightarrow> timeline_pane" where
  "see_window key s = (if tp_seenWindow s = key then s else \<lparr>tp_activeKey = None, tp_openFolds = [], tp_seenWindow = key\<rparr>)"

text \<open>The entries drawn for one item: the summary of a fold, and its rows only while it is open.\<close>

definition drawn_rows :: "(jsnum \<Rightarrow> jstring) \<Rightarrow> timeline_pane \<Rightarrow> TimelineItem \<Rightarrow> (jstring \<times> TimelineEntry) list" where
  "drawn_rows num_str s item =
     (case item of
        Row_item e i \<Rightarrow> [(rowKey num_str e i, e)]
      | Fold_item key es i \<Rightarrow>
          if key \<in> set (tp_openFolds s) then map (\<lambda>(j, e). (rowKey num_str e (i + j), e)) (enumerate 0 es) else [])"

subsection \<open>When nothing happened\<close>

lemma failed_notes_flags: "failed_notes t xs = Inr ns \<Longrightarrow> list_all (\<lambda>x. so_error x \<noteq> None) xs \<Longrightarrow> length ns = length xs \<and> list_all sn_failed ns"
  by (induction xs arbitrary: ns) (auto split: option.splits sum.splits)

lemma list_all_if: "list_all P (if c then xs else ys) = (if c then list_all P xs else list_all P ys)"
  by simp

lemma unfailed_permission_notes: "list_all (\<lambda>n. \<not> sn_failed n) (permission_notes t s)"
  by (simp add: permission_notes_def Let_def list_all_if cong: if_cong split del: if_split)

lemma unfailed_database_notes: "database_notes t s = Inr ns \<Longrightarrow> list_all (\<lambda>n. \<not> sn_failed n) ns"
  by (auto simp: database_notes_def split: option.splits sum.splits if_splits)

lemma filter_none_failed: "list_all (\<lambda>n. \<not> sn_failed n) ns \<Longrightarrow> filter sn_failed ns = []"
  by (induction ns) auto

text \<open>Once the reader is known, the notes marked as failures are one per failed source.\<close>

lemma failed_count:
  assumes "source_notes t s = Inr ns" "si_authResolved s"
  shows "length (filter sn_failed ns) = length (failedSources s)"
proof -
  obtain ds fs where d: "database_notes t s = Inr ds" and f: "failed_notes t (failedSources s) = Inr fs" and n: "ns = ds @ permission_notes t s @ fs"
    using assms by (auto simp: source_notes_def split: sum.splits)
  have "length fs = length (failedSources s) \<and> list_all sn_failed fs"
    by (rule failed_notes_flags [OF f]) (simp add: failedSources_def list_all_iff)
  then have "filter sn_failed fs = fs" "length fs = length (failedSources s)" by (simp_all add: list_all_iff)
  with n show ?thesis by (simp add: filter_none_failed unfailed_permission_notes filter_none_failed [OF unfailed_database_notes [OF d]])
qed

text \<open>
  C20: The pane says that nothing happened in the window exactly when there is no
  row, the page knows its reader and its database, some source was asked, no query has failed, and the
  eight queries it watches are not loading. The queries of runs and their details, of the round-trip
  times and of the delta are not among the eight: the sentence may stand while they are in flight.
\<close>

theorem nothing_happened_exact:
  assumes "source_notes t s = Inr ns"
  shows "nothing_happened (loading s) (allFailed s) (askedSources s \<noteq> []) ns entries \<longleftrightarrow>
    entries = [] \<and> ready s \<and> (\<exists>x \<in> set (sourceStates s). so_asked x) \<and> (\<forall>q. qy_error (si_query s q) = None) \<and>
    (\<forall>q. qy_isLoading (si_query s q) \<longrightarrow> q \<in> {q_runs, q_runDetails, q_rtt, q_delta})"
proof (cases "ready s")
  case False
  then show ?thesis by (simp add: nothing_happened_def loading_def)
next
  case True
  have "length (filter sn_failed ns) = 0 \<longleftrightarrow> failedSources s = []"
    using failed_count [OF assms] True by (simp add: ready_def)
  also have "\<dots> \<longleftrightarrow> (\<forall>q. qy_error (si_query s q) = None)"
  proof
    assume "failedSources s = []"
    then have "\<forall>x \<in> set (sourceStates s). so_error x = None" by (simp add: failedSources_def filter_empty_conv)
    then have "error_of s q = None" for q
      by (cases q) (simp_all add: sourceStates_def source_row_def first_error_def split: option.splits)
    then show "\<forall>q. qy_error (si_query s q) = None" by (simp add: error_of_def)
  next
    assume "\<forall>q. qy_error (si_query s q) = None"
    then show "failedSources s = []" by (simp add: failedSources_def sourceStates_def source_row_def first_error_def error_of_def)
  qed
  finally have f: "length (filter sn_failed ns) = 0 \<longleftrightarrow> (\<forall>q. qy_error (si_query s q) = None)" .
  have a: "\<not> allFailed s" if "\<forall>q. qy_error (si_query s q) = None"
    using that by (auto simp: allFailed_def askedSources_def list_all_iff filter_empty_conv sourceStates_def source_row_def first_error_def error_of_def)
  have w: "loading s \<longleftrightarrow> \<not> (\<forall>q. qy_isLoading (si_query s q) \<longrightarrow> q \<in> {q_runs, q_runDetails, q_rtt, q_delta})"
  proof -
    have "q \<in> set watched \<longleftrightarrow> q \<notin> {q_runs, q_runDetails, q_rtt, q_delta}" for q by (cases q) (simp_all add: watched_def)
    then show ?thesis using True unfolding loading_def list_ex_iff by blast
  qed
  have "askedSources s \<noteq> [] \<longleftrightarrow> (\<exists>x \<in> set (sourceStates s). so_asked x)" by (auto simp: askedSources_def filter_empty_conv)
  then show ?thesis unfolding nothing_happened_def f w using a True by blast
qed

theorem nothing_happened_exact_witness:
  "let s = \<lparr>si_can = (\<lambda>_. True), si_authResolved = True, si_dbResolved = True, si_dbAvailable = True, si_dbConfigError = None,
            si_promConfigured = True, si_engaged = False, si_scope = \<lparr>sc_kind = sk_cluster, sc_a = [], sc_b = []\<rparr>,
            si_query = (\<lambda>q. \<lparr>qy_isLoading = (q = q_runs), qy_error = None\<rparr>), si_hiddenByScope = 0, si_locale = js ''en''\<rparr>
   in \<exists>ns. source_notes (\<lambda>k _. k) s = Inr ns \<and> nothing_happened (loading s) (allFailed s) (askedSources s \<noteq> []) ns []"
proof -
  let ?s = "\<lparr>si_can = (\<lambda>_. True), si_authResolved = True, si_dbResolved = True, si_dbAvailable = True, si_dbConfigError = None,
            si_promConfigured = True, si_engaged = False, si_scope = \<lparr>sc_kind = sk_cluster, sc_a = [], sc_b = []\<rparr>,
            si_query = (\<lambda>q. \<lparr>qy_isLoading = (q = q_runs), qy_error = None\<rparr>), si_hiddenByScope = 0, si_locale = js ''en''\<rparr>"
  have "failedSources ?s = []" by (simp add: failedSources_def sourceStates_def source_row_def first_error_def error_of_def)
  then obtain ns where n: "source_notes (\<lambda>k _. k) ?s = Inr ns" by (simp add: source_notes_def database_notes_def)
  have "\<exists>x \<in> set (sourceStates ?s). so_asked x" by (simp add: sourceStates_def source_row_def dbReady_def ready_def)
  with n nothing_happened_exact [OF n, of "[]"] show ?thesis by (auto simp: Let_def ready_def)
qed

subsection \<open>The folded list\<close>

declare fold_from.simps(2) [simp del]

lemma takeWhile_Nil_iff: "takeWhile P xs = [] \<longleftrightarrow> xs = [] \<or> \<not> P (hd xs)"
  by (cases xs) auto

lemma fold_from_Cons:
  "fold_from num_str i (e # es) =
     (if \<not> readOnlyRow e \<or> es = [] \<or> \<not> readOnlyRow (hd es) then Row_item e i # fold_from num_str (Suc i) es
      else Fold_item (js ''fold:'' @ rowKey num_str e i) (e # takeWhile readOnlyRow es) i #
        fold_from num_str (Suc (i + length (takeWhile readOnlyRow es))) (dropWhile readOnlyRow es))"
proof (cases "readOnlyRow e")
  case True
  have "length (takeWhile readOnlyRow (e # es)) < FOLD_MIN \<longleftrightarrow> es = [] \<or> \<not> readOnlyRow (hd es)"
    using True takeWhile_Nil_iff [of readOnlyRow es] by (simp add: FOLD_MIN_def)
  moreover have "drop (length (takeWhile readOnlyRow (e # es))) (e # es) = dropWhile readOnlyRow es"
    using True by (simp add: dropWhile_eq_drop)
  ultimately show ?thesis using True fold_from.simps(2) [of num_str i e es] by (simp only: Let_def) simp
next
  case False
  then show ?thesis using fold_from.simps(2) [of num_str i e es] by (simp only: Let_def) simp
qed

text \<open>What an item of the drawn list is, against the list it is drawn from.\<close>

fun item_ok :: "(jsnum \<Rightarrow> jstring) \<Rightarrow> TimelineEntry list \<Rightarrow> TimelineItem \<Rightarrow> bool" where
  "item_ok num_str l (Row_item e i) \<longleftrightarrow>
     i < length l \<and> l ! i = e \<and>
     (readOnlyRow e \<longrightarrow> (i = 0 \<or> \<not> readOnlyRow (l ! (i - 1))) \<and> (Suc i = length l \<or> \<not> readOnlyRow (l ! Suc i)))"
| "item_ok num_str l (Fold_item k es i) \<longleftrightarrow>
     2 \<le> length es \<and> i + length es \<le> length l \<and> take (length es) (drop i l) = es \<and> list_all readOnlyRow es \<and>
     k = js ''fold:'' @ rowKey num_str (hd es) i \<and>
     (i = 0 \<or> \<not> readOnlyRow (l ! (i - 1))) \<and> (i + length es = length l \<or> \<not> readOnlyRow (l ! (i + length es)))"

text \<open>Where a run begins and where it ends.\<close>

lemma before_run:
  assumes "pre = [] \<or> \<not> readOnlyRow (last pre)"
  shows "length pre = 0 \<or> \<not> readOnlyRow ((pre @ es) ! (length pre - 1))"
  using assms by (cases pre rule: rev_cases) (auto simp: nth_append)

lemma row_item_ok:
  assumes "\<not> readOnlyRow e \<or> ((pre = [] \<or> \<not> readOnlyRow (last pre)) \<and> (rest = [] \<or> \<not> readOnlyRow (hd rest)))"
  shows "item_ok num_str (pre @ e # rest) (Row_item e (length pre))"
  using assms before_run [of pre "e # rest"] by (cases rest) (auto simp: nth_append)

lemma fold_item_ok:
  assumes "readOnlyRow e" "list_all readOnlyRow run" "run \<noteq> []" "pre = [] \<or> \<not> readOnlyRow (last pre)" "tl' = [] \<or> \<not> readOnlyRow (hd tl')"
  shows "item_ok num_str (pre @ e # run @ tl') (Fold_item (js ''fold:'' @ rowKey num_str e (length pre)) (e # run) (length pre))"
proof -
  have "length pre + length (e # run) = length (pre @ e # run @ tl') \<or> \<not> readOnlyRow ((pre @ e # run @ tl') ! (length pre + length (e # run)))"
    using assms(5) by (cases tl') (auto simp: nth_append)
  moreover have "length pre = 0 \<or> \<not> readOnlyRow ((pre @ e # run @ tl') ! (length pre - 1))" using before_run [OF assms(4)] .
  moreover have "2 \<le> length (e # run)" using assms(3) by (cases run) auto
  ultimately show ?thesis using assms(1,2) by simp
qed

lemma fold_items:
  assumes "pre = [] \<or> es = [] \<or> \<not> readOnlyRow (last pre) \<or> \<not> readOnlyRow (hd es)"
  shows "concat (map item_entries (fold_from num_str (length pre) es)) = es \<and>
    list_all (item_ok num_str (pre @ es)) (fold_from num_str (length pre) es)"
  using assms
proof (induction "length es" arbitrary: pre es rule: less_induct)
  case less
  show ?case
  proof (cases es)
    case Nil
    then show ?thesis by simp
  next
    case (Cons e rest)
    show ?thesis
    proof (cases "\<not> readOnlyRow e \<or> rest = [] \<or> \<not> readOnlyRow (hd rest)")
      case True
      have ih: "concat (map item_entries (fold_from num_str (length (pre @ [e])) rest)) = rest \<and>
          list_all (item_ok num_str ((pre @ [e]) @ rest)) (fold_from num_str (length (pre @ [e])) rest)"
        by (rule less.hyps) (use True Cons in auto)
      have "item_ok num_str (pre @ e # rest) (Row_item e (length pre))"
        by (rule row_item_ok) (use True less.prems Cons in auto)
      with ih True Cons show ?thesis by (simp add: fold_from_Cons del: item_ok.simps)
    next
      case False
      let ?run = "takeWhile readOnlyRow rest" and ?tl = "dropWhile readOnlyRow rest"
      have h: "?tl = [] \<or> \<not> readOnlyRow (hd ?tl)" using hd_dropWhile [of readOnlyRow rest] by blast
      have ih: "concat (map item_entries (fold_from num_str (length (pre @ e # ?run)) ?tl)) = ?tl \<and>
          list_all (item_ok num_str ((pre @ e # ?run) @ ?tl)) (fold_from num_str (length (pre @ e # ?run)) ?tl)"
        by (rule less.hyps) (use h Cons length_dropWhile_le [of readOnlyRow rest] in auto)
      have ok: "item_ok num_str (pre @ e # ?run @ ?tl) (Fold_item (js ''fold:'' @ rowKey num_str e (length pre)) (e # ?run) (length pre))"
        by (rule fold_item_ok) (use False h less.prems Cons in \<open>auto simp: list_all_iff takeWhile_Nil_iff dest: set_takeWhileD\<close>)
      have e: "pre @ e # ?run @ ?tl = pre @ es" using Cons by simp
      have "length (pre @ e # ?run) = Suc (length pre + length ?run)" by simp
      with ih ok False Cons show ?thesis unfolding e [symmetric]
        by (simp add: fold_from_Cons del: item_ok.simps)
    qed
  qed
qed

text \<open>
  C21: The items of the timeline, with every fold opened, are the rows it was given, in
  order. A fold is a run of at least two read-only audit rows that no such row precedes or follows, at
  its own place in the list; a read-only row drawn by itself stands alone.
\<close>

theorem fold_reads_back:
  "concat (map item_entries (foldReadOnlyAudit num_str es)) = es \<and> list_all (item_ok num_str es) (foldReadOnlyAudit num_str es)"
  using fold_items [of "[]" es num_str] by (simp add: foldReadOnlyAudit_def)

end
