(* ===== verification/Spec2Isabelle.thy ===== *)
theory Spec2Isabelle
  imports Ws_Multiplex Live_Events Pagination Investigation Run_Samples Run_Cadence Text_Rules Adhoc_Address Matrix_Cells Matrix_Promql Matrix_Zoom Zone_Layout Run_Frames Chart_Overlays Investigation_Scope Investigation_Entries Time_Machine Prom_Tables Chart_Tooltip Path_Diff Api_Endpoints Command_Palette Agents Console_Hooks Sign_In Alert_Builder Overview_Health Live_Page Investigate_Page Chart_Cursor Targets_Page Pinned_Findings Investigate_Sources
begin

text \<open>
  A verification library of the web console of kconmon-ng, the TypeScript program under src/web/src. The
  console shows what the agents of a cluster measured between nodes, zones and external targets. It has
  three layers, and the theories follow them.

  \<^bold>\<open>Transport.\<close> One WebSocket client carries every topic (\<open>Ws_Multiplex\<close>, lib/ws.ts: the class \<open>WsClient\<close>
  as the record \<open>ws_client\<close>, one function per method, socket callback and timer). Every HTTP call goes
  through \<open>apiFetch\<close> and \<open>handle\<close> (\<open>Api_Client\<close> and \<open>Api_Endpoints\<close>, lib/api.ts: one constructor per
  exported call). Hooks join both to the pages: \<open>Run_Frames\<close> (hooks/use-run.ts) merges progress frames with
  stored results; \<open>Console_Hooks\<close> has the location (lib/location.ts), the submit guard, the confirmation
  step and the topic hook. Shown are that no topic with listeners is left without a socket or a retry,
  that snapshots reach a handler in order and a feed resumes where it stopped; which requests carry the
  token and which answers lead to the login page, once; how a failed answer becomes an error; that the
  merge keeps one row per pair, and that a settled probe is followed by a refetch.

  \<^bold>\<open>Readers and calculators.\<close> Pure modules under lib/ turn what came over the wire into what is drawn.
  \<^item> Time: \<open>Time_Machine\<close> (lib/timemachine.tsx), a session over the browser's history. The address states
    the instant on screen in every state, and one Back undoes an engagement.
  \<^item> Feeds and lists: \<open>Live_Events\<close> (lib/live-events.ts), \<open>Live_Page\<close> (pages/live.tsx), \<open>Pagination\<close>
    (lib/pagination.ts, components/ui/pager.tsx), \<open>Command_Palette\<close> (lib/commands.ts, nav.ts). The merge
    loops are a stable sort, the count of missed events is exact, the search returns and is ranked.
  \<^item> Investigations: \<open>Investigation\<close> (lib/investigation.ts), \<open>Investigation_Scope\<close> and
    \<open>Investigation_Entries\<close> (lib/investigation-sources.ts). Permalinks read back, causes are ranked by the
    order stated.
  \<^item> Matrix and topology: \<open>Matrix_Cells\<close>, \<open>Matrix_Promql\<close>, \<open>Matrix_Zoom\<close>, \<open>Zone_Layout\<close>, \<open>Agents\<close> and
    \<open>Overview_Health\<close> (the modules of these names under lib/, pages/overview.tsx). A calm cell or a healthy
    headline is earned; zones do not overlap.
  \<^item> Runs and paths: \<open>Run_Samples\<close> and \<open>Run_Cadence\<close> (lib/run-samples.ts), \<open>Path_Diff\<close>
    (components/mtr-path-diff.tsx, mtr-hop-table.tsx). The plan stays in its bounds; the path diff is a
    longest common subsequence and reads back as both paths.
  \<^item> Charts and tables: \<open>Chart_Overlays\<close> (lib/annotations.ts), \<open>Chart_Tooltip\<close>, \<open>Chart_Cursor\<close>, \<open>Prom_Tables\<close>
    (lib/prom-table.ts, prom-series.ts). Windows merge to their union; a table is well formed or its reader
    throws, exactly where stated; a cursor is never stale and reads the nearest sample.
  \<^item> Text: \<open>Text_Rules\<close> and \<open>Adhoc_Address\<close> (lib/utils.ts).

  \<^bold>\<open>Pages.\<close> The handlers and effects of a page as a state machine or the read, refuse and send of its
  forms. \<open>Investigate_Page\<close>, \<open>Pinned_Findings\<close> and \<open>Investigate_Sources\<close> (pages/investigate.tsx,
  components/investigation-timeline.tsx): in every reachable state the window is a real one and the
  address names it; a corrected address is not corrected again; a saved incident reopens as it was; typed
  notes survive the server until the reader saves or pins; the settled list of pins is the stored one, in
  runs whose saves are answered with an incident on screen and do not fail on a replaced row; when the pane may say that nothing
  happened; the folded rows read back. \<open>Targets_Page\<close> (pages/targets.tsx): stored targets and schedules
  survive being opened and saved, exactly within stated limits, and requests have the fields of their
  kind. \<open>Alert_Builder\<close> (pages/alerting.tsx): durations and rules read back, except the
  parameters the form trims. \<open>Sign_In\<close> (pages/login.tsx):
  where a sign-in can lead.

  \<^bold>\<open>Shared base.\<close> \<open>Js_Prelude\<close> is what the sources use of the language: numbers, strings, dates, Map, Set,
  sort and JSON; \<open>Js_Double\<close> is the rounding of its doubles. The prelude's locales are the contracts the components rely on. \<open>keyed_store\<close> is a Map, interpreted
  on association lists. \<open>comparator_on\<close> is what a comparator owes \<open>sort\<close>, interpreted on the comparator of
  every sorted list (timeline, causes, samples, feed, rows of a tooltip, spans, palette, readings), whose
  sortedness and stability facts come from it.

  \<^bold>\<open>Conventions.\<close> A JS number is an exact rational, an infinity or \<open>NaN\<close>: comparison and the special values
  are those of the language, and claims on integers are within the range where a double is exact. Rounding
  to 53 bits is modelled where the result is a claim about it, in the interval box of a schedule
  (\<open>Js_Double\<close>), and not elsewhere. A string is its list of UTF-16 code units. State is passed explicitly;
  effects outside the program (sockets, timers, history) are a log or a field of the state. An exception
  is a value of a sum type. What the browser or a package computes (\<open>Date.parse\<close>, \<open>toISOString\<close>,
  \<open>toLowerCase\<close>, \<open>URL\<close>, collation, the translator, non-integer printing) is an argument, and what a theorem
  needs of it is a hypothesis, such as that a printed date reads back, with a witness that satisfies it.

  \<^bold>\<open>Loops.\<close> Loops over lists are structural recursions or functions with a measure. The two walks over
  pages of the API carry the source's own bound of fifty pages as their fuel. The search for a word's
  boundary is a partial function with \<open>None\<close> for not returning, and is shown to return.

  \<^bold>\<open>Not modelled.\<close> Markup, styles, focus and measurement, which are effects of the DOM; the drawing of
  charts by ECharts; the dictionaries of translations, which are data; the schemas of lib/api-types.ts
  beyond the fields the modelled code reads; test supports. Of the pages, the lists with their row actions,
  and the pages of diagnostics, explore, matrix, paths, nodes, pairs, runs, settings and topology as far
  as they only compose modelled readers with queries and markup. Caching, retry and scheduling of
  queries belong to the query library, of which the model holds what it reports to a page.
\<close>

end
